(* ===== verification/Prelude.thy ===== *)
theory Prelude
  imports Main
begin

text \<open>
  Shared vocabulary of the development: Python exceptions as values, the sequencing of
  fallible operations, and the generic facts about them that the component theories use.

  A Python function that may raise is a HOL function into \<^typ>\<open>'e + 'a\<close>: \<open>Inl\<close> holds the
  exception that leaves the call, \<open>Inr\<close> its result. A sequence of statements is
  \<open>bind_res\<close>, an \<open>if bad: raise E\<close> is an \<open>if\<close> whose first branch is \<open>Inl\<close>.
\<close>

section \<open>Theorem collections\<close>

named_theorems res_simps \<open>equations that open a successful sequence of fallible calls\<close>
named_theorems wf_simps \<open>well-formedness predicates of the components\<close>
named_theorems dec_simps \<open>values of Decimal results\<close>

section \<open>Exceptions\<close>

text \<open>The exception classes the modelled code raises, with the message it gives.\<close>

datatype exn =
    ValueError string
  | TypeError string
  | RuntimeError string
  | ZeroDivisionError string
  | KernelInputError string
  | AssertionError
  | InvalidOperation
  | DivisionByZero
  | DecimalOverflow

text \<open>\<open>except DecimalException\<close>: the arithmetic signals that Python's default context traps.\<close>

fun is_decimal_exception :: "exn \<Rightarrow> bool" where
  "is_decimal_exception InvalidOperation = True"
| "is_decimal_exception DivisionByZero = True"
| "is_decimal_exception DecimalOverflow = True"
| "is_decimal_exception _ = False"

type_synonym 'a res = "exn + 'a"

section \<open>Sequencing\<close>

definition bind_res :: "'e + 'a \<Rightarrow> ('a \<Rightarrow> 'e + 'b) \<Rightarrow> 'e + 'b" where
  "bind_res m f = (case m of Inl e \<Rightarrow> Inl e | Inr x \<Rightarrow> f x)"

definition then_res :: "'e + 'a \<Rightarrow> 'e + 'b \<Rightarrow> 'e + 'b" where
  "then_res m k = bind_res m (\<lambda>_. k)"

lemma bind_res_simps [simp]:
  "bind_res (Inl e) f = Inl e"
  "bind_res (Inr x) f = f x"
  by (simp_all add: bind_res_def)

lemma then_res_simps [simp]:
  "then_res (Inl e) k = Inl e"
  "then_res (Inr x) k = k"
  by (simp_all add: then_res_def)

lemma bind_res_Inr_iff [res_simps]:
  "bind_res m f = Inr y \<longleftrightarrow> (\<exists>x. m = Inr x \<and> f x = Inr y)"
  by (cases m) simp_all

lemma then_res_Inr_iff [res_simps]:
  "then_res m k = Inr y \<longleftrightarrow> (\<exists>x. m = Inr x) \<and> k = Inr y"
  by (cases m) simp_all

lemma if_Inl_Inr_iff [res_simps]:
  "(if b then Inl e else m) = Inr y \<longleftrightarrow> \<not> b \<and> m = Inr y"
  by simp

lemma bind_res_assoc: "bind_res (bind_res m f) g = bind_res m (\<lambda>x. bind_res (f x) g)"
  by (cases m) simp_all

lemma bind_res_cong [fundef_cong]:
  assumes "m = m'" and "\<And>x. m' = Inr x \<Longrightarrow> f x = f' x"
  shows "bind_res m f = bind_res m' f'"
  using assms by (cases m') simp_all

text \<open>A \<open>for\<close> loop whose body may raise and returns nothing.\<close>

fun each :: "('a \<Rightarrow> 'e + 'b) \<Rightarrow> 'a list \<Rightarrow> 'e + unit" where
  "each f [] = Inr ()"
| "each f (x # xs) = then_res (f x) (each f xs)"

lemma each_Inr_iff [res_simps]:
  "each f xs = Inr u \<longleftrightarrow> (\<forall>x \<in> set xs. \<exists>y. f x = Inr y)"
  by (induction xs) (auto simp: then_res_Inr_iff)

text \<open>A comprehension whose element expression may raise.\<close>

fun traverse :: "('a \<Rightarrow> 'e + 'b) \<Rightarrow> 'a list \<Rightarrow> 'e + 'b list" where
  "traverse f [] = Inr []"
| "traverse f (x # xs) = bind_res (f x) (\<lambda>y. bind_res (traverse f xs) (\<lambda>ys. Inr (y # ys)))"

lemma traverse_Inr_iff:
  "traverse f xs = Inr ys \<longleftrightarrow> list_all2 (\<lambda>x y. f x = Inr y) xs ys"
  by (induction xs arbitrary: ys) (auto simp: res_simps list_all2_Cons1)

lemma traverse_length: "traverse f xs = Inr ys \<Longrightarrow> length ys = length xs"
  by (simp add: traverse_Inr_iff list_all2_lengthD)

lemma traverse_mem: "traverse f xs = Inr ys \<Longrightarrow> y \<in> set ys \<Longrightarrow> \<exists>x \<in> set xs. f x = Inr y"
  by (induction xs arbitrary: ys) (auto simp: res_simps)

lemma traverse_map_Inr: "(\<And>x. x \<in> set xs \<Longrightarrow> f x = Inr (g x)) \<Longrightarrow> traverse f xs = Inr (map g xs)"
  by (induction xs) simp_all

section \<open>Fallible machines\<close>

text \<open>
  Several components are a state and a fallible step driven by a list of inputs: the order
  state machine, the event replay of a trade, the engine's walk along its timeline, the
  task store. \<open>run_res\<close> is such a walk; it stops at the first exception, as the Python
  loop does.
\<close>

fun run_res :: "('s \<Rightarrow> 'i \<Rightarrow> 'e + 's) \<Rightarrow> 's \<Rightarrow> 'i list \<Rightarrow> 'e + 's" where
  "run_res step s [] = Inr s"
| "run_res step s (i # is) = bind_res (step s i) (\<lambda>s'. run_res step s' is)"

lemma run_res_append:
  "run_res step s (is @ js) = bind_res (run_res step s is) (\<lambda>s'. run_res step s' js)"
  by (induction "is" arbitrary: s) (simp_all add: bind_res_assoc)

lemma run_res_snoc:
  "run_res step s (is @ [i]) = bind_res (run_res step s is) (\<lambda>s'. step s' i)"
proof -
  have "run_res step t [i] = step t i" for t
    by (cases "step t i") simp_all
  then show ?thesis by (simp add: run_res_append)
qed

text \<open>A transactional machine goes on after a step that raises, from the state before it.\<close>

definition commit :: "('s \<Rightarrow> 'i \<Rightarrow> 'e + 's) \<Rightarrow> 's \<Rightarrow> 'i \<Rightarrow> 's" where
  "commit step s i = (case step s i of Inl _ \<Rightarrow> s | Inr s' \<Rightarrow> s')"

locale fallible_machine =
  fixes step :: "'s \<Rightarrow> 'i \<Rightarrow> 'e + 's"
    and inv :: "'s \<Rightarrow> bool"
    and feeds :: "'i \<Rightarrow> bool"
  assumes step_inv: "inv s \<Longrightarrow> feeds i \<Longrightarrow> step s i = Inr s' \<Longrightarrow> inv s'"
begin

lemma run_inv: "inv s \<Longrightarrow> run_res step s is = Inr s' \<Longrightarrow> \<forall>i \<in> set is. feeds i \<Longrightarrow> inv s'"
proof (induction "is" arbitrary: s)
  case Nil
  then show ?case by simp
next
  case (Cons i "is")
  from Cons.prems(2) obtain t where t: "step s i = Inr t" and r: "run_res step t is = Inr s'"
    by (auto simp: res_simps)
  have "inv t" using step_inv [OF Cons.prems(1) _ t] Cons.prems(3) by simp
  then show ?case using Cons.IH [OF _ r] Cons.prems(3) by simp
qed

text \<open>What one step relates, a run relates, when the relation composes.\<close>

lemma run_rel:
  assumes "inv s" and "run_res step s is = Inr s'" and "\<forall>i \<in> set is. feeds i"
    and refl: "\<And>t. inv t \<Longrightarrow> R t t"
    and trans: "\<And>t u v. R t u \<Longrightarrow> R u v \<Longrightarrow> R t v"
    and one: "\<And>t i u. inv t \<Longrightarrow> feeds i \<Longrightarrow> step t i = Inr u \<Longrightarrow> R t u"
  shows "R s s'"
  using assms(1,2,3)
proof (induction "is" arbitrary: s)
  case Nil
  then show ?case using refl by simp
next
  case (Cons i "is")
  from Cons.prems(2) obtain t where t: "step s i = Inr t" and r: "run_res step t is = Inr s'"
    by (auto simp: res_simps)
  have f: "feeds i" "\<forall>j \<in> set is. feeds j" using Cons.prems(3) by simp_all
  have "inv t" using Cons.prems(1) f(1) t by (rule step_inv)
  then have "R t s'" using r f(2) by (rule Cons.IH)
  moreover have "R s t" using Cons.prems(1) f(1) t by (rule one)
  ultimately show ?case by (rule trans [rotated])
qed

lemma commits_inv: "inv s \<Longrightarrow> \<forall>i \<in> set is. feeds i \<Longrightarrow> inv (foldl (commit step) s is)"
proof (induction "is" arbitrary: s)
  case (Cons i "is")
  then have "inv (commit step s i)" by (auto simp: commit_def intro: step_inv split: sum.splits)
  with Cons show ?case by simp
qed simp

lemma commits_rel:
  assumes "inv s" and "\<forall>i \<in> set is. feeds i"
    and refl: "\<And>t. R t t" and trans: "\<And>t u v. R t u \<Longrightarrow> R u v \<Longrightarrow> R t v"
    and one: "\<And>t i u. inv t \<Longrightarrow> feeds i \<Longrightarrow> step t i = Inr u \<Longrightarrow> R t u"
  shows "R s (foldl (commit step) s is)"
  using assms(1,2)
proof (induction "is" arbitrary: s)
  case (Cons i "is")
  have f: "feeds i" "\<forall>j \<in> set is. feeds j" using Cons.prems(2) by simp_all
  have "inv (commit step s i)" using step_inv [OF Cons.prems(1) f(1)] Cons.prems(1)
    by (auto simp: commit_def split: sum.splits)
  then have "R (commit step s i) (foldl (commit step) (commit step s i) is)" using f(2) by (rule Cons.IH)
  moreover have "R s (commit step s i)" using one [OF Cons.prems(1) f(1)] refl
    by (auto simp: commit_def split: sum.splits)
  ultimately show ?case using trans by (simp only: foldl_Cons)
qed (simp add: refl)

end

text \<open>
  A machine none of whose steps raises on the inputs its client feeds it in the client's order:
  an input that is acceptable stays so after any input that comes before it.
\<close>

locale total_machine = fallible_machine step inv feeds
  for step :: "'s \<Rightarrow> 'i \<Rightarrow> 'e + 's" and inv :: "'s \<Rightarrow> bool" and feeds :: "'i \<Rightarrow> bool" +
  fixes ok :: "'s \<Rightarrow> 'i \<Rightarrow> bool" and before :: "'i \<Rightarrow> 'i \<Rightarrow> bool"
  assumes step_total: "inv s \<Longrightarrow> feeds i \<Longrightarrow> ok s i \<Longrightarrow> \<exists>s'. step s i = Inr s'"
    and ok_step: "inv s \<Longrightarrow> feeds j \<Longrightarrow> ok s j \<Longrightarrow> step s j = Inr s' \<Longrightarrow> ok s i \<Longrightarrow> before j i \<Longrightarrow> ok s' i"
begin

lemma run_total:
  "inv s \<Longrightarrow> \<forall>i \<in> set is. feeds i \<and> ok s i \<Longrightarrow> sorted_wrt before is \<Longrightarrow> \<exists>s'. run_res step s is = Inr s'"
proof (induction "is" arbitrary: s)
  case Nil
  then show ?case by simp
next
  case (Cons i "is")
  have i: "feeds i" "ok s i" using Cons.prems(2) by simp_all
  from step_total [OF Cons.prems(1) i] obtain t where t: "step s i = Inr t" by blast
  have inv: "inv t" using Cons.prems(1) i(1) t by (rule step_inv)
  have "feeds j \<and> ok t j" if "j \<in> set is" for j
    using ok_step [OF Cons.prems(1) i t] Cons.prems(2,3) that by simp
  with Cons.IH [OF inv] Cons.prems(3) show ?case by (simp add: t)
qed

end

section \<open>Lists\<close>

lemma list_all2_impl_all:
  "list_all2 P xs ys \<Longrightarrow> (\<And>x y. P x y \<Longrightarrow> Q y) \<Longrightarrow> \<forall>y \<in> set ys. Q y"
  by (induction rule: list_all2_induct) auto

lemma sorted_wrt_snoc:
  "sorted_wrt P (xs @ [x]) \<longleftrightarrow> sorted_wrt P xs \<and> (\<forall>y \<in> set xs. P y x)"
  by (auto simp: sorted_wrt_append)

section \<open>Strings\<close>

text \<open>\<open>str.isspace\<close> of a character, and the strings of which \<open>str.strip\<close> leaves nothing or everything.\<close>

definition py_space :: "char \<Rightarrow> bool" where
  "py_space c \<longleftrightarrow> (of_char c :: nat) \<in> {9, 10, 11, 12, 13, 28, 29, 30, 31, 32, 133, 160}"

definition blank :: "string \<Rightarrow> bool" where
  "blank s \<longleftrightarrow> list_all py_space s"

definition stripped :: "string \<Rightarrow> bool" where
  "stripped s \<longleftrightarrow> s = [] \<or> (\<not> py_space (hd s) \<and> \<not> py_space (last s))"

text \<open>Decimal digits: \<open>str\<close> of a natural number, \<open>str.zfill\<close>.\<close>

definition digit_char :: "nat \<Rightarrow> char" where
  "digit_char d = char_of (48 + d)"

fun nat_text :: "nat \<Rightarrow> string" where
  "nat_text n = (if n < 10 then [digit_char n] else nat_text (n div 10) @ [digit_char (n mod 10)])"

declare nat_text.simps [simp del]

definition zero_padded :: "nat \<Rightarrow> string \<Rightarrow> string" where
  "zero_padded k s = replicate (k - length s) (CHR ''0'') @ s"

end
