(* ===== verification/Py_Decimal.thy ===== *)
theory Py_Decimal
  imports Complex_Main "HOL-Library.Code_Target_Numeral" Prelude
begin

text \<open>
  The part of Python's \<open>decimal\<close> module that the accounting code uses: finite Decimals as
  sign, coefficient and exponent, the arithmetic of a context with a precision and a rounding
  mode (the General Decimal Arithmetic rules that \<open>decimal\<close> implements: the exact result,
  rounded to the precision and the exponent range), \<open>quantize\<close> and the comparisons.
  The default context has precision 28, rounding \<open>ROUND_HALF_EVEN\<close>, exponents from -999999
  to 999999, and traps InvalidOperation, DivisionByZero and Overflow.

  The lemmas relate every operation to exact rational arithmetic: a result that fits the
  precision is exact, and \<open>quantize\<close> with \<open>ROUND_HALF_UP\<close> is the rational rounding \<open>rhu\<close>.
\<close>

section \<open>Values\<close>

datatype dec = Dec (neg: bool) (coeff: nat) (expo: int)

text \<open>What a caller can pass where a Decimal is expected: also the special values.\<close>

datatype pydec = Finite dec | Infinity bool | NaN

definition dval :: "dec \<Rightarrow> rat" where
  "dval d = (if neg d then - 1 else 1) * (of_nat (coeff d) * 10 powi expo d)"

definition dec_of_int :: "int \<Rightarrow> dec" where
  "dec_of_int i = Dec (i < 0) (nat \<bar>i\<bar>) 0"

definition dec_is_zero :: "dec \<Rightarrow> bool" where
  "dec_is_zero d \<longleftrightarrow> coeff d = 0"

definition copy_abs :: "dec \<Rightarrow> dec" where
  "copy_abs d = Dec False (coeff d) (expo d)"

definition copy_negate :: "dec \<Rightarrow> dec" where
  "copy_negate d = Dec (\<not> neg d) (coeff d) (expo d)"

text \<open>The idiom \<open>value.copy_abs() if value.is_zero() else value\<close>.\<close>

definition canonical_zero :: "dec \<Rightarrow> dec" where
  "canonical_zero d = (if dec_is_zero d then copy_abs d else d)"

fun ndigits :: "nat \<Rightarrow> nat" where
  "ndigits n = (if n < 10 then 1 else Suc (ndigits (n div 10)))"

declare ndigits.simps [simp del]

definition adjusted :: "dec \<Rightarrow> int" where
  "adjusted d = expo d + int (ndigits (coeff d)) - 1"

text \<open>Python's \<open>max(a, b)\<close>: the second only when it is strictly greater.\<close>

definition dec_max :: "dec \<Rightarrow> dec \<Rightarrow> dec" where
  "dec_max a b = (if dval a < dval b then b else a)"

section \<open>Rounding\<close>

datatype rounding = HalfEven | HalfUp

definition round_quot :: "rounding \<Rightarrow> nat \<Rightarrow> nat \<Rightarrow> nat" where
  "round_quot r c m =
     (let q = c div m; t = 2 * (c mod m)
      in if (case r of HalfUp \<Rightarrow> m \<le> t | HalfEven \<Rightarrow> m < t \<or> (t = m \<and> odd q))
         then Suc q else q)"

definition emax :: int where "emax = 999999"

definition emin :: int where "emin = -999999"

definition etiny :: "nat \<Rightarrow> int" where "etiny p = emin - int p + 1"

definition etop :: "nat \<Rightarrow> int" where "etop p = emax - int p + 1"

text \<open>The final step of every operation: round to the precision, check the exponent range.\<close>

definition dec_fix :: "rounding \<Rightarrow> nat \<Rightarrow> dec \<Rightarrow> dec res" where
  "dec_fix r p d =
     (let s = neg d; c = coeff d; e = expo d
      in if c = 0 then Inr (Dec s 0 (min (max e (etiny p)) emax))
         else
           let exp_min = int (ndigits c) + e - int p
           in if etop p < exp_min then Inl DecimalOverflow
              else
                let exp_min = max exp_min (etiny p)
                in if e < exp_min
                   then
                     let c' = round_quot r c (10 ^ nat (exp_min - e));
                         (c'', e'') = (if p < ndigits c' then (c' div 10, exp_min + 1)
                                       else (c', exp_min))
                     in if etop p < e'' then Inl DecimalOverflow else Inr (Dec s c'' e'')
                   else Inr d)"

section \<open>Operations\<close>

definition signed_coeff :: "dec \<Rightarrow> int" where
  "signed_coeff d = (if neg d then - int (coeff d) else int (coeff d))"

definition dec_add :: "rounding \<Rightarrow> nat \<Rightarrow> dec \<Rightarrow> dec \<Rightarrow> dec res" where
  "dec_add r p a b =
     (let e = min (expo a) (expo b);
          n = signed_coeff a * 10 ^ nat (expo a - e) + signed_coeff b * 10 ^ nat (expo b - e);
          s = (if dec_is_zero a \<and> dec_is_zero b then neg a \<and> neg b else n < 0)
      in dec_fix r p (Dec s (nat \<bar>n\<bar>) e))"

definition dec_sub :: "rounding \<Rightarrow> nat \<Rightarrow> dec \<Rightarrow> dec \<Rightarrow> dec res" where
  "dec_sub r p a b = dec_add r p a (copy_negate b)"

definition dec_mul :: "rounding \<Rightarrow> nat \<Rightarrow> dec \<Rightarrow> dec \<Rightarrow> dec res" where
  "dec_mul r p a b =
     dec_fix r p (Dec (neg a \<noteq> neg b) (coeff a * coeff b) (expo a + expo b))"

text \<open>Drop trailing zeros of an exact quotient until its ideal exponent is reached.\<close>

fun strip_zeros :: "nat \<Rightarrow> nat \<Rightarrow> int \<Rightarrow> nat \<times> int" where
  "strip_zeros 0 c e = (c, e)"
| "strip_zeros (Suc k) c e =
     (if c mod 10 = 0 then strip_zeros k (c div 10) (e + 1) else (c, e))"

definition dec_div :: "rounding \<Rightarrow> nat \<Rightarrow> dec \<Rightarrow> dec \<Rightarrow> dec res" where
  "dec_div r p a b =
     (let s = (neg a \<noteq> neg b)
      in if coeff b = 0 then Inl (if coeff a = 0 then InvalidOperation else DivisionByZero)
         else if coeff a = 0 then dec_fix r p (Dec s 0 (expo a - expo b))
         else
           let shift = int (ndigits (coeff b)) - int (ndigits (coeff a)) + int p + 1;
               e = expo a - expo b - shift;
               n = coeff a * 10 ^ nat shift;
               m = coeff b * 10 ^ nat (- shift);
               q = n div m
           in if n mod m \<noteq> 0
              then dec_fix r p (Dec s (if q mod 5 = 0 then q + 1 else q) e)
              else (case strip_zeros (nat shift) q e of (c, e') \<Rightarrow> dec_fix r p (Dec s c e')))"

definition dec_rescale :: "rounding \<Rightarrow> dec \<Rightarrow> int \<Rightarrow> dec" where
  "dec_rescale r d e =
     (if coeff d = 0 then Dec (neg d) 0 e
      else if e \<le> expo d then Dec (neg d) (coeff d * 10 ^ nat (expo d - e)) e
      else Dec (neg d) (round_quot r (coeff d) (10 ^ nat (e - expo d))) e)"

definition dec_quantize :: "rounding \<Rightarrow> nat \<Rightarrow> dec \<Rightarrow> dec \<Rightarrow> dec res" where
  "dec_quantize r p d q =
     (if expo q < etiny p \<or> emax < expo q then Inl InvalidOperation
      else if coeff d = 0 then dec_fix r p (Dec (neg d) 0 (expo q))
      else if emax < adjusted d then Inl InvalidOperation
      else if int p < adjusted d - expo q + 1 then Inl InvalidOperation
      else
        let ans = dec_rescale r d (expo q)
        in if emax < adjusted ans \<or> p < ndigits (coeff ans) then Inl InvalidOperation
           else dec_fix r p ans)"

text \<open>Arithmetic outside a \<open>localcontext\<close> block runs in the default context.\<close>

definition default_prec :: nat where "default_prec = 28"

abbreviation add28 :: "dec \<Rightarrow> dec \<Rightarrow> dec res" where
  "add28 \<equiv> dec_add HalfEven default_prec"

abbreviation sub28 :: "dec \<Rightarrow> dec \<Rightarrow> dec res" where
  "sub28 \<equiv> dec_sub HalfEven default_prec"

abbreviation mul28 :: "dec \<Rightarrow> dec \<Rightarrow> dec res" where
  "mul28 \<equiv> dec_mul HalfEven default_prec"

text \<open>\<open>sum(values, Decimal("0"))\<close>.\<close>

fun dec_sum_from :: "dec \<Rightarrow> dec list \<Rightarrow> dec res" where
  "dec_sum_from acc [] = Inr acc"
| "dec_sum_from acc (x # xs) = bind_res (add28 acc x) (\<lambda>s. dec_sum_from s xs)"

definition dec_sum :: "dec list \<Rightarrow> dec res" where
  "dec_sum xs = dec_sum_from (Dec False 0 0) xs"

section \<open>Digits\<close>

lemma ndigits_pos [simp]: "0 < ndigits n"
  by (subst ndigits.simps) simp

lemma less_pow_ndigits: "n < 10 ^ ndigits n"
proof (induction n rule: ndigits.induct)
  case (1 n)
  show ?case
  proof (cases "n < 10")
    case True
    then show ?thesis by (subst ndigits.simps) simp
  next
    case False
    with "1.IH" have "n div 10 < 10 ^ ndigits (n div 10)" by simp
    then have "n < 10 * 10 ^ ndigits (n div 10)" by linarith
    with False show ?thesis by (simp add: ndigits.simps [of n])
  qed
qed

lemma pow_ndigits_le: "0 < n \<Longrightarrow> 10 ^ (ndigits n - 1) \<le> n"
proof (induction n rule: ndigits.induct)
  case (1 n)
  show ?case
  proof (cases "n < 10")
    case True
    with "1.prems" show ?thesis by (simp add: ndigits.simps [of n])
  next
    case False
    then have "0 < n div 10" by simp
    with "1.IH" False have le: "10 ^ (ndigits (n div 10) - 1) \<le> n div 10" by simp
    obtain k where k: "ndigits (n div 10) = Suc k"
      using ndigits_pos [of "n div 10"] gr0_conv_Suc by blast
    have "10 * 10 ^ k \<le> n" using le k by simp
    with False k show ?thesis by (simp add: ndigits.simps [of n])
  qed
qed

lemma ndigits_le_iff: "0 < k \<Longrightarrow> ndigits n \<le> k \<longleftrightarrow> n < 10 ^ k"
proof
  assume "0 < k" "ndigits n \<le> k"
  then show "n < 10 ^ k"
    using less_pow_ndigits [of n] power_increasing [of "ndigits n" k "10 :: nat"] by linarith
next
  assume k: "0 < k" and n: "n < 10 ^ k"
  show "ndigits n \<le> k"
  proof (cases "n = 0")
    case True
    with k show ?thesis by (simp add: ndigits.simps [of 0])
  next
    case False
    then have "(10 :: nat) ^ (ndigits n - 1) < 10 ^ k"
      using pow_ndigits_le [of n] n by linarith
    then have "ndigits n - 1 < k" by simp
    then show ?thesis by simp
  qed
qed

lemma ndigits_eqI: "10 ^ k \<le> n \<Longrightarrow> n < 10 ^ Suc k \<Longrightarrow> ndigits n = Suc k"
proof -
  assume lo: "10 ^ k \<le> n" and hi: "n < 10 ^ Suc k"
  have "ndigits n \<le> Suc k" using hi by (subst ndigits_le_iff) simp_all
  moreover have "\<not> ndigits n \<le> k"
  proof (cases "k = 0")
    case False
    then show ?thesis using lo ndigits_le_iff [of k n] by simp
  qed (use ndigits_pos [of n] in simp)
  ultimately show ?thesis by simp
qed

section \<open>Rational values\<close>

lemma pow10_pos [simp]: "(0 :: rat) < 10 powi k"
  by (rule zero_less_power_int) simp

lemma pow10_not_neg [simp]: "\<not> (10 :: rat) powi k < 0"
  using pow10_pos [of k] by linarith

lemma pow10_nonzero [simp]: "(10 :: rat) powi k \<noteq> 0"
  by (simp add: power_int_not_zero)

lemma pow10_add: "(10 :: rat) powi (a + b) = 10 powi a * 10 powi b"
  by (rule power_int_add) simp

lemma pow10_diff: "(10 :: rat) powi (a - b) = 10 powi a / 10 powi b"
  by (rule power_int_diff) simp

lemma pow10_nat: "0 \<le> k \<Longrightarrow> (10 :: rat) ^ nat k = 10 powi k"
  by (simp add: power_int_def)

lemma pow10_less_iff [simp]: "(10 :: rat) powi a < 10 powi b \<longleftrightarrow> a < b"
proof
  assume "(10 :: rat) powi a < 10 powi b"
  then show "a < b"
    using power_int_increasing [of b a "10 :: rat"] by (cases "a < b") auto
qed (simp add: power_int_strict_increasing)

lemma pow10_le_iff [simp]: "(10 :: rat) powi a \<le> 10 powi b \<longleftrightarrow> a \<le> b"
  using pow10_less_iff [of b a] by linarith

lemma dval_zero_iff [simp]: "dval d = 0 \<longleftrightarrow> coeff d = 0"
  by (simp add: dval_def)

lemma dec_is_zero_iff: "dec_is_zero d \<longleftrightarrow> dval d = 0"
  by (simp add: dec_is_zero_def)

lemma dval_copy_abs [dec_simps]: "dval (copy_abs d) = \<bar>dval d\<bar>"
  by (simp add: dval_def copy_abs_def abs_mult)

lemma dval_copy_negate [dec_simps]: "dval (copy_negate d) = - dval d"
  by (simp add: dval_def copy_negate_def)

lemma dval_canonical_zero [simp, dec_simps]: "dval (canonical_zero d) = dval d"
  by (simp add: dval_def canonical_zero_def dec_is_zero_def copy_abs_def)

lemma canonical_zero_pos: "dval d \<noteq> 0 \<Longrightarrow> canonical_zero d = d"
  by (simp add: canonical_zero_def dec_is_zero_def)

lemma coeff_canonical_zero [simp]: "coeff (canonical_zero d) = coeff d"
  by (simp add: canonical_zero_def copy_abs_def)

lemma expo_canonical_zero [simp]: "expo (canonical_zero d) = expo d"
  by (simp add: canonical_zero_def copy_abs_def)

lemma canonical_zero_idem [simp]: "canonical_zero (canonical_zero d) = canonical_zero d"
  by (simp add: canonical_zero_def copy_abs_def dec_is_zero_def)

lemma dval_dec_of_int [simp, dec_simps]: "dval (dec_of_int i) = of_int i"
  by (simp add: dval_def dec_of_int_def)

lemma dval_signed: "dval d = of_int (signed_coeff d) * 10 powi expo d"
  by (simp add: dval_def signed_coeff_def)

lemma abs_dval: "\<bar>dval d\<bar> = of_nat (coeff d) * 10 powi expo d"
  by (simp add: dval_def abs_mult)

lemma dval_neg_iff: "dval d < 0 \<longleftrightarrow> neg d \<and> coeff d \<noteq> 0"
proof (cases "neg d")
  case True
  then have "dval d = - \<bar>dval d\<bar>" by (simp add: abs_dval) (simp add: dval_def)
  with True show ?thesis by (metis dval_zero_iff neg_less_0_iff_less zero_less_abs_iff)
next
  case False
  then have "dval d = \<bar>dval d\<bar>" by (simp add: abs_dval) (simp add: dval_def)
  with False show ?thesis by (metis abs_ge_zero not_less)
qed

lemma dval_pos_iff: "0 < dval d \<longleftrightarrow> \<not> neg d \<and> coeff d \<noteq> 0"
  using dval_neg_iff [of d] dval_zero_iff [of d] by (metis linorder_neqE_linordered_idom less_asym)

lemma dval_dec_max [simp, dec_simps]: "dval (dec_max a b) = max (dval a) (dval b)"
  by (simp add: dec_max_def max_def)

lemma of_nat_pow10: "(of_nat (10 ^ n) :: rat) = 10 powi int n"
  by simp

lemma abs_dval_less: "\<bar>dval d\<bar> < 10 powi (adjusted d + 1)"
proof -
  have "(of_nat (coeff d) :: rat) < of_nat (10 ^ ndigits (coeff d))"
    using less_pow_ndigits by (simp only: of_nat_less_iff)
  then have "of_nat (coeff d) * 10 powi expo d
    < (10 powi int (ndigits (coeff d)) :: rat) * 10 powi expo d"
    unfolding of_nat_pow10 by (rule mult_strict_right_mono) simp
  also have "\<dots> = 10 powi (adjusted d + 1)"
    by (simp only: adjusted_def add.commute [of "expo d"] diff_add_cancel flip: pow10_add)
  finally show ?thesis by (simp only: abs_dval)
qed

lemma abs_dval_ge: "coeff d \<noteq> 0 \<Longrightarrow> 10 powi adjusted d \<le> \<bar>dval d\<bar>"
proof -
  assume "coeff d \<noteq> 0"
  then have "10 ^ (ndigits (coeff d) - 1) \<le> coeff d"
    by (intro pow_ndigits_le) simp
  then have le: "(of_nat (10 ^ (ndigits (coeff d) - 1)) :: rat) \<le> of_nat (coeff d)"
    by (simp only: of_nat_le_iff)
  have "int (ndigits (coeff d) - 1) + expo d = adjusted d"
    using ndigits_pos [of "coeff d"] by (simp add: adjusted_def of_nat_diff del: ndigits_pos)
  then have "10 powi adjusted d = (10 powi int (ndigits (coeff d) - 1) :: rat) * 10 powi expo d"
    by (simp only: flip: pow10_add)
  also have "\<dots> \<le> of_nat (coeff d) * 10 powi expo d"
    using le unfolding of_nat_pow10 by (rule mult_right_mono) (simp add: less_imp_le)
  finally show ?thesis by (simp only: abs_dval)
qed

lemma adjusted_less_iff: "coeff d \<noteq> 0 \<Longrightarrow> adjusted d < k \<longleftrightarrow> \<bar>dval d\<bar> < 10 powi k"
proof
  assume "adjusted d < k"
  then have "(10 :: rat) powi (adjusted d + 1) \<le> 10 powi k" by simp
  with abs_dval_less [of d] show "\<bar>dval d\<bar> < 10 powi k" by linarith
next
  assume "coeff d \<noteq> 0" "\<bar>dval d\<bar> < 10 powi k"
  with abs_dval_ge [of d] have "(10 :: rat) powi adjusted d < 10 powi k" by linarith
  then show "adjusted d < k" by simp
qed

lemma adjusted_cong: "coeff a \<noteq> 0 \<Longrightarrow> \<bar>dval a\<bar> = \<bar>dval b\<bar> \<Longrightarrow> adjusted a = adjusted b"
proof -
  assume a: "coeff a \<noteq> 0" and eq: "\<bar>dval a\<bar> = \<bar>dval b\<bar>"
  then have "coeff b \<noteq> 0" by (metis abs_eq_0 dval_zero_iff)
  then have "adjusted a < k \<longleftrightarrow> adjusted b < k" for k
    using a eq by (simp add: adjusted_less_iff)
  then show ?thesis by (metis less_irrefl not_less_iff_gr_or_eq)
qed

section \<open>Rounding to an exponent\<close>

text \<open>\<open>ROUND_HALF_UP\<close> of a rational at the exponent \<open>e\<close>: half away from zero.\<close>

definition rhu :: "int \<Rightarrow> rat \<Rightarrow> rat" where
  "rhu e x = sgn x * (of_int \<lfloor>\<bar>x\<bar> / 10 powi e + 1 / 2\<rfloor> * 10 powi e)"

lemma round_quot_exact: "0 < m \<Longrightarrow> round_quot r (n * m) m = n"
  by (simp add: round_quot_def Let_def split: rounding.split)

lemma round_quot_le:
  assumes "n \<le> k * m" and "0 < m"
  shows "round_quot r n m \<le> k"
proof -
  have d: "n div m \<le> k" using div_le_mono [OF assms(1), of m] assms(2) by simp
  show ?thesis
  proof (cases "n div m = k")
    case True
    then have "n = k * m" using assms by (metis div_times_less_eq_dividend le_antisym)
    then show ?thesis by (simp add: round_quot_exact assms(2))
  next
    case False
    with d show ?thesis by (cases r) (auto simp: round_quot_def Let_def)
  qed
qed

lemma round_quot_half_up:
  assumes "0 < m"
  shows "int (round_quot HalfUp c m) = \<lfloor>(of_nat c / of_nat m :: rat) + 1 / 2\<rfloor>"
proof -
  let ?q = "c div m" and ?t = "c mod m"
  have c: "(of_nat c :: rat) = of_nat m * of_nat ?q + of_nat ?t"
    by (metis mult_div_mod_eq of_nat_add of_nat_mult)
  define r :: rat where "r = of_nat ?t / of_nat m"
  have split: "(of_nat c / of_nat m :: rat) = of_nat ?q + r"
    using assms by (simp add: c r_def field_simps)
  have t: "?t < m" using assms by simp
  have m0: "(0 :: rat) < of_nat m" using assms by simp
  have t0: "(of_nat ?t :: rat) < of_nat m" using t by (simp only: of_nat_less_iff)
  show ?thesis
  proof (cases "m \<le> 2 * ?t")
    case True
    then have "(of_nat m :: rat) \<le> of_nat (2 * ?t)" by (simp only: of_nat_le_iff)
    then have "(1 :: rat) / 2 \<le> r" using m0 by (simp add: r_def field_simps)
    moreover have "r < 1" using m0 t0 by (simp add: r_def)
    ultimately have "\<lfloor>(of_nat c / of_nat m :: rat) + 1 / 2\<rfloor> = int ?q + 1"
      unfolding floor_eq_iff split by simp
    with True show ?thesis by (simp add: round_quot_def Let_def)
  next
    case False
    then have "of_nat (2 * ?t) < (of_nat m :: rat)" by (simp only: of_nat_less_iff)
    then have "r < 1 / 2" using m0 by (simp add: r_def field_simps)
    moreover have "0 \<le> r" by (simp add: r_def)
    ultimately have "\<lfloor>(of_nat c / of_nat m :: rat) + 1 / 2\<rfloor> = int ?q"
      unfolding floor_eq_iff split by simp
    with False show ?thesis by (simp add: round_quot_def Let_def)
  qed
qed

lemma rhu_of_dec:
  "rhu e (dval d) = (if neg d then - 1 else 1) *
     (of_int \<lfloor>of_nat (coeff d) * 10 powi (expo d - e) + 1 / 2 :: rat\<rfloor> * 10 powi e)"
proof -
  have a: "\<bar>dval d\<bar> / 10 powi e = of_nat (coeff d) * 10 powi (expo d - e)"
    by (simp add: abs_dval pow10_diff)
  show ?thesis
  proof (cases "coeff d = 0")
    case True
    moreover have "dval d = 0" using True by simp
    moreover have "\<lfloor>1 / 2 :: rat\<rfloor> = 0" by (simp add: floor_eq_iff)
    ultimately show ?thesis by (simp only: rhu_def) simp
  next
    case False
    then have "sgn (dval d) = (if neg d then - 1 else 1)"
      using dval_neg_iff [of d] dval_pos_iff [of d] by (auto simp: sgn_if)
    then show ?thesis by (simp only: rhu_def a)
  qed
qed

lemma dval_Dec: "dval (Dec s c e) = (if s then - 1 else 1) * (of_nat c * 10 powi e)"
  by (simp add: dval_def)

lemma dval_dec_rescale:
  "dval (dec_rescale HalfUp d e) = rhu e (dval d)"
proof -
  consider (zero) "coeff d = 0" | (up) "coeff d \<noteq> 0" "e \<le> expo d" | (down) "coeff d \<noteq> 0" "expo d < e"
    by linarith
  then show ?thesis
  proof cases
    case zero
    then have "dval d = 0" by simp
    then have "rhu e (dval d) = 0" by (simp only: rhu_def) simp
    with zero show ?thesis by (simp add: dec_rescale_def dval_Dec)
  next
    case up
    then have k: "0 \<le> expo d - e" by simp
    let ?n = "coeff d * 10 ^ nat (expo d - e)"
    have n: "(of_nat ?n :: rat) = of_nat (coeff d) * 10 powi (expo d - e)"
      by (simp add: pow10_nat [OF k])
    have "\<lfloor>of_nat ?n + 1 / 2 :: rat\<rfloor> = int ?n" unfolding floor_eq_iff by simp
    then have "of_int \<lfloor>of_nat (coeff d) * 10 powi (expo d - e) + 1 / 2 :: rat\<rfloor> = (of_nat ?n :: rat)"
      unfolding n [symmetric] by (simp only: of_int_of_nat_eq)
    then show ?thesis
      using up by (simp only: rhu_of_dec) (simp add: dec_rescale_def dval_Dec)
  next
    case down
    then have k: "0 \<le> e - expo d" by simp
    have q: "(of_nat (coeff d) / of_nat (10 ^ nat (e - expo d)) :: rat)
      = of_nat (coeff d) * 10 powi (expo d - e)"
      using k by (simp add: pow10_nat pow10_diff)
    have "int (round_quot HalfUp (coeff d) (10 ^ nat (e - expo d)))
      = \<lfloor>of_nat (coeff d) * 10 powi (expo d - e) + 1 / 2 :: rat\<rfloor>"
      unfolding q [symmetric] by (rule round_quot_half_up) simp
    then have "(of_nat (round_quot HalfUp (coeff d) (10 ^ nat (e - expo d))) :: rat)
      = of_int \<lfloor>of_nat (coeff d) * 10 powi (expo d - e) + 1 / 2 :: rat\<rfloor>"
      by (metis of_int_of_nat_eq)
    then show ?thesis
      using down unfolding rhu_of_dec by (simp add: dec_rescale_def dval_Dec)
  qed
qed

lemma dec_fix_short:
  assumes "ndigits (coeff d) \<le> p" and "etiny p \<le> expo d" and "expo d \<le> emax"
    and "adjusted d \<le> emax"
  shows "dec_fix r p d = Inr d"
proof (cases "coeff d = 0")
  case True
  then show ?thesis using assms by (cases d) (simp add: dec_fix_def Let_def)
next
  case False
  then show ?thesis using assms
    by (auto simp: dec_fix_def Let_def etop_def adjusted_def)
qed

theorem dec_quantize_Inr:
  assumes "dec_quantize HalfUp p d q = Inr x"
  shows "dval x = rhu (expo q) (dval d)" and "expo x = expo q"
proof -
  have *: "x = dec_rescale HalfUp d (expo q)"
  proof (cases "coeff d = 0")
    case True
    then have "ndigits (coeff d) = 1" by (simp add: ndigits.simps [of 0])
    with True assms show ?thesis
      by (auto simp: dec_quantize_def res_simps dec_fix_def Let_def dec_rescale_def
        split: if_splits)
  next
    case False
    let ?a = "dec_rescale HalfUp d (expo q)"
    have e: "expo ?a = expo q" by (simp add: dec_rescale_def)
    from False assms have "dec_fix HalfUp p ?a = Inr x" "adjusted ?a \<le> emax"
      "ndigits (coeff ?a) \<le> p" "etiny p \<le> expo q" "expo q \<le> emax"
      by (auto simp: dec_quantize_def res_simps Let_def split: if_splits)
    then show ?thesis using dec_fix_short [of ?a p HalfUp] e by simp
  qed
  then show "dval x = rhu (expo q) (dval d)" by (simp add: dval_dec_rescale)
  show "expo x = expo q" using * by (simp add: dec_rescale_def)
qed

section \<open>Exact results\<close>

text \<open>
  A rational fits a precision when it has a decimal representation of at most that many
  digits whose exponent is in range. An operation whose exact result fits is exact.
\<close>

definition fits :: "nat \<Rightarrow> rat \<Rightarrow> bool" where
  "fits p x \<longleftrightarrow> (\<exists>(n :: nat) k. \<bar>x\<bar> = of_nat n * 10 powi k \<and> n < 10 ^ p
     \<and> etiny p \<le> k \<and> k \<le> etop p)"

lemma fitsI:
  "\<bar>x\<bar> = of_nat n * 10 powi k \<Longrightarrow> n < 10 ^ p \<Longrightarrow> etiny p \<le> k \<Longrightarrow> k \<le> etop p \<Longrightarrow> fits p x"
  by (auto simp: fits_def)

lemma dec_fix_exact:
  assumes p: "0 < p" and "fits p (dval d)"
  shows "\<exists>x. dec_fix r p d = Inr x \<and> dval x = dval d"
proof (cases "coeff d = 0")
  case True
  then show ?thesis by (simp add: dec_fix_def dval_def)
next
  case False
  from assms(2) obtain n k where v: "\<bar>dval d\<bar> = of_nat n * 10 powi k" and n: "n < 10 ^ p"
    and k: "etiny p \<le> k" "k \<le> etop p"
    by (auto simp: fits_def)
  let ?m = "int (ndigits (coeff d)) + expo d - int p"
  let ?e = "max ?m (etiny p)"
  have "adjusted d = adjusted (Dec False n k)"
    by (rule adjusted_cong) (use False v in \<open>simp_all add: dval_Dec\<close>)
  then have adj: "int (ndigits (coeff d)) + expo d = int (ndigits n) + k"
    by (simp add: adjusted_def)
  have "ndigits n \<le> p" using n p by (simp add: ndigits_le_iff)
  then have m: "?m \<le> k" using adj by simp
  have top: "\<not> etop p < ?m" using m k by simp
  have ek: "?e \<le> k" using m k by simp
  show ?thesis
  proof (cases "expo d < ?e")
    case False
    with top \<open>coeff d \<noteq> 0\<close> show ?thesis by (simp add: dec_fix_def Let_def)
  next
    case True
    define j where "j = nat (?e - expo d)"
    define c where "c = n * 10 ^ nat (k - ?e)"
    have ce: "(of_nat c :: rat) * 10 powi ?e = of_nat (coeff d) * 10 powi expo d"
    proof -
      have "(of_nat c :: rat) * 10 powi ?e = of_nat n * (10 powi (k - ?e) * 10 powi ?e)"
        using ek by (simp add: c_def pow10_nat)
      also have "\<dots> = of_nat n * 10 powi k" by (simp flip: pow10_add)
      finally show ?thesis using v by (simp add: abs_dval)
    qed
    have cj: "coeff d = c * 10 ^ j"
    proof -
      have "(of_nat (c * 10 ^ j) :: rat) * 10 powi expo d = of_nat c * (10 powi (?e - expo d) * 10 powi expo d)"
        using True by (simp add: j_def pow10_nat)
      also have "\<dots> = of_nat (coeff d) * 10 powi expo d" using ce by (simp flip: pow10_add)
      finally have "(of_nat (c * 10 ^ j) :: rat) = of_nat (coeff d)" by simp
      then show ?thesis by (simp only: of_nat_eq_iff)
    qed
    have rq: "round_quot r (coeff d) (10 ^ nat (?e - expo d)) = c"
    proof -
      have eq: "10 ^ nat (?e - expo d) = (10 :: nat) ^ j" by (simp only: j_def)
      have "round_quot r (c * 10 ^ j) (10 ^ j) = c" by (rule round_quot_exact) simp
      then show ?thesis unfolding eq by (simp only: cj)
    qed
    have "adjusted (Dec False c ?e) = adjusted d"
      by (rule adjusted_cong) (use \<open>coeff d \<noteq> 0\<close> cj ce in \<open>simp_all add: dval_Dec abs_dval\<close>)
    then have "ndigits c \<le> p" by (simp add: adjusted_def)
    moreover have "\<not> etop p < ?e" using ek k by simp
    ultimately have "dec_fix r p d = Inr (Dec (neg d) c ?e)"
      using True top rq \<open>coeff d \<noteq> 0\<close> by (simp add: dec_fix_def Let_def)
    moreover have "dval (Dec (neg d) c ?e) = dval d" using ce by (simp add: dval_Dec dval_def)
    ultimately show ?thesis by blast
  qed
qed

lemma dec_fix_valueI:
  "0 < p \<Longrightarrow> dval d = v \<Longrightarrow> fits p v \<Longrightarrow> \<exists>x. dec_fix r p d = Inr x \<and> dval x = v"
  using dec_fix_exact by blast

lemma dval_of_int_scaled:
  "(s \<longleftrightarrow> n < 0) \<or> n = 0 \<Longrightarrow> dval (Dec s (nat \<bar>n\<bar>) e) = of_int n * 10 powi e"
proof -
  assume s: "(s \<longleftrightarrow> n < 0) \<or> n = 0"
  have "(of_nat (nat \<bar>n\<bar>) :: rat) = \<bar>of_int n\<bar>" by simp
  with s show ?thesis by (cases "n < 0") (auto simp: dval_Dec)
qed

lemma dval_shift:
  "e \<le> expo d \<Longrightarrow> (of_int (signed_coeff d * 10 ^ nat (expo d - e)) :: rat) * 10 powi e = dval d"
proof -
  assume e: "e \<le> expo d"
  have "(of_int (signed_coeff d * 10 ^ nat (expo d - e)) :: rat) * 10 powi e
    = of_int (signed_coeff d) * (10 powi (expo d - e) * 10 powi e)"
    using e by (simp add: pow10_nat)
  then show ?thesis by (simp add: dval_signed flip: pow10_add)
qed

lemma dec_add_exact:
  assumes p: "0 < p" and f: "fits p (dval a + dval b)"
  shows "\<exists>x. dec_add r p a b = Inr x \<and> dval x = dval a + dval b"
proof -
  define e where "e = min (expo a) (expo b)"
  define n where "n = signed_coeff a * 10 ^ nat (expo a - e) + signed_coeff b * 10 ^ nat (expo b - e)"
  define s where "s = (if dec_is_zero a \<and> dec_is_zero b then neg a \<and> neg b else n < 0)"
  have "of_int n * 10 powi e = dval a + dval b"
    unfolding n_def of_int_add distrib_right by (simp only: dval_shift e_def min.cobounded1 min.cobounded2)
  moreover have "n = 0" if "dec_is_zero a \<and> dec_is_zero b"
    using that by (simp add: n_def dec_is_zero_def signed_coeff_def)
  then have "(s \<longleftrightarrow> n < 0) \<or> n = 0" by (auto simp: s_def)
  ultimately have "dval (Dec s (nat \<bar>n\<bar>) e) = dval a + dval b"
    by (simp only: dval_of_int_scaled)
  then have "\<exists>x. dec_fix r p (Dec s (nat \<bar>n\<bar>) e) = Inr x \<and> dval x = dval a + dval b"
    using p f by (intro dec_fix_valueI)
  moreover have "dec_add r p a b = dec_fix r p (Dec s (nat \<bar>n\<bar>) e)"
    unfolding dec_add_def Let_def e_def [symmetric] n_def [symmetric] s_def [symmetric] by (rule refl)
  ultimately show ?thesis by simp
qed

lemma dec_sub_exact:
  assumes "0 < p" and "fits p (dval a - dval b)"
  shows "\<exists>x. dec_sub r p a b = Inr x \<and> dval x = dval a - dval b"
  using dec_add_exact [of p a "copy_negate b" r] assms by (simp add: dec_sub_def dval_copy_negate)

lemma dval_mult_Dec:
  "dval (Dec (neg a \<noteq> neg b) (coeff a * coeff b) (expo a + expo b)) = dval a * dval b"
  by (cases "neg a"; cases "neg b") (simp_all add: dval_def pow10_add)

lemma dec_mul_exact:
  assumes "0 < p" and "fits p (dval a * dval b)"
  shows "\<exists>x. dec_mul r p a b = Inr x \<and> dval x = dval a * dval b"
  unfolding dec_mul_def using assms dval_mult_Dec by (intro dec_fix_valueI)


section \<open>Division\<close>

lemma strip_zeros_value:
  "strip_zeros k c e = (c', e') \<Longrightarrow> (of_nat c' :: rat) * 10 powi e' = of_nat c * 10 powi e"
proof (induction k c e rule: strip_zeros.induct)
  case (2 k c e)
  show ?case
  proof (cases "c mod 10 = 0")
    case True
    then have c: "c = 10 * (c div 10)" by presburger
    have "(of_nat (c div 10) :: rat) * 10 powi (e + 1) = of_nat (10 * (c div 10)) * 10 powi e"
      by (simp add: pow10_add)
    with "2.IH" "2.prems" True c show ?thesis by simp
  qed (use "2.prems" in simp)
qed simp

text \<open>A quotient that fits the precision is exact, for every rounding mode.\<close>

lemma dec_div_exact:
  assumes p: "0 < p" and b: "coeff b \<noteq> 0" and f: "fits p (dval a / dval b)"
  shows "\<exists>x. dec_div r p a b = Inr x \<and> dval x = dval a / dval b"
proof (cases "coeff a = 0")
  case True
  then have "dval a / dval b = 0" by simp
  moreover have "dec_div r p a b = dec_fix r p (Dec (neg a \<noteq> neg b) 0 (expo a - expo b))"
    using True b by (simp add: dec_div_def Let_def)
  ultimately show ?thesis
    using dec_fix_valueI [OF p _ f, of "Dec (neg a \<noteq> neg b) 0 (expo a - expo b)" r]
    by (simp add: dval_Dec del: dval_zero_iff)
next
  case False
  define s where "s = (neg a \<noteq> neg b)"
  define sh where "sh = int (ndigits (coeff b)) - int (ndigits (coeff a)) + int p + 1"
  define e where "e = expo a - expo b - sh"
  define n where "n = coeff a * 10 ^ nat sh"
  define m where "m = coeff b * 10 ^ nat (- sh)"
  have m0: "0 < m" using b by (simp add: m_def)
  have ratio: "(of_nat n / of_nat m :: rat) = of_nat (coeff a) / of_nat (coeff b) * 10 powi sh"
    by (cases "0 \<le> sh") (simp_all add: n_def m_def pow10_nat power_int_minus field_simps)
  have val: "(of_nat n / of_nat m :: rat) * 10 powi e = \<bar>dval a / dval b\<bar>"
    by (simp add: ratio e_def abs_dval pow10_diff pow10_add field_simps)
  from f obtain N k where N: "\<bar>dval a / dval b\<bar> = of_nat N * 10 powi k" "N < 10 ^ p"
    by (auto simp: fits_def)
  text \<open>The scaled quotient has more than \<open>p\<close> digits, so its exponent is below \<open>k\<close>.\<close>
  have big: "(10 :: rat) powi int p < of_nat n / of_nat m"
  proof -
    have ca: "(10 :: rat) powi int (ndigits (coeff a) - 1) \<le> of_nat (coeff a)"
      using pow_ndigits_le [of "coeff a"] False
      unfolding of_nat_pow10 [symmetric] by (simp only: of_nat_le_iff)
    have cb: "of_nat (coeff b) < (10 :: rat) powi int (ndigits (coeff b))"
      using less_pow_ndigits [of "coeff b"]
      unfolding of_nat_pow10 [symmetric] by (simp only: of_nat_less_iff)
    have idx: "int (ndigits (coeff a) - 1) - int (ndigits (coeff b)) + sh = int p"
      using ndigits_pos [of "coeff a"] by (simp add: sh_def of_nat_diff del: ndigits_pos)
    have "(10 :: rat) powi int p
      = 10 powi int (ndigits (coeff a) - 1) / 10 powi int (ndigits (coeff b)) * 10 powi sh"
      unfolding idx [symmetric] by (simp only: pow10_add pow10_diff)
    also have "\<dots> \<le> of_nat (coeff a) / 10 powi int (ndigits (coeff b)) * 10 powi sh"
      using ca by (intro mult_right_mono divide_right_mono) (simp_all add: less_imp_le del: power_int_of_nat)
    also have "\<dots> < of_nat (coeff a) / of_nat (coeff b) * 10 powi sh"
      using cb b False by (intro mult_strict_right_mono divide_strict_left_mono) (simp_all del: power_int_of_nat)
    finally show ?thesis by (simp only: ratio)
  qed
  have "(10 :: rat) powi (int p + e) < 10 powi (int p + k)"
  proof -
    have "(10 :: rat) powi (int p + e) = 10 powi int p * 10 powi e" by (rule pow10_add)
    also have "\<dots> < of_nat n / of_nat m * 10 powi e" using big by (rule mult_strict_right_mono) simp
    also have "\<dots> = of_nat N * 10 powi k" by (simp only: val N(1))
    also have "\<dots> < 10 powi int p * 10 powi k"
      using N(2) by (intro mult_strict_right_mono) (simp_all flip: of_nat_pow10 del: of_nat_power)
    also have "\<dots> = 10 powi (int p + k)" by (rule pow10_add [symmetric])
    finally show ?thesis .
  qed
  then have ek: "e < k" by simp
  have nm: "n = m * (N * 10 ^ nat (k - e))"
  proof -
    have "of_nat n / of_nat m * (10 :: rat) powi e = of_nat N * 10 powi (k - e) * 10 powi e"
      unfolding val N(1) by (simp flip: pow10_add)
    then have "of_nat n / of_nat m = of_nat N * (10 :: rat) powi (k - e)"
      by (rule mult_right_cancel [THEN iffD1, rotated]) simp
    then have "(of_nat n :: rat) = of_nat (m * (N * 10 ^ nat (k - e)))"
      using m0 ek by (simp add: pow10_nat field_simps)
    then show ?thesis by (simp only: of_nat_eq_iff)
  qed
  then have "n mod m = 0" by simp
  obtain c' e' where st: "strip_zeros (nat sh) (n div m) e = (c', e')" by fastforce
  have "(of_nat (n div m) :: rat) = of_nat n / of_nat m" using nm m0 by simp
  with strip_zeros_value [OF st] val have c': "of_nat c' * 10 powi e' = \<bar>dval a / dval b\<bar>" by simp
  have "dval (Dec s c' e') = dval a / dval b"
    using c' b False dval_neg_iff [of a] dval_neg_iff [of b] dval_pos_iff [of a] dval_pos_iff [of b]
    unfolding dval_Dec s_def
    by (cases "neg a"; cases "neg b")
      (simp_all add: zero_less_divide_iff divide_less_0_iff abs_of_pos abs_of_neg del: abs_divide)
  then have "\<exists>x. dec_fix r p (Dec s c' e') = Inr x \<and> dval x = dval a / dval b"
    using p f by (intro dec_fix_valueI)
  moreover have "dec_div r p a b = dec_fix r p (Dec s c' e')"
    unfolding dec_div_def Let_def s_def [symmetric] sh_def [symmetric] e_def [symmetric]
      n_def [symmetric] m_def [symmetric]
    using b False \<open>n mod m = 0\<close> st by simp
  ultimately show ?thesis by simp
qed


section \<open>Properties of the rational rounding\<close>

lemma rhu_nonneg_eq: "0 \<le> x \<Longrightarrow> rhu e x = of_int \<lfloor>x / 10 powi e + 1 / 2\<rfloor> * 10 powi e"
proof -
  assume x: "0 \<le> x"
  have "\<lfloor>1 / 2 :: rat\<rfloor> = 0" by (simp add: floor_eq_iff)
  with x show ?thesis by (cases "x = 0") (simp_all add: rhu_def)
qed

lemma rhu_zero [simp]: "rhu e 0 = 0"
  by (simp only: rhu_def) simp

lemma rhu_minus: "rhu e (- x) = - rhu e x"
  by (simp add: rhu_def sgn_minus)

lemma rhu_nonneg: "0 \<le> x \<Longrightarrow> 0 \<le> rhu e x"
proof -
  assume x: "0 \<le> x"
  then have "0 \<le> x / 10 powi e + 1 / 2" by (simp add: less_imp_le)
  then have "0 \<le> \<lfloor>x / 10 powi e + 1 / 2\<rfloor>" by simp
  with x show ?thesis by (simp add: rhu_nonneg_eq less_imp_le)
qed

lemma rhu_mono_nonneg: "0 \<le> x \<Longrightarrow> x \<le> y \<Longrightarrow> rhu e x \<le> rhu e y"
proof -
  assume x: "0 \<le> x" "x \<le> y"
  then have "x / 10 powi e \<le> y / 10 powi e" by (simp add: divide_right_mono less_imp_le)
  then have "\<lfloor>x / 10 powi e + 1 / 2\<rfloor> \<le> \<lfloor>y / 10 powi e + 1 / 2\<rfloor>" by (intro floor_mono) simp
  with x show ?thesis by (simp add: rhu_nonneg_eq less_imp_le)
qed

lemma rhu_mono: "x \<le> y \<Longrightarrow> rhu e x \<le> rhu e y"
proof -
  assume xy: "x \<le> y"
  consider "0 \<le> x" | "x < 0" "0 \<le> y" | "y < 0" using xy by linarith
  then show ?thesis
  proof cases
    case 1
    then show ?thesis using xy by (rule rhu_mono_nonneg)
  next
    case 2
    then have "0 \<le> rhu e (- x)" "0 \<le> rhu e y" by (simp_all add: rhu_nonneg)
    then show ?thesis by (simp add: rhu_minus)
  next
    case 3
    then have "rhu e (- y) \<le> rhu e (- x)" using xy by (intro rhu_mono_nonneg) simp_all
    then show ?thesis by (simp add: rhu_minus)
  qed
qed

lemma rhu_multiple [simp]: "rhu e (of_int n * 10 powi e) = of_int n * 10 powi e"
proof -
  have nn: "rhu e (of_int m * 10 powi e) = of_int m * 10 powi e" if "0 \<le> m" for m
  proof -
    have "0 \<le> (of_int m :: rat) * 10 powi e" using that by (simp add: less_imp_le)
    moreover have "\<lfloor>of_int m + 1 / 2 :: rat\<rfloor> = m" unfolding floor_eq_iff by simp
    ultimately show ?thesis by (simp add: rhu_nonneg_eq)
  qed
  show ?thesis
  proof (cases "0 \<le> n")
    case False
    then have "rhu e (of_int (- n) * 10 powi e) = of_int (- n) * 10 powi e" by (intro nn) simp
    then show ?thesis by (simp add: rhu_minus)
  qed (rule nn)
qed

lemma rhu_is_multiple: "\<exists>n. rhu e x = of_int n * 10 powi e"
proof (cases "x = 0")
  case True
  then show ?thesis by (intro exI [of _ 0]) simp
next
  case False
  then have "sgn x = 1 \<or> sgn x = - 1" by (simp add: sgn_if)
  then show ?thesis
    by (auto simp: rhu_def intro: exI [of _ "\<lfloor>\<bar>x\<bar> / 10 powi e + 1 / 2\<rfloor>"]
      exI [of _ "- \<lfloor>\<bar>x\<bar> / 10 powi e + 1 / 2\<rfloor>"])
qed

lemma rhu_idem [simp]: "rhu e (rhu e x) = rhu e x"
  using rhu_is_multiple [of e x] by auto

lemma rhu_error: "\<bar>rhu e x - x\<bar> \<le> 10 powi e / 2"
proof -
  have nn: "\<bar>rhu e y - y\<bar> \<le> 10 powi e / 2" if y: "0 \<le> y" for y
  proof -
    let ?f = "\<lfloor>y / 10 powi e + 1 / 2\<rfloor>"
    have "of_int ?f \<le> y / 10 powi e + 1 / 2" "y / 10 powi e + 1 / 2 < of_int ?f + 1"
      using floor_correct [of "y / 10 powi e + 1 / 2"] by (simp_all only: of_int_add of_int_1)
    then have "\<bar>of_int ?f - y / 10 powi e\<bar> \<le> 1 / 2" by linarith
    then have "\<bar>of_int ?f - y / 10 powi e\<bar> * 10 powi e \<le> 1 / 2 * 10 powi e"
      by (rule mult_right_mono) (simp add: less_imp_le)
    moreover have "\<bar>of_int ?f - y / 10 powi e\<bar> * 10 powi e = \<bar>rhu e y - y\<bar>"
    proof -
      have "\<bar>of_int ?f - y / 10 powi e\<bar> * 10 powi e = \<bar>(of_int ?f - y / 10 powi e) * 10 powi e\<bar>"
        by (rule abs_mult_pos) (simp add: less_imp_le)
      also have "(of_int ?f - y / 10 powi e) * 10 powi e = of_int ?f * 10 powi e - y"
        by (simp add: left_diff_distrib)
      finally show ?thesis using y by (simp only: rhu_nonneg_eq)
    qed
    ultimately show ?thesis by simp
  qed
  show ?thesis
  proof (cases "0 \<le> x")
    case False
    then have "\<bar>rhu e (- x) - (- x)\<bar> \<le> 10 powi e / 2" by (intro nn) simp
    then show ?thesis by (simp add: rhu_minus abs_minus_commute)
  qed (rule nn)
qed

lemma rhu_sub_multiple: "\<exists>n. x = of_int n * 10 powi e \<Longrightarrow> rhu e x = x"
  by auto

end
