(* ===== verification/Py_Time.thy ===== *)
theory Py_Time
  imports Prelude
begin

text \<open>
  Timestamps. A \<open>datetime\<close> is a count of microseconds with or without a time zone. Aware
  values are compared, and are equal, by their instant; the modelled code rejects naive
  values before it compares anything. A zone (\<open>ZoneInfo("Asia/Shanghai")\<close> in the code, whose
  data is not part of the repository) is the UTC offset in force at an instant, in
  microseconds; it is a parameter of every definition that converts to local time.
\<close>

datatype pytime = Aware int | Naive int

fun instant :: "pytime \<Rightarrow> int" where
  "instant (Aware t) = t"
| "instant (Naive t) = t"

fun is_aware :: "pytime \<Rightarrow> bool" where
  "is_aware (Aware _) = True"
| "is_aware (Naive _) = False"

lemma aware_instant_inj: "is_aware a \<Longrightarrow> is_aware b \<Longrightarrow> instant a = instant b \<longleftrightarrow> a = b"
  by (cases a; cases b) simp_all

definition validate_timestamp :: "string \<Rightarrow> pytime \<Rightarrow> unit res" where
  "validate_timestamp field_name value =
     (if \<not> is_aware value then Inl (ValueError (field_name @ '' must be timezone-aware'')) else Inr ())"

lemma validate_timestamp_Inr [res_simps]: "validate_timestamp f t = Inr u \<longleftrightarrow> is_aware t"
  by (simp add: validate_timestamp_def)

lemma validate_timestamp_aware [simp]: "is_aware t \<Longrightarrow> validate_timestamp f t = Inr ()"
  by (simp add: validate_timestamp_def)

section \<open>Local time\<close>

type_synonym zone = "int \<Rightarrow> int"

definition day_us :: int where "day_us = 86400000000"

definition local_us :: "zone \<Rightarrow> pytime \<Rightarrow> int" where
  "local_us z t = instant t + z (instant t)"

text \<open>\<open>value.astimezone(SHANGHAI).date()\<close>, as a day number counted from 1970-01-01.\<close>

definition local_date :: "zone \<Rightarrow> pytime \<Rightarrow> int" where
  "local_date z t = local_us z t div day_us"

text \<open>\<open>date.weekday()\<close>: Monday is 0; 1970-01-01 was a Thursday.\<close>

definition weekday :: "int \<Rightarrow> int" where
  "weekday day = (day + 3) mod 7"

definition week_start :: "int \<Rightarrow> int" where
  "week_start day = day - weekday day"

lemma week_start_alt: "week_start d = 7 * ((d + 3) div 7) - 3"
  unfolding week_start_def weekday_def by (simp add: minus_mod_eq_mult_div [symmetric])

lemma week_start_mono: "a \<le> b \<Longrightarrow> week_start a \<le> week_start b"
  unfolding week_start_alt by (simp add: zdiv_mono1)

text \<open>
  A zone whose local clock never runs backwards. The laws on dates that the engine needs
  hold for every such zone; China Standard Time, a constant offset of eight hours since 1991,
  is one.
\<close>

locale local_clock =
  fixes z :: zone
  assumes forward: "s \<le> t \<Longrightarrow> s + z s \<le> t + z t"
begin

lemma local_us_mono: "instant a \<le> instant b \<Longrightarrow> local_us z a \<le> local_us z b"
  by (simp add: local_us_def forward)

lemma local_date_mono: "instant a \<le> instant b \<Longrightarrow> local_date z a \<le> local_date z b"
  unfolding local_date_def by (rule zdiv_mono1) (simp_all add: local_us_mono day_us_def)

lemma later_date_later: "local_date z a < local_date z b \<Longrightarrow> instant a < instant b"
  using local_date_mono [of b a] by linarith

end

definition china_standard_time :: zone where
  "china_standard_time _ = 28800000000"

interpretation cst: local_clock china_standard_time
  by unfold_locales (simp add: china_standard_time_def)

end
