(* ===== verification/Execution_Status.thy ===== *)
theory Execution_Status
  imports Py_Decimal Py_Time
begin

text \<open>
  The execution-status evidence of \<open>market/execution_status.py\<close>: the per-day evidence, the
  eligibility of one opening, the checks of the two models, and the join of unadjusted opens
  to the raw price limits that materialises a snapshot. A date is a day number. The hash of a
  snapshot's payload (SHA-256 of its canonical JSON) is a parameter, as is the conversion of a
  Shanghai wall-clock time to its instant.
\<close>

datatype suspension_state = UNKNOWN | NORMAL | SUSPENDED | NOT_APPLICABLE

datatype evidence_level = AUTHORITATIVE | BASIC_NO_PRICE_LIMITS

datatype period = DAY | WEEK | MIN60

section \<open>Models\<close>

record status_query =
  sq_symbol :: string
  sq_exchange :: string
  sq_start :: int
  sq_end :: int
  sq_period :: period

record status_day =
  sd_day :: int
  sd_exchange :: string
  sd_is_exchange_open :: bool
  sd_suspension_state :: suspension_state
  sd_raw_upper_limit :: "dec option"
  sd_raw_lower_limit :: "dec option"

record raw_open =
  ro_timestamp :: pytime
  ro_trading_day :: int
  ro_raw_open :: dec

record eligibility =
  el_timestamp :: pytime
  el_trading_day :: int
  el_is_exchange_open :: bool
  el_suspension_state :: suspension_state
  el_buy_blocked_at_open :: bool
  el_sell_blocked_at_open :: bool
  el_evidence_complete :: bool

record status_snapshot =
  ss_query :: status_query
  ss_days :: "status_day list"
  ss_eligibility :: "eligibility list"
  ss_source :: string
  ss_evidence_level :: evidence_level
  ss_fetched_at :: pytime
  ss_data_cutoff :: pytime
  ss_dataset_version :: string

section \<open>Validators\<close>

text \<open>\<open>symbol.rsplit(".", maxsplit=1)[1]\<close>; \<open>None\<close> when there is no dot.\<close>

definition after_last_dot :: "string \<Rightarrow> string option" where
  "after_last_dot s =
     (if CHR ''.'' \<in> set s then Some (rev (takeWhile (\<lambda>c. c \<noteq> CHR ''.'') (rev s))) else None)"

definition validate_status_query :: "status_query \<Rightarrow> unit res" where
  "validate_status_query q =
     (if sq_end q \<le> sq_start q then Inl (ValueError ''execution-status range must be nonempty'')
      else if after_last_dot (sq_symbol q) \<noteq> Some (sq_exchange q)
      then Inl (ValueError ''execution-status exchange must match symbol'')
      else if sq_end q - sq_start q > 366 * 50
      then Inl (ValueError ''execution-status range is too large'')
      else Inr ())"

definition validate_status_day :: "status_day \<Rightarrow> unit res" where
  "validate_status_day d =
     (if sd_is_exchange_open d then
        (if sd_suspension_state d \<noteq> NORMAL \<and> sd_suspension_state d \<noteq> SUSPENDED
         then Inl (ValueError ''open day requires explicit suspension evidence'')
         else case (sd_raw_upper_limit d, sd_raw_lower_limit d) of
             (Some u, Some l) \<Rightarrow>
               if dval u \<le> 0 \<or> dval l \<le> 0 \<or> dval u < dval l
               then Inl (ValueError ''price-limit evidence is invalid'') else Inr ()
           | (None, None) \<Rightarrow> Inr ()
           | _ \<Rightarrow> Inl (ValueError ''price-limit evidence must be complete or absent''))
      else if sd_suspension_state d \<noteq> NOT_APPLICABLE \<or> sd_raw_upper_limit d \<noteq> None
          \<or> sd_raw_lower_limit d \<noteq> None
      then Inl (ValueError ''closed day must use not-applicable empty evidence'')
      else Inr ())"

definition validate_eligibility :: "eligibility \<Rightarrow> eligibility res" where
  "validate_eligibility e =
     (if el_evidence_complete e
         \<and> (\<not> el_is_exchange_open e \<or> el_suspension_state e = UNKNOWN
            \<or> el_suspension_state e = NOT_APPLICABLE)
      then Inl (ValueError ''complete eligibility must identify an open trading day'')
      else Inr e)"

text \<open>The loop over the eligibility entries of a snapshot.\<close>

fun check_eligibility_order :: "status_query \<Rightarrow> pytime option \<Rightarrow> eligibility list \<Rightarrow> unit res" where
  "check_eligibility_order q previous [] = Inr ()"
| "check_eligibility_order q previous (e # es) =
     (if \<not> (sq_start q \<le> el_trading_day e \<and> el_trading_day e < sq_end q)
      then Inl (ValueError ''eligibility timestamp falls outside query'')
      else if (case previous of None \<Rightarrow> False | Some p \<Rightarrow> instant (el_timestamp e) \<le> instant p)
      then Inl (ValueError ''eligibility timestamps must be unique and ascending'')
      else check_eligibility_order q (Some (el_timestamp e)) es)"

section \<open>Dataset identity\<close>

text \<open>\<open>format(value, "f")\<close> of a finite Decimal, and the trimming of \<open>_decimal_text\<close>.\<close>

fun format_f :: "dec \<Rightarrow> string" where
  "format_f (Dec s0 c e) =
     (if s0 then ''-'' else []) @
     (if 0 \<le> e then nat_text (c * 10 ^ nat e)
      else let k = nat (- e); s = zero_padded (k + 1) (nat_text c)
           in take (length s - k) s @ ''.'' @ drop (length s - k) s)"

definition rstrip :: "char \<Rightarrow> string \<Rightarrow> string" where
  "rstrip c s = rev (dropWhile (\<lambda>x. x = c) (rev s))"

definition decimal_text :: "dec option \<Rightarrow> string option" where
  "decimal_text value =
     (case value of None \<Rightarrow> None
      | Some d \<Rightarrow> let txt = rstrip (CHR ''.'') (rstrip (CHR ''0'') (format_f d))
                  in Some (if txt = [] then ''0'' else txt))"

text \<open>
  The payload that is rendered as canonical JSON and hashed: a limit enters as its text. The
  evidence level enters only when it is not authoritative.
\<close>

record day_payload =
  dp_day :: int
  dp_exchange :: string
  dp_is_exchange_open :: bool
  dp_suspension_state :: suspension_state
  dp_raw_upper_limit :: "string option"
  dp_raw_lower_limit :: "string option"

record status_payload =
  sp_schema :: string
  sp_query :: status_query
  sp_source :: string
  sp_data_cutoff :: int
  sp_days :: "day_payload list"
  sp_eligibility :: "eligibility list"
  sp_evidence_level :: "evidence_level option"

type_synonym payload_hash = "status_payload \<Rightarrow> string"

definition day_entry :: "status_day \<Rightarrow> day_payload" where
  "day_entry d = \<lparr>dp_day = sd_day d, dp_exchange = sd_exchange d,
     dp_is_exchange_open = sd_is_exchange_open d, dp_suspension_state = sd_suspension_state d,
     dp_raw_upper_limit = decimal_text (sd_raw_upper_limit d),
     dp_raw_lower_limit = decimal_text (sd_raw_lower_limit d)\<rparr>"

definition dataset_version ::
  "payload_hash \<Rightarrow> status_query \<Rightarrow> status_day list \<Rightarrow> eligibility list \<Rightarrow> string
     \<Rightarrow> evidence_level \<Rightarrow> pytime \<Rightarrow> string" where
  "dataset_version hash q days elig source level data_cutoff =
     ''sha256:'' @ hash \<lparr>sp_schema = ''stock-desk-execution-status-v1'', sp_query = q,
       sp_source = source, sp_data_cutoff = instant data_cutoff, sp_days = map day_entry days,
       sp_eligibility = elig,
       sp_evidence_level = (if level \<noteq> AUTHORITATIVE then Some level else None)\<rparr>"

section \<open>Snapshots\<close>

definition validate_status_snapshot :: "payload_hash \<Rightarrow> status_snapshot \<Rightarrow> status_snapshot res" where
  "validate_status_snapshot hash s =
     (let q = ss_query s; open_days = filter sd_is_exchange_open (ss_days s)
      in if map sd_day (ss_days s) \<noteq> [sq_start q..sq_end q - 1]
         then Inl (ValueError ''execution status must cover every natural date'')
         else if list_ex (\<lambda>d. sd_exchange d \<noteq> sq_exchange q) (ss_days s)
         then Inl (ValueError ''execution status day exchange must match query'')
         else if ss_evidence_level s = AUTHORITATIVE
             \<and> list_ex (\<lambda>d. sd_raw_upper_limit d = None \<or> sd_raw_lower_limit d = None) open_days
         then Inl (ValueError ''authoritative status requires price-limit evidence'')
         else if ss_evidence_level s \<noteq> AUTHORITATIVE
             \<and> list_ex (\<lambda>d. sd_raw_upper_limit d \<noteq> None \<or> sd_raw_lower_limit d \<noteq> None) open_days
         then Inl (ValueError ''basic status must not claim price-limit evidence'')
         else if ss_evidence_level s = BASIC_NO_PRICE_LIMITS
             \<and> list_ex (\<lambda>e. el_buy_blocked_at_open e \<or> el_sell_blocked_at_open e) (ss_eligibility s)
         then Inl (ValueError ''basic status must not claim price-limit blocking'')
         else if instant (ss_fetched_at s) < instant (ss_data_cutoff s)
         then Inl (ValueError ''execution-status cutoff cannot follow fetch time'')
         else then_res (check_eligibility_order q None (ss_eligibility s))
           (if ss_dataset_version s \<noteq>
               dataset_version hash q (ss_days s) (ss_eligibility s) (ss_source s) (ss_evidence_level s) (ss_data_cutoff s)
            then Inl (ValueError ''execution-status dataset version does not match canonical evidence'')
            else Inr s))"

section \<open>Materialisation\<close>

text \<open>\<open>{item.day: item for item in days}\<close>: the last entry of a day wins.\<close>

definition day_index :: "status_day list \<Rightarrow> int \<Rightarrow> status_day option" where
  "day_index days = map_of (rev (map (\<lambda>d. (sd_day d, d)) days))"

definition join_raw_open :: "status_day list \<Rightarrow> raw_open \<Rightarrow> eligibility res" where
  "join_raw_open days r =
     (case day_index days (ro_trading_day r) of
        None \<Rightarrow> Inl (ValueError ''raw open lacks calendar-bearing status evidence'')
      | Some d \<Rightarrow>
          if \<not> sd_is_exchange_open d
          then Inl (ValueError ''raw open cannot be joined to a closed exchange day'')
          else validate_eligibility
            \<lparr>el_timestamp = ro_timestamp r, el_trading_day = ro_trading_day r,
             el_is_exchange_open = True, el_suspension_state = sd_suspension_state d,
             el_buy_blocked_at_open =
               (case (sd_raw_upper_limit d, sd_raw_lower_limit d) of
                  (Some u, Some l) \<Rightarrow> dval u \<le> dval (ro_raw_open r) | _ \<Rightarrow> False),
             el_sell_blocked_at_open =
               (case (sd_raw_upper_limit d, sd_raw_lower_limit d) of
                  (Some u, Some l) \<Rightarrow> dval (ro_raw_open r) \<le> dval l | _ \<Rightarrow> False),
             el_evidence_complete = True\<rparr>)"

definition half_past_nine :: int where
  "half_past_nine = 34200000000"

text \<open>The opening a day without a raw open gets: usable only as evidence of a suspension.\<close>

definition absent_open :: "(int \<Rightarrow> int) \<Rightarrow> status_day \<Rightarrow> eligibility res" where
  "absent_open wall d =
     validate_eligibility
       \<lparr>el_timestamp = Aware (wall (sd_day d * day_us + half_past_nine)), el_trading_day = sd_day d,
        el_is_exchange_open = True, el_suspension_state = sd_suspension_state d,
        el_buy_blocked_at_open = False, el_sell_blocked_at_open = False,
        el_evidence_complete = (sd_suspension_state d = SUSPENDED)\<rparr>"

definition frozen_snapshot ::
  "payload_hash \<Rightarrow> status_query \<Rightarrow> status_day list \<Rightarrow> eligibility list \<Rightarrow> string
     \<Rightarrow> pytime \<Rightarrow> pytime \<Rightarrow> evidence_level \<Rightarrow> status_snapshot" where
  "frozen_snapshot hash q days frozen source fetched_at data_cutoff level =
     \<lparr>ss_query = q, ss_days = days, ss_eligibility = frozen, ss_source = source,
      ss_evidence_level = level, ss_fetched_at = fetched_at, ss_data_cutoff = data_cutoff,
      ss_dataset_version = dataset_version hash q days frozen source level data_cutoff\<rparr>"

definition materialize_execution_status ::
  "payload_hash \<Rightarrow> (int \<Rightarrow> int) \<Rightarrow> status_query \<Rightarrow> status_day list \<Rightarrow> raw_open list \<Rightarrow> string
     \<Rightarrow> pytime \<Rightarrow> pytime \<Rightarrow> evidence_level \<Rightarrow> status_snapshot res" where
  "materialize_execution_status hash wall q days raw_opens source fetched_at data_cutoff level =
     bind_res (traverse (join_raw_open days) (sort_key (instant \<circ> ro_timestamp) raw_opens)) (\<lambda>joined.
     bind_res
       (if sq_period q = DAY \<or> sq_period q = WEEK
        then traverse (absent_open wall)
               (filter (\<lambda>d. sd_is_exchange_open d \<and> sd_day d \<notin> ro_trading_day ` set raw_opens) days)
        else Inr []) (\<lambda>absent.
       let frozen = sort_key (instant \<circ> el_timestamp) (joined @ absent)
       in validate_status_snapshot hash (frozen_snapshot hash q days frozen source fetched_at data_cutoff level)))"

lemma validate_eligibility_Inr [res_simps]:
  "validate_eligibility e = Inr e' \<longleftrightarrow> e' = e \<and>
     (el_evidence_complete e \<longrightarrow> el_is_exchange_open e
        \<and> el_suspension_state e \<noteq> UNKNOWN \<and> el_suspension_state e \<noteq> NOT_APPLICABLE)"
  by (auto simp: validate_eligibility_def)

text \<open>The price-limit comparisons of the join: \<open>False\<close> when the day has no complete limits.\<close>

definition at_upper_limit :: "status_day \<Rightarrow> dec \<Rightarrow> bool" where
  "at_upper_limit d x \<longleftrightarrow> (\<exists>u l. sd_raw_upper_limit d = Some u \<and> sd_raw_lower_limit d = Some l
     \<and> dval u \<le> dval x)"

definition at_lower_limit :: "status_day \<Rightarrow> dec \<Rightarrow> bool" where
  "at_lower_limit d x \<longleftrightarrow> (\<exists>u l. sd_raw_upper_limit d = Some u \<and> sd_raw_lower_limit d = Some l
     \<and> dval x \<le> dval l)"

lemma join_raw_open_Inr:
  assumes "join_raw_open days r = Inr e"
  shows "\<exists>d. day_index days (ro_trading_day r) = Some d \<and> sd_is_exchange_open d
    \<and> e = \<lparr>el_timestamp = ro_timestamp r, el_trading_day = ro_trading_day r,
           el_is_exchange_open = True, el_suspension_state = sd_suspension_state d,
           el_buy_blocked_at_open = at_upper_limit d (ro_raw_open r),
           el_sell_blocked_at_open = at_lower_limit d (ro_raw_open r),
           el_evidence_complete = True\<rparr>"
proof -
  from assms obtain d where d: "day_index days (ro_trading_day r) = Some d" "sd_is_exchange_open d"
    by (cases "day_index days (ro_trading_day r)") (simp_all add: join_raw_open_def if_Inl_Inr_iff)
  show ?thesis
    using assms d
    by (cases "sd_raw_upper_limit d"; cases "sd_raw_lower_limit d")
      (simp_all add: join_raw_open_def validate_eligibility_Inr at_upper_limit_def at_lower_limit_def)
qed

lemma day_index_SomeD: "day_index days k = Some d \<Longrightarrow> d \<in> set days \<and> sd_day d = k"
  unfolding day_index_def by (drule map_of_SomeD) auto

lemma check_eligibility_order_Cons:
  "check_eligibility_order q previous (e # es) = Inr u \<longleftrightarrow>
     sq_start q \<le> el_trading_day e \<and> el_trading_day e < sq_end q
     \<and> (\<forall>p. previous = Some p \<longrightarrow> instant p < instant (el_timestamp e))
     \<and> check_eligibility_order q (Some (el_timestamp e)) es = Inr u"
  by (cases previous) (auto simp: if_Inl_Inr_iff not_le)

lemma check_eligibility_order_Inr:
  "check_eligibility_order q previous es = Inr u \<Longrightarrow>
     sorted_wrt (<) (map (instant \<circ> el_timestamp) es)
     \<and> (\<forall>p. previous = Some p \<longrightarrow> (\<forall>e \<in> set es. instant p < instant (el_timestamp e)))
     \<and> (\<forall>e \<in> set es. sq_start q \<le> el_trading_day e \<and> el_trading_day e < sq_end q)"
proof (induction es arbitrary: previous)
  case (Cons e es)
  then have here: "sq_start q \<le> el_trading_day e" "el_trading_day e < sq_end q"
    and prev: "\<forall>p. previous = Some p \<longrightarrow> instant p < instant (el_timestamp e)"
    and rest: "check_eligibility_order q (Some (el_timestamp e)) es = Inr u"
    unfolding check_eligibility_order_Cons by blast+
  from Cons.IH [OF rest] have srt: "sorted_wrt (<) (map (instant \<circ> el_timestamp) es)"
    and lt: "\<forall>x \<in> set es. instant (el_timestamp e) < instant (el_timestamp x)"
    and q: "\<forall>x \<in> set es. sq_start q \<le> el_trading_day x \<and> el_trading_day x < sq_end q"
    by (simp_all add: comp_def)
  have "instant p < instant (el_timestamp x)" if "previous = Some p" "x \<in> set (e # es)" for p x
    using that prev lt less_trans by auto
  with here srt lt q show ?case by (simp add: comp_def)
qed simp

lemma absent_open_Inr:
  "absent_open wall d = Inr e \<Longrightarrow>
     e = \<lparr>el_timestamp = Aware (wall (sd_day d * day_us + half_past_nine)), el_trading_day = sd_day d,
          el_is_exchange_open = True, el_suspension_state = sd_suspension_state d,
          el_buy_blocked_at_open = False, el_sell_blocked_at_open = False,
          el_evidence_complete = (sd_suspension_state d = SUSPENDED)\<rparr>"
  by (simp add: absent_open_def validate_eligibility_Inr)

lemma validate_status_snapshot_Inr:
  assumes "validate_status_snapshot hash s = Inr s'"
  shows "s' = s \<and> map sd_day (ss_days s) = [sq_start (ss_query s)..sq_end (ss_query s) - 1]
    \<and> sorted_wrt (<) (map (instant \<circ> el_timestamp) (ss_eligibility s))"
proof -
  from assms obtain u where "check_eligibility_order (ss_query s) None (ss_eligibility s) = Inr u"
      and "map sd_day (ss_days s) = [sq_start (ss_query s)..sq_end (ss_query s) - 1]" and "s' = s"
    unfolding validate_status_snapshot_def Let_def if_Inl_Inr_iff then_res_Inr_iff by blast
  with check_eligibility_order_Inr [OF this(1)] show ?thesis by blast
qed

text \<open>Where an entry of a materialised snapshot comes from.\<close>

definition from_raw_open :: "status_day \<Rightarrow> raw_open \<Rightarrow> eligibility \<Rightarrow> bool" where
  "from_raw_open d r e \<longleftrightarrow>
     e = \<lparr>el_timestamp = ro_timestamp r, el_trading_day = ro_trading_day r,
          el_is_exchange_open = True, el_suspension_state = sd_suspension_state d,
          el_buy_blocked_at_open = at_upper_limit d (ro_raw_open r),
          el_sell_blocked_at_open = at_lower_limit d (ro_raw_open r), el_evidence_complete = True\<rparr>"

definition from_absence :: "(int \<Rightarrow> int) \<Rightarrow> status_day \<Rightarrow> eligibility \<Rightarrow> bool" where
  "from_absence wall d e \<longleftrightarrow>
     e = \<lparr>el_timestamp = Aware (wall (sd_day d * day_us + half_past_nine)), el_trading_day = sd_day d,
          el_is_exchange_open = True, el_suspension_state = sd_suspension_state d,
          el_buy_blocked_at_open = False, el_sell_blocked_at_open = False,
          el_evidence_complete = (sd_suspension_state d = SUSPENDED)\<rparr>"

text \<open>
  C5. A materialised snapshot covers every natural day of its query once and in order, its
  openings are strictly ascending, and each opening is joined to an open day of the same
  date: either from a raw open, with the limit flags that the raw open and the raw limits of that
  day give, or, for daily and weekly data only, standing for a day without a raw open,
  never blocked by a limit and complete evidence only of a suspension.
\<close>

theorem materialize_joins_evidence:
  assumes "materialize_execution_status hash wall q days raw_opens source fetched cutoff level = Inr s"
  shows "map sd_day (ss_days s) = [sq_start q..sq_end q - 1]
    \<and> sorted_wrt (<) (map (instant \<circ> el_timestamp) (ss_eligibility s))
    \<and> (\<forall>e \<in> set (ss_eligibility s). \<exists>d \<in> set (ss_days s).
         sd_day d = el_trading_day e \<and> sd_is_exchange_open d
         \<and> ((\<exists>r \<in> set raw_opens. from_raw_open d r e)
            \<or> (sq_period q \<noteq> MIN60 \<and> sd_day d \<notin> ro_trading_day ` set raw_opens
                \<and> from_absence wall d e)))"
proof -
  let ?missing = "filter (\<lambda>d. sd_is_exchange_open d \<and> sd_day d \<notin> ro_trading_day ` set raw_opens) days"
  from assms obtain joined absent where
      j: "traverse (join_raw_open days) (sort_key (instant \<circ> ro_timestamp) raw_opens) = Inr joined"
    and a: "(if sq_period q = DAY \<or> sq_period q = WEEK then traverse (absent_open wall) ?missing
             else Inr []) = Inr absent"
    and v: "validate_status_snapshot hash (frozen_snapshot hash q days
          (sort_key (instant \<circ> el_timestamp) (joined @ absent)) source fetched cutoff level) = Inr s"
    unfolding materialize_execution_status_def bind_res_Inr_iff Let_def by blast
  note snap = validate_status_snapshot_Inr [OF v]
  have fz: "ss_query s = q" "ss_days s = days" "set (ss_eligibility s) = set joined \<union> set absent"
    using snap by (simp_all add: frozen_snapshot_def)
  have "\<exists>d \<in> set days. sd_day d = el_trading_day e \<and> sd_is_exchange_open d
      \<and> (\<exists>r \<in> set raw_opens. from_raw_open d r e)" if e: "e \<in> set joined" for e
  proof -
    obtain r where r: "r \<in> set raw_opens" "join_raw_open days r = Inr e"
      using traverse_mem [OF j e] by auto
    from join_raw_open_Inr [OF r(2)] obtain d where d: "day_index days (ro_trading_day r) = Some d"
        "sd_is_exchange_open d" "from_raw_open d r e"
      unfolding from_raw_open_def by blast
    have "el_trading_day e = ro_trading_day r" using d(3) by (simp add: from_raw_open_def)
    then show ?thesis using day_index_SomeD [OF d(1)] d(2,3) r(1) by auto
  qed
  moreover have "\<exists>d \<in> set days. sd_day d = el_trading_day e \<and> sd_is_exchange_open d
      \<and> sq_period q \<noteq> MIN60 \<and> sd_day d \<notin> ro_trading_day ` set raw_opens \<and> from_absence wall d e"
    if e: "e \<in> set absent" for e
  proof -
    have p: "sq_period q = DAY \<or> sq_period q = WEEK"
      using a e by (auto split: if_splits)
    with a have t: "traverse (absent_open wall) ?missing = Inr absent" by simp
    obtain d where d: "d \<in> set ?missing" "absent_open wall d = Inr e"
      using traverse_mem [OF t e] by blast
    have "from_absence wall d e" "el_trading_day e = sd_day d"
      using absent_open_Inr [OF d(2)] by (simp_all add: from_absence_def)
    moreover have "sq_period q \<noteq> MIN60" using p by auto
    moreover have "d \<in> set days" "sd_is_exchange_open d" "sd_day d \<notin> ro_trading_day ` set raw_opens"
      using d(1) by simp_all
    ultimately show ?thesis by metis
  qed
  ultimately have "\<forall>e \<in> set joined \<union> set absent. \<exists>d \<in> set days.
         sd_day d = el_trading_day e \<and> sd_is_exchange_open d
         \<and> ((\<exists>r \<in> set raw_opens. from_raw_open d r e)
            \<or> (sq_period q \<noteq> MIN60 \<and> sd_day d \<notin> ro_trading_day ` set raw_opens
                \<and> from_absence wall d e))" by (metis Un_iff)
  moreover have "map sd_day (ss_days s) = [sq_start q..sq_end q - 1]"
    using snap fz by (simp add: frozen_snapshot_def)
  ultimately show ?thesis using snap fz by simp
qed

definition example_query :: status_query where
  "example_query = \<lparr>sq_symbol = ''600000.SH'', sq_exchange = ''SH'', sq_start = 1, sq_end = 3, sq_period = DAY\<rparr>"

definition example_days :: "status_day list" where
  "example_days =
     [\<lparr>sd_day = 1, sd_exchange = ''SH'', sd_is_exchange_open = True, sd_suspension_state = NORMAL,
       sd_raw_upper_limit = Some (Dec False 110 (-1)), sd_raw_lower_limit = Some (Dec False 90 (-1))\<rparr>,
      \<lparr>sd_day = 2, sd_exchange = ''SH'', sd_is_exchange_open = True, sd_suspension_state = SUSPENDED,
       sd_raw_upper_limit = Some (Dec False 110 (-1)), sd_raw_lower_limit = Some (Dec False 90 (-1))\<rparr>]"

definition example_open :: raw_open where
  "example_open = \<lparr>ro_timestamp = Aware (day_us + 5400000000), ro_trading_day = 1, ro_raw_open = Dec False 11 0\<rparr>"

definition example_snapshot :: "status_snapshot res" where
  "example_snapshot = materialize_execution_status (\<lambda>_. ''0'') (\<lambda>t. t - 28800000000) example_query
     example_days [example_open] ''tushare'' (Aware 900) (Aware 800) AUTHORITATIVE"

lemma upto_1_2: "[1..2] = [1, 2 :: int]"
  by code_simp

theorem materialize_joins_evidence_witness:
  "\<exists>s. example_snapshot = Inr s
     \<and> sorted_wrt (<) (map (instant \<circ> el_timestamp) (ss_eligibility s))
     \<and> map el_buy_blocked_at_open (ss_eligibility s) = [True, False]"
proof -
  let ?e = "Aware (day_us + 5400000000)"
  let ?o = "\<lparr>el_timestamp = Aware (day_us + 5400000000), el_trading_day = 1, el_is_exchange_open = True,
    el_suspension_state = NORMAL, el_buy_blocked_at_open = True, el_sell_blocked_at_open = False,
    el_evidence_complete = True\<rparr>"
  let ?a = "\<lparr>el_timestamp = Aware (2 * day_us + 5400000000), el_trading_day = 2, el_is_exchange_open = True,
    el_suspension_state = SUSPENDED, el_buy_blocked_at_open = False, el_sell_blocked_at_open = False,
    el_evidence_complete = True\<rparr>"
  have j: "join_raw_open example_days example_open = Inr ?o"
    by (simp add: join_raw_open_def day_index_def example_days_def example_open_def
        validate_eligibility_def dval_def)
  have f: "filter (\<lambda>d. sd_is_exchange_open d \<and> sd_day d \<notin> ro_trading_day ` set [example_open]) example_days
      = [example_days ! 1]"
    by (simp add: example_days_def example_open_def)
  have a: "absent_open (\<lambda>t. t - 28800000000) (example_days ! 1) = Inr ?a"
    by (simp add: absent_open_def example_days_def validate_eligibility_def half_past_nine_def)
  have v: "validate_status_snapshot (\<lambda>_. ''0'') (frozen_snapshot (\<lambda>_. ''0'') example_query example_days
      [?o, ?a] ''tushare'' (Aware 900) (Aware 800) AUTHORITATIVE) = Inr (frozen_snapshot (\<lambda>_. ''0'')
      example_query example_days [?o, ?a] ''tushare'' (Aware 900) (Aware 800) AUTHORITATIVE)"
    by (simp add: validate_status_snapshot_def frozen_snapshot_def example_query_def example_days_def
        upto_1_2 day_us_def Let_def)
  have srt: "sort_key (instant \<circ> el_timestamp) ([?o] @ [?a]) = [?o, ?a]"
    by (simp add: day_us_def)
  have t1: "traverse (join_raw_open example_days) (sort_key (instant \<circ> ro_timestamp) [example_open]) = Inr [?o]"
    by (simp add: j)
  have t2: "traverse (absent_open (\<lambda>t. t - 28800000000)) [example_days ! 1] = Inr [?a]"
    by (simp only: traverse.simps a bind_res_simps)
  have p: "sq_period example_query = DAY" by (simp add: example_query_def)
  have "example_snapshot = Inr (frozen_snapshot (\<lambda>_. ''0'')
      example_query example_days [?o, ?a] ''tushare'' (Aware 900) (Aware 800) AUTHORITATIVE)"
    unfolding example_snapshot_def materialize_execution_status_def f
    by (simp only: t1 bind_res_simps p simp_thms if_True t2 Let_def srt v)
  then obtain s where s: "example_snapshot = Inr s"
    and b: "map el_buy_blocked_at_open (ss_eligibility s) = [True, False]"
    by (simp add: frozen_snapshot_def)
  have "sorted_wrt (<) (map (instant \<circ> el_timestamp) (ss_eligibility s))"
    by (rule conjunct1 [OF conjunct2 [OF materialize_joins_evidence [OF s [unfolded example_snapshot_def]]]])
  with s b show ?thesis by (intro exI [of _ s] conjI)
qed

text \<open>
  C6. The dataset version is not an identity of the evidence: whatever the hash, a day whose
  upper limit is 100 and one whose upper limit is 10 are both valid evidence and give the same
  version, since \<open>_decimal_text\<close> strips the trailing zeros of a text without a point.
\<close>

definition limit_day :: "nat \<Rightarrow> status_day" where
  "limit_day upper = \<lparr>sd_day = 1, sd_exchange = ''SH'', sd_is_exchange_open = True,
     sd_suspension_state = NORMAL, sd_raw_upper_limit = Some (Dec False upper 0),
     sd_raw_lower_limit = Some (Dec False 9 0)\<rparr>"

lemma decimal_text_100: "decimal_text (Some (Dec False 100 0)) = Some ''1''" by code_simp
lemma decimal_text_10: "decimal_text (Some (Dec False 10 0)) = Some ''1''" by code_simp

theorem dataset_version_collision:
  "validate_status_day (limit_day 100) = Inr () \<and> validate_status_day (limit_day 10) = Inr ()
    \<and> at_upper_limit (limit_day 10) (Dec False 50 0) \<and> \<not> at_upper_limit (limit_day 100) (Dec False 50 0)
    \<and> dataset_version hash q [limit_day 100] elig source level cutoff
      = dataset_version hash q [limit_day 10] elig source level cutoff"
proof -
  have "day_entry (limit_day 100) = day_entry (limit_day 10)"
    by (simp add: day_entry_def limit_day_def decimal_text_100 decimal_text_10)
  then have "dataset_version hash q [limit_day 100] elig source level cutoff
      = dataset_version hash q [limit_day 10] elig source level cutoff"
    by (simp add: dataset_version_def)
  moreover have "validate_status_day (limit_day 100) = Inr ()" "validate_status_day (limit_day 10) = Inr ()"
    by (simp_all add: validate_status_day_def limit_day_def dval_def)
  moreover have "at_upper_limit (limit_day 10) (Dec False 50 0)"
    "\<not> at_upper_limit (limit_day 100) (Dec False 50 0)"
    by (simp_all add: at_upper_limit_def limit_day_def dval_def)
  ultimately show ?thesis by blast
qed

end
