(* ===== verification/Order_Events.thy ===== *)
theory Order_Events
  imports Py_Decimal Py_Time
begin

text \<open>
  The immutable order events of \<open>backtest/events.py\<close>: one constructor per event class, and
  for each class the constructor call with the checks of its \<open>__post_init__\<close>. Checks that the
  HOL types already enforce (a side is buy or sell, a reason is a member of its enumeration,
  a timestamp is a datetime) have no branch.
\<close>

datatype order_side = Buy | Sell

datatype signal_code = BUY | SELL

datatype ignored_reason =
    ALREADY_HOLDING
  | NOT_HOLDING
  | SAME_SIDE_ORDER_PENDING
  | CONFLICTING_SIGNALS

datatype cancellation_reason = OPPOSITE_SIGNAL

datatype order_event =
    OrderPending (pending_side: order_side) (pending_signal_at: pytime) (pending_eligible_at: pytime)
  | IgnoredSignal (ignored_reason: ignored_reason) (ignored_signal: "signal_code option")
      (ignored_at: pytime)
  | OrderCancelled (cancelled_side: order_side) (cancelled_reason: cancellation_reason)
      (cancelled_at: pytime)
  | OrderBlocked (blocked_side: order_side) (blocked_at: pytime) (blocked_reason: string)
  | OrderFilled (filled_side: order_side) (filled_signal_at: pytime) (filled_time: pytime)
      (filled_price: dec) (filled_quantity: int)
  | OrderUnfilled (unfilled_side: order_side) (unfilled_signal_at: pytime)
      (unfilled_eligible_at: pytime) (unfilled_ended_at: pytime)
  | OpenTradeMarked (marked_entry_at: pytime) (marked_entry_price: dec) (marked_quantity: int)
      (marked_at: pytime) (marked_price: dec) (marked_floating_pnl: dec)

fun side_code :: "order_side \<Rightarrow> signal_code" where
  "side_code Buy = BUY"
| "side_code Sell = SELL"

section \<open>Field checks\<close>

text \<open>A price argument may be any Decimal; a finite positive one is returned.\<close>

fun validate_price :: "string \<Rightarrow> pydec \<Rightarrow> dec res" where
  "validate_price field_name (Finite d) =
     (if dval d \<le> 0 then Inl (ValueError (field_name @ '' must be a positive finite Decimal''))
      else Inr d)"
| "validate_price field_name _ = Inl (ValueError (field_name @ '' must be a positive finite Decimal''))"

definition validate_quantity :: "int \<Rightarrow> unit res" where
  "validate_quantity value =
     (if value \<le> 0 then Inl (ValueError ''quantity must be a positive integer'') else Inr ())"

definition max_reason_code_length :: nat where
  "max_reason_code_length = 64"

definition ascii_lower :: "char \<Rightarrow> bool" where
  "ascii_lower c \<longleftrightarrow> 97 \<le> (of_char c :: nat) \<and> (of_char c :: nat) \<le> 122"

definition reason_char :: "char \<Rightarrow> bool" where
  "reason_char c \<longleftrightarrow> ascii_lower c \<or> (48 \<le> (of_char c :: nat) \<and> (of_char c :: nat) \<le> 57)
     \<or> c = CHR ''_''"

text \<open>\<open>re.compile(r"^[a-z][a-z0-9_]*$").fullmatch\<close>\<close>

fun reason_code_pattern :: "string \<Rightarrow> bool" where
  "reason_code_pattern [] = False"
| "reason_code_pattern (c # cs) = (ascii_lower c \<and> list_all reason_char cs)"

definition validate_reason_code :: "string \<Rightarrow> unit res" where
  "validate_reason_code value =
     (if length value > max_reason_code_length \<or> \<not> reason_code_pattern value
      then Inl (ValueError ''reason must be a nonblank lowercase snake_case code of at most 64 characters'')
      else Inr ())"

lemma validate_price_Inr [res_simps]:
  "validate_price f x = Inr d \<longleftrightarrow> x = Finite d \<and> 0 < dval d"
  by (cases x) (auto simp: not_le)

lemma validate_quantity_Inr [res_simps]: "validate_quantity q = Inr u \<longleftrightarrow> 0 < q"
  by (auto simp: validate_quantity_def)

lemma validate_reason_code_Inr [res_simps]:
  "validate_reason_code v = Inr u \<longleftrightarrow> length v \<le> max_reason_code_length \<and> reason_code_pattern v"
  by (auto simp: validate_reason_code_def)

section \<open>Constructor calls\<close>

definition mk_order_pending :: "order_side \<Rightarrow> pytime \<Rightarrow> pytime \<Rightarrow> order_event res" where
  "mk_order_pending side signal_at eligible_at =
     then_res (validate_timestamp ''signal_at'' signal_at)
    (then_res (validate_timestamp ''eligible_at'' eligible_at)
    (if instant eligible_at < instant signal_at
     then Inl (ValueError ''eligible_at cannot precede signal_at'')
     else Inr (OrderPending side signal_at eligible_at)))"

definition mk_ignored_signal ::
  "ignored_reason \<Rightarrow> signal_code option \<Rightarrow> pytime \<Rightarrow> order_event res" where
  "mk_ignored_signal reason signal tm =
     (if reason = CONFLICTING_SIGNALS \<and> signal \<noteq> None
      then Inl (ValueError ''conflicting signal event must use signal None'')
      else if reason \<noteq> CONFLICTING_SIGNALS \<and> signal = None
      then Inl (ValueError ''non-conflicting ignored event requires a signal'')
      else then_res (validate_timestamp ''at'' tm) (Inr (IgnoredSignal reason signal tm)))"

definition mk_order_cancelled ::
  "order_side \<Rightarrow> cancellation_reason \<Rightarrow> pytime \<Rightarrow> order_event res" where
  "mk_order_cancelled side reason tm =
     then_res (validate_timestamp ''at'' tm) (Inr (OrderCancelled side reason tm))"

definition mk_order_blocked :: "order_side \<Rightarrow> pytime \<Rightarrow> string \<Rightarrow> order_event res" where
  "mk_order_blocked side tm reason =
     then_res (validate_timestamp ''at'' tm)
    (then_res (validate_reason_code reason) (Inr (OrderBlocked side tm reason)))"

definition mk_order_filled ::
  "order_side \<Rightarrow> pytime \<Rightarrow> pytime \<Rightarrow> pydec \<Rightarrow> int \<Rightarrow> order_event res" where
  "mk_order_filled side signal_at filled_at price quantity =
     then_res (validate_timestamp ''signal_at'' signal_at)
    (then_res (validate_timestamp ''filled_at'' filled_at)
    (if instant filled_at < instant signal_at
     then Inl (ValueError ''filled_at cannot precede signal_at'')
     else bind_res (validate_price ''price'' price) (\<lambda>p.
          then_res (validate_quantity quantity)
          (Inr (OrderFilled side signal_at filled_at p quantity)))))"

definition mk_order_unfilled ::
  "order_side \<Rightarrow> pytime \<Rightarrow> pytime \<Rightarrow> pytime \<Rightarrow> order_event res" where
  "mk_order_unfilled side signal_at eligible_at ended_at =
     then_res (validate_timestamp ''signal_at'' signal_at)
    (then_res (validate_timestamp ''eligible_at'' eligible_at)
    (then_res (validate_timestamp ''ended_at'' ended_at)
    (if instant eligible_at < instant signal_at
     then Inl (ValueError ''eligible_at cannot precede signal_at'')
     else if instant ended_at < instant signal_at
     then Inl (ValueError ''ended_at cannot precede signal_at'')
     else Inr (OrderUnfilled side signal_at eligible_at ended_at))))"

definition mk_open_trade_marked ::
  "pytime \<Rightarrow> pydec \<Rightarrow> int \<Rightarrow> pytime \<Rightarrow> pydec \<Rightarrow> dec \<Rightarrow> order_event res" where
  "mk_open_trade_marked entry_at entry_price quantity mark_at mark_price floating_pnl =
     then_res (validate_timestamp ''entry_at'' entry_at)
    (then_res (validate_timestamp ''mark_at'' mark_at)
    (if instant mark_at < instant entry_at
     then Inl (ValueError ''mark_at cannot precede entry_at'')
     else bind_res (validate_price ''entry_price'' entry_price) (\<lambda>ep.
          bind_res (validate_price ''mark_price'' mark_price) (\<lambda>mp.
          then_res (validate_quantity quantity)
          (Inr (OpenTradeMarked entry_at ep quantity mark_at mp floating_pnl))))))"

lemmas mk_event_defs =
  mk_order_pending_def mk_ignored_signal_def mk_order_cancelled_def mk_order_blocked_def
  mk_order_filled_def mk_order_unfilled_def mk_open_trade_marked_def

section \<open>Operation time\<close>

text \<open>\<open>_event_operation_time\<close> of \<open>backtest/trades.py\<close>: when the event was recorded.\<close>

fun event_operation_time :: "order_event \<Rightarrow> pytime" where
  "event_operation_time (OrderPending _ signal_at _) = signal_at"
| "event_operation_time (IgnoredSignal _ _ tm) = tm"
| "event_operation_time (OrderCancelled _ _ tm) = tm"
| "event_operation_time (OrderBlocked _ tm _) = tm"
| "event_operation_time (OrderFilled _ _ filled_at _ _) = filled_at"
| "event_operation_time (OrderUnfilled _ _ _ ended_at) = ended_at"
| "event_operation_time (OpenTradeMarked _ _ _ mark_at _ _) = mark_at"

end
