(* ===== verification/Order_Machine.thy ===== *)
theory Order_Machine
  imports Order_Events
begin

text \<open>
  \<open>SymbolStateMachine\<close> of \<open>backtest/state_machine.py\<close>: the order state of one symbol over one
  backtest range. The object's fields are a record; a method takes the record and returns the
  new one with the events it recorded, or the exception that leaves the call. (Its only
  client abandons the machine when a call raises, so the fields an exception leaves behind
  are not part of the model.)
\<close>

datatype position_state = FLAT | PENDING_BUY | HELD | PENDING_SELL

record pending_order =
  po_side :: order_side
  po_signal_at :: pytime
  po_eligible_at :: pytime

record position_lot =
  lot_entry_at :: pytime
  lot_entry_price :: dec
  lot_quantity :: int

record machine =
  m_state :: position_state
  m_pending :: "pending_order option"
  m_position :: "position_lot option"
  m_events :: "order_event list"
  m_terminal :: bool
  m_last :: "pytime option"

type_synonym outcome = "(machine \<times> order_event list) res"

definition machine_init :: machine where
  "machine_init = \<lparr>m_state = FLAT, m_pending = None, m_position = None, m_events = [],
     m_terminal = False, m_last = None\<rparr>"

definition holding_count :: "machine \<Rightarrow> nat" where
  "holding_count m = (if m_position m \<noteq> None then 1 else 0)"

definition pending_count :: "machine \<Rightarrow> nat" where
  "pending_count m = (if m_pending m \<noteq> None then 1 else 0)"

section \<open>Guards and bookkeeping\<close>

definition require_active :: "machine \<Rightarrow> unit res" where
  "require_active m =
     (if m_terminal m then Inl (RuntimeError ''state machine is terminal'') else Inr ())"

definition require_pending :: "machine \<Rightarrow> pending_order res" where
  "require_pending m =
     (case m_pending m of None \<Rightarrow> Inl (RuntimeError ''operation requires a pending order'')
      | Some p \<Rightarrow> Inr p)"

definition validate_operation_time :: "machine \<Rightarrow> pytime \<Rightarrow> unit res" where
  "validate_operation_time m tm =
     then_res (validate_timestamp ''at'' tm)
     (case m_last m of None \<Rightarrow> Inr ()
      | Some l \<Rightarrow> if instant tm < instant l
          then Inl (ValueError ''operations must be processed in chronological order'')
          else Inr ())"

definition advance_clock :: "pytime \<Rightarrow> machine \<Rightarrow> machine" where
  "advance_clock tm m = m\<lparr>m_last := Some tm\<rparr>"

definition record_events :: "machine \<Rightarrow> order_event list \<Rightarrow> outcome" where
  "record_events m evs = Inr (m\<lparr>m_events := m_events m @ evs\<rparr>, evs)"

definition open_pending :: "machine \<Rightarrow> order_side \<Rightarrow> pytime \<Rightarrow> pytime \<Rightarrow> outcome" where
  "open_pending m side signal_at eligible_at =
     bind_res (mk_order_pending side signal_at eligible_at) (\<lambda>e.
       record_events
         (m\<lparr>m_pending := Some \<lparr>po_side = side, po_signal_at = signal_at, po_eligible_at = eligible_at\<rparr>,
            m_state := (case side of Buy \<Rightarrow> PENDING_BUY | Sell \<Rightarrow> PENDING_SELL)\<rparr>)
         [e])"

definition cancel_pending :: "machine \<Rightarrow> pytime \<Rightarrow> position_state \<Rightarrow> outcome" where
  "cancel_pending m tm next_state =
     bind_res (require_pending m) (\<lambda>p.
     bind_res (mk_order_cancelled (po_side p) OPPOSITE_SIGNAL tm) (\<lambda>e.
       record_events (m\<lparr>m_pending := None, m_state := next_state\<rparr>) [e]))"

definition ignored :: "machine \<Rightarrow> ignored_reason \<Rightarrow> signal_code option \<Rightarrow> pytime \<Rightarrow> outcome" where
  "ignored m reason signal tm =
     bind_res (mk_ignored_signal reason signal tm) (\<lambda>e. record_events m [e])"

section \<open>Signals\<close>

definition on_signal ::
  "machine \<Rightarrow> signal_code option \<Rightarrow> pytime \<Rightarrow> pytime option \<Rightarrow> outcome" where
  "on_signal m signal tm eligible_at =
     then_res (require_active m)
    (then_res (validate_operation_time m tm)
    (case signal of
       None \<Rightarrow> Inr (advance_clock tm m, [])
     | Some sig \<Rightarrow>
        (let first_eligible_at = (case eligible_at of None \<Rightarrow> tm | Some e \<Rightarrow> e);
             m = advance_clock tm m
         in then_res (validate_timestamp ''eligible_at'' first_eligible_at)
           (if instant first_eligible_at < instant tm
            then Inl (ValueError ''eligible_at cannot precede signal timestamp'')
            else case m_state m of
              FLAT \<Rightarrow>
                (if sig = SELL then ignored m NOT_HOLDING (Some sig) tm
                 else open_pending m Buy tm first_eligible_at)
            | PENDING_BUY \<Rightarrow>
                (if sig = BUY then ignored m SAME_SIDE_ORDER_PENDING (Some sig) tm
                 else cancel_pending m tm FLAT)
            | HELD \<Rightarrow>
                (if sig = BUY then ignored m ALREADY_HOLDING (Some sig) tm
                 else open_pending m Sell tm first_eligible_at)
            | PENDING_SELL \<Rightarrow>
                (if sig = SELL then ignored m SAME_SIDE_ORDER_PENDING (Some sig) tm
                 else cancel_pending m tm HELD)))))"

definition on_signals ::
  "machine \<Rightarrow> bool option \<Rightarrow> bool option \<Rightarrow> pytime \<Rightarrow> pytime option \<Rightarrow> outcome" where
  "on_signals m buy sell tm eligible_at =
     then_res (require_active m)
    (then_res (validate_operation_time m tm)
    (if buy = Some True \<and> sell = Some True
     then ignored (advance_clock tm m) CONFLICTING_SIGNALS None tm
     else if buy = Some True then on_signal m (Some BUY) tm eligible_at
     else if sell = Some True then on_signal m (Some SELL) tm eligible_at
     else Inr (advance_clock tm m, [])))"

section \<open>Execution and the end of the range\<close>

definition block_pending :: "machine \<Rightarrow> pytime \<Rightarrow> string \<Rightarrow> outcome" where
  "block_pending m tm reason =
     then_res (validate_reason_code reason)
    (then_res (require_active m)
    (bind_res (require_pending m) (\<lambda>p.
     then_res (validate_operation_time m tm)
    (if instant tm < instant (po_eligible_at p)
     then Inl (ValueError ''blocked timestamp cannot precede order eligibility'')
     else bind_res (mk_order_blocked (po_side p) tm reason) (\<lambda>e.
          record_events (advance_clock tm m) [e])))))"

text \<open>The two branches of a fill: the filled quantity and the machine with its new position.\<close>

definition settle_buy :: "machine \<Rightarrow> pytime \<Rightarrow> dec \<Rightarrow> int option \<Rightarrow> (int \<times> machine) res" where
  "settle_buy m tm price quantity =
     (case quantity of
        None \<Rightarrow> Inl (ValueError ''buy fill quantity must be a positive integer'')
      | Some q \<Rightarrow>
          if q \<le> 0 then Inl (ValueError ''buy fill quantity must be a positive integer'')
          else Inr (q, (advance_clock tm m)
            \<lparr>m_position := Some \<lparr>lot_entry_at = tm, lot_entry_price = price, lot_quantity = q\<rparr>,
             m_state := HELD\<rparr>))"

definition settle_sell :: "machine \<Rightarrow> pytime \<Rightarrow> int option \<Rightarrow> (int \<times> machine) res" where
  "settle_sell m tm quantity =
     (case m_position m of
        None \<Rightarrow> Inl (RuntimeError ''pending sell requires a held position'')
      | Some lot \<Rightarrow>
          if quantity \<noteq> None \<and> quantity \<noteq> Some (lot_quantity lot)
          then Inl (ValueError ''sell fill quantity must equal the held quantity'')
          else Inr (lot_quantity lot, (advance_clock tm m)\<lparr>m_position := None, m_state := FLAT\<rparr>))"

definition fill_pending :: "machine \<Rightarrow> pytime \<Rightarrow> pydec \<Rightarrow> int option \<Rightarrow> outcome" where
  "fill_pending m tm price quantity =
     then_res (require_active m)
    (bind_res (require_pending m) (\<lambda>p.
     then_res (validate_operation_time m tm)
    (if instant tm < instant (po_eligible_at p)
     then Inl (ValueError ''fill timestamp cannot precede order eligibility'')
     else bind_res (validate_price ''price'' price) (\<lambda>d.
     bind_res (case po_side p of Buy \<Rightarrow> settle_buy m tm d quantity | Sell \<Rightarrow> settle_sell m tm quantity)
       (\<lambda>(q, m'). bind_res (mk_order_filled (po_side p) (po_signal_at p) tm price q) (\<lambda>e.
          record_events (m'\<lparr>m_pending := None\<rparr>) [e]))))))"

text \<open>The mark a held position needs at the end of the range, checked.\<close>

definition check_mark :: "machine \<Rightarrow> pydec option \<Rightarrow> (dec option) res" where
  "check_mark m mark_price =
     (case (m_position m, mark_price) of
        (Some _, None) \<Rightarrow> Inl (ValueError ''mark_price is required for a held position'')
      | (Some _, Some p) \<Rightarrow> bind_res (validate_price ''mark_price'' p) (\<lambda>d. Inr (Some d))
      | (None, Some _) \<Rightarrow> Inl (ValueError ''mark_price requires a held position'')
      | (None, None) \<Rightarrow> Inr None)"

definition end_pending :: "machine \<Rightarrow> pytime \<Rightarrow> (order_event list) res" where
  "end_pending m tm =
     (case m_pending m of
        None \<Rightarrow> Inr []
      | Some p \<Rightarrow>
          bind_res (mk_order_unfilled (po_side p) (po_signal_at p) (po_eligible_at p) tm)
            (\<lambda>e. Inr [e]))"

definition mark_lot :: "position_lot \<Rightarrow> pytime \<Rightarrow> dec \<Rightarrow> order_event res" where
  "mark_lot lot tm mp =
     bind_res (sub28 mp (lot_entry_price lot)) (\<lambda>diff.
     bind_res (mul28 diff (dec_of_int (lot_quantity lot))) (\<lambda>pnl.
     mk_open_trade_marked (lot_entry_at lot) (Finite (lot_entry_price lot))
       (lot_quantity lot) tm (Finite mp) pnl))"

definition mark_position :: "machine \<Rightarrow> pytime \<Rightarrow> dec option \<Rightarrow> (order_event list) res" where
  "mark_position m tm mark =
     (case (m_position m, mark) of
        (Some lot, Some mp) \<Rightarrow> bind_res (mark_lot lot tm mp) (\<lambda>e. Inr [e])
      | _ \<Rightarrow> Inr [])"

definition finish_range :: "machine \<Rightarrow> pytime \<Rightarrow> pydec option \<Rightarrow> outcome" where
  "finish_range m tm mark_price =
     then_res (require_active m)
    (then_res (validate_operation_time m tm)
    (bind_res (check_mark m mark_price) (\<lambda>mark.
     bind_res (end_pending m tm) (\<lambda>unfilled.
     bind_res (mark_position m tm mark) (\<lambda>marked.
     record_events
       ((advance_clock tm m)\<lparr>m_pending := None,
          m_state := (if m_position m \<noteq> None then HELD else FLAT), m_terminal := True\<rparr>)
       (unfilled @ marked))))))"

section \<open>Well-formedness\<close>

text \<open>
  The state name says exactly which of the pending order and the position exist; times are
  aware and ordered; a position has a positive price and quantity; the log is chronological
  and lies before the clock.
\<close>

definition shape_ok :: "machine \<Rightarrow> bool" where
  "shape_ok m \<longleftrightarrow>
     (case m_state m of
        FLAT \<Rightarrow> m_pending m = None \<and> m_position m = None
      | PENDING_BUY \<Rightarrow> (\<exists>p. m_pending m = Some p \<and> po_side p = Buy) \<and> m_position m = None
      | HELD \<Rightarrow> m_pending m = None \<and> m_position m \<noteq> None
      | PENDING_SELL \<Rightarrow> (\<exists>p. m_pending m = Some p \<and> po_side p = Sell) \<and> m_position m \<noteq> None)"

definition not_after :: "pytime \<Rightarrow> pytime option \<Rightarrow> bool" where
  "not_after t l \<longleftrightarrow> is_aware t \<and> (\<exists>c. l = Some c \<and> is_aware c \<and> instant t \<le> instant c)"

definition pending_ok :: "pytime option \<Rightarrow> pending_order \<Rightarrow> bool" where
  "pending_ok l p \<longleftrightarrow> not_after (po_signal_at p) l \<and> is_aware (po_eligible_at p)
     \<and> instant (po_signal_at p) \<le> instant (po_eligible_at p)"

definition lot_ok :: "pytime option \<Rightarrow> position_lot \<Rightarrow> bool" where
  "lot_ok l p \<longleftrightarrow> not_after (lot_entry_at p) l \<and> 0 < dval (lot_entry_price p) \<and> 0 < lot_quantity p"

definition log_ok :: "pytime option \<Rightarrow> order_event list \<Rightarrow> bool" where
  "log_ok l es \<longleftrightarrow> sorted (map (instant \<circ> event_operation_time) es)
     \<and> (\<forall>e \<in> set es. not_after (event_operation_time e) l)"

definition machine_wf :: "machine \<Rightarrow> bool" where
  "machine_wf m \<longleftrightarrow> shape_ok m \<and> (\<forall>l. m_last m = Some l \<longrightarrow> is_aware l)
     \<and> (\<forall>p. m_pending m = Some p \<longrightarrow> pending_ok (m_last m) p)
     \<and> (\<forall>p. m_position m = Some p \<longrightarrow> lot_ok (m_last m) p)
     \<and> log_ok (m_last m) (m_events m)"

lemmas [wf_simps] = machine_wf_def shape_ok_def pending_ok_def lot_ok_def

lemma not_after_mono: "not_after t l \<Longrightarrow> (\<And>c. l = Some c \<Longrightarrow> instant c \<le> instant d)
  \<Longrightarrow> is_aware d \<Longrightarrow> not_after t (Some d)"
  by (fastforce simp: not_after_def)

lemma log_ok_mono: "log_ok l es \<Longrightarrow> (\<And>c. l = Some c \<Longrightarrow> instant c \<le> instant d)
  \<Longrightarrow> is_aware d \<Longrightarrow> log_ok (Some d) es"
  by (auto simp: log_ok_def intro: not_after_mono)

lemma log_ok_append:
  assumes "log_ok l es" and "\<And>c. l = Some c \<Longrightarrow> instant c \<le> instant d" and "is_aware d"
    and "\<forall>e \<in> set new. event_operation_time e = d"
  shows "log_ok (Some d) (es @ new)"
proof -
  have "sorted (map (instant \<circ> event_operation_time) new)"
    using assms(4) by (auto simp: sorted_iff_nth_mono)
  moreover have "instant (event_operation_time e) \<le> instant d" if "e \<in> set es" for e
    using that assms(1,2) by (fastforce simp: log_ok_def not_after_def)
  ultimately show ?thesis
    using assms log_ok_mono [OF assms(1-3)]
    by (auto simp: log_ok_def sorted_append not_after_def)
qed

lemma validate_operation_time_Inr [res_simps]:
  "validate_operation_time m tm = Inr u \<longleftrightarrow>
     is_aware tm \<and> (\<forall>c. m_last m = Some c \<longrightarrow> instant c \<le> instant tm)"
  by (auto simp: validate_operation_time_def res_simps split: option.splits)

lemma require_active_Inr [res_simps]: "require_active m = Inr u \<longleftrightarrow> \<not> m_terminal m"
  by (simp add: require_active_def)

lemma require_pending_Inr [res_simps]: "require_pending m = Inr p \<longleftrightarrow> m_pending m = Some p"
  by (auto simp: require_pending_def split: option.splits)

lemma machine_wf_init: "machine_wf machine_init"
  by (simp add: wf_simps machine_init_def log_ok_def)

text \<open>Every operation moves the clock to its time and appends events of that time.\<close>

definition advances :: "pytime \<Rightarrow> machine \<Rightarrow> machine \<Rightarrow> order_event list \<Rightarrow> bool" where
  "advances tm m m' es \<longleftrightarrow> is_aware tm \<and> (\<forall>c. m_last m = Some c \<longrightarrow> instant c \<le> instant tm)
     \<and> m_last m' = Some tm \<and> m_events m' = m_events m @ es
     \<and> (\<forall>e \<in> set es. event_operation_time e = tm)"

lemma machine_wf_step:
  assumes "machine_wf m" and "advances tm m m' es" and "shape_ok m'"
    and "\<And>p. m_pending m' = Some p \<Longrightarrow> m_pending m = Some p \<or> pending_ok (Some tm) p"
    and "\<And>p. m_position m' = Some p \<Longrightarrow> m_position m = Some p \<or> lot_ok (Some tm) p"
  shows "machine_wf m'"
proof -
  have aw: "is_aware tm" and le: "\<And>c. m_last m = Some c \<Longrightarrow> instant c \<le> instant tm"
    and last: "m_last m' = Some tm" and ev: "m_events m' = m_events m @ es"
    and eq: "\<forall>e \<in> set es. event_operation_time e = tm"
    using assms(2) by (auto simp: advances_def)
  have "pending_ok (Some tm) p" if "m_pending m' = Some p" for p
    using assms(4) [OF that]
  proof
    assume "m_pending m = Some p"
    then have "pending_ok (m_last m) p" using assms(1) by (simp add: machine_wf_def)
    then show ?thesis using not_after_mono [OF _ le aw] by (auto simp: pending_ok_def)
  qed
  moreover have "lot_ok (Some tm) p" if "m_position m' = Some p" for p
    using assms(5) [OF that]
  proof
    assume "m_position m = Some p"
    then have "lot_ok (m_last m) p" using assms(1) by (simp add: machine_wf_def)
    then show ?thesis using not_after_mono [OF _ le aw] by (auto simp: lot_ok_def)
  qed
  moreover have "log_ok (Some tm) (m_events m')"
    unfolding ev using assms(1) le aw eq by (intro log_ok_append) (auto simp: machine_wf_def)
  ultimately show ?thesis using assms(3) last aw by (simp add: machine_wf_def)
qed

section \<open>What a successful call does\<close>

lemma on_signal_cases:
  assumes "machine_wf m" and "on_signal m signal tm el = Inr (m', es)"
  shows "\<not> m_terminal m \<and> advances tm m m' es \<and> shape_ok m' \<and> m_position m' = m_position m
    \<and> m_terminal m' = m_terminal m
    \<and> (m_pending m' = m_pending m \<and> (\<forall>e \<in> set es. is_IgnoredSignal e)
       \<or> (\<exists>p. m_pending m = Some p \<and> m_pending m' = None
            \<and> es = [OrderCancelled (po_side p) OPPOSITE_SIGNAL tm])
       \<or> (\<exists>p. m_pending m = None \<and> m_pending m' = Some p \<and> po_signal_at p = tm
            \<and> pending_ok (Some tm) p
            \<and> es = [OrderPending (po_side p) (po_signal_at p) (po_eligible_at p)]))"
proof -
  have shape: "shape_ok m" using assms(1) by (simp add: machine_wf_def)
  from assms(2) have act: "\<not> m_terminal m" and aw: "is_aware tm"
    and le: "\<forall>c. m_last m = Some c \<longrightarrow> instant c \<le> instant tm"
    by (auto simp: on_signal_def res_simps)
  show ?thesis
  proof (cases signal)
    case None
    then show ?thesis using assms(2) act aw le shape
      by (auto simp: on_signal_def res_simps advances_def advance_clock_def shape_ok_def
          split: position_state.splits)
  next
    case (Some sig)
    then show ?thesis using assms(2) act aw le shape
      by (cases "m_state m"; cases sig)
        (auto simp: on_signal_def res_simps Let_def advance_clock_def advances_def shape_ok_def
          ignored_def open_pending_def cancel_pending_def record_events_def mk_event_defs
          pending_ok_def not_after_def split: option.splits)
  qed
qed

lemma on_signals_Inr:
  assumes "on_signals m buy sell tm el = Inr (m', es)"
  shows "(buy = Some True \<and> sell = Some True \<and> \<not> m_terminal m \<and> is_aware tm
       \<and> (\<forall>c. m_last m = Some c \<longrightarrow> instant c \<le> instant tm)
       \<and> es = [IgnoredSignal CONFLICTING_SIGNALS None tm]
       \<and> m' = (advance_clock tm m)\<lparr>m_events := m_events m @ es\<rparr>)
    \<or> (\<exists>signal. on_signal m signal tm el = Inr (m', es)
       \<and> signal = (if buy = Some True then Some BUY else if sell = Some True then Some SELL else None))"
  using assms
  by (auto simp: on_signals_def res_simps ignored_def record_events_def mk_event_defs
      advance_clock_def on_signal_def split: if_splits)

lemma block_pending_Inr:
  assumes "block_pending m tm reason = Inr (m', es)"
  obtains p where "\<not> m_terminal m" and "m_pending m = Some p"
    and "instant (po_eligible_at p) \<le> instant tm"
    and "es = [OrderBlocked (po_side p) tm reason]"
    and "m' = (advance_clock tm m)\<lparr>m_events := m_events m @ es\<rparr>"
    and "advances tm m m' es"
  using assms
  by (auto simp: block_pending_def res_simps record_events_def mk_event_defs advances_def
      advance_clock_def)

lemma settle_buy_Inr:
  "settle_buy m tm d quantity = Inr (q, m') \<longleftrightarrow> quantity = Some q \<and> 0 < q
     \<and> m' = (advance_clock tm m)
         \<lparr>m_position := Some \<lparr>lot_entry_at = tm, lot_entry_price = d, lot_quantity = q\<rparr>,
          m_state := HELD\<rparr>"
  by (auto simp: settle_buy_def split: option.splits)

lemma settle_sell_Inr:
  "settle_sell m tm quantity = Inr (q, m') \<longleftrightarrow>
     (\<exists>lot. m_position m = Some lot \<and> q = lot_quantity lot \<and> (quantity = None \<or> quantity = Some q))
     \<and> m' = (advance_clock tm m)\<lparr>m_position := None, m_state := FLAT\<rparr>"
  by (auto simp: settle_sell_def split: option.splits)

lemma fill_pending_Inr:
  assumes "fill_pending m tm price quantity = Inr (m', es)"
  obtains p d q where "\<not> m_terminal m" and "m_pending m = Some p"
    and "instant (po_eligible_at p) \<le> instant tm" and "price = Finite d" and "0 < dval d"
    and "es = [OrderFilled (po_side p) (po_signal_at p) tm d q]"
    and "po_side p = Buy \<Longrightarrow> quantity = Some q \<and> 0 < q
      \<and> m_position m' = Some \<lparr>lot_entry_at = tm, lot_entry_price = d, lot_quantity = q\<rparr>
      \<and> m_state m' = HELD"
    and "po_side p = Sell \<Longrightarrow> (\<exists>lot. m_position m = Some lot \<and> q = lot_quantity lot)
      \<and> m_position m' = None \<and> m_state m' = FLAT"
    and "m_pending m' = None" and "m_terminal m' = m_terminal m" and "advances tm m m' es"
proof -
  from assms obtain p d q m1 where base: "\<not> m_terminal m" "m_pending m = Some p" "is_aware tm"
      "\<forall>c. m_last m = Some c \<longrightarrow> instant c \<le> instant tm"
      "instant (po_eligible_at p) \<le> instant tm" "price = Finite d" "0 < dval d"
    and settled: "(case po_side p of Buy \<Rightarrow> settle_buy m tm d quantity
        | Sell \<Rightarrow> settle_sell m tm quantity) = Inr (q, m1)"
    and out: "m' = m1\<lparr>m_pending := None, m_events := m_events m1 @ es\<rparr>"
      "es = [OrderFilled (po_side p) (po_signal_at p) tm d q]"
    by (auto simp: fill_pending_def res_simps record_events_def mk_order_filled_def)
  show ?thesis
  proof (cases "po_side p")
    case Buy
    with settled out base show ?thesis
      by (intro that [of p d q]) (auto simp: settle_buy_Inr advance_clock_def advances_def)
  next
    case Sell
    with settled out base show ?thesis
      by (intro that [of p d q]) (auto simp: settle_sell_Inr advance_clock_def advances_def)
  qed
qed

lemma check_mark_Inr:
  "check_mark m mark = Inr r \<longleftrightarrow>
     (m_position m = None \<and> mark = None \<and> r = None)
     \<or> (m_position m \<noteq> None \<and> (\<exists>d. mark = Some (Finite d) \<and> 0 < dval d \<and> r = Some d))"
  by (auto simp: check_mark_def res_simps split: option.splits)

lemma end_pending_Inr:
  "end_pending m tm = Inr es \<Longrightarrow> es = (case m_pending m of None \<Rightarrow> []
     | Some p \<Rightarrow> [OrderUnfilled (po_side p) (po_signal_at p) (po_eligible_at p) tm])"
  by (auto simp: end_pending_def res_simps mk_order_unfilled_def split: option.splits)

lemma mark_lot_Inr:
  "mark_lot lot tm mp = Inr e \<Longrightarrow> \<exists>diff pnl. sub28 mp (lot_entry_price lot) = Inr diff
     \<and> mul28 diff (dec_of_int (lot_quantity lot)) = Inr pnl
     \<and> e = OpenTradeMarked (lot_entry_at lot) (lot_entry_price lot) (lot_quantity lot) tm mp pnl"
  by (auto simp: mark_lot_def res_simps mk_open_trade_marked_def)

text \<open>The events a finished range adds: at most the unfilled order, then the open mark.\<close>

lemma finish_range_Inr:
  assumes "finish_range m tm mark = Inr (m', es)"
  obtains unfilled marked where "\<not> m_terminal m" and "es = unfilled @ marked"
    and "unfilled = (case m_pending m of None \<Rightarrow> []
      | Some p \<Rightarrow> [OrderUnfilled (po_side p) (po_signal_at p) (po_eligible_at p) tm])"
    and "m_position m = None \<Longrightarrow> mark = None \<and> marked = []"
    and "\<And>lot. m_position m = Some lot \<Longrightarrow> \<exists>mp e. mark = Some (Finite mp) \<and> 0 < dval mp
      \<and> mark_lot lot tm mp = Inr e \<and> marked = [e]"
    and "m_pending m' = None" and "m_position m' = m_position m" and "m_terminal m'"
    and "m_state m' = (if m_position m \<noteq> None then HELD else FLAT)"
    and "advances tm m m' es"
proof -
  from assms obtain mk unfilled marked where base: "\<not> m_terminal m" "is_aware tm"
      "\<forall>c. m_last m = Some c \<longrightarrow> instant c \<le> instant tm"
    and mk: "check_mark m mark = Inr mk" and u: "end_pending m tm = Inr unfilled"
    and p: "mark_position m tm mk = Inr marked"
    and out: "es = unfilled @ marked"
      "m' = (advance_clock tm m)\<lparr>m_pending := None,
          m_state := (if m_position m \<noteq> None then HELD else FLAT), m_terminal := True,
          m_events := m_events m @ unfilled @ marked\<rparr>"
    by (auto simp: finish_range_def res_simps record_events_def advance_clock_def)
  have u': "unfilled = (case m_pending m of None \<Rightarrow> []
     | Some p \<Rightarrow> [OrderUnfilled (po_side p) (po_signal_at p) (po_eligible_at p) tm])"
    using u by (rule end_pending_Inr)
  have n: "mark = None \<and> marked = []" if "m_position m = None"
    using that mk p by (simp add: check_mark_Inr mark_position_def)
  have s: "\<exists>mp e. mark = Some (Finite mp) \<and> 0 < dval mp \<and> mark_lot lot tm mp = Inr e \<and> marked = [e]"
    if "m_position m = Some lot" for lot
    using that mk p by (auto simp: check_mark_Inr mark_position_def res_simps)
  have "event_operation_time e = tm" if "e \<in> set es" for e
    using that u' n s out(1)
    by (cases "m_position m") (auto split: option.splits dest!: mark_lot_Inr)
  then have "advances tm m m' es" using base out by (simp add: advances_def advance_clock_def)
  with base out u' n s show ?thesis
    by (intro that [of unfilled marked]) (simp_all add: advance_clock_def)
qed

section \<open>The operations as inputs\<close>

datatype machine_input =
    Signals "bool option" "bool option" pytime "pytime option"
  | Block pytime string
  | Fill pytime pydec "int option"
  | Finish pytime "pydec option"

fun machine_call :: "machine \<Rightarrow> machine_input \<Rightarrow> outcome" where
  "machine_call m (Signals buy sell tm el) = on_signals m buy sell tm el"
| "machine_call m (Block tm reason) = block_pending m tm reason"
| "machine_call m (Fill tm price q) = fill_pending m tm price q"
| "machine_call m (Finish tm mark) = finish_range m tm mark"

fun input_time :: "machine_input \<Rightarrow> pytime" where
  "input_time (Signals _ _ tm _) = tm"
| "input_time (Block tm _) = tm"
| "input_time (Fill tm _ _) = tm"
| "input_time (Finish tm _) = tm"

definition machine_step :: "machine \<Rightarrow> machine_input \<Rightarrow> machine res" where
  "machine_step m i = bind_res (machine_call m i) (\<lambda>(m', _). Inr m')"

lemma machine_step_Inr: "machine_step m i = Inr m' \<longleftrightarrow> (\<exists>es. machine_call m i = Inr (m', es))"
  by (auto simp: machine_step_def res_simps)

section \<open>The order protocol\<close>

text \<open>
  What a log of order events means: an order opens only when none is pending, a buy only when
  flat and a sell only when held; it is cancelled, blocked, filled or left unfilled only while
  it is pending, and filled or blocked not before it is eligible; a buy fill opens a lot, a sell fill
  closes the whole lot; a mark describes the open lot. \<open>None\<close> is a violation.
\<close>

type_synonym order_view = "pending_order option \<times> position_lot option"

fun protocol :: "order_view \<Rightarrow> order_event \<Rightarrow> order_view option" where
  "protocol (p, l) (OrderPending side sig el) =
     (if p = None \<and> (side = Sell \<longleftrightarrow> l \<noteq> None)
      then Some (Some \<lparr>po_side = side, po_signal_at = sig, po_eligible_at = el\<rparr>, l) else None)"
| "protocol (p, l) (IgnoredSignal reason sig tm) =
     (if (case reason of
            CONFLICTING_SIGNALS \<Rightarrow> sig = None
          | ALREADY_HOLDING \<Rightarrow> p = None \<and> l \<noteq> None \<and> sig = Some BUY
          | NOT_HOLDING \<Rightarrow> p = None \<and> l = None \<and> sig = Some SELL
          | SAME_SIDE_ORDER_PENDING \<Rightarrow> (\<exists>o'. p = Some o' \<and> sig = Some (side_code (po_side o'))))
      then Some (p, l) else None)"
| "protocol (Some p, l) (OrderCancelled side reason tm) =
     (if po_side p = side then Some (None, l) else None)"
| "protocol (Some p, l) (OrderBlocked side tm reason) =
     (if po_side p = side \<and> instant (po_eligible_at p) \<le> instant tm then Some (Some p, l) else None)"
| "protocol (Some p, l) (OrderFilled side sig tm price q) =
     (if po_side p = side \<and> po_signal_at p = sig \<and> instant (po_eligible_at p) \<le> instant tm
         \<and> 0 < dval price
      then (case (side, l) of
              (Buy, None) \<Rightarrow>
                if 0 < q
                then Some (None, Some \<lparr>lot_entry_at = tm, lot_entry_price = price, lot_quantity = q\<rparr>)
                else None
            | (Sell, Some lot) \<Rightarrow> if q = lot_quantity lot then Some (None, None) else None
            | _ \<Rightarrow> None)
      else None)"
| "protocol (Some p, l) (OrderUnfilled side sig el tm) =
     (if p = \<lparr>po_side = side, po_signal_at = sig, po_eligible_at = el\<rparr> then Some (None, l) else None)"
| "protocol (None, Some lot) (OpenTradeMarked ea ep q tm mp pnl) =
     (if ea = lot_entry_at lot \<and> ep = lot_entry_price lot \<and> q = lot_quantity lot \<and> 0 < dval mp
      then Some (None, Some lot) else None)"
| "protocol _ _ = None"

fun protocol_run :: "order_view \<Rightarrow> order_event list \<Rightarrow> order_view option" where
  "protocol_run v [] = Some v"
| "protocol_run v (e # es) = (case protocol v e of None \<Rightarrow> None | Some v' \<Rightarrow> protocol_run v' es)"

lemma protocol_run_append:
  "protocol_run v (es @ fs) = (case protocol_run v es of None \<Rightarrow> None | Some w \<Rightarrow> protocol_run w fs)"
  by (induction es arbitrary: v) (auto split: option.splits)

definition view_of :: "machine \<Rightarrow> order_view" where
  "view_of m = (m_pending m, m_position m)"

lemma on_signal_protocol:
  assumes "shape_ok m" and "on_signal m signal tm el = Inr (m', es)"
  shows "protocol_run (view_of m) es = Some (view_of m')"
  using assms
  by (cases "m_state m"; cases signal; cases "the signal")
    (auto simp: on_signal_def res_simps Let_def advance_clock_def shape_ok_def view_of_def
      ignored_def open_pending_def cancel_pending_def record_events_def mk_event_defs)

lemma on_signals_protocol:
  assumes "shape_ok m" and "on_signals m buy sell tm el = Inr (m', es)"
  shows "protocol_run (view_of m) es = Some (view_of m')"
  using on_signals_Inr [OF assms(2)]
proof
  assume "\<exists>signal. on_signal m signal tm el = Inr (m', es)
    \<and> signal = (if buy = Some True then Some BUY else if sell = Some True then Some SELL else None)"
  then show ?thesis using on_signal_protocol [OF assms(1)] by blast
qed (simp add: view_of_def advance_clock_def)

lemma fill_pending_protocol:
  assumes "shape_ok m" and "fill_pending m tm price q = Inr (m', es)"
  shows "protocol_run (view_of m) es = Some (view_of m')"
  using assms(2)
proof (rule fill_pending_Inr)
  fix p d n
  assume p: "m_pending m = Some p" "instant (po_eligible_at p) \<le> instant tm" "0 < dval d"
    and es: "es = [OrderFilled (po_side p) (po_signal_at p) tm d n]"
    and b: "po_side p = Buy \<Longrightarrow> q = Some n \<and> 0 < n
      \<and> m_position m' = Some \<lparr>lot_entry_at = tm, lot_entry_price = d, lot_quantity = n\<rparr>
      \<and> m_state m' = HELD"
    and s: "po_side p = Sell \<Longrightarrow> (\<exists>lot. m_position m = Some lot \<and> n = lot_quantity lot)
      \<and> m_position m' = None \<and> m_state m' = FLAT"
    and n: "m_pending m' = None"
  have "po_side p = Buy \<Longrightarrow> m_position m = None"
    using assms(1) p(1) by (cases "m_state m") (auto simp: shape_ok_def)
  then show ?thesis
    using p es b s n by (cases "po_side p") (auto simp: view_of_def)
qed

lemma finish_range_protocol:
  assumes "shape_ok m" and "finish_range m tm mark = Inr (m', es)"
  shows "protocol_run (view_of m) es = Some (view_of m')"
  using assms(2)
proof (rule finish_range_Inr)
  fix unfilled marked
  assume es: "es = unfilled @ marked"
    and u: "unfilled = (case m_pending m of None \<Rightarrow> []
      | Some p \<Rightarrow> [OrderUnfilled (po_side p) (po_signal_at p) (po_eligible_at p) tm])"
    and n: "m_position m = None \<Longrightarrow> mark = None \<and> marked = []"
    and s: "\<And>lot. m_position m = Some lot \<Longrightarrow> \<exists>mp e. mark = Some (Finite mp) \<and> 0 < dval mp
      \<and> mark_lot lot tm mp = Inr e \<and> marked = [e]"
    and out: "m_pending m' = None" "m_position m' = m_position m"
  have "protocol_run (view_of m) unfilled = Some (None, m_position m)"
    using u by (auto simp: view_of_def split: option.splits)
  moreover have "protocol_run (None, m_position m) marked = Some (None, m_position m)"
    using n s by (cases "m_position m") (auto dest!: mark_lot_Inr)
  ultimately show ?thesis using es out by (simp add: protocol_run_append view_of_def)
qed

section \<open>Every call keeps the invariant\<close>

text \<open>Well-formed, and the log is a legal run of the protocol that ends in the present state.\<close>

definition machine_inv :: "machine \<Rightarrow> bool" where
  "machine_inv m \<longleftrightarrow> machine_wf m \<and> protocol_run (None, None) (m_events m) = Some (view_of m)"

lemma machine_inv_init: "machine_inv machine_init"
  by (simp add: machine_inv_def machine_wf_init) (simp add: machine_init_def view_of_def)

lemma machine_inv_step:
  assumes "machine_inv m" and "machine_wf m'" and "m_events m' = m_events m @ es"
    and "protocol_run (view_of m) es = Some (view_of m')"
  shows "machine_inv m'"
  using assms by (simp add: machine_inv_def protocol_run_append)

lemma shape_ok_same:
  "m_pending m' = m_pending m \<Longrightarrow> m_position m' = m_position m \<Longrightarrow> m_state m' = m_state m
    \<Longrightarrow> shape_ok m \<Longrightarrow> shape_ok m'"
  by (simp add: shape_ok_def split: position_state.splits)

lemma on_signals_inv:
  assumes m: "machine_inv m" and r: "on_signals m buy sell tm el = Inr (m', es)"
  shows "machine_inv m' \<and> advances tm m m' es \<and> m_position m' = m_position m \<and> \<not> m_terminal m"
proof -
  have wf: "machine_wf m" using m by (simp add: machine_inv_def)
  then have shape: "shape_ok m" by (simp add: machine_wf_def)
  have *: "advances tm m m' es \<and> machine_wf m' \<and> m_position m' = m_position m \<and> \<not> m_terminal m"
    using on_signals_Inr [OF r]
  proof (elim disjE exE conjE)
    assume "\<not> m_terminal m" "is_aware tm" "\<forall>c. m_last m = Some c \<longrightarrow> instant c \<le> instant tm"
      "es = [IgnoredSignal CONFLICTING_SIGNALS None tm]"
      "m' = (advance_clock tm m)\<lparr>m_events := m_events m @ es\<rparr>"
    then have a: "advances tm m m' es" and same: "m_pending m' = m_pending m"
      "m_position m' = m_position m" "m_state m' = m_state m"
      by (simp_all add: advances_def advance_clock_def)
    have "machine_wf m'"
      by (rule machine_wf_step [OF wf a]) (use shape same shape_ok_same [of m' m] in simp_all)
    with a same \<open>\<not> m_terminal m\<close> show ?thesis by simp
  next
    fix signal
    assume "on_signal m signal tm el = Inr (m', es)"
    from on_signal_cases [OF wf this] show ?thesis
      by (auto intro!: machine_wf_step [OF wf])
  qed
  then have "m_events m' = m_events m @ es" by (simp add: advances_def)
  with * show ?thesis using machine_inv_step [OF m _ _ on_signals_protocol [OF shape r]] by simp
qed

lemma block_pending_inv:
  assumes m: "machine_inv m" and r: "block_pending m tm reason = Inr (m', es)"
  shows "machine_inv m' \<and> advances tm m m' es \<and> m_position m' = m_position m
    \<and> m_pending m' = m_pending m \<and> \<not> m_terminal m"
  using r
proof (rule block_pending_Inr)
  fix p
  assume p: "\<not> m_terminal m" "m_pending m = Some p" "instant (po_eligible_at p) \<le> instant tm"
    "es = [OrderBlocked (po_side p) tm reason]"
    and m': "m' = (advance_clock tm m)\<lparr>m_events := m_events m @ es\<rparr>" and a: "advances tm m m' es"
  have wf: "machine_wf m" using m by (simp add: machine_inv_def)
  have same: "m_pending m' = m_pending m" "m_position m' = m_position m" "m_state m' = m_state m"
    using m' by (simp_all add: advance_clock_def)
  have "machine_wf m'"
    by (rule machine_wf_step [OF wf a])
      (use wf same shape_ok_same [of m' m] in \<open>simp_all add: machine_wf_def\<close>)
  moreover have "protocol_run (view_of m) es = Some (view_of m')" using p same by (simp add: view_of_def)
  ultimately show ?thesis
    using machine_inv_step [OF m] a same p by (auto simp: advances_def)
qed

lemma fill_pending_inv:
  assumes m: "machine_inv m" and r: "fill_pending m tm price q = Inr (m', es)"
  shows "machine_inv m' \<and> advances tm m m' es"
  using r
proof (rule fill_pending_Inr)
  fix p d n
  assume p: "m_pending m = Some p" "0 < dval d"
    and b: "po_side p = Buy \<Longrightarrow> q = Some n \<and> 0 < n
      \<and> m_position m' = Some \<lparr>lot_entry_at = tm, lot_entry_price = d, lot_quantity = n\<rparr>
      \<and> m_state m' = HELD"
    and s: "po_side p = Sell \<Longrightarrow> (\<exists>lot. m_position m = Some lot \<and> n = lot_quantity lot)
      \<and> m_position m' = None \<and> m_state m' = FLAT"
    and n: "m_pending m' = None" and a: "advances tm m m' es"
  have wf: "machine_wf m" using m by (simp add: machine_inv_def)
  then have shape: "shape_ok m" by (simp add: machine_wf_def)
  have aw: "is_aware tm" using a by (simp add: advances_def)
  have "machine_wf m'"
  proof (cases "po_side p")
    case Buy
    with b n p aw show ?thesis
      by (intro machine_wf_step [OF wf a]) (auto simp: shape_ok_def lot_ok_def not_after_def)
  next
    case Sell
    with s n show ?thesis by (intro machine_wf_step [OF wf a]) (auto simp: shape_ok_def)
  qed
  moreover have "m_events m' = m_events m @ es" using a by (simp add: advances_def)
  ultimately show ?thesis
    using machine_inv_step [OF m] fill_pending_protocol [OF shape r] a by blast
qed

lemma finish_range_inv:
  assumes m: "machine_inv m" and r: "finish_range m tm mark = Inr (m', es)"
  shows "machine_inv m' \<and> advances tm m m' es \<and> m_terminal m'"
  using r
proof (rule finish_range_Inr)
  assume out: "m_pending m' = None" "m_position m' = m_position m" "m_terminal m'"
    "m_state m' = (if m_position m \<noteq> None then HELD else FLAT)" and a: "advances tm m m' es"
  have wf: "machine_wf m" using m by (simp add: machine_inv_def)
  then have shape: "shape_ok m" by (simp add: machine_wf_def)
  have "machine_wf m'"
    using out by (intro machine_wf_step [OF wf a]) (auto simp: shape_ok_def)
  moreover have "m_events m' = m_events m @ es" using a by (simp add: advances_def)
  ultimately show ?thesis
    using machine_inv_step [OF m] finish_range_protocol [OF shape r] a out by blast
qed

lemma machine_call_inv:
  assumes "machine_inv m" and "machine_call m i = Inr (m', es)"
  shows "machine_inv m' \<and> advances (input_time i) m m' es"
  using assms
  by (cases i) (auto dest: on_signals_inv block_pending_inv fill_pending_inv finish_range_inv)

interpretation order_machine: fallible_machine machine_step machine_inv "\<lambda>_. True"
  by unfold_locales (auto simp: machine_step_Inr dest: machine_call_inv)

section \<open>Round trips\<close>

text \<open>The fills of a log pair up: each buy is followed by the sell of the same quantity.\<close>

fun round_trips :: "order_event list \<Rightarrow> bool" where
  "round_trips [] = True"
| "round_trips [b] = (filled_side b = Buy \<and> 0 < filled_quantity b)"
| "round_trips (b # s # rest) =
     (filled_side b = Buy \<and> 0 < filled_quantity b \<and> filled_side s = Sell
      \<and> filled_quantity s = filled_quantity b \<and> round_trips rest)"

lemma protocol_not_filled:
  "protocol (p, l) e = Some (p', l') \<Longrightarrow> \<not> is_OrderFilled e \<Longrightarrow> l' = l"
  by (cases e; cases p; cases l) (auto split: if_splits)

lemma protocol_filled:
  "protocol (p, l) e = Some (p', l') \<Longrightarrow> is_OrderFilled e \<Longrightarrow>
     (l = None \<and> filled_side e = Buy \<and> 0 < filled_quantity e \<and> 0 < dval (filled_price e)
        \<and> l' = Some \<lparr>lot_entry_at = filled_time e, lot_entry_price = filled_price e,
                     lot_quantity = filled_quantity e\<rparr>)
     \<or> (\<exists>lot. l = Some lot \<and> filled_side e = Sell \<and> filled_quantity e = lot_quantity lot
        \<and> l' = None)"
  by (cases e; cases p; cases l) (auto split: if_splits order_side.splits)

lemma protocol_round_trips:
  "protocol_run (p, None) es = Some (p', l') \<Longrightarrow>
     round_trips (filter is_OrderFilled es) \<and> (l' = None \<longleftrightarrow> even (length (filter is_OrderFilled es)))"
  "protocol_run (p, Some lot) es = Some (p', l') \<Longrightarrow>
     (case filter is_OrderFilled es of
        [] \<Rightarrow> l' = Some lot
      | s # rest \<Rightarrow> filled_side s = Sell \<and> filled_quantity s = lot_quantity lot
          \<and> round_trips rest \<and> (l' = None \<longleftrightarrow> even (length rest)))"
proof (induction es arbitrary: p lot)
  case Nil
  {
    case 1
    then show ?case by simp
  next
    case 2
    then show ?case by simp
  }
next
  case (Cons e es)
  {
    case 1
    then obtain q k where s: "protocol (p, None) e = Some (q, k)"
      and r: "protocol_run (q, k) es = Some (p', l')" by (auto split: option.splits)
    show ?case
    proof (cases "is_OrderFilled e")
      case False
      with protocol_not_filled [OF s] r Cons.IH(1) show ?thesis by simp
    next
      case True
      with protocol_filled [OF s] obtain lot where k: "k = Some lot"
        and e: "filled_side e = Buy" "0 < filled_quantity e" "lot_quantity lot = filled_quantity e"
        by auto
      from Cons.IH(2) r k have *: "case filter is_OrderFilled es of
          [] \<Rightarrow> l' = Some lot
        | s # rest \<Rightarrow> filled_side s = Sell \<and> filled_quantity s = lot_quantity lot
            \<and> round_trips rest \<and> (l' = None \<longleftrightarrow> even (length rest))" by blast
      then show ?thesis using True e by (cases "filter is_OrderFilled es") auto
    qed
  next
    case 2
    then obtain q k where s: "protocol (p, Some lot) e = Some (q, k)"
      and r: "protocol_run (q, k) es = Some (p', l')" by (auto split: option.splits)
    show ?case
    proof (cases "is_OrderFilled e")
      case False
      with protocol_not_filled [OF s] r have "protocol_run (q, Some lot) es = Some (p', l')" by simp
      from Cons.IH(2) [OF this] False show ?thesis by simp
    next
      case True
      with protocol_filled [OF s] have "k = None" "filled_side e = Sell"
        "filled_quantity e = lot_quantity lot" by auto
      with r Cons.IH(1) True show ?thesis by simp
    qed
  }
qed

section \<open>Properties\<close>

text \<open>
  C1. Whatever calls are made on a fresh machine, as long as none raises: the state name
  says exactly whether an order is pending and a position held, all times are ordered, and the
  event log is a legal run of the order protocol that replays to the present pending order
  and position.
\<close>

theorem machine_reachable_invariant:
  assumes "run_res machine_step machine_init calls = Inr m"
  shows "machine_wf m \<and> protocol_run (None, None) (m_events m) = Some (m_pending m, m_position m)"
  using order_machine.run_inv [OF machine_inv_init assms] by (simp add: machine_inv_def view_of_def)

definition example_day :: "int \<Rightarrow> pytime" where
  "example_day n = Aware (n * day_us)"

definition example_calls :: "machine_input list" where
  "example_calls =
     [Signals (Some True) None (example_day 1) (Some (example_day 2)),
      Fill (example_day 2) (Finite (Dec False 105 (-1))) (Some 1000),
      Signals None (Some True) (example_day 3) (Some (example_day 4)),
      Block (example_day 4) ''limit_down'']"

lemma example_calls_run: "\<exists>m. run_res machine_step machine_init example_calls = Inr m
  \<and> m_state m = PENDING_SELL"
  by (simp add: Let_def example_calls_def example_day_def machine_step_def machine_init_def on_signals_def
      on_signal_def require_active_def validate_operation_time_def advance_clock_def day_us_def
      open_pending_def mk_order_pending_def record_events_def fill_pending_def require_pending_def
      settle_buy_def mk_order_filled_def validate_quantity_def dval_def block_pending_def
      mk_order_blocked_def validate_reason_code_def max_reason_code_length_def
      ascii_lower_def reason_char_def)

theorem machine_reachable_invariant_witness:
  "\<exists>m. run_res machine_step machine_init example_calls = Inr m \<and> machine_wf m
     \<and> protocol_run (None, None) (m_events m) = Some (m_pending m, m_position m)"
proof -
  obtain m where "run_res machine_step machine_init example_calls = Inr m"
    using example_calls_run by blast
  with machine_reachable_invariant [OF this] show ?thesis by blast
qed

text \<open>
  C2. In every reachable machine the fills of the event log alternate, buy first, and every
  sell fill closes the whole quantity of the buy before it; a position is held exactly when
  the number of fills is odd.
\<close>

theorem machine_fills_round_trip:
  assumes "run_res machine_step machine_init calls = Inr m"
  shows "round_trips (filter is_OrderFilled (m_events m))
    \<and> (m_position m = None \<longleftrightarrow> even (length (filter is_OrderFilled (m_events m))))"
proof -
  have "machine_inv m" by (rule order_machine.run_inv [OF machine_inv_init assms]) simp
  then show ?thesis
    using protocol_round_trips(1) [of None "m_events m"] by (auto simp: machine_inv_def view_of_def)
qed

theorem machine_fills_round_trip_witness:
  "\<exists>m. run_res machine_step machine_init example_calls = Inr m
     \<and> round_trips (filter is_OrderFilled (m_events m))
     \<and> (m_position m = None \<longleftrightarrow> even (length (filter is_OrderFilled (m_events m))))"
proof -
  obtain m where "run_res machine_step machine_init example_calls = Inr m"
    using example_calls_run by blast
  from this machine_fills_round_trip [OF this] show ?thesis by (intro exI [of _ m]) simp
qed

text \<open>The transition table of a signal: the next state and the event it records.\<close>

fun signal_effect ::
  "position_state \<Rightarrow> signal_code \<Rightarrow> pytime \<Rightarrow> pytime \<Rightarrow> position_state \<times> order_event" where
  "signal_effect FLAT BUY tm el = (PENDING_BUY, OrderPending Buy tm el)"
| "signal_effect FLAT SELL tm el = (FLAT, IgnoredSignal NOT_HOLDING (Some SELL) tm)"
| "signal_effect PENDING_BUY BUY tm el =
     (PENDING_BUY, IgnoredSignal SAME_SIDE_ORDER_PENDING (Some BUY) tm)"
| "signal_effect PENDING_BUY SELL tm el = (FLAT, OrderCancelled Buy OPPOSITE_SIGNAL tm)"
| "signal_effect HELD BUY tm el = (HELD, IgnoredSignal ALREADY_HOLDING (Some BUY) tm)"
| "signal_effect HELD SELL tm el = (PENDING_SELL, OrderPending Sell tm el)"
| "signal_effect PENDING_SELL BUY tm el = (HELD, OrderCancelled Sell OPPOSITE_SIGNAL tm)"
| "signal_effect PENDING_SELL SELL tm el =
     (PENDING_SELL, IgnoredSignal SAME_SIDE_ORDER_PENDING (Some SELL) tm)"

definition signals_effect ::
  "position_state \<Rightarrow> bool option \<Rightarrow> bool option \<Rightarrow> pytime \<Rightarrow> pytime \<Rightarrow> position_state \<times> order_event list" where
  "signals_effect s buy sell tm el =
     (if buy = Some True \<and> sell = Some True then (s, [IgnoredSignal CONFLICTING_SIGNALS None tm])
      else if buy = Some True then apsnd (\<lambda>e. [e]) (signal_effect s BUY tm el)
      else if sell = Some True then apsnd (\<lambda>e. [e]) (signal_effect s SELL tm el)
      else (s, []))"

definition accepts :: "machine \<Rightarrow> pytime \<Rightarrow> bool" where
  "accepts m tm \<longleftrightarrow> \<not> m_terminal m \<and> is_aware tm
     \<and> (\<forall>c. m_last m = Some c \<longrightarrow> instant c \<le> instant tm)"

lemma accepts_guards:
  "accepts m tm \<Longrightarrow> require_active m = Inr () \<and> validate_operation_time m tm = Inr ()"
  by (auto simp: accepts_def require_active_def validate_operation_time_def not_less
      split: option.splits)

lemma on_signal_effect:
  assumes "shape_ok m" and "accepts m tm" and "is_aware el" and "instant tm \<le> instant el"
  shows "\<exists>m'. on_signal m (Some sig) tm (Some el) = Inr (m', [snd (signal_effect (m_state m) sig tm el)])
    \<and> m_state m' = fst (signal_effect (m_state m) sig tm el)"
proof -
  have aw: "is_aware tm" using assms(2) by (simp add: accepts_def)
  show ?thesis
    using accepts_guards [OF assms(2)] assms aw
    by (cases "m_state m"; cases sig)
      (auto simp: on_signal_def Let_def advance_clock_def shape_ok_def ignored_def open_pending_def
        cancel_pending_def record_events_def mk_event_defs require_pending_def)
qed

lemma on_signals_effect:
  assumes "shape_ok m" and "accepts m tm" and "is_aware el" and "instant tm \<le> instant el"
  shows "\<exists>m'. on_signals m buy sell tm (Some el) = Inr (m', snd (signals_effect (m_state m) buy sell tm el))
    \<and> m_state m' = fst (signals_effect (m_state m) buy sell tm el)"
proof -
  have aw: "is_aware tm" using assms(2) by (simp add: accepts_def)
  show ?thesis
    using accepts_guards [OF assms(2)] aw on_signal_effect [OF assms, of BUY]
      on_signal_effect [OF assms, of SELL]
    by (auto simp: on_signals_def signals_effect_def ignored_def record_events_def mk_event_defs
        advance_clock_def)
qed

text \<open>What a signal bar leaves behind: the pending order that follows from its event, the whole
  machine, and the eligibility an omitted one stands for.\<close>

fun pending_after :: "pending_order option \<Rightarrow> order_event \<Rightarrow> pending_order option" where
  "pending_after p (OrderPending side signal_at eligible_at) =
     Some \<lparr>po_side = side, po_signal_at = signal_at, po_eligible_at = eligible_at\<rparr>"
| "pending_after p (OrderCancelled side reason tm) = None"
| "pending_after p e = p"

definition after_signals ::
  "machine \<Rightarrow> bool option \<Rightarrow> bool option \<Rightarrow> pytime \<Rightarrow> pytime \<Rightarrow> machine \<times> order_event list" where
  "after_signals m buy sell tm el =
     (case signals_effect (m_state m) buy sell tm el of (s, es) \<Rightarrow>
        (m\<lparr>m_state := s, m_pending := foldl pending_after (m_pending m) es,
           m_events := m_events m @ es, m_last := Some tm\<rparr>, es))"

definition signal_eligible :: "pytime \<Rightarrow> pytime option \<Rightarrow> pytime" where
  "signal_eligible tm eligible_at = (case eligible_at of None \<Rightarrow> tm | Some e \<Rightarrow> e)"

definition one_signal :: "bool option \<Rightarrow> bool option \<Rightarrow> bool" where
  "one_signal buy sell \<longleftrightarrow> (buy = Some True) \<noteq> (sell = Some True)"

definition eligible_ok :: "pytime \<Rightarrow> pytime \<Rightarrow> bool" where
  "eligible_ok tm el \<longleftrightarrow> is_aware el \<and> instant tm \<le> instant el"

lemma on_signal_after:
  assumes "shape_ok m" and "accepts m tm" and "eligible_ok tm (signal_eligible tm el)"
  shows "on_signal m (Some BUY) tm el = Inr (after_signals m (Some True) None tm (signal_eligible tm el))"
    and "on_signal m (Some SELL) tm el = Inr (after_signals m None (Some True) tm (signal_eligible tm el))"
proof -
  have aw: "is_aware tm" using assms(2) by (simp add: accepts_def)
  show "on_signal m (Some BUY) tm el = Inr (after_signals m (Some True) None tm (signal_eligible tm el))"
    using accepts_guards [OF assms(2)] assms aw
    by (cases "m_state m")
      (auto simp: on_signal_def Let_def advance_clock_def shape_ok_def ignored_def open_pending_def
        cancel_pending_def record_events_def mk_event_defs require_pending_def after_signals_def
        signals_effect_def signal_eligible_def eligible_ok_def)
  show "on_signal m (Some SELL) tm el = Inr (after_signals m None (Some True) tm (signal_eligible tm el))"
    using accepts_guards [OF assms(2)] assms aw
    by (cases "m_state m")
      (auto simp: on_signal_def Let_def advance_clock_def shape_ok_def ignored_def open_pending_def
        cancel_pending_def record_events_def mk_event_defs require_pending_def after_signals_def
        signals_effect_def signal_eligible_def eligible_ok_def)
qed

lemma on_signal_refuses:
  assumes "\<not> eligible_ok tm (signal_eligible tm el)"
  shows "\<exists>e. on_signal m (Some sig) tm el = Inl e"
proof (cases "on_signal m (Some sig) tm el")
  case (Inr r)
  with assms show ?thesis
    by (auto simp: on_signal_def res_simps Let_def eligible_ok_def signal_eligible_def split: if_splits)
qed simp

lemma on_signals_refuses:
  assumes "\<not> accepts m tm"
  shows "\<exists>e. on_signals m buy sell tm el = Inl e"
proof (cases "on_signals m buy sell tm el")
  case (Inr r)
  with assms show ?thesis by (auto simp: on_signals_def res_simps accepts_def)
qed simp

lemma on_signals_outcome:
  assumes "shape_ok m"
  shows "if accepts m tm \<and> (one_signal buy sell \<longrightarrow> eligible_ok tm (signal_eligible tm el))
    then on_signals m buy sell tm el = Inr (after_signals m buy sell tm (signal_eligible tm el))
    else \<exists>e. on_signals m buy sell tm el = Inl e"
proof (cases "accepts m tm")
  case True
  note guards = accepts_guards [OF True]
  have aw: "is_aware tm" using True by (simp add: accepts_def)
  consider (both) "buy = Some True" "sell = Some True" | (none) "buy \<noteq> Some True" "sell \<noteq> Some True"
    | (one) "one_signal buy sell" by (auto simp: one_signal_def)
  then show ?thesis
  proof cases
    case both
    then show ?thesis using True guards aw
      by (simp add: one_signal_def on_signals_def ignored_def mk_event_defs record_events_def
          advance_clock_def after_signals_def signals_effect_def)
  next
    case none
    then show ?thesis using True guards
      by (simp add: one_signal_def on_signals_def advance_clock_def after_signals_def signals_effect_def)
  next
    case one
    show ?thesis
    proof (cases "eligible_ok tm (signal_eligible tm el)")
      case el: True
      show ?thesis using one True el guards on_signal_after [OF assms True el]
        by (auto simp: one_signal_def on_signals_def after_signals_def signals_effect_def)
    next
      case False
      show ?thesis using one True False guards on_signal_refuses [OF False]
        by (auto simp: one_signal_def on_signals_def)
    qed
  qed
next
  case False
  then show ?thesis using on_signals_refuses by simp
qed

text \<open>
  C3. A signal bar on any machine whose state name fits its fields. A machine that has not
  finished takes the bar when its time is aware and not before the clock and, if exactly one of
  the two signals is true, the order's eligibility (the bar's own time when none is given) is
  aware and not before the bar; otherwise the call raises. The machine it returns is pinned in
  every field: the state, the returned events and the log are those of the transition table
  (nothing for no signal, a conflict event for both, otherwise open, cancel or ignore), the
  pending order is the one opened, none after a cancellation and else the old one, the clock is
  the bar's time, and the position is untouched.
\<close>

theorem on_signals_table:
  assumes "shape_ok m"
  shows "if accepts m tm \<and> (one_signal buy sell \<longrightarrow> eligible_ok tm (signal_eligible tm el))
    then on_signals m buy sell tm el = Inr (after_signals m buy sell tm (signal_eligible tm el))
    else \<exists>e. on_signals m buy sell tm el = Inl e"
  using assms by (rule on_signals_outcome)

definition pending_buy_machine :: machine where
  "pending_buy_machine = \<lparr>m_state = PENDING_BUY,
     m_pending = Some \<lparr>po_side = Buy, po_signal_at = example_day 1, po_eligible_at = example_day 1\<rparr>,
     m_position = None, m_events = [OrderPending Buy (example_day 1) (example_day 1)],
     m_terminal = False, m_last = Some (example_day 1)\<rparr>"

text \<open>A buy with no eligibility on a fresh machine, a sell that cancels it, an eligibility
  before the bar.\<close>

theorem on_signals_table_witness:
  "on_signals machine_init (Some True) None (example_day 1) None
      = Inr (pending_buy_machine, [OrderPending Buy (example_day 1) (example_day 1)])
   \<and> on_signals pending_buy_machine (Some False) (Some True) (example_day 2) None
      = Inr (machine_init\<lparr>m_events := [OrderPending Buy (example_day 1) (example_day 1),
               OrderCancelled Buy OPPOSITE_SIGNAL (example_day 2)], m_last := Some (example_day 2)\<rparr>,
             [OrderCancelled Buy OPPOSITE_SIGNAL (example_day 2)])
   \<and> (\<exists>e. on_signals machine_init (Some True) None (example_day 2) (Some (example_day 1)) = Inl e)"
proof -
  have shape: "shape_ok machine_init" "shape_ok pending_buy_machine"
    by (simp_all add: shape_ok_def machine_init_def pending_buy_machine_def)
  have acc: "accepts machine_init (example_day n)" "accepts pending_buy_machine (example_day 2)" for n
    by (simp_all add: accepts_def machine_init_def pending_buy_machine_def example_day_def day_us_def)
  have el: "eligible_ok (example_day n) (signal_eligible (example_day n) None)"
    "\<not> eligible_ok (example_day 2) (signal_eligible (example_day 2) (Some (example_day 1)))" for n
    by (simp_all add: eligible_ok_def signal_eligible_def example_day_def day_us_def)
  show ?thesis
    using on_signals_table [OF shape(1), of "example_day 1" "Some True" None None]
      on_signals_table [OF shape(2), of "example_day 2" "Some False" "Some True" None]
      on_signals_table [OF shape(1), of "example_day 2" "Some True" None "Some (example_day 1)"]
      acc el
    by (simp add: one_signal_def after_signals_def signals_effect_def machine_init_def
        pending_buy_machine_def signal_eligible_def)
qed

text \<open>The events a finished range owes: the unfilled order, and the open trade with its mark.\<close>

definition unfilled_events :: "pending_order option \<Rightarrow> pytime \<Rightarrow> order_event list" where
  "unfilled_events p tm = (case p of None \<Rightarrow> []
     | Some p \<Rightarrow> [OrderUnfilled (po_side p) (po_signal_at p) (po_eligible_at p) tm])"

text \<open>The profit of a lot at a mark price: difference and product in the default context, hence
  exact when both are representable.\<close>

definition floating_pnl :: "position_lot \<Rightarrow> dec \<Rightarrow> dec \<Rightarrow> bool" where
  "floating_pnl lot mp pnl \<longleftrightarrow>
     (\<exists>diff. sub28 mp (lot_entry_price lot) = Inr diff
        \<and> mul28 diff (dec_of_int (lot_quantity lot)) = Inr pnl)
     \<and> (let gap = dval mp - dval (lot_entry_price lot); gain = gap * of_int (lot_quantity lot)
        in fits 28 gap \<and> fits 28 gain \<longrightarrow> dval pnl = gain)"

lemma mark_lot_floating:
  assumes "mark_lot lot tm mp = Inr e"
  shows "\<exists>pnl. floating_pnl lot mp pnl
    \<and> e = OpenTradeMarked (lot_entry_at lot) (lot_entry_price lot) (lot_quantity lot) tm mp pnl"
proof -
  obtain diff pnl where d: "sub28 mp (lot_entry_price lot) = Inr diff"
    and p: "mul28 diff (dec_of_int (lot_quantity lot)) = Inr pnl"
    and e: "e = OpenTradeMarked (lot_entry_at lot) (lot_entry_price lot) (lot_quantity lot) tm mp pnl"
    using mark_lot_Inr [OF assms] by blast
  have "dval pnl = (dval mp - dval (lot_entry_price lot)) * of_int (lot_quantity lot)"
    if gap: "fits 28 (dval mp - dval (lot_entry_price lot))"
      and gain: "fits 28 ((dval mp - dval (lot_entry_price lot)) * of_int (lot_quantity lot))"
  proof -
    have v: "dval diff = dval mp - dval (lot_entry_price lot)"
      using dec_sub_exact [of default_prec mp "lot_entry_price lot" HalfEven] gap d
      by (auto simp: default_prec_def)
    show ?thesis
      using dec_mul_exact [of default_prec diff "dec_of_int (lot_quantity lot)" HalfEven] gain p
      by (auto simp: default_prec_def v)
  qed
  then show ?thesis using d p e by (auto simp: floating_pnl_def Let_def)
qed

text \<open>
  C4. What a range that finishes leaves behind, in every field: the state is held or flat as the
  position says, no order is pending, the position is the old one, the clock is the time of the
  call and the machine is terminal. The log gains first the pending order, if any, as unfilled
  with its own side and times, then, for a position, its lot marked at the mark price given,
  with the difference of mark and entry price times the quantity as floating profit (computed in
  the default decimal context, so exact when both results are representable). A mark price is
  given exactly when a position is held, and every later call raises.
\<close>

theorem finish_range_final:
  assumes "finish_range m tm mark = Inr (m', es)"
  shows "m' = m\<lparr>m_state := (if m_position m = None then FLAT else HELD), m_pending := None,
        m_events := m_events m @ es, m_terminal := True, m_last := Some tm\<rparr>
    \<and> (case m_position m of
         None \<Rightarrow> mark = None \<and> es = unfilled_events (m_pending m) tm
       | Some lot \<Rightarrow> \<exists>mp pnl. mark = Some (Finite mp) \<and> 0 < dval mp \<and> floating_pnl lot mp pnl
           \<and> es = unfilled_events (m_pending m) tm
                @ [OpenTradeMarked (lot_entry_at lot) (lot_entry_price lot) (lot_quantity lot) tm mp pnl])
    \<and> (\<forall>i. \<exists>e. machine_call m' i = Inl e)"
  using assms
proof (rule finish_range_Inr)
  fix unfilled marked
  assume es: "es = unfilled @ marked"
    and u: "unfilled = (case m_pending m of None \<Rightarrow> []
      | Some p \<Rightarrow> [OrderUnfilled (po_side p) (po_signal_at p) (po_eligible_at p) tm])"
    and n: "m_position m = None \<Longrightarrow> mark = None \<and> marked = []"
    and s: "\<And>lot. m_position m = Some lot \<Longrightarrow> \<exists>mp e. mark = Some (Finite mp) \<and> 0 < dval mp
      \<and> mark_lot lot tm mp = Inr e \<and> marked = [e]"
    and out: "m_pending m' = None" "m_position m' = m_position m" "m_terminal m'"
      "m_state m' = (if m_position m \<noteq> None then HELD else FLAT)"
    and a: "advances tm m m' es"
  have "\<exists>e. machine_call m' i = Inl e" for i
  proof (cases "machine_call m' i")
    case (Inr r)
    obtain m2 es2 where "r = (m2, es2)" by fastforce
    with Inr have "\<not> m_terminal m'"
      by (cases i) (auto simp: on_signals_def block_pending_def fill_pending_def finish_range_def res_simps)
    with out show ?thesis by simp
  qed simp
  moreover have "m' = m\<lparr>m_state := (if m_position m = None then FLAT else HELD), m_pending := None,
      m_events := m_events m @ es, m_terminal := True, m_last := Some tm\<rparr>"
    using out a by (auto simp: advances_def)
  moreover have "unfilled = unfilled_events (m_pending m) tm"
    by (simp add: u unfilled_events_def)
  moreover have "\<exists>mp pnl. mark = Some (Finite mp) \<and> 0 < dval mp \<and> floating_pnl lot mp pnl
      \<and> marked = [OpenTradeMarked (lot_entry_at lot) (lot_entry_price lot) (lot_quantity lot) tm mp pnl]"
    if "m_position m = Some lot" for lot
    using s [OF that] mark_lot_floating by blast
  ultimately show ?thesis using es n by (cases "m_position m") auto
qed

definition pending_sell_machine :: machine where
  "pending_sell_machine = \<lparr>m_state = PENDING_SELL,
     m_pending = Some \<lparr>po_side = Sell, po_signal_at = example_day 3, po_eligible_at = example_day 4\<rparr>,
     m_position = Some \<lparr>lot_entry_at = example_day 2, lot_entry_price = Dec False 105 (-1), lot_quantity = 1000\<rparr>,
     m_events = [], m_terminal = False, m_last = Some (example_day 3)\<rparr>"

text \<open>A thousand shares bought at 10.5, an open sell order, and a mark at 11.\<close>

theorem finish_range_final_witness:
  "\<exists>m' pnl. finish_range pending_sell_machine (example_day 5) (Some (Finite (Dec False 11 0)))
      = Inr (m', [OrderUnfilled Sell (example_day 3) (example_day 4) (example_day 5),
          OpenTradeMarked (example_day 2) (Dec False 105 (-1)) 1000 (example_day 5) (Dec False 11 0) pnl])
     \<and> dval pnl = 500
     \<and> m_state m' = HELD \<and> m_pending m' = None \<and> m_position m' = m_position pending_sell_machine
     \<and> (\<exists>e. machine_call m' (Fill (example_day 6) NaN None) = Inl e)"
proof -
  let ?m = pending_sell_machine
  have "\<not> isl (finish_range ?m (example_day 5) (Some (Finite (Dec False 11 0))))"
    by code_simp
  then obtain m' es where f: "finish_range ?m (example_day 5) (Some (Finite (Dec False 11 0))) = Inr (m', es)"
    by (cases "finish_range ?m (example_day 5) (Some (Finite (Dec False 11 0)))") auto
  have gap: "dval (Dec False 11 0) - dval (Dec False 105 (-1)) = 1 / 2" by (simp add: dval_def)
  have "fits 28 (1 / 2)" by (rule fitsI [of _ 5 "-1"]) (simp_all add: etiny_def etop_def emin_def emax_def)
  moreover have "fits 28 500" by (rule fitsI [of _ 5 2]) (simp_all add: etiny_def etop_def emin_def emax_def)
  ultimately have exact: "dval pnl = 500"
    if "floating_pnl \<lparr>lot_entry_at = example_day 2, lot_entry_price = Dec False 105 (-1),
      lot_quantity = 1000\<rparr> (Dec False 11 0) pnl" for pnl
    using that by (simp add: floating_pnl_def Let_def gap)
  obtain pnl where es: "es = [OrderUnfilled Sell (example_day 3) (example_day 4) (example_day 5),
      OpenTradeMarked (example_day 2) (Dec False 105 (-1)) 1000 (example_day 5) (Dec False 11 0) pnl]"
    and pnl: "dval pnl = 500" and m': "m_state m' = HELD" "m_pending m' = None"
      "m_position m' = m_position ?m" and later: "\<forall>i. \<exists>e. machine_call m' i = Inl e"
    using finish_range_final [OF f] exact
    by (auto simp: pending_sell_machine_def unfilled_events_def)
  show ?thesis using f es pnl m' later by (intro exI [of _ m'] exI [of _ pnl]) blast
qed

end
