(* ===== verification/Execution.thy ===== *)
theory Execution
  imports Order_Machine Execution_Status "HOL-Library.Product_Lexorder"
begin

text \<open>
  \<open>backtest/constraints.py\<close> and \<open>backtest/execution.py\<close>: whether an order may execute at an
  opening, the fill candidates of a status snapshot, and the engine that drives the order
  state machine along the merged timeline of openings and signal closes. The zone \<open>z\<close> is
  Asia/Shanghai in the code.
\<close>

section \<open>Execution constraints\<close>

datatype constraint_decision = EXECUTABLE | BLOCKED | DATA_INSUFFICIENT

record constraint_result =
  cr_decision :: constraint_decision
  cr_reason :: "string option"

definition blocked_because :: "string \<Rightarrow> constraint_result" where
  "blocked_because reason = \<lparr>cr_decision = BLOCKED, cr_reason = Some reason\<rparr>"

definition insufficient_because :: "string \<Rightarrow> constraint_result" where
  "insufficient_because reason = \<lparr>cr_decision = DATA_INSUFFICIENT, cr_reason = Some reason\<rparr>"

definition assess_execution ::
  "zone \<Rightarrow> order_side \<Rightarrow> pytime \<Rightarrow> eligibility option \<Rightarrow> pytime option \<Rightarrow> constraint_result" where
  "assess_execution z side tm eligibility position_entry_at =
     (case eligibility of
        None \<Rightarrow> insufficient_because ''data_insufficient_execution_status''
      | Some e \<Rightarrow>
          if el_timestamp e \<noteq> tm \<or> el_trading_day e \<noteq> local_date z tm
              \<or> \<not> el_evidence_complete e \<or> el_suspension_state e = UNKNOWN
          then insufficient_because ''data_insufficient_execution_status''
          else if \<not> el_is_exchange_open e then blocked_because ''exchange_closed''
          else if el_suspension_state e = SUSPENDED then blocked_because ''suspended''
          else if side = Buy \<and> el_buy_blocked_at_open e then blocked_because ''limit_up''
          else if side = Sell \<and> el_sell_blocked_at_open e then blocked_because ''limit_down''
          else if side = Sell
          then (case position_entry_at of
                  None \<Rightarrow> insufficient_because ''data_insufficient_position''
                | Some entry \<Rightarrow>
                    if local_date z tm \<le> local_date z entry then blocked_because ''t_plus_one''
                    else \<lparr>cr_decision = EXECUTABLE, cr_reason = None\<rparr>)
          else \<lparr>cr_decision = EXECUTABLE, cr_reason = None\<rparr>)"

section \<open>Inputs of a run\<close>

record signal_bar =
  sb_timestamp :: pytime
  sb_buy :: "bool option"
  sb_sell :: "bool option"

record fill_candidate =
  fc_timestamp :: pytime
  fc_open_price :: "dec option"
  fc_eligibility :: "eligibility option"

record reference_open =
  rf_timestamp :: pytime
  rf_price :: dec

definition mk_signal_bar :: "pytime \<Rightarrow> bool option \<Rightarrow> bool option \<Rightarrow> signal_bar res" where
  "mk_signal_bar tm buy sell =
     then_res (validate_timestamp ''signal timestamp'' tm)
       (Inr \<lparr>sb_timestamp = tm, sb_buy = buy, sb_sell = sell\<rparr>)"

text \<open>A Decimal field that must be finite and positive, when it is present.\<close>

fun positive_price :: "string \<Rightarrow> pydec option \<Rightarrow> (dec option) res" where
  "positive_price msg None = Inr None"
| "positive_price msg (Some (Finite d)) = (if dval d \<le> 0 then Inl (ValueError msg) else Inr (Some d))"
| "positive_price msg (Some _) = Inl (ValueError msg)"

definition mk_fill_candidate ::
  "pytime \<Rightarrow> pydec option \<Rightarrow> eligibility option \<Rightarrow> fill_candidate res" where
  "mk_fill_candidate tm open_price elig =
     then_res (validate_timestamp ''candidate timestamp'' tm)
    (bind_res (positive_price ''candidate open must be a positive finite Decimal'' open_price) (\<lambda>p.
       Inr \<lparr>fc_timestamp = tm, fc_open_price = p, fc_eligibility = elig\<rparr>))"

definition mk_reference_open :: "pytime \<Rightarrow> pydec \<Rightarrow> reference_open res" where
  "mk_reference_open tm price =
     then_res (validate_timestamp ''reference-open timestamp'' tm)
    (bind_res (positive_price ''reference open must be a positive finite Decimal'' (Some price)) (\<lambda>p.
       Inr \<lparr>rf_timestamp = tm, rf_price = the p\<rparr>))"

section \<open>Candidates of a status snapshot\<close>

text \<open>The loop that fills a dict and raises at a key it has seen.\<close>

definition add_open ::
  "string \<Rightarrow> (reference_open \<Rightarrow> 'k) \<Rightarrow> ('k \<Rightarrow> dec option) \<Rightarrow> reference_open \<Rightarrow> ('k \<Rightarrow> dec option) res" where
  "add_open msg key opens r =
     (if opens (key r) \<noteq> None then Inl (ValueError msg) else Inr (opens(key r \<mapsto> rf_price r)))"

definition candidate_of :: "pytime \<Rightarrow> dec option \<Rightarrow> eligibility option \<Rightarrow> fill_candidate res" where
  "candidate_of tm p elig = mk_fill_candidate tm (map_option Finite p) elig"

definition daily_candidates ::
  "zone \<Rightarrow> eligibility list \<Rightarrow> reference_open list \<Rightarrow> (fill_candidate list) res" where
  "daily_candidates z elig opens =
     bind_res (run_res (add_open ''reference-open trading days must be unique''
                          (\<lambda>r. local_date z (rf_timestamp r))) Map.empty opens) (\<lambda>opens_by_day.
     bind_res (traverse (\<lambda>e. candidate_of (el_timestamp e) (opens_by_day (el_trading_day e)) (Some e)) elig)
       (\<lambda>with_status.
     bind_res (traverse (\<lambda>r. candidate_of (rf_timestamp r) (Some (rf_price r)) None)
                 (filter (\<lambda>r. local_date z (rf_timestamp r) \<notin> el_trading_day ` set elig) opens))
       (\<lambda>without_status.
     Inr (sort_key (instant \<circ> fc_timestamp) (with_status @ without_status)))))"

definition intraday_candidates ::
  "eligibility list \<Rightarrow> reference_open list \<Rightarrow> (fill_candidate list) res" where
  "intraday_candidates elig opens =
     bind_res (run_res (add_open ''reference-open timestamps must be unique'' rf_timestamp)
                 Map.empty opens) (\<lambda>by_time.
     let status = map_of (rev (map (\<lambda>e. (el_timestamp e, e)) elig))
     in traverse (\<lambda>t. candidate_of t (by_time t) (status t))
          (sort_key instant (remdups (map rf_timestamp opens @ map el_timestamp elig))))"

definition candidates_from_status ::
  "zone \<Rightarrow> status_snapshot \<Rightarrow> reference_open list \<Rightarrow> (fill_candidate list) res" where
  "candidates_from_status z status opens =
     (if sq_period (ss_query status) = DAY \<or> sq_period (ss_query status) = WEEK
      then daily_candidates z (ss_eligibility status) opens
      else intraday_candidates (ss_eligibility status) opens)"

section \<open>The request\<close>

record execution_request =
  rq_period :: period
  rq_signals :: "signal_bar list"
  rq_candidates :: "fill_candidate list"
  rq_quantity :: int
  rq_ended_at :: "pytime option"
  rq_mark_price :: "pydec option"

definition validate_request :: "execution_request \<Rightarrow> unit res" where
  "validate_request rq =
     (if rq_quantity rq \<le> 0 \<or> rq_quantity rq mod 100 \<noteq> 0
      then Inl (ValueError ''quantity must use a positive 100-share lot'')
      else if sort_key (instant \<circ> sb_timestamp) (rq_signals rq) \<noteq> rq_signals rq
      then Inl (ValueError ''signals must be ordered'')
      else if sort_key (instant \<circ> fc_timestamp) (rq_candidates rq) \<noteq> rq_candidates rq
      then Inl (ValueError ''fill candidates must be ordered'')
      else then_res (case rq_ended_at rq of None \<Rightarrow> Inr ()
          | Some t \<Rightarrow> validate_timestamp ''ended_at'' t)
       (then_res (positive_price ''mark_price must be a positive finite Decimal'' (rq_mark_price rq))
       (if rq_mark_price rq \<noteq> None \<and> rq_ended_at rq = None
        then Inl (ValueError ''mark_price requires ended_at'') else Inr ())))"

section \<open>Eligibility of a signal\<close>

definition eligibility_key :: "zone \<Rightarrow> period \<Rightarrow> pytime \<Rightarrow> int" where
  "eligibility_key z p t =
     (case p of
        DAY \<Rightarrow> local_date z t * day_us
      | WEEK \<Rightarrow> week_start (local_date z t) * day_us
      | MIN60 \<Rightarrow> instant t)"

text \<open>\<open>bisect.bisect_right\<close>: the binary search of the standard library.\<close>

function bisect_loop :: "int list \<Rightarrow> int \<Rightarrow> nat \<Rightarrow> nat \<Rightarrow> nat" where
  "bisect_loop xs x lo hi =
     (if lo < hi
      then let mid = (lo + hi) div 2
           in if x < xs ! mid then bisect_loop xs x lo mid else bisect_loop xs x (mid + 1) hi
      else lo)"
  by auto

termination
  by (relation "measure (\<lambda>(_, _, lo, hi). hi - lo)") auto

declare bisect_loop.simps [simp del]

definition bisect_right :: "int list \<Rightarrow> int \<Rightarrow> nat" where
  "bisect_right xs x = bisect_loop xs x 0 (length xs)"

fun plus_us :: "int \<Rightarrow> pytime \<Rightarrow> pytime" where
  "plus_us d (Aware t) = Aware (t + d)"
| "plus_us d (Naive t) = Naive (t + d)"

definition eligible_at :: "zone \<Rightarrow> execution_request \<Rightarrow> pytime \<Rightarrow> int list \<Rightarrow> pytime" where
  "eligible_at z rq signal_at candidate_keys =
     (let index = bisect_right candidate_keys (eligibility_key z (rq_period rq) signal_at)
      in if index < length (rq_candidates rq) then fc_timestamp (rq_candidates rq ! index)
         else plus_us 1 signal_at)"

section \<open>The engine\<close>

datatype timeline_item = OpenItem fill_candidate | SignalItem signal_bar

fun item_time :: "timeline_item \<Rightarrow> pytime" where
  "item_time (OpenItem c) = fc_timestamp c"
| "item_time (SignalItem b) = sb_timestamp b"

fun item_ordinal :: "timeline_item \<Rightarrow> nat" where
  "item_ordinal (OpenItem _) = 0"
| "item_ordinal (SignalItem _) = 1"

definition item_key :: "timeline_item \<Rightarrow> int \<times> nat" where
  "item_key i = (instant (item_time i), item_ordinal i)"

definition timeline :: "execution_request \<Rightarrow> timeline_item list" where
  "timeline rq =
     sort_key item_key (map OpenItem (rq_candidates rq) @ map SignalItem (rq_signals rq))"

record execution_fill =
  xf_timestamp :: pytime
  xf_price :: dec

record execution_trade =
  xt_entry :: execution_fill
  xt_exit :: "execution_fill option"

record execution_failure =
  xr_reason :: string
  xr_timestamp :: pytime

record execution_result =
  rs_trades :: "execution_trade list"
  rs_order_events :: "order_event list"
  rs_blocked_events :: "order_event list"
  rs_failure :: "execution_failure option"

record engine =
  en_machine :: machine
  en_trades :: "execution_trade list"
  en_failure :: "execution_failure option"

definition engine_init :: engine where
  "engine_init = \<lparr>en_machine = machine_init, en_trades = [], en_failure = None\<rparr>"

text \<open>\<open>trades.append\<close> after a buy; \<open>trades[-1] = replace(trades[-1], exit=fill)\<close> after a sell.\<close>

definition book_fill :: "order_side \<Rightarrow> execution_fill \<Rightarrow> execution_trade list \<Rightarrow> execution_trade list" where
  "book_fill side f trades =
     (case side of
        Buy \<Rightarrow> trades @ [\<lparr>xt_entry = f, xt_exit = None\<rparr>]
      | Sell \<Rightarrow> if trades = [] then [] else butlast trades @ [(last trades)\<lparr>xt_exit := Some f\<rparr>])"

definition fill_step ::
  "execution_request \<Rightarrow> engine \<Rightarrow> fill_candidate \<Rightarrow> order_side \<Rightarrow> dec \<Rightarrow> engine res" where
  "fill_step rq s c side p =
     bind_res (fill_pending (en_machine s) (fc_timestamp c) (Finite p)
                 (if side = Buy then Some (rq_quantity rq) else None)) (\<lambda>(m, _).
     Inr (s\<lparr>en_machine := m,
            en_trades := book_fill side \<lparr>xf_timestamp = fc_timestamp c, xf_price = p\<rparr> (en_trades s)\<rparr>))"

definition fail_step :: "engine \<Rightarrow> fill_candidate \<Rightarrow> string \<Rightarrow> engine" where
  "fail_step s c reason =
     s\<lparr>en_failure := Some \<lparr>xr_reason = reason, xr_timestamp = fc_timestamp c\<rparr>\<rparr>"

definition reason_or :: "string \<Rightarrow> string option \<Rightarrow> string" where
  "reason_or dflt r = (case r of None \<Rightarrow> dflt | Some s \<Rightarrow> if s = [] then dflt else s)"

definition open_step :: "zone \<Rightarrow> execution_request \<Rightarrow> engine \<Rightarrow> fill_candidate \<Rightarrow> engine res" where
  "open_step z rq s c =
     (case m_pending (en_machine s) of
        None \<Rightarrow> Inr s
      | Some p \<Rightarrow>
          if instant (fc_timestamp c) < instant (po_eligible_at p) then Inr s
          else let d = assess_execution z (po_side p) (fc_timestamp c) (fc_eligibility c)
                         (map_option lot_entry_at (m_position (en_machine s)))
               in case cr_decision d of
                 DATA_INSUFFICIENT \<Rightarrow>
                   Inr (fail_step s c (reason_or ''data_insufficient_execution_status'' (cr_reason d)))
               | BLOCKED \<Rightarrow>
                   bind_res (block_pending (en_machine s) (fc_timestamp c)
                               (reason_or ''not_executable'' (cr_reason d)))
                     (\<lambda>(m, _). Inr (s\<lparr>en_machine := m\<rparr>))
               | EXECUTABLE \<Rightarrow>
                   (case fc_open_price c of
                      None \<Rightarrow> Inr (fail_step s c ''data_insufficient_fill_open'')
                    | Some price \<Rightarrow> fill_step rq s c (po_side p) price))"

definition signal_step ::
  "zone \<Rightarrow> execution_request \<Rightarrow> int list \<Rightarrow> engine \<Rightarrow> signal_bar \<Rightarrow> engine res" where
  "signal_step z rq keys s b =
     bind_res (on_signals (en_machine s) (sb_buy b) (sb_sell b) (sb_timestamp b)
                 (Some (eligible_at z rq (sb_timestamp b) keys)))
       (\<lambda>(m, _). Inr (s\<lparr>en_machine := m\<rparr>))"

text \<open>The loop body; after \<open>break\<close> the remaining items change nothing.\<close>

definition engine_step ::
  "zone \<Rightarrow> execution_request \<Rightarrow> int list \<Rightarrow> engine \<Rightarrow> timeline_item \<Rightarrow> engine res" where
  "engine_step z rq keys s i =
     (if en_failure s \<noteq> None then Inr s
      else case i of
        SignalItem b \<Rightarrow> signal_step z rq keys s b
      | OpenItem c \<Rightarrow> open_step z rq s c)"

definition candidate_keys :: "zone \<Rightarrow> execution_request \<Rightarrow> int list" where
  "candidate_keys z rq = map (\<lambda>c. eligibility_key z (rq_period rq) (fc_timestamp c)) (rq_candidates rq)"

definition engine_finish :: "execution_request \<Rightarrow> engine \<Rightarrow> machine res" where
  "engine_finish rq s =
     (case rq_ended_at rq of
        None \<Rightarrow> Inr (en_machine s)
      | Some t \<Rightarrow>
          if en_failure s \<noteq> None then Inr (en_machine s)
          else bind_res (finish_range (en_machine s) t
                  (if m_position (en_machine s) \<noteq> None then rq_mark_price rq else None))
                (\<lambda>(m, _). Inr m))"

definition engine_run :: "zone \<Rightarrow> execution_request \<Rightarrow> execution_result res" where
  "engine_run z rq =
     bind_res (run_res (engine_step z rq (candidate_keys z rq)) engine_init (timeline rq)) (\<lambda>s.
     bind_res (engine_finish rq s) (\<lambda>m.
     Inr \<lparr>rs_trades = en_trades s, rs_order_events = m_events m,
          rs_blocked_events = filter is_OrderBlocked (m_events m), rs_failure = en_failure s\<rparr>))"

section \<open>When an order may execute\<close>

definition executable_evidence :: "zone \<Rightarrow> order_side \<Rightarrow> pytime \<Rightarrow> eligibility \<Rightarrow> bool" where
  "executable_evidence z side tm e \<longleftrightarrow>
     el_timestamp e = tm \<and> el_trading_day e = local_date z tm \<and> el_evidence_complete e
     \<and> el_is_exchange_open e \<and> el_suspension_state e \<noteq> UNKNOWN \<and> el_suspension_state e \<noteq> SUSPENDED
     \<and> \<not> (case side of Buy \<Rightarrow> el_buy_blocked_at_open e | Sell \<Rightarrow> el_sell_blocked_at_open e)"

lemma assess_executable:
  "cr_decision (assess_execution z side tm elig entry) = EXECUTABLE \<longleftrightarrow>
     (\<exists>e. elig = Some e \<and> executable_evidence z side tm e)
     \<and> (side = Sell \<longrightarrow> (\<exists>t. entry = Some t \<and> local_date z t < local_date z tm))"
  by (cases elig; cases side; cases entry)
    (auto simp: assess_execution_def executable_evidence_def blocked_because_def insufficient_because_def)

lemma assess_blocked_reason:
  "cr_decision (assess_execution z side tm elig entry) = BLOCKED \<Longrightarrow>
     \<exists>r. cr_reason (assess_execution z side tm elig entry) = Some r
       \<and> r \<in> {''exchange_closed'', ''suspended'', ''limit_up'', ''limit_down'', ''t_plus_one''}"
  by (cases elig; cases entry)
    (auto simp: assess_execution_def blocked_because_def insufficient_because_def split: if_splits)

section \<open>Binary search\<close>

lemma bisect_loop_bounds:
  assumes "sorted xs" and "hi \<le> length xs" and "lo \<le> hi"
    and "\<forall>i < lo. xs ! i \<le> x" and "\<forall>i. hi \<le> i \<and> i < length xs \<longrightarrow> x < xs ! i"
  shows "lo \<le> bisect_loop xs x lo hi \<and> bisect_loop xs x lo hi \<le> hi
    \<and> (\<forall>i < bisect_loop xs x lo hi. xs ! i \<le> x)
    \<and> (\<forall>i. bisect_loop xs x lo hi \<le> i \<and> i < length xs \<longrightarrow> x < xs ! i)"
  using assms
proof (induction xs x lo hi rule: bisect_loop.induct)
  case (1 xs x lo hi)
  show ?case
  proof (cases "lo < hi")
    case False
    then have "bisect_loop xs x lo hi = lo" by (simp add: bisect_loop.simps)
    with 1(3-) False show ?thesis by (metis le_antisym not_less order_refl)
  next
    case True
    define mid where "mid = (lo + hi) div 2"
    have mid: "lo \<le> mid" "mid < hi" using True by (auto simp: mid_def)
    show ?thesis
    proof (cases "x < xs ! mid")
      case below: True
      have "x < xs ! i" if "mid \<le> i" "i < length xs" for i
        using sorted_nth_mono [OF 1(3) that] below by linarith
      then have "\<forall>i. mid \<le> i \<and> i < length xs \<longrightarrow> x < xs ! i" by blast
      moreover have "bisect_loop xs x lo hi = bisect_loop xs x lo mid"
        using True below by (subst bisect_loop.simps) (simp add: mid_def Let_def)
      ultimately show ?thesis
        using "1.IH"(1) [OF True mid_def below 1(3) _ mid(1) 1(6)] mid 1(4) by fastforce
    next
      case above: False
      have "xs ! i \<le> x" if "i < mid + 1" for i
        using sorted_nth_mono [OF 1(3), of i mid] that above mid 1(4) by force
      then have "\<forall>i < mid + 1. xs ! i \<le> x" by blast
      moreover have "bisect_loop xs x lo hi = bisect_loop xs x (mid + 1) hi"
        using True above by (subst bisect_loop.simps) (simp add: mid_def Let_def)
      ultimately show ?thesis
        using "1.IH"(2) [OF True mid_def above 1(3) 1(4) _ _ 1(7)] mid by fastforce
    qed
  qed
qed

lemma bisect_right_sorted:
  assumes "sorted xs"
  shows "bisect_right xs x \<le> length xs \<and> (\<forall>i < bisect_right xs x. xs ! i \<le> x)
    \<and> (\<forall>i. bisect_right xs x \<le> i \<and> i < length xs \<longrightarrow> x < xs ! i)"
  using bisect_loop_bounds [OF assms, of "length xs" 0 x] by (simp add: bisect_right_def)

lemma bisect_right_takeWhile:
  assumes "sorted xs"
  shows "bisect_right xs x = length (takeWhile (\<lambda>k. k \<le> x) xs)"
proof -
  let ?n = "bisect_right xs x"
  have n: "?n \<le> length xs" "\<forall>i < ?n. xs ! i \<le> x" "\<forall>i. ?n \<le> i \<and> i < length xs \<longrightarrow> x < xs ! i"
    using bisect_right_sorted [OF assms, of x] by simp_all
  have "takeWhile (\<lambda>k. k \<le> x) xs = take ?n xs"
  proof (rule takeWhile_eq_take_P_nth)
    show "\<not> xs ! ?n \<le> x" if "?n < length xs" using n(3) that by force
  qed (use n(2) in simp)
  then show ?thesis using n(1) by simp
qed

section \<open>Sorted inputs\<close>

lemma validate_request_Inr:
  "validate_request rq = Inr u \<Longrightarrow>
     0 < rq_quantity rq \<and> rq_quantity rq mod 100 = 0
     \<and> sorted (map (instant \<circ> sb_timestamp) (rq_signals rq))
     \<and> sorted (map (instant \<circ> fc_timestamp) (rq_candidates rq))
     \<and> (\<forall>t. rq_ended_at rq = Some t \<longrightarrow> is_aware t)"
  using sorted_sort_key [of "instant \<circ> sb_timestamp" "rq_signals rq"]
    sorted_sort_key [of "instant \<circ> fc_timestamp" "rq_candidates rq"]
  by (auto simp: validate_request_def res_simps split: option.splits)

context local_clock
begin

lemma eligibility_key_mono:
  "instant a \<le> instant b \<Longrightarrow> eligibility_key z p a \<le> eligibility_key z p b"
  using local_date_mono [of a b] week_start_mono
  by (cases p) (simp_all add: eligibility_key_def day_us_def)

lemma eligibility_key_less:
  "eligibility_key z p a < eligibility_key z p b \<Longrightarrow> instant a < instant b"
  using eligibility_key_mono [of b a p] by linarith

lemma candidate_keys_sorted:
  assumes "validate_request rq = Inr u"
  shows "sorted (candidate_keys z rq)"
  using validate_request_Inr [OF assms] eligibility_key_mono
  by (auto simp: candidate_keys_def sorted_iff_nth_mono)

lemma eligible_at_later:
  assumes "validate_request rq = Inr u"
  shows "instant s < instant (eligible_at z rq s (candidate_keys z rq))
    \<and> (eligibility_key z (rq_period rq) s
         < eligibility_key z (rq_period rq) (eligible_at z rq s (candidate_keys z rq))
       \<or> (\<forall>c \<in> set (rq_candidates rq).
            eligibility_key z (rq_period rq) (fc_timestamp c) \<le> eligibility_key z (rq_period rq) s))"
proof -
  let ?k = "eligibility_key z (rq_period rq)" and ?keys = "candidate_keys z rq"
  define n where "n = bisect_right ?keys (?k s)"
  have len: "length ?keys = length (rq_candidates rq)" by (simp add: candidate_keys_def)
  have n: "\<forall>i < n. ?keys ! i \<le> ?k s" "\<forall>i. n \<le> i \<and> i < length ?keys \<longrightarrow> ?k s < ?keys ! i"
    using bisect_right_sorted [OF candidate_keys_sorted [OF assms], of "?k s"] by (simp_all add: n_def)
  show ?thesis
  proof (cases "n < length (rq_candidates rq)")
    case True
    then have e: "eligible_at z rq s ?keys = fc_timestamp (rq_candidates rq ! n)"
      by (simp add: eligible_at_def n_def Let_def)
    have "?k s < ?k (fc_timestamp (rq_candidates rq ! n))"
      using n(2) True len by (simp add: candidate_keys_def)
    then show ?thesis using e eligibility_key_less by simp
  next
    case False
    then have e: "eligible_at z rq s ?keys = plus_us 1 s" by (simp add: eligible_at_def n_def Let_def)
    have "?k (fc_timestamp c) \<le> ?k s" if c: "c \<in> set (rq_candidates rq)" for c
    proof -
      obtain i where i: "i < length (rq_candidates rq)" "c = rq_candidates rq ! i"
        using c by (auto simp: in_set_conv_nth)
      with n(1) False have "?keys ! i \<le> ?k s" by auto
      with i show ?thesis by (simp add: candidate_keys_def)
    qed
    moreover have "instant s < instant (plus_us 1 s)" by (cases s) simp_all
    ultimately show ?thesis using e by simp
  qed
qed

end
section \<open>What the engine keeps\<close>

definition executed :: "zone \<Rightarrow> execution_request \<Rightarrow> order_side \<Rightarrow> execution_fill \<Rightarrow> bool" where
  "executed z rq side f \<longleftrightarrow>
     (\<exists>c \<in> set (rq_candidates rq). fc_timestamp c = xf_timestamp f \<and> fc_open_price c = Some (xf_price f)
        \<and> (\<exists>e. fc_eligibility c = Some e \<and> executable_evidence z side (fc_timestamp c) e))"

definition trade_ok :: "zone \<Rightarrow> execution_request \<Rightarrow> execution_trade \<Rightarrow> bool" where
  "trade_ok z rq t \<longleftrightarrow> executed z rq Buy (xt_entry t)
     \<and> (\<forall>f. xt_exit t = Some f \<longrightarrow> executed z rq Sell f
          \<and> local_date z (xf_timestamp (xt_entry t)) < local_date z (xf_timestamp f))"

text \<open>The trades as a sequence of fills, and the fills of an event log.\<close>

definition trade_fills :: "execution_trade \<Rightarrow> (order_side \<times> execution_fill) list" where
  "trade_fills t = (Buy, xt_entry t) # (case xt_exit t of None \<Rightarrow> [] | Some f \<Rightarrow> [(Sell, f)])"

definition fill_view :: "order_event \<Rightarrow> order_side \<times> execution_fill" where
  "fill_view e = (filled_side e, \<lparr>xf_timestamp = filled_time e, xf_price = filled_price e\<rparr>)"

definition log_fills :: "order_event list \<Rightarrow> (order_side \<times> execution_fill) list" where
  "log_fills es = map fill_view (filter is_OrderFilled es)"

text \<open>All trades but one held open are closed.\<close>

definition trades_match :: "execution_trade list \<Rightarrow> position_lot option \<Rightarrow> bool" where
  "trades_match ts position \<longleftrightarrow>
     (case position of
        None \<Rightarrow> \<forall>t \<in> set ts. xt_exit t \<noteq> None
      | Some lot \<Rightarrow> \<exists>closed. ts = closed @ [\<lparr>xt_entry = \<lparr>xf_timestamp = lot_entry_at lot,
            xf_price = lot_entry_price lot\<rparr>, xt_exit = None\<rparr>] \<and> (\<forall>t \<in> set closed. xt_exit t \<noteq> None))"

definition fill_ok :: "zone \<Rightarrow> execution_request \<Rightarrow> order_event \<Rightarrow> bool" where
  "fill_ok z rq e \<longleftrightarrow> (is_OrderFilled e \<longrightarrow> filled_quantity e = rq_quantity rq
     \<and> instant (eligible_at z rq (filled_signal_at e) (candidate_keys z rq)) \<le> instant (filled_time e))"

definition engine_inv :: "zone \<Rightarrow> execution_request \<Rightarrow> engine \<Rightarrow> bool" where
  "engine_inv z rq s \<longleftrightarrow> machine_inv (en_machine s) \<and> \<not> m_terminal (en_machine s)
     \<and> trades_match (en_trades s) (m_position (en_machine s))
     \<and> concat (map trade_fills (en_trades s)) = log_fills (m_events (en_machine s))
     \<and> (\<forall>t \<in> set (en_trades s). trade_ok z rq t)
     \<and> (\<forall>p. m_pending (en_machine s) = Some p \<longrightarrow>
          po_eligible_at p = eligible_at z rq (po_signal_at p) (candidate_keys z rq))
     \<and> (\<forall>lot. m_position (en_machine s) = Some lot \<longrightarrow> lot_quantity lot = rq_quantity rq)
     \<and> (\<forall>e \<in> set (m_events (en_machine s)). fill_ok z rq e)"

lemma engine_inv_init: "engine_inv z rq engine_init"
  by (simp add: engine_inv_def engine_init_def machine_inv_init trades_match_def log_fills_def)
    (simp add: machine_init_def)

text \<open>A signal or a block changes neither the position nor the fills.\<close>

lemma engine_inv_same:
  assumes "engine_inv z rq s" and "machine_inv m" and "\<not> m_terminal m"
    and "m_position m = m_position (en_machine s)" and "m_events m = m_events (en_machine s) @ es"
    and "\<forall>e \<in> set es. \<not> is_OrderFilled e"
    and "\<And>p. m_pending m = Some p \<Longrightarrow>
          po_eligible_at p = eligible_at z rq (po_signal_at p) (candidate_keys z rq)"
  shows "engine_inv z rq (s\<lparr>en_machine := m\<rparr>)"
proof -
  have "filter is_OrderFilled es = []" using assms(6) by (simp add: filter_empty_conv)
  then show ?thesis using assms by (auto simp: engine_inv_def log_fills_def fill_ok_def)
qed

lemma on_signals_pending:
  assumes "machine_inv m" and "on_signals m buy sell tm (Some el) = Inr (m', es)"
  shows "\<not> m_terminal m' \<and> (\<forall>e \<in> set es. \<not> is_OrderFilled e)
    \<and> (m_pending m' = m_pending m \<or> m_pending m' = None
       \<or> (\<exists>p. m_pending m' = Some p \<and> po_signal_at p = tm \<and> po_eligible_at p = el))"
proof -
  have wf: "machine_wf m" using assms(1) by (simp add: machine_inv_def)
  show ?thesis
    using on_signals_Inr [OF assms(2)]
  proof (elim disjE exE conjE)
    fix signal
    assume s: "on_signal m signal tm (Some el) = Inr (m', es)"
    have "m_pending m = None \<Longrightarrow> m_pending m' = Some p \<Longrightarrow> po_eligible_at p = el" for p
      using s wf by (cases "m_state m"; cases signal; cases "the signal")
        (auto simp: on_signal_def res_simps Let_def advance_clock_def ignored_def open_pending_def
          cancel_pending_def record_events_def mk_event_defs machine_wf_def shape_ok_def)
    with on_signal_cases [OF wf s] show ?thesis by auto
  qed (simp add: advance_clock_def)
qed

lemma signal_step_inv:
  assumes "engine_inv z rq s" and "signal_step z rq (candidate_keys z rq) s b = Inr s'"
  shows "engine_inv z rq s'"
proof -
  from assms(2) obtain m es where
      r: "on_signals (en_machine s) (sb_buy b) (sb_sell b) (sb_timestamp b)
        (Some (eligible_at z rq (sb_timestamp b) (candidate_keys z rq))) = Inr (m, es)"
    and s': "s' = s\<lparr>en_machine := m\<rparr>"
    by (auto simp: signal_step_def res_simps)
  have inv: "machine_inv (en_machine s)" using assms(1) by (simp add: engine_inv_def)
  note i = on_signals_inv [OF inv r] and p = on_signals_pending [OF inv r]
  have ev: "m_events m = m_events (en_machine s) @ es" using i by (simp add: advances_def)
  show ?thesis unfolding s'
  proof (rule engine_inv_same [OF assms(1) _ _ _ ev])
    show "po_eligible_at q = eligible_at z rq (po_signal_at q) (candidate_keys z rq)"
      if "m_pending m = Some q" for q
      using p that assms(1) by (auto simp: engine_inv_def)
  qed (use i p in simp_all)
qed

lemma book_fill_match:
  assumes "trades_match ts position"
  shows "position = None \<Longrightarrow> trades_match (book_fill Buy f ts)
      (Some \<lparr>lot_entry_at = xf_timestamp f, lot_entry_price = xf_price f, lot_quantity = q\<rparr>)"
    and "position = Some lot \<Longrightarrow> trades_match (book_fill Sell f ts) None"
  using assms by (auto simp: trades_match_def book_fill_def)

lemma book_fill_log:
  "concat (map trade_fills (book_fill Buy f ts)) = concat (map trade_fills ts) @ [(Buy, f)]"
  "trades_match ts (Some lot) \<Longrightarrow>
     concat (map trade_fills (book_fill Sell f ts)) = concat (map trade_fills ts) @ [(Sell, f)]"
  by (auto simp: book_fill_def trade_fills_def trades_match_def)

lemma book_fill_ok:
  "\<forall>t \<in> set ts. trade_ok z rq t \<Longrightarrow> executed z rq Buy f \<Longrightarrow> \<forall>t \<in> set (book_fill Buy f ts). trade_ok z rq t"
  "\<forall>t \<in> set ts. trade_ok z rq t \<Longrightarrow> trades_match ts (Some lot) \<Longrightarrow> executed z rq Sell f \<Longrightarrow>
     local_date z (lot_entry_at lot) < local_date z (xf_timestamp f) \<Longrightarrow>
     \<forall>t \<in> set (book_fill Sell f ts). trade_ok z rq t"
  by (auto simp: book_fill_def trade_ok_def trades_match_def)

lemma log_fills_snoc:
  "log_fills (es @ [OrderFilled side sig tm d q])
     = log_fills es @ [(side, \<lparr>xf_timestamp = tm, xf_price = d\<rparr>)]"
  by (simp add: log_fills_def fill_view_def)

lemma fill_step_inv:
  assumes s: "engine_inv z rq s" and p: "m_pending (en_machine s) = Some p"
    and c: "c \<in> set (rq_candidates rq)" "fc_open_price c = Some price"
    and x: "cr_decision (assess_execution z (po_side p) (fc_timestamp c) (fc_eligibility c)
        (map_option lot_entry_at (m_position (en_machine s)))) = EXECUTABLE"
    and r: "fill_step rq s c (po_side p) price = Inr s'"
  shows "engine_inv z rq s'"
proof -
  let ?f = "\<lparr>xf_timestamp = fc_timestamp c, xf_price = price\<rparr>"
  let ?m = "en_machine s"
  from r obtain m es where fp: "fill_pending ?m (fc_timestamp c) (Finite price)
        (if po_side p = Buy then Some (rq_quantity rq) else None) = Inr (m, es)"
    and s': "s' = s\<lparr>en_machine := m, en_trades := book_fill (po_side p) ?f (en_trades s)\<rparr>"
    by (auto simp: fill_step_def res_simps)
  have inv: "machine_inv ?m" using s by (simp add: engine_inv_def)
  have shape: "shape_ok ?m" using inv by (simp add: machine_inv_def machine_wf_def)
  have ex: "executed z rq (po_side p) ?f"
    using x c by (auto simp: executed_def assess_executable)
  have m: "machine_inv m" using fill_pending_inv [OF inv fp] by simp
  have match: "trades_match (en_trades s) (m_position ?m)"
    and log: "concat (map trade_fills (en_trades s)) = log_fills (m_events ?m)"
    and tok: "\<forall>t \<in> set (en_trades s). trade_ok z rq t"
    and el: "po_eligible_at p = eligible_at z rq (po_signal_at p) (candidate_keys z rq)"
    and lq: "\<forall>lot. m_position ?m = Some lot \<longrightarrow> lot_quantity lot = rq_quantity rq"
    and fok: "\<forall>e \<in> set (m_events ?m). fill_ok z rq e"
    using s p by (simp_all add: engine_inv_def)
  from fp obtain q where out: "\<not> m_terminal ?m" "instant (po_eligible_at p) \<le> instant (fc_timestamp c)"
      "es = [OrderFilled (po_side p) (po_signal_at p) (fc_timestamp c) price q]"
      "m_pending m = None" "m_terminal m = m_terminal ?m" "m_events m = m_events ?m @ es"
    and buy: "po_side p = Buy \<Longrightarrow> q = rq_quantity rq \<and> m_position m
        = Some \<lparr>lot_entry_at = fc_timestamp c, lot_entry_price = price, lot_quantity = q\<rparr>"
    and sell: "po_side p = Sell \<Longrightarrow> (\<exists>lot. m_position ?m = Some lot \<and> q = lot_quantity lot)
        \<and> m_position m = None"
    by (rule fill_pending_Inr) (use p in \<open>auto simp: advances_def\<close>)
  have q: "q = rq_quantity rq" using buy sell lq by (cases "po_side p") auto
  have fok': "\<forall>e \<in> set (m_events m). fill_ok z rq e"
    using fok out q el by (simp add: fill_ok_def)
  have log': "log_fills (m_events m) = log_fills (m_events ?m) @ [(po_side p, ?f)]"
    using out by (simp add: log_fills_snoc)
  show ?thesis
  proof (cases "po_side p")
    case Buy
    with shape p have n: "m_position ?m = None" by (auto simp: shape_ok_def split: position_state.splits)
    show ?thesis
      using book_fill_match(1) [OF match n, of ?f q] book_fill_log(1) [of ?f "en_trades s"]
        book_fill_ok(1) [OF tok, of ?f] ex Buy buy q log log' out m fok' s'
      by (simp add: engine_inv_def)
  next
    case Sell
    then obtain lot where lot: "m_position ?m = Some lot" using sell by blast
    have d: "local_date z (lot_entry_at lot) < local_date z (xf_timestamp ?f)"
      using x Sell lot by (simp add: assess_executable)
    have ms: "trades_match (en_trades s) (Some lot)" using match lot by simp
    show ?thesis
      using book_fill_match(2) [OF match lot, of ?f] book_fill_log(2) [OF ms, of ?f]
        book_fill_ok(2) [OF tok ms _ d] ex Sell sell log log' out m fok' s'
      by (simp add: engine_inv_def)
  qed
qed

lemma fail_step_inv: "engine_inv z rq s \<Longrightarrow> engine_inv z rq (fail_step s c reason)"
  by (simp add: engine_inv_def fail_step_def)

lemma block_step_inv:
  assumes s: "engine_inv z rq s" and r: "block_pending (en_machine s) tm reason = Inr (m, es)"
  shows "engine_inv z rq (s\<lparr>en_machine := m\<rparr>)"
proof -
  have inv: "machine_inv (en_machine s)" using s by (simp add: engine_inv_def)
  note i = block_pending_inv [OF inv r]
  have ev: "m_events m = m_events (en_machine s) @ es" using i by (simp add: advances_def)
  have es: "\<forall>e \<in> set es. \<not> is_OrderFilled e" and t: "\<not> m_terminal m"
    using r by (auto elim!: block_pending_Inr simp: advance_clock_def)
  show ?thesis
    by (rule engine_inv_same [OF s _ t _ ev es]) (use i s in \<open>auto simp: engine_inv_def\<close>)
qed

lemma open_step_inv:
  assumes s: "engine_inv z rq s" and c: "c \<in> set (rq_candidates rq)" and r: "open_step z rq s c = Inr s'"
  shows "engine_inv z rq s'"
proof (cases "m_pending (en_machine s)")
  case None
  with r s show ?thesis by (simp add: open_step_def)
next
  case (Some p)
  let ?d = "assess_execution z (po_side p) (fc_timestamp c) (fc_eligibility c)
    (map_option lot_entry_at (m_position (en_machine s)))"
  show ?thesis
  proof (cases "instant (fc_timestamp c) < instant (po_eligible_at p)")
    case True
    with r s Some show ?thesis by (simp add: open_step_def)
  next
    case due: False
    show ?thesis
    proof (cases "cr_decision ?d")
      case BLOCKED
      with r Some due obtain m es where "block_pending (en_machine s) (fc_timestamp c)
          (reason_or ''not_executable'' (cr_reason ?d)) = Inr (m, es)" "s' = s\<lparr>en_machine := m\<rparr>"
        by (auto simp: open_step_def Let_def res_simps)
      with block_step_inv [OF s] show ?thesis by simp
    next
      case DATA_INSUFFICIENT
      with r Some due fail_step_inv [OF s] show ?thesis by (auto simp: open_step_def Let_def)
    next
      case EXECUTABLE
      show ?thesis
      proof (cases "fc_open_price c")
        case None
        with r Some due EXECUTABLE fail_step_inv [OF s] show ?thesis by (auto simp: open_step_def Let_def)
      next
        case price: (Some price)
        with r Some due EXECUTABLE have "fill_step rq s c (po_side p) price = Inr s'"
          by (simp add: open_step_def Let_def)
        with fill_step_inv [OF s Some c price EXECUTABLE] show ?thesis by blast
      qed
    qed
  qed
qed

section \<open>The engine as a machine\<close>

text \<open>An input of the walk is a validated bar or candidate of the request.\<close>

definition item_ok :: "execution_request \<Rightarrow> timeline_item \<Rightarrow> bool" where
  "item_ok rq i \<longleftrightarrow> is_aware (item_time i)
     \<and> (\<forall>c. i = OpenItem c \<longrightarrow> c \<in> set (rq_candidates rq)
          \<and> (\<forall>p. fc_open_price c = Some p \<longrightarrow> 0 < dval p))"

lemma engine_step_inv:
  assumes "engine_inv z rq s" and "item_ok rq i" and "engine_step z rq (candidate_keys z rq) s i = Inr s'"
  shows "engine_inv z rq s'"
proof (cases "en_failure s")
  case None
  show ?thesis
  proof (cases i)
    case (OpenItem c)
    have c: "c \<in> set (rq_candidates rq)" using assms(2) OpenItem by (simp add: item_ok_def)
    have "open_step z rq s c = Inr s'" using assms(3) None OpenItem by (simp add: engine_step_def)
    then show ?thesis by (rule open_step_inv [OF assms(1) c])
  next
    case (SignalItem b)
    have "signal_step z rq (candidate_keys z rq) s b = Inr s'"
      using assms(3) None SignalItem by (simp add: engine_step_def)
    then show ?thesis by (rule signal_step_inv [OF assms(1)])
  qed
next
  case (Some f)
  then show ?thesis using assms(1,3) by (simp add: engine_step_def)
qed

definition request_ok :: "execution_request \<Rightarrow> bool" where
  "request_ok rq \<longleftrightarrow> validate_request rq = Inr ()
     \<and> (\<forall>b \<in> set (rq_signals rq). is_aware (sb_timestamp b))
     \<and> (\<forall>c \<in> set (rq_candidates rq). is_aware (fc_timestamp c)
          \<and> (\<forall>p. fc_open_price c = Some p \<longrightarrow> 0 < dval p))"

lemma mk_fill_candidate_ok:
  "mk_fill_candidate tm p elig = Inr c \<Longrightarrow> is_aware (fc_timestamp c) \<and> fc_timestamp c = tm
     \<and> fc_eligibility c = elig \<and> map_option Finite (fc_open_price c) = p
     \<and> (\<forall>d. fc_open_price c = Some d \<longrightarrow> 0 < dval d)"
  by (cases p; cases "the p") (auto simp: mk_fill_candidate_def res_simps not_le)

lemma timeline_ok:
  assumes "request_ok rq"
  shows "\<forall>i \<in> set (timeline rq). item_ok rq i"
  using assms by (auto simp: timeline_def item_ok_def request_ok_def)

lemma timeline_sorted: "sorted_wrt (\<lambda>i j. item_key i \<le> item_key j) (timeline rq)"
  using sorted_sort_key [of item_key] by (simp add: timeline_def sorted_map)

definition item_before :: "timeline_item \<Rightarrow> timeline_item \<Rightarrow> bool" where
  "item_before i j \<longleftrightarrow> instant (item_time i) \<le> instant (item_time j)"

lemma timeline_before: "sorted_wrt item_before (timeline rq)"
  by (rule sorted_wrt_mono_rel [OF _ timeline_sorted])
    (auto simp: item_before_def item_key_def less_eq_prod_def)

lemma eligible_at_aware:
  assumes "request_ok rq" and "is_aware s"
  shows "is_aware (eligible_at z rq s keys)"
proof (cases s)
  case (Aware t)
  with assms show ?thesis by (auto simp: eligible_at_def request_ok_def Let_def)
next
  case (Naive t)
  with assms show ?thesis by simp
qed

definition clock_before :: "engine \<Rightarrow> timeline_item \<Rightarrow> bool" where
  "clock_before s i \<longleftrightarrow>
     (\<forall>l. m_last (en_machine s) = Some l \<longrightarrow> instant l \<le> instant (item_time i))"

lemma engine_step_clock:
  assumes "engine_inv z rq s" and "engine_step z rq keys s i = Inr s'"
  shows "m_last (en_machine s') = m_last (en_machine s) \<or> m_last (en_machine s') = Some (item_time i)"
proof -
  have inv: "machine_inv (en_machine s)" using assms(1) by (simp add: engine_inv_def)
  show ?thesis
  proof (cases i)
    case (SignalItem b)
    with assms(2) on_signals_inv [OF inv] show ?thesis
      by (fastforce simp: engine_step_def signal_step_def res_simps advances_def split: if_splits)
  next
    case (OpenItem c)
    have f: "fill_step rq s c side p = Inr s' \<Longrightarrow> ?thesis" for side p
      using fill_pending_inv [OF inv] OpenItem by (fastforce simp: fill_step_def res_simps advances_def)
    have b: "block_pending (en_machine s) (fc_timestamp c) r = Inr (m, es) \<Longrightarrow>
        m_last m = Some (item_time i)" for r m es
      using block_pending_inv [OF inv] OpenItem by (fastforce simp: advances_def)
    show ?thesis
      using assms(2) OpenItem f b
      by (auto simp: engine_step_def open_step_def Let_def fail_step_def res_simps
          split: if_splits option.splits constraint_decision.splits)
  qed
qed

lemma fill_step_total:
  assumes inv: "engine_inv z rq s" and p: "m_pending (en_machine s) = Some p"
    and q: "0 < rq_quantity rq" and d: "0 < dval d"
    and ck: "accepts (en_machine s) (fc_timestamp c)"
    and el: "instant (po_eligible_at p) \<le> instant (fc_timestamp c)"
  shows "\<exists>s'. fill_step rq s c (po_side p) d = Inr s'"
proof -
  let ?m = "en_machine s"
  have mi: "machine_wf ?m" using inv by (simp add: engine_inv_def machine_inv_def)
  have po: "is_aware (po_signal_at p)" "instant (po_signal_at p) \<le> instant (fc_timestamp c)"
    using mi p el by (auto simp: machine_wf_def pending_ok_def not_after_def)
  have aw: "is_aware (fc_timestamp c)" using ck by (simp add: accepts_def)
  note g = accepts_guards [OF ck]
  show ?thesis
  proof (cases "po_side p")
    case Buy
    then show ?thesis using g p el d q po aw
      by (simp add: fill_step_def fill_pending_def require_pending_def settle_buy_def mk_order_filled_def
          record_events_def validate_quantity_def)
  next
    case Sell
    with mi p obtain lot where lot: "m_position ?m = Some lot"
      by (auto simp: machine_wf_def shape_ok_def split: position_state.splits)
    with mi have "0 < lot_quantity lot" by (simp add: machine_wf_def lot_ok_def)
    then show ?thesis using Sell lot g p el d po aw
      by (simp add: fill_step_def fill_pending_def require_pending_def settle_sell_def mk_order_filled_def
          record_events_def validate_quantity_def)
  qed
qed

lemma block_step_total:
  assumes "m_pending m = Some p" and "accepts m tm" and "instant (po_eligible_at p) \<le> instant tm"
    and "validate_reason_code reason = Inr ()"
  shows "\<exists>r. block_pending m tm reason = Inr r"
  using assms accepts_guards [OF assms(2)]
  by (simp add: block_pending_def require_pending_def mk_order_blocked_def record_events_def accepts_def)

lemma blocked_reason_valid:
  assumes "cr_decision (assess_execution z side tm elig entry) = BLOCKED"
  shows "validate_reason_code (reason_or d (cr_reason (assess_execution z side tm elig entry))) = Inr ()"
proof -
  have "validate_reason_code ''exchange_closed'' = Inr ()" "validate_reason_code ''suspended'' = Inr ()"
    "validate_reason_code ''limit_up'' = Inr ()" "validate_reason_code ''limit_down'' = Inr ()"
    "validate_reason_code ''t_plus_one'' = Inr ()"
    by (simp_all add: validate_reason_code_def max_reason_code_length_def ascii_lower_def reason_char_def)
  with assess_blocked_reason [OF assms] show ?thesis by (auto simp: reason_or_def)
qed

lemma open_step_total:
  assumes inv: "engine_inv z rq s" and rq: "request_ok rq" and i: "item_ok rq (OpenItem c)"
    and ck: "clock_before s (OpenItem c)"
  shows "\<exists>s'. open_step z rq s c = Inr s'"
proof (cases "m_pending (en_machine s)")
  case None
  then show ?thesis by (simp add: open_step_def)
next
  case (Some p)
  let ?d = "assess_execution z (po_side p) (fc_timestamp c) (fc_eligibility c)
    (map_option lot_entry_at (m_position (en_machine s)))"
  have acc: "accepts (en_machine s) (fc_timestamp c)"
    using inv i ck by (simp add: accepts_def engine_inv_def item_ok_def clock_before_def)
  have q: "0 < rq_quantity rq" using rq validate_request_Inr [of rq] by (simp add: request_ok_def)
  show ?thesis
  proof (cases "instant (fc_timestamp c) < instant (po_eligible_at p)")
    case True
    with Some show ?thesis by (simp add: open_step_def)
  next
    case due: False
    then have el: "instant (po_eligible_at p) \<le> instant (fc_timestamp c)" by simp
    show ?thesis
    proof (cases "cr_decision ?d")
      case BLOCKED
      obtain m es where "block_pending (en_machine s) (fc_timestamp c)
          (reason_or ''not_executable'' (cr_reason ?d)) = Inr (m, es)"
        using block_step_total [OF Some acc el blocked_reason_valid [OF BLOCKED, of "''not_executable''"]] by auto
      with Some due BLOCKED show ?thesis by (simp add: open_step_def Let_def)
    next
      case DATA_INSUFFICIENT
      with Some due show ?thesis by (simp add: open_step_def Let_def)
    next
      case EXECUTABLE
      show ?thesis
      proof (cases "fc_open_price c")
        case None
        with Some due EXECUTABLE show ?thesis by (simp add: open_step_def Let_def)
      next
        case price: (Some d)
        with i have "0 < dval d" by (simp add: item_ok_def)
        with fill_step_total [OF inv Some q _ acc el, of d] Some due EXECUTABLE price
        show ?thesis by (simp add: open_step_def Let_def)
      qed
    qed
  qed
qed

lemma signal_step_total:
  assumes z: "local_clock z" and inv: "engine_inv z rq s" and rq: "request_ok rq"
    and i: "item_ok rq (SignalItem b)" and ck: "clock_before s (SignalItem b)"
  shows "\<exists>s'. signal_step z rq (candidate_keys z rq) s b = Inr s'"
proof -
  let ?el = "eligible_at z rq (sb_timestamp b) (candidate_keys z rq)"
  have aw: "is_aware (sb_timestamp b)" using i by (simp add: item_ok_def)
  have acc: "accepts (en_machine s) (sb_timestamp b)"
    using inv aw ck by (simp add: accepts_def engine_inv_def clock_before_def)
  have shape: "shape_ok (en_machine s)" using inv by (simp add: engine_inv_def machine_inv_def machine_wf_def)
  have "instant (sb_timestamp b) \<le> instant ?el"
    using local_clock.eligible_at_later [OF z, of rq "()" "sb_timestamp b"] rq
    by (simp add: request_ok_def)
  from on_signals_effect [OF shape acc eligible_at_aware [OF rq aw] this, of "sb_buy b" "sb_sell b"]
  show ?thesis by (auto simp: signal_step_def)
qed

lemma engine_step_total:
  assumes "local_clock z" and "engine_inv z rq s" and "request_ok rq"
    and "item_ok rq i" and "clock_before s i"
  shows "\<exists>s'. engine_step z rq (candidate_keys z rq) s i = Inr s'"
  using open_step_total [OF assms(2,3)] signal_step_total [OF assms(1-3)] assms(4,5)
  by (cases i) (simp_all add: engine_step_def)

text \<open>The walk under a forward clock and a validated request: it keeps its invariant and never raises.\<close>

definition engine_total_inv :: "zone \<Rightarrow> execution_request \<Rightarrow> engine \<Rightarrow> bool" where
  "engine_total_inv z rq s \<longleftrightarrow> local_clock z \<and> request_ok rq \<and> engine_inv z rq s"

interpretation engine: fallible_machine "engine_step z rq (candidate_keys z rq)" "engine_inv z rq" "item_ok rq"
  for z rq
  by unfold_locales (rule engine_step_inv)

interpretation engine_total: total_machine "engine_step z rq (candidate_keys z rq)"
  "engine_total_inv z rq" "item_ok rq" clock_before item_before
  for z rq
proof unfold_locales
  fix s i s'
  assume "engine_total_inv z rq s" "item_ok rq i" "engine_step z rq (candidate_keys z rq) s i = Inr s'"
  then show "engine_total_inv z rq s'" using engine_step_inv [of z rq s i s'] by (simp add: engine_total_inv_def)
next
  fix s i
  assume "engine_total_inv z rq s" "item_ok rq i" "clock_before s i"
  then show "\<exists>s'. engine_step z rq (candidate_keys z rq) s i = Inr s'"
    using engine_step_total by (simp add: engine_total_inv_def)
next
  fix s j s' i
  assume "engine_total_inv z rq s" "engine_step z rq (candidate_keys z rq) s j = Inr s'"
    and before: "clock_before s i" "item_before j i"
  then have "m_last (en_machine s') = m_last (en_machine s) \<or> m_last (en_machine s') = Some (item_time j)"
    using engine_step_clock [of z rq s _ j s'] by (simp add: engine_total_inv_def)
  with before show "clock_before s' i" by (auto simp: clock_before_def item_before_def)
qed

section \<open>Facts of a run\<close>

lemma engine_finish_Inr:
  assumes "engine_inv z rq s" and "engine_finish rq s = Inr m"
  shows "m_position m = m_position (en_machine s) \<and> log_fills (m_events m) = log_fills (m_events (en_machine s))
    \<and> (\<forall>e \<in> set (m_events m). is_OrderFilled e \<longrightarrow> e \<in> set (m_events (en_machine s)))
    \<and> filter is_OrderBlocked (m_events m) = filter is_OrderBlocked (m_events (en_machine s))
    \<and> machine_inv m"
proof -
  have inv: "machine_inv (en_machine s)" using assms(1) by (simp add: engine_inv_def)
  show ?thesis
  proof (cases "rq_ended_at rq = None \<or> en_failure s \<noteq> None")
    case True
    then have "m = en_machine s" using assms(2) by (auto simp: engine_finish_def split: option.splits)
    with inv show ?thesis by simp
  next
    case False
    then obtain t es where f: "finish_range (en_machine s) t
        (if m_position (en_machine s) \<noteq> None then rq_mark_price rq else None) = Inr (m, es)"
      using assms(2) by (auto simp: engine_finish_def res_simps)
    from f have ev: "m_events m = m_events (en_machine s) @ es" and pos: "m_position m = m_position (en_machine s)"
      and es: "\<forall>e \<in> set es. \<not> is_OrderFilled e \<and> \<not> is_OrderBlocked e"
    proof (atomize (full), rule finish_range_Inr, intro conjI)
      fix unfilled marked
      assume es: "es = unfilled @ marked"
        and u: "unfilled = (case m_pending (en_machine s) of None \<Rightarrow> []
          | Some p \<Rightarrow> [OrderUnfilled (po_side p) (po_signal_at p) (po_eligible_at p) t])"
        and n: "m_position (en_machine s) = None \<Longrightarrow> (if m_position (en_machine s) \<noteq> None
          then rq_mark_price rq else None) = None \<and> marked = []"
        and k: "\<And>lot. m_position (en_machine s) = Some lot \<Longrightarrow> \<exists>mp e. (if m_position (en_machine s) \<noteq> None
          then rq_mark_price rq else None) = Some (Finite mp) \<and> 0 < dval mp
          \<and> mark_lot lot t mp = Inr e \<and> marked = [e]"
        and a: "advances t (en_machine s) m es" and pos: "m_position m = m_position (en_machine s)"
      show "m_events m = m_events (en_machine s) @ es" using a by (simp add: advances_def)
      show "m_position m = m_position (en_machine s)" by (rule pos)
      have "\<forall>e \<in> set marked. \<not> is_OrderFilled e \<and> \<not> is_OrderBlocked e"
        using n k by (cases "m_position (en_machine s)") (auto dest!: mark_lot_Inr)
      then show "\<forall>e \<in> set es. \<not> is_OrderFilled e \<and> \<not> is_OrderBlocked e"
        using es u by (auto split: option.splits)
    qed
    have "filter is_OrderFilled es = []" "filter is_OrderBlocked es = []"
      using es by (simp_all add: filter_empty_conv)
    then show ?thesis using ev pos es finish_range_inv [OF inv f] by (auto simp: log_fills_def)
  qed
qed

lemma engine_run_Inr:
  assumes rq: "request_ok rq" and r: "engine_run z rq = Inr res"
  obtains s m where "engine_inv z rq s" and "engine_finish rq s = Inr m"
    and "rs_trades res = en_trades s" and "rs_order_events res = m_events m"
    and "rs_blocked_events res = filter is_OrderBlocked (m_events m)" and "rs_failure res = en_failure s"
proof -
  from r obtain s m where w: "run_res (engine_step z rq (candidate_keys z rq)) engine_init (timeline rq) = Inr s"
    and "engine_finish rq s = Inr m"
    and "res = \<lparr>rs_trades = en_trades s, rs_order_events = m_events m,
      rs_blocked_events = filter is_OrderBlocked (m_events m), rs_failure = en_failure s\<rparr>"
    by (auto simp: engine_run_def res_simps)
  moreover have "engine_inv z rq s"
    by (rule engine.run_inv [OF engine_inv_init w timeline_ok [OF rq]])
  ultimately show ?thesis by (intro that [of s m]) simp_all
qed

section \<open>What happens to an order while it waits\<close>











section \<open>Example\<close>

text \<open>Shanghai midnight and half past nine of day \<open>n\<close>.\<close>

definition midnight :: "int \<Rightarrow> pytime" where
  "midnight n = Aware (n * day_us - 28800000000)"

definition morning :: "int \<Rightarrow> pytime" where
  "morning n = Aware (n * day_us + 5400000000)"

definition normal_open :: "int \<Rightarrow> int \<Rightarrow> fill_candidate" where
  "normal_open n price =
     \<lparr>fc_timestamp = morning n, fc_open_price = Some (Dec False (nat price) 0),
      fc_eligibility = Some \<lparr>el_timestamp = morning n, el_trading_day = n, el_is_exchange_open = True,
        el_suspension_state = NORMAL, el_buy_blocked_at_open = False, el_sell_blocked_at_open = False,
        el_evidence_complete = True\<rparr>\<rparr>"


definition three_days :: execution_request where
  "three_days = \<lparr>rq_period = DAY,
      rq_signals = [\<lparr>sb_timestamp = midnight 1, sb_buy = Some True, sb_sell = None\<rparr>,
                    \<lparr>sb_timestamp = midnight 3, sb_buy = None, sb_sell = Some True\<rparr>],
      rq_candidates = [normal_open 1 10, normal_open 2 11, normal_open 3 12, normal_open 4 13],
      rq_quantity = 1000, rq_ended_at = None, rq_mark_price = None\<rparr>"

lemma three_days_run:
  "engine_run china_standard_time three_days = Inr
     \<lparr>rs_trades = [\<lparr>xt_entry = \<lparr>xf_timestamp = morning 2, xf_price = Dec False 11 0\<rparr>,
        xt_exit = Some \<lparr>xf_timestamp = morning 4, xf_price = Dec False 13 0\<rparr>\<rparr>],
      rs_order_events = [OrderPending Buy (midnight 1) (morning 2),
        OrderFilled Buy (midnight 1) (morning 2) (Dec False 11 0) 1000,
        OrderPending Sell (midnight 3) (morning 4),
        OrderFilled Sell (midnight 3) (morning 4) (Dec False 13 0) 1000],
      rs_blocked_events = [], rs_failure = None\<rparr>"
  by code_simp

lemma three_days_ok: "request_ok three_days"
proof -
  have "validate_request three_days = Inr ()" by code_simp
  then show ?thesis
    by (auto simp: request_ok_def three_days_def normal_open_def midnight_def morning_def dval_def)
qed

section \<open>Properties\<close>

text \<open>
  C7. On a validated request, under any local clock that never runs backwards, the walk along
  the timeline never raises; without an end of the range the whole run gives a result.
\<close>

theorem engine_run_total:
  assumes "local_clock z" and "request_ok rq"
  shows "(\<exists>s. run_res (engine_step z rq (candidate_keys z rq)) engine_init (timeline rq) = Inr s)
    \<and> (rq_ended_at rq = None \<longrightarrow> (\<exists>r. engine_run z rq = Inr r))"
proof -
  have "engine_total_inv z rq engine_init" using assms engine_inv_init by (simp add: engine_total_inv_def)
  moreover have "\<forall>i \<in> set (timeline rq). item_ok rq i \<and> clock_before engine_init i"
    using timeline_ok [OF assms(2)] by (simp add: clock_before_def engine_init_def machine_init_def)
  ultimately obtain s where s: "run_res (engine_step z rq (candidate_keys z rq)) engine_init (timeline rq) = Inr s"
    using engine_total.run_total [OF _ _ timeline_before] by blast
  then show ?thesis by (auto simp: engine_run_def engine_finish_def)
qed

theorem engine_run_total_witness:
  "request_ok three_days \<and> (\<exists>r. engine_run china_standard_time three_days = Inr r)"
  using engine_run_total [OF cst.local_clock_axioms three_days_ok] three_days_ok
  by (simp add: three_days_def)

text \<open>
  C8. The trades of a result are its event log: their entries and exits, in order, are exactly
  the fills of the log, every trade but a last one held open has an exit, every fill is for the
  requested quantity, and the blocked events are those of the log.
\<close>

theorem engine_trades_are_log_fills:
  assumes "request_ok rq" and "engine_run z rq = Inr r"
  shows "concat (map trade_fills (rs_trades r)) = log_fills (rs_order_events r)
    \<and> (\<forall>t \<in> set (butlast (rs_trades r)). xt_exit t \<noteq> None)
    \<and> (\<forall>e \<in> set (rs_order_events r). is_OrderFilled e \<longrightarrow> filled_quantity e = rq_quantity rq)
    \<and> rs_blocked_events r = filter is_OrderBlocked (rs_order_events r)"
  using assms
proof (rule engine_run_Inr)
  fix s m
  assume inv: "engine_inv z rq s" and f: "engine_finish rq s = Inr m"
    and r: "rs_trades r = en_trades s" "rs_order_events r = m_events m"
      "rs_blocked_events r = filter is_OrderBlocked (m_events m)"
  note fin = engine_finish_Inr [OF inv f]
  have "\<forall>t \<in> set (butlast (en_trades s)). xt_exit t \<noteq> None"
    using inv by (cases "m_position (en_machine s)")
      (auto simp: engine_inv_def trades_match_def dest: in_set_butlastD)
  moreover have "filled_quantity e = rq_quantity rq" if "e \<in> set (m_events m)" "is_OrderFilled e" for e
    using inv fin that by (simp add: engine_inv_def fill_ok_def)
  ultimately show ?thesis using inv fin r by (simp add: engine_inv_def)
qed

theorem engine_trades_are_log_fills_witness:
  "\<exists>r. engine_run china_standard_time three_days = Inr r
    \<and> concat (map trade_fills (rs_trades r)) = log_fills (rs_order_events r) \<and> length (rs_trades r) = 1"
  using engine_trades_are_log_fills [OF three_days_ok three_days_run] three_days_run by simp

text \<open>
  C9. No trade is made on missing evidence and none is closed on its own day: every entry and
  every exit is at the price and time of a candidate of the request whose status evidence is
  complete, of that very instant and local date, of an open and not suspended day and
  not at the limit that blocks the side; an exit's local date is later than its entry's.
\<close>

theorem engine_trades_executable:
  assumes "request_ok rq" and "engine_run z rq = Inr r" and "t \<in> set (rs_trades r)"
  shows "executed z rq Buy (xt_entry t)
    \<and> (\<forall>f. xt_exit t = Some f \<longrightarrow> executed z rq Sell f
         \<and> local_date z (xf_timestamp (xt_entry t)) < local_date z (xf_timestamp f))"
  using assms(1,2)
  by (rule engine_run_Inr) (use assms(3) in \<open>auto simp: engine_inv_def trade_ok_def\<close>)

theorem engine_trades_executable_witness:
  "\<exists>r t. engine_run china_standard_time three_days = Inr r \<and> t \<in> set (rs_trades r)
    \<and> executed china_standard_time three_days Buy (xt_entry t) \<and> xt_exit t \<noteq> None"
proof -
  obtain r t where r: "engine_run china_standard_time three_days = Inr r" and t: "t \<in> set (rs_trades r)"
    and x: "xt_exit t \<noteq> None"
    using three_days_run by simp
  from engine_trades_executable [OF three_days_ok r t] r t x show ?thesis by blast
qed

text \<open>
  C10. A fill comes after its signal: under a forward clock it is strictly later, and at a later
  eligibility key (a later local day for daily data, a later week for weekly data, a later
  instant for 60-minute data) unless the request has no candidate with a later key at all.
\<close>

theorem engine_fills_after_signal:
  assumes "local_clock z" and "request_ok rq" and "engine_run z rq = Inr r"
    and "e \<in> set (rs_order_events r)" and "is_OrderFilled e"
  shows "instant (filled_signal_at e) < instant (filled_time e)
    \<and> (eligibility_key z (rq_period rq) (filled_signal_at e) < eligibility_key z (rq_period rq) (filled_time e)
       \<or> (\<forall>c \<in> set (rq_candidates rq). eligibility_key z (rq_period rq) (fc_timestamp c)
            \<le> eligibility_key z (rq_period rq) (filled_signal_at e)))"
  using assms(2,3)
proof (rule engine_run_Inr)
  let ?el = "eligible_at z rq (filled_signal_at e) (candidate_keys z rq)"
  fix s m
  assume inv: "engine_inv z rq s" and f: "engine_finish rq s = Inr m" and r: "rs_order_events r = m_events m"
  have "e \<in> set (m_events (en_machine s))" using engine_finish_Inr [OF inv f] assms(4,5) r by simp
  then have le: "instant ?el \<le> instant (filled_time e)"
    using inv assms(5) by (simp add: engine_inv_def fill_ok_def)
  have "validate_request rq = Inr ()" using assms(2) by (simp add: request_ok_def)
  note later = local_clock.eligible_at_later [OF assms(1) this, of "filled_signal_at e"]
  have "eligibility_key z (rq_period rq) ?el \<le> eligibility_key z (rq_period rq) (filled_time e)"
    using le by (rule local_clock.eligibility_key_mono [OF assms(1)])
  with later le show ?thesis by (meson less_le_trans)
qed

theorem engine_fills_after_signal_witness:
  "\<exists>r e. engine_run china_standard_time three_days = Inr r \<and> e \<in> set (rs_order_events r)
    \<and> is_OrderFilled e \<and> instant (filled_signal_at e) < instant (filled_time e)"
proof -
  obtain r e where r: "engine_run china_standard_time three_days = Inr r"
    and e: "e \<in> set (rs_order_events r)" "is_OrderFilled e"
    using three_days_run by fastforce
  from engine_fills_after_signal [OF cst.local_clock_axioms three_days_ok r e] r e show ?thesis by blast
qed


















end
