(* ===== verification/Costs.thy ===== *)
theory Costs
  imports Order_Events
begin

text \<open>
  The cost contract of \<open>backtest/costs.py\<close>: the frozen cost model, the pricing of one order
  with adverse slippage and independently rounded fees, and the checks of \<open>OrderCost\<close>, which
  runs them in the default 28-digit context. An argument may be any Decimal; a validated one is
  finite.
\<close>

definition price_quantum :: dec where "price_quantum = Dec False 1 (-4)"

definition money_quantum :: dec where "money_quantum = Dec False 1 (-2)"

definition basis_points :: dec where "basis_points = Dec False 10000 0"

definition cost_model_version :: string where "cost_model_version = ''a-share-cost-v1''"

section \<open>Field checks\<close>

fun validate_finite_decimal :: "string \<Rightarrow> pydec \<Rightarrow> dec res" where
  "validate_finite_decimal field_name (Finite d) = Inr d"
| "validate_finite_decimal field_name _ = Inl (ValueError (field_name @ '' must be a finite Decimal''))"

fun validate_nonnegative_decimal :: "string \<Rightarrow> pydec \<Rightarrow> dec res" where
  "validate_nonnegative_decimal field_name (Finite d) =
     (if dval d < 0 then Inl (ValueError (field_name @ '' must be a nonnegative finite Decimal'')) else Inr d)"
| "validate_nonnegative_decimal field_name _ =
     Inl (ValueError (field_name @ '' must be a nonnegative finite Decimal''))"

fun validate_positive_decimal :: "string \<Rightarrow> pydec \<Rightarrow> dec res" where
  "validate_positive_decimal field_name (Finite d) =
     (if dval d \<le> 0 then Inl (ValueError (field_name @ '' must be a positive finite Decimal'')) else Inr d)"
| "validate_positive_decimal field_name _ =
     Inl (ValueError (field_name @ '' must be a positive finite Decimal''))"

definition validate_rate :: "string \<Rightarrow> pydec \<Rightarrow> dec res" where
  "validate_rate field_name v =
     bind_res (validate_nonnegative_decimal field_name v) (\<lambda>d.
       if dval basis_points < dval d
       then Inl (ValueError (field_name @ '' cannot exceed 10000 basis points'')) else Inr d)"

definition validate_lot :: "int \<Rightarrow> unit res" where
  "validate_lot value =
     (if value \<le> 0 then Inl (ValueError ''quantity must be a positive integer'')
      else if value mod 100 \<noteq> 0 then Inl (ValueError ''quantity must use a 100-share lot'')
      else Inr ())"

section \<open>Precision and rounding\<close>

definition fractional_digits :: "dec \<Rightarrow> int" where
  "fractional_digits d = max (- expo d) 0"

definition calculation_precision :: "dec list \<Rightarrow> nat" where
  "calculation_precision values =
     (let integer_digits = foldr max (map (\<lambda>v. max (adjusted v + 1) 1) values) 1;
          fraction_digits = foldr max (map fractional_digits values) 0
      in nat (max 50 (integer_digits + fraction_digits + 16)))"

definition quantize_to :: "dec \<Rightarrow> dec \<Rightarrow> dec res" where
  "quantize_to quantum value =
     (case dec_quantize HalfUp (calculation_precision [value, quantum]) value quantum of
        Inl InvalidOperation \<Rightarrow> Inl (ValueError ''Decimal value exceeds the supported accounting range'')
      | Inl e \<Rightarrow> Inl e
      | Inr r \<Rightarrow> Inr (canonical_zero r))"

definition round_money :: "dec \<Rightarrow> dec res" where
  "round_money value = quantize_to money_quantum value"

definition normalize_reference_price :: "pydec \<Rightarrow> dec res" where
  "normalize_reference_price value =
     bind_res (validate_positive_decimal ''reference_open'' value) (quantize_to price_quantum)"

definition divide_decimal :: "dec \<Rightarrow> dec \<Rightarrow> dec res" where
  "divide_decimal numerator denominator =
     (if dec_is_zero denominator then Inl (ZeroDivisionError ''ratio denominator cannot be zero'')
      else case dec_div HalfUp 28 numerator denominator of
        Inl e \<Rightarrow> if is_decimal_exception e
                 then Inl (ValueError ''ratio result must be a finite Decimal'') else Inl e
      | Inr r \<Rightarrow> Inr (canonical_zero r))"

section \<open>The cost model\<close>

record cost_model =
  cm_commission_bps :: dec
  cm_minimum_commission :: dec
  cm_sell_tax_bps :: dec
  cm_slippage_bps :: dec
  cm_version :: string

definition mk_cost_model :: "pydec \<Rightarrow> pydec \<Rightarrow> pydec \<Rightarrow> pydec \<Rightarrow> string \<Rightarrow> cost_model res" where
  "mk_cost_model commission minimum tax slippage version =
     bind_res (validate_rate ''commission_bps'' commission) (\<lambda>c.
     bind_res (validate_nonnegative_decimal ''minimum_commission'' minimum) (\<lambda>m.
     bind_res (validate_rate ''sell_tax_bps'' tax) (\<lambda>t.
     bind_res (validate_rate ''slippage_bps'' slippage) (\<lambda>s.
     if version \<noteq> cost_model_version then Inl (ValueError ''version must be a-share-cost-v1'')
     else bind_res (quantize_to money_quantum m) (\<lambda>m'.
       Inr \<lparr>cm_commission_bps = canonical_zero c, cm_minimum_commission = m',
            cm_sell_tax_bps = canonical_zero t, cm_slippage_bps = canonical_zero s,
            cm_version = version\<rparr>)))))"

section \<open>The cost of an order\<close>

record order_cost =
  oc_side :: order_side
  oc_reference_open :: dec
  oc_fill_price :: dec
  oc_quantity :: int
  oc_notional :: dec
  oc_slippage_cost :: dec
  oc_commission :: dec
  oc_sell_tax :: dec

fun canonical_pydec :: "pydec \<Rightarrow> pydec" where
  "canonical_pydec (Finite d) = Finite (canonical_zero d)"
| "canonical_pydec v = v"

definition check_fen :: "string \<Rightarrow> pydec \<Rightarrow> dec res" where
  "check_fen field_name v =
     bind_res (validate_nonnegative_decimal field_name v) (\<lambda>d.
     bind_res (round_money d) (\<lambda>r.
       if dval d \<noteq> dval r then Inl (ValueError (field_name @ '' must be rounded to fen'')) else Inr d))"

definition check_price_precision :: "string \<Rightarrow> dec \<Rightarrow> unit res" where
  "check_price_precision field_name d =
     bind_res (quantize_to price_quantum d) (\<lambda>r.
       if dval d \<noteq> dval r then Inl (ValueError (field_name @ '' must use the contract price precision''))
       else Inr ())"

definition check_fill_side :: "order_side \<Rightarrow> dec \<Rightarrow> dec \<Rightarrow> unit res" where
  "check_fill_side side reference fill =
     (if side = Buy \<and> dval fill < dval reference
      then Inl (ValueError ''buy fill cannot improve on reference_open'')
      else if side = Sell \<and> dval reference < dval fill
      then Inl (ValueError ''sell fill cannot improve on reference_open'')
      else Inr ())"

text \<open>The default-context products: the notional, and the slippage between the two prices.\<close>

definition expected_notional :: "dec \<Rightarrow> int \<Rightarrow> dec res" where
  "expected_notional fill quantity = bind_res (mul28 fill (dec_of_int quantity)) round_money"

definition expected_slippage :: "order_side \<Rightarrow> dec \<Rightarrow> dec \<Rightarrow> int \<Rightarrow> dec res" where
  "expected_slippage side reference fill quantity =
     bind_res (if side = Buy then sub28 fill reference else sub28 reference fill) (\<lambda>d.
     bind_res (mul28 d (dec_of_int quantity)) round_money)"

definition mk_order_cost ::
  "order_side \<Rightarrow> pydec \<Rightarrow> pydec \<Rightarrow> int \<Rightarrow> pydec \<Rightarrow> pydec \<Rightarrow> pydec \<Rightarrow> pydec \<Rightarrow> order_cost res" where
  "mk_order_cost side reference_open fill_price quantity notional slippage_cost commission sell_tax =
     bind_res (validate_positive_decimal ''reference_open'' (canonical_pydec reference_open)) (\<lambda>ref.
     bind_res (validate_positive_decimal ''fill_price'' (canonical_pydec fill_price)) (\<lambda>fill.
     then_res (validate_lot quantity)
    (bind_res (check_fen ''notional'' (canonical_pydec notional)) (\<lambda>n.
     bind_res (check_fen ''slippage_cost'' (canonical_pydec slippage_cost)) (\<lambda>sl.
     bind_res (check_fen ''commission'' (canonical_pydec commission)) (\<lambda>c.
     bind_res (check_fen ''sell_tax'' (canonical_pydec sell_tax)) (\<lambda>t.
     then_res (check_price_precision ''reference_open'' ref)
    (then_res (check_price_precision ''fill_price'' fill)
    (then_res (check_fill_side side ref fill)
    (bind_res (expected_notional fill quantity) (\<lambda>en.
     if dval n \<noteq> dval en then Inl (ValueError ''notional must equal fill price times quantity'')
     else bind_res (expected_slippage side ref fill quantity) (\<lambda>es.
       if dval sl \<noteq> dval es
       then Inl (ValueError ''slippage_cost does not bridge reference and fill prices'')
       else if side = Buy \<and> dval t \<noteq> 0 then Inl (ValueError ''buy order cannot contain sell_tax'')
       else Inr \<lparr>oc_side = side, oc_reference_open = ref, oc_fill_price = fill, oc_quantity = quantity,
                 oc_notional = n, oc_slippage_cost = sl, oc_commission = c, oc_sell_tax = t\<rparr>))))))))))))"

section \<open>Pricing an order\<close>

abbreviation mul_in :: "nat \<Rightarrow> dec \<Rightarrow> dec \<Rightarrow> dec res" where
  "mul_in p \<equiv> dec_mul HalfEven p"

text \<open>\<open>reference * (Decimal("1") + direction * slippage_bps / BASIS_POINTS)\<close>\<close>

definition raw_fill :: "order_side \<Rightarrow> dec \<Rightarrow> dec \<Rightarrow> dec res" where
  "raw_fill side reference slippage =
     (let p = calculation_precision [reference, slippage];
          direction = (case side of Buy \<Rightarrow> Dec False 1 0 | Sell \<Rightarrow> Dec True 1 0)
      in bind_res (mul_in p direction slippage) (\<lambda>x.
         bind_res (dec_div HalfEven p x basis_points) (\<lambda>y.
         bind_res (dec_add HalfEven p (Dec False 1 0) y) (\<lambda>f.
         mul_in p reference f))))"

text \<open>\<open>notional * rate_bps / BASIS_POINTS\<close>\<close>

definition raw_fee :: "dec \<Rightarrow> dec \<Rightarrow> dec res" where
  "raw_fee notional rate =
     (let p = calculation_precision [notional, rate]
      in bind_res (mul_in p notional rate) (\<lambda>x. dec_div HalfEven p x basis_points))"

definition raw_slippage :: "nat \<Rightarrow> order_side \<Rightarrow> dec \<Rightarrow> dec \<Rightarrow> int \<Rightarrow> dec res" where
  "raw_slippage p side reference fill quantity =
     bind_res (if side = Buy then dec_sub HalfEven p fill reference
               else dec_sub HalfEven p reference fill) (\<lambda>d.
     mul_in p d (dec_of_int quantity))"

definition sell_tax_of :: "order_side \<Rightarrow> dec \<Rightarrow> cost_model \<Rightarrow> dec res" where
  "sell_tax_of side notional model =
     (if side = Sell
      then bind_res (raw_fee notional (cm_sell_tax_bps model)) (quantize_to money_quantum)
      else Inr (Dec False 0 (-2)))"

definition price_order :: "order_side \<Rightarrow> pydec \<Rightarrow> int \<Rightarrow> cost_model \<Rightarrow> order_cost res" where
  "price_order side reference_open quantity model =
     then_res (validate_positive_decimal ''reference_open'' reference_open)
    (then_res (validate_lot quantity)
    (bind_res (normalize_reference_price reference_open) (\<lambda>ref.
     bind_res (raw_fill side ref (cm_slippage_bps model)) (\<lambda>rf.
     bind_res (quantize_to price_quantum rf) (\<lambda>fill.
     if dval fill \<le> 0 then Inl (ValueError ''slippage must leave a positive sell fill price'')
     else
       let p = calculation_precision [fill, dec_of_int quantity]
       in bind_res (mul_in p fill (dec_of_int quantity)) (\<lambda>rn.
          bind_res (raw_slippage p side ref fill quantity) (\<lambda>rs.
          bind_res (quantize_to money_quantum rn) (\<lambda>notional.
          bind_res (quantize_to money_quantum rs) (\<lambda>slippage_cost.
          bind_res (raw_fee notional (cm_commission_bps model)) (\<lambda>rc.
          bind_res (quantize_to money_quantum rc) (\<lambda>qc.
          bind_res (sell_tax_of side notional model) (\<lambda>sell_tax.
          mk_order_cost side (Finite ref) (Finite fill) quantity (Finite notional)
            (Finite slippage_cost) (Finite (dec_max (cm_minimum_commission model) qc))
            (Finite sell_tax)))))))))))))"

section \<open>Multiples of a power of ten\<close>

definition scaled :: "int \<Rightarrow> rat \<Rightarrow> bool" where
  "scaled k x \<longleftrightarrow> (\<exists>n. x = of_int n * 10 powi (- k))"

lemma scaledI: "x = of_int n * 10 powi (- k) \<Longrightarrow> scaled k x"
  by (auto simp: scaled_def)

lemma scaled_mult: "scaled a x \<Longrightarrow> scaled b y \<Longrightarrow> scaled (a + b) (x * y)"
proof -
  assume "scaled a x" "scaled b y"
  then obtain m n where x: "x = of_int m * 10 powi (- a)" and y: "y = of_int n * 10 powi (- b)"
    by (auto simp: scaled_def)
  have "x * y = of_int (m * n) * (10 powi (- a) * 10 powi (- b))" by (simp add: x y)
  also have "10 powi (- a) * 10 powi (- b) = (10 :: rat) powi (- (a + b))"
    by (simp only: pow10_add [symmetric]) simp
  finally show ?thesis by (rule scaledI)
qed

lemma scaled_raise: "scaled a x \<Longrightarrow> a \<le> b \<Longrightarrow> scaled b x"
proof -
  assume "scaled a x" "a \<le> b"
  then obtain n where x: "x = of_int n * 10 powi (- a)" by (auto simp: scaled_def)
  have "x = of_int n * (10 powi (b - a) * 10 powi (- b))"
    unfolding x by (simp only: pow10_add [symmetric]) simp
  also have "(10 :: rat) powi (b - a) = of_int (10 ^ nat (b - a))"
    using \<open>a \<le> b\<close> by (simp add: pow10_nat)
  finally have "x = of_int (n * 10 ^ nat (b - a)) * 10 powi (- b)" by simp
  then show ?thesis by (rule scaledI)
qed

lemma scaled_add: "scaled k x \<Longrightarrow> scaled k y \<Longrightarrow> scaled k (x + y)"
  by (auto simp: scaled_def) (metis distrib_right of_int_add)

lemma scaled_minus: "scaled k x \<Longrightarrow> scaled k (- x)"
  by (auto simp: scaled_def) (metis minus_mult_left of_int_minus)

lemma scaled_diff: "scaled k x \<Longrightarrow> scaled k y \<Longrightarrow> scaled k (x - y)"
  using scaled_add [of k x "- y"] scaled_minus by simp

lemma scaled_of_int: "scaled 0 (of_int n)"
  by (rule scaledI [of _ n]) simp

lemma scaled_one: "scaled 0 1"
  using scaled_of_int [of 1] by simp

lemma scaled_div_bp: "scaled k x \<Longrightarrow> scaled (k + 4) (x / 10000)"
proof -
  assume "scaled k x"
  moreover have "scaled 4 (1 / 10000)"
    by (rule scaledI [of _ 1]) (simp add: power_int_minus)
  ultimately show ?thesis using scaled_mult [of k x 4 "1 / 10000"] by simp
qed

lemma scaled_dval: "scaled (fractional_digits d) (dval d)"
proof -
  have "scaled (- expo d) (dval d)"
    by (rule scaledI [of _ "signed_coeff d"]) (simp add: dval_signed)
  then show ?thesis by (rule scaled_raise) (simp add: fractional_digits_def)
qed

lemma fits_scaled:
  assumes "scaled k x" and "\<bar>x\<bar> < 10 powi i" and "i + k \<le> int p"
    and "0 \<le> i" and "0 \<le> k" and "k \<le> 900000" and "p \<le> 900000"
  shows "fits p x"
proof -
  from assms(1) obtain n where x: "x = of_int n * 10 powi (- k)" by (auto simp: scaled_def)
  have a: "\<bar>x\<bar> = of_nat (nat \<bar>n\<bar>) * 10 powi (- k)" by (simp add: x abs_mult)
  have "of_nat (nat \<bar>n\<bar>) = \<bar>x\<bar> * 10 powi k"
    unfolding a by (simp add: mult.assoc pow10_add [symmetric])
  also have "\<dots> < 10 powi i * 10 powi k" using assms(2) by simp
  also have "\<dots> = 10 powi (i + k)" by (simp add: pow10_add)
  also have "\<dots> \<le> (10 :: rat) powi int p" using assms(3) by (simp only: pow10_le_iff)
  finally have "(of_nat (nat \<bar>n\<bar>) :: rat) < of_nat (10 ^ p)" by (simp only: of_nat_pow10)
  then have "nat \<bar>n\<bar> < 10 ^ p" by (simp only: of_nat_less_iff)
  with a show ?thesis
    by (rule fitsI) (use assms in \<open>simp_all add: etiny_def etop_def emin_def emax_def\<close>)
qed

section \<open>Rounding never fails on accountable values\<close>

lemma calculation_precision_ge:
  "v \<in> set vs \<Longrightarrow> w \<in> set vs \<Longrightarrow>
     adjusted v + 1 + fractional_digits w + 16 \<le> int (calculation_precision vs)"
  "v \<in> set vs \<Longrightarrow> w \<in> set vs \<Longrightarrow> 17 + fractional_digits w \<le> int (calculation_precision vs)"
  "50 \<le> calculation_precision vs"
proof -
  define i where "i = foldr max (map (\<lambda>v. max (adjusted v + 1) 1) vs) 1"
  define f where "f = foldr max (map fractional_digits vs) 0"
  have le: "x \<le> foldr max ys b" if "x \<in> set ys" for x b :: int and ys
    using that by (induction ys) auto
  have *: "max (adjusted u + 1) 1 \<le> i" "fractional_digits u \<le> f" if "u \<in> set vs" for u
    unfolding i_def f_def by (rule le, use that in simp)+
  have p: "int (calculation_precision vs) = max 50 (i + f + 16)"
    by (simp add: calculation_precision_def i_def f_def Let_def)
  show "v \<in> set vs \<Longrightarrow> w \<in> set vs \<Longrightarrow>
     adjusted v + 1 + fractional_digits w + 16 \<le> int (calculation_precision vs)"
    using *(1) [of v] *(2) [of w] p by linarith
  show "v \<in> set vs \<Longrightarrow> w \<in> set vs \<Longrightarrow> 17 + fractional_digits w \<le> int (calculation_precision vs)"
    using *(1) [of v] *(2) [of w] p by linarith
  show "50 \<le> calculation_precision vs" using p by linarith
qed

lemma quantize_to_Inr:
  assumes "quantize_to q v = Inr x"
  shows "dval x = rhu (expo q) (dval v) \<and> expo x = expo q \<and> (coeff x = 0 \<longrightarrow> \<not> neg x)"
proof -
  from assms obtain r where r: "dec_quantize HalfUp (calculation_precision [v, q]) v q = Inr r"
    and x: "x = canonical_zero r"
    by (auto simp: quantize_to_def split: sum.splits exn.splits)
  from dec_quantize_Inr [OF r] show ?thesis
    by (auto simp: x canonical_zero_def dec_is_zero_def copy_abs_def dval_def)
qed

definition accountable :: "dec \<Rightarrow> bool" where
  "accountable d \<longleftrightarrow> coeff d = 0 \<or> adjusted d \<le> 900000"

lemma accountableI: "\<bar>dval d\<bar> < 10 powi k \<Longrightarrow> k \<le> 900000 \<Longrightarrow> accountable d"
  using adjusted_less_iff [of d k] by (cases "coeff d = 0") (auto simp: accountable_def)

lemma rhu_less:
  assumes "\<bar>x\<bar> < 10 powi a" and "e \<le> a"
  shows "\<bar>rhu e x\<bar> < 10 powi (a + 1)"
proof -
  have "\<bar>rhu e x\<bar> \<le> \<bar>x\<bar> + 10 powi e / 2" using rhu_error [of e x] by linarith
  moreover have "(10 :: rat) powi e \<le> 10 powi a" using assms(2) by (simp only: pow10_le_iff)
  moreover have "(10 :: rat) powi (a + 1) = 10 powi a * 10" by (simp add: pow10_add)
  moreover have "(0 :: rat) < 10 powi a" by simp
  ultimately show ?thesis using assms(1) by linarith
qed

lemma dec_quantize_ok:
  assumes v: "accountable v" and e: "expo q \<le> 0" "-100 \<le> expo q"
    and p: "0 < p" "adjusted v + 1 - expo q + 16 \<le> int p \<or> coeff v = 0" "16 - expo q \<le> int p"
  shows "\<exists>x. dec_quantize HalfUp p v q = Inr x"
proof -
  have q: "etiny p \<le> expo q" "expo q \<le> emax" using e by (simp_all add: etiny_def emin_def emax_def)
  show ?thesis
  proof (cases "coeff v = 0")
    case True
    with q show ?thesis by (simp add: dec_quantize_def dec_fix_def)
  next
    case False
    let ?ans = "dec_rescale HalfUp v (expo q)"
    define m where "m = max (adjusted v + 1) (expo q)"
    have "\<bar>dval v\<bar> < 10 powi (adjusted v + 1)" by (rule abs_dval_less)
    also have "\<dots> \<le> 10 powi m" by (simp only: pow10_le_iff m_def max.cobounded1)
    finally have "\<bar>dval v\<bar> < 10 powi m" .
    then have r: "\<bar>dval ?ans\<bar> < 10 powi (m + 1)"
      unfolding dval_dec_rescale by (rule rhu_less) (simp add: m_def)
    have ea: "expo ?ans = expo q" by (simp add: dec_rescale_def)
    have av: "adjusted v \<le> 900000" using v False by (simp add: accountable_def)
    have nd: "adjusted ?ans \<le> emax \<and> ndigits (coeff ?ans) \<le> p"
    proof (cases "coeff ?ans = 0")
      case True
      have "ndigits 0 = 1" by (simp add: ndigits.simps)
      with True show ?thesis using e p(1) by (simp add: adjusted_def ea emax_def)
    next
      case nz: False
      have a: "adjusted ?ans < m + 1" using r adjusted_less_iff [OF nz] by blast
      have "adjusted ?ans \<le> emax" using a av e by (simp add: m_def emax_def)
      moreover have "int (ndigits (coeff ?ans)) = adjusted ?ans - expo q + 1" by (simp add: adjusted_def ea)
      then have "ndigits (coeff ?ans) \<le> p" using a p False by (simp add: m_def)
      ultimately show ?thesis by blast
    qed
    have "dec_fix HalfUp p ?ans = Inr ?ans"
      by (rule dec_fix_short) (use nd q ea in simp_all)
    with False q nd av p show ?thesis
      by (simp add: dec_quantize_def Let_def emax_def)
  qed
qed

lemma quantize_to_total:
  assumes "accountable v" and "expo q \<le> 0" and "-100 \<le> expo q"
  shows "\<exists>x. quantize_to q v = Inr x"
proof -
  let ?p = "calculation_precision [v, q]"
  have f: "fractional_digits q = - expo q" using assms by (simp add: fractional_digits_def)
  have "\<exists>x. dec_quantize HalfUp ?p v q = Inr x"
  proof (rule dec_quantize_ok [OF assms])
    show "0 < ?p" using calculation_precision_ge(3) [of "[v, q]"] by simp
    show "adjusted v + 1 - expo q + 16 \<le> int ?p \<or> coeff v = 0"
      using calculation_precision_ge(1) [of v "[v, q]" q] f by simp
    show "16 - expo q \<le> int ?p"
      using calculation_precision_ge(2) [of v "[v, q]" q] f by simp
  qed
  then show ?thesis by (auto simp: quantize_to_def)
qed

lemma quantum_expo [simp]: "expo price_quantum = -4" "expo money_quantum = -2"
  by (simp_all add: price_quantum_def money_quantum_def)

lemma quantize_price:
  assumes "accountable v"
  obtains x where "quantize_to price_quantum v = Inr x" and "dval x = rhu (-4) (dval v)"
    and "expo x = -4" and "coeff x = 0 \<longrightarrow> \<not> neg x"
  using quantize_to_total [OF assms, of price_quantum] quantize_to_Inr [of price_quantum v] by auto

lemma quantize_money:
  assumes "accountable v"
  obtains x where "quantize_to money_quantum v = Inr x" and "dval x = rhu (-2) (dval v)"
    and "expo x = -2" and "coeff x = 0 \<longrightarrow> \<not> neg x"
  using quantize_to_total [OF assms, of money_quantum] quantize_to_Inr [of money_quantum v] by auto

section \<open>The context computations are exact\<close>

definition rate_ok :: "dec \<Rightarrow> bool" where
  "rate_ok r \<longleftrightarrow> 0 \<le> dval r \<and> dval r \<le> 10000 \<and> \<bar>expo r\<bar> \<le> 1000"

lemma dval_bp: "dval basis_points = 10000" by (simp add: basis_points_def dval_def)

lemma adjusted_le_of_less: "\<bar>dval d\<bar> < 10 powi k \<Longrightarrow> expo d \<le> k \<Longrightarrow> adjusted d \<le> k"
  using adjusted_less_iff [of d k] by (cases "coeff d = 0") (simp_all add: adjusted_def ndigits.simps [of 0])

lemma calculation_precision_le:
  assumes "\<And>v. v \<in> set vs \<Longrightarrow> adjusted v \<le> a \<and> fractional_digits v \<le> f" and "1 \<le> a" and "0 \<le> f"
  shows "int (calculation_precision vs) \<le> max 50 (a + f + 17)"
proof -
  have le: "(\<And>y. y \<in> set ys \<Longrightarrow> y \<le> c) \<Longrightarrow> b \<le> c \<Longrightarrow> foldr max ys b \<le> c" for ys and b c :: int
    by (induction ys) auto
  have "foldr max (map (\<lambda>v. max (adjusted v + 1) 1) vs) 1 \<le> a + 1"
    by (rule le) (use assms in auto)
  moreover have "foldr max (map fractional_digits vs) 0 \<le> f"
    by (rule le) (use assms in auto)
  moreover have "int (calculation_precision vs)
      = max 50 (foldr max (map (\<lambda>v. max (adjusted v + 1) 1) vs) 1
        + foldr max (map fractional_digits vs) 0 + 16)"
    by (simp add: calculation_precision_def Let_def)
  ultimately show ?thesis by linarith
qed

lemma precision_two:
  "max (adjusted a + 1) 1 + max (fractional_digits a) (fractional_digits b) + 16
     \<le> int (calculation_precision [a, b])"
proof -
  have "adjusted a + 1 + fractional_digits a + 16 \<le> int (calculation_precision [a, b])"
    "adjusted a + 1 + fractional_digits b + 16 \<le> int (calculation_precision [a, b])"
    "17 + fractional_digits a \<le> int (calculation_precision [a, b])"
    "17 + fractional_digits b \<le> int (calculation_precision [a, b])"
    using calculation_precision_ge(1) [of a "[a, b]" a] calculation_precision_ge(1) [of a "[a, b]" b]
      calculation_precision_ge(2) [of a "[a, b]" a] calculation_precision_ge(2) [of a "[a, b]" b]
    by simp_all
  then show ?thesis
    by (cases "adjusted a + 1 \<le> 1"; cases "fractional_digits a \<le> fractional_digits b") simp_all
qed

text \<open>An amount: at most four decimals and at most 26 integer digits.\<close>

definition amount_ok :: "dec \<Rightarrow> bool" where
  "amount_ok d \<longleftrightarrow> -4 \<le> expo d \<and> expo d \<le> 0 \<and> adjusted d \<le> 25"

lemma rate_ok_digits:
  assumes "rate_ok r"
  shows "adjusted r \<le> 1000 \<and> fractional_digits r \<le> 1000 \<and> \<bar>dval r\<bar> < 10 powi 5"
proof -
  have v: "\<bar>dval r\<bar> \<le> 10000" using assms by (simp add: rate_ok_def)
  have "(10000 :: rat) < 10 powi 5" by simp
  with v have "\<bar>dval r\<bar> < 10 powi 5" by linarith
  moreover have "(10 :: rat) powi 5 \<le> 10 powi 1000" by (simp only: pow10_le_iff)
  ultimately have "\<bar>dval r\<bar> < 10 powi 1000" by linarith
  then have "adjusted r \<le> 1000"
    by (rule adjusted_le_of_less) (use assms in \<open>auto simp: rate_ok_def abs_le_iff\<close>)
  with \<open>\<bar>dval r\<bar> < 10 powi 5\<close> assms show ?thesis by (auto simp: rate_ok_def fractional_digits_def)
qed

lemma precision_small:
  assumes "amount_ok a" and "rate_ok r"
  shows "calculation_precision [a, r] \<le> 5000"
proof -
  have "int (calculation_precision [a, r]) \<le> max 50 (1000 + 1000 + 17)"
    by (rule calculation_precision_le)
      (use assms rate_ok_digits [OF assms(2)] in \<open>auto simp: amount_ok_def fractional_digits_def\<close>)
  then show ?thesis by simp
qed

lemma mul_in_exact:
  assumes "scaled a (dval x)" and "scaled b (dval y)" and "\<bar>dval x\<bar> < 10 powi i" and "\<bar>dval y\<bar> < 10 powi j"
    and "i + j + a + b \<le> int p" and "0 \<le> i + j" and "0 \<le> a + b" and "a + b \<le> 900000" and "p \<le> 900000"
    and "0 < p"
  shows "\<exists>z. dec_mul r p x y = Inr z \<and> dval z = dval x * dval y"
proof (rule dec_mul_exact [OF assms(10)])
  have lt: "\<bar>dval x * dval y\<bar> < 10 powi (i + j)"
    unfolding abs_mult pow10_add using assms(3,4) by (intro mult_strict_mono') simp_all
  show "fits p (dval x * dval y)"
    by (rule fits_scaled [OF scaled_mult [OF assms(1,2)] lt]) (use assms in simp_all)
qed

definition fill_factor :: "order_side \<Rightarrow> rat \<Rightarrow> rat" where
  "fill_factor side bps = (case side of Buy \<Rightarrow> 1 + bps / 10000 | Sell \<Rightarrow> 1 - bps / 10000)"

lemma fill_factor_bounds: "0 \<le> b \<Longrightarrow> b \<le> 10000 \<Longrightarrow> 0 \<le> fill_factor side b \<and> fill_factor side b \<le> 2"
  by (cases side) (simp_all add: fill_factor_def)

lemma raw_fill_exact:
  assumes "amount_ok ref" and "rate_ok s"
  shows "\<exists>x. raw_fill side ref s = Inr x \<and> dval x = dval ref * fill_factor side (dval s)"
proof -
  define p where "p = calculation_precision [ref, s]"
  define f where "f = fractional_digits s"
  define i where "i = max (adjusted ref + 1) 1"
  define dir where "dir = (case side of Buy \<Rightarrow> Dec False 1 0 | Sell \<Rightarrow> Dec True 1 0)"
  have p5: "p \<le> 5000" using precision_small [OF assms] by (simp add: p_def)
  have p50: "50 \<le> p" unfolding p_def by (rule calculation_precision_ge)
  have fref: "fractional_digits ref \<le> 4" using assms(1) by (auto simp: amount_ok_def fractional_digits_def)
  have pge: "i + max (fractional_digits ref) f + 16 \<le> int p"
    using precision_two [of ref s] by (simp add: p_def i_def f_def)
  have f0: "0 \<le> f" "f \<le> 1000" using rate_ok_digits [OF assms(2)] by (simp_all add: f_def fractional_digits_def)
  have i1: "1 \<le> i" by (simp add: i_def)
  have sb: "0 \<le> dval s" "dval s \<le> 10000" using assms(2) by (simp_all add: rate_ok_def)
  have s5: "\<bar>dval s\<bar> < 10 powi 5" using rate_ok_digits [OF assms(2)] by blast
  have d: "dval dir = (case side of Buy \<Rightarrow> 1 | Sell \<Rightarrow> -1)" by (cases side) (simp_all add: dir_def dval_def)
  have sd: "scaled 0 (dval dir)" using scaled_one scaled_minus by (cases side) (simp_all add: d)
  have "\<exists>x. mul_in p dir s = Inr x \<and> dval x = dval dir * dval s"
    by (rule mul_in_exact [OF sd scaled_dval, of 1 s 5])
      (use d s5 pge i1 f0 p5 p50 in \<open>cases side; simp add: f_def\<close>)+
  then obtain x where x: "mul_in p dir s = Inr x" "dval x = dval dir * dval s" by blast
  have sx: "scaled f (dval x)" using scaled_mult [OF sd scaled_dval [of s]] x by (simp add: f_def)
  have "\<exists>y. dec_div HalfEven p x basis_points = Inr y \<and> dval y = dval x / dval basis_points"
  proof (rule dec_div_exact)
    have "\<bar>dval x / 10000\<bar> < 10 powi 1" using x d sb by (cases side) simp_all
    then show "fits p (dval x / dval basis_points)" unfolding dval_bp
      by (rule fits_scaled [OF scaled_div_bp [OF sx]]) (use pge i1 f0 p5 in simp_all)
  qed (use p50 in \<open>simp_all add: basis_points_def\<close>)
  then obtain y where y: "dec_div HalfEven p x basis_points = Inr y" "dval y = dval x / 10000"
    by (auto simp: dval_bp)
  have sy: "scaled (f + 4) (dval y)" using scaled_div_bp [OF sx] by (simp only: y(2))
  have v1: "dval (Dec False 1 0) = 1" by (simp add: dval_def)
  have s1: "scaled (f + 4) (1 + dval y)"
    by (rule scaled_add [OF scaled_raise [OF scaled_one] sy]) (use f0 in simp)
  have ff: "1 + dval y = fill_factor side (dval s)"
    using x y d by (cases side) (simp_all add: fill_factor_def)
  note fb = fill_factor_bounds [OF sb, of side]
  have "\<exists>g. dec_add HalfEven p (Dec False 1 0) y = Inr g \<and> dval g = dval (Dec False 1 0) + dval y"
  proof (rule dec_add_exact)
    have "\<bar>1 + dval y\<bar> < 10 powi 1" using fb by (simp add: ff)
    then show "fits p (dval (Dec False 1 0) + dval y)" unfolding v1
      by (rule fits_scaled [OF s1]) (use pge i1 f0 p5 in simp_all)
  qed (use p50 in simp)
  then obtain g where g: "dec_add HalfEven p (Dec False 1 0) y = Inr g" "dval g = fill_factor side (dval s)"
    unfolding v1 ff by blast
  have sg: "scaled (f + 4) (dval g)" using s1 g by (simp add: ff)
  have "\<bar>dval ref\<bar> < 10 powi (adjusted ref + 1)" by (rule abs_dval_less)
  also have "\<dots> \<le> 10 powi i" by (simp only: pow10_le_iff i_def max.cobounded1)
  finally have ri: "\<bar>dval ref\<bar> < 10 powi i" .
  have g1: "\<bar>dval g\<bar> < 10 powi 1" using g fb by simp
  have "\<exists>z. mul_in p ref g = Inr z \<and> dval z = dval ref * dval g"
    by (rule mul_in_exact [OF scaled_dval sg ri g1])
      (use pge i1 f0 p5 p50 fref in \<open>simp_all add: fractional_digits_def\<close>)
  then show ?thesis
    using x y g by (auto simp: raw_fill_def Let_def p_def [symmetric] dir_def [symmetric])
qed

lemma abs_dval_less_max: "\<bar>dval d\<bar> < 10 powi (max (adjusted d + 1) 1)"
proof -
  have "(10 :: rat) powi (adjusted d + 1) \<le> 10 powi (max (adjusted d + 1) 1)"
    by (simp only: pow10_le_iff max.cobounded1)
  with abs_dval_less [of d] show ?thesis by linarith
qed

lemma raw_fee_exact:
  assumes "amount_ok n" and "rate_ok r" and "0 \<le> dval n"
  shows "\<exists>x. raw_fee n r = Inr x \<and> dval x = dval n * dval r / 10000"
proof -
  define p where "p = calculation_precision [n, r]"
  define i where "i = max (adjusted n + 1) 1"
  have p: "p \<le> 5000" "50 \<le> p" "i + max (fractional_digits n) (fractional_digits r) + 16 \<le> int p"
    using precision_small [OF assms(1,2)] calculation_precision_ge(3) [of "[n, r]"] precision_two [of n r]
    by (simp_all add: p_def i_def)
  have f: "fractional_digits n \<le> 4" "0 \<le> fractional_digits n" "0 \<le> fractional_digits r" "1 \<le> i"
      "fractional_digits r \<le> 1000"
    using assms(1) rate_ok_digits [OF assms(2)] by (auto simp: amount_ok_def fractional_digits_def i_def)
  have ni: "\<bar>dval n\<bar> < 10 powi i" unfolding i_def by (rule abs_dval_less_max)
  have r5: "\<bar>dval r\<bar> < 10 powi 5" using rate_ok_digits [OF assms(2)] by blast
  have "\<exists>x. mul_in p n r = Inr x \<and> dval x = dval n * dval r"
    by (rule mul_in_exact [OF scaled_dval scaled_dval ni r5]) (use p f in simp_all)
  then obtain x where x: "mul_in p n r = Inr x" "dval x = dval n * dval r" by blast
  have sx: "scaled (fractional_digits n + fractional_digits r) (dval x)"
    unfolding x(2) by (rule scaled_mult [OF scaled_dval scaled_dval])
  have "dval n * dval r \<le> dval n * 10000"
    using assms(2,3) by (intro mult_left_mono) (simp_all add: rate_ok_def)
  moreover have "0 \<le> dval n * dval r" using assms(2,3) by (simp add: rate_ok_def)
  ultimately have "\<bar>dval x / 10000\<bar> \<le> \<bar>dval n\<bar>" using assms(3) by (simp add: x(2))
  then have lt: "\<bar>dval x / 10000\<bar> < 10 powi i" using ni by linarith
  have "fits p (dval x / dval basis_points)" unfolding dval_bp
    by (rule fits_scaled [OF scaled_div_bp [OF sx] lt]) (use p f in simp_all)
  then have "\<exists>y. dec_div HalfEven p x basis_points = Inr y \<and> dval y = dval x / dval basis_points"
    by (intro dec_div_exact) (use p in \<open>simp_all add: basis_points_def\<close>)
  then show ?thesis using x by (auto simp: raw_fee_def Let_def p_def [symmetric] dval_bp)
qed

text \<open>Prices below \<open>10 ^ 14\<close> with four decimals and quantities up to \<open>10 ^ 8\<close>.\<close>

definition price_ok :: "dec \<Rightarrow> bool" where
  "price_ok d \<longleftrightarrow> expo d = -4 \<and> 0 \<le> dval d \<and> dval d < 10 powi 14"

definition lot_quantity_ok :: "int \<Rightarrow> bool" where
  "lot_quantity_ok q \<longleftrightarrow> 0 < q \<and> q mod 100 = 0 \<and> q \<le> 100000000"

lemma scaled_price: "price_ok d \<Longrightarrow> scaled 4 (dval d)"
  by (rule scaledI [of _ "signed_coeff d"]) (simp add: dval_signed price_ok_def)

lemma quantity_less: "lot_quantity_ok q \<Longrightarrow> \<bar>dval (dec_of_int q)\<bar> < 10 powi 9"
proof -
  assume "lot_quantity_ok q"
  then have "(of_int q :: rat) \<le> of_int 100000000" "0 < q"
    unfolding lot_quantity_ok_def by (simp_all only: of_int_le_iff)
  then show ?thesis by simp
qed

lemma price_diff:
  assumes "price_ok a" and "price_ok b" and "28 \<le> p" and "p \<le> 900000"
  shows "\<exists>x. dec_sub r p a b = Inr x \<and> dval x = dval a - dval b"
proof (rule dec_sub_exact)
  have lt: "\<bar>dval a - dval b\<bar> < 10 powi 14" using assms(1,2) unfolding price_ok_def by linarith
  show "fits p (dval a - dval b)"
    by (rule fits_scaled [OF scaled_diff [OF scaled_price scaled_price] lt]) (use assms in simp_all)
qed (use assms in simp)

lemma times_quantity:
  assumes "scaled 4 (dval d)" and "\<bar>dval d\<bar> < 10 powi 14" and "lot_quantity_ok q" and "28 \<le> p" and "p \<le> 900000"
  shows "\<exists>x. dec_mul r p d (dec_of_int q) = Inr x \<and> dval x = dval d * of_int q
    \<and> \<bar>dval x\<bar> < 10 powi 23"
proof -
  have s: "scaled 0 (dval (dec_of_int q))" using scaled_of_int by simp
  have "\<exists>x. dec_mul r p d (dec_of_int q) = Inr x \<and> dval x = dval d * dval (dec_of_int q)"
    by (rule mul_in_exact [OF assms(1) s assms(2) quantity_less [OF assms(3)]]) (use assms in simp_all)
  moreover have "\<bar>dval d * dval (dec_of_int q)\<bar> < 10 powi 14 * 10 powi 9"
    unfolding abs_mult using assms(2) quantity_less [OF assms(3)] by (intro mult_strict_mono') simp_all
  then have "\<bar>dval d * of_int q\<bar> < 10 powi 23" by (simp add: pow10_add [symmetric])
  ultimately show ?thesis by auto
qed

lemma accountable_23: "\<bar>dval d\<bar> < 10 powi 23 \<Longrightarrow> accountable d"
  by (rule accountableI [of d 23]) simp_all

lemma expected_notional_ok:
  assumes "price_ok fill" and "lot_quantity_ok q"
  shows "\<exists>x. expected_notional fill q = Inr x \<and> dval x = rhu (-2) (dval fill * of_int q)"
proof -
  have "\<bar>dval fill\<bar> < 10 powi 14" using assms(1) by (simp add: price_ok_def)
  from times_quantity [OF scaled_price [OF assms(1)] this assms(2), of default_prec HalfEven]
  obtain x where x: "mul28 fill (dec_of_int q) = Inr x" "dval x = dval fill * of_int q"
    "\<bar>dval x\<bar> < 10 powi 23" by (auto simp: default_prec_def)
  from quantize_money [OF accountable_23 [OF x(3)]] x show ?thesis
    by (auto simp: expected_notional_def round_money_def)
qed

lemma expected_slippage_ok:
  assumes "price_ok ref" and "price_ok fill" and "lot_quantity_ok q"
  shows "\<exists>x. expected_slippage side ref fill q = Inr x
    \<and> dval x = rhu (-2) ((if side = Buy then dval fill - dval ref else dval ref - dval fill) * of_int q)"
proof -
  have *: "\<exists>x. bind_res (sub28 a b) (\<lambda>d. bind_res (mul28 d (dec_of_int q)) round_money) = Inr x
      \<and> dval x = rhu (-2) ((dval a - dval b) * of_int q)" if ab: "price_ok a" "price_ok b" for a b
  proof -
    from price_diff [OF ab, of default_prec HalfEven]
    obtain d where d: "sub28 a b = Inr d" "dval d = dval a - dval b" by (auto simp: default_prec_def)
    have "scaled 4 (dval d)" unfolding d(2) by (intro scaled_diff scaled_price ab)
    moreover have "\<bar>dval d\<bar> < 10 powi 14" using ab unfolding d(2) price_ok_def by linarith
    ultimately obtain x where x: "mul28 d (dec_of_int q) = Inr x" "dval x = dval d * of_int q"
        "\<bar>dval x\<bar> < 10 powi 23"
      using times_quantity [OF _ _ assms(3), of d default_prec HalfEven] by (auto simp: default_prec_def)
    from quantize_money [OF accountable_23 [OF x(3)]] x d show ?thesis by (auto simp: round_money_def)
  qed
  show ?thesis
    using * [OF assms(2,1)] * [OF assms(1,2)] by (simp add: expected_slippage_def)
qed

text \<open>A nonnegative amount in fen.\<close>

definition fen_ok :: "dec \<Rightarrow> bool" where
  "fen_ok d \<longleftrightarrow> expo d = -2 \<and> 0 \<le> dval d \<and> accountable d"

lemma rhu_expo: "rhu (expo d) (dval d) = dval d"
  by (rule rhu_sub_multiple) (rule exI [of _ "signed_coeff d"], simp add: dval_signed)

lemma accountable_canonical [simp]: "accountable (canonical_zero d) = accountable d"
  by (simp add: accountable_def adjusted_def)

lemma check_fen_ok:
  assumes "fen_ok d"
  shows "check_fen f (canonical_pydec (Finite d)) = Inr (canonical_zero d)"
proof -
  have a: "accountable (canonical_zero d)" "expo d = -2" "0 \<le> dval d" using assms by (simp_all add: fen_ok_def)
  obtain x where x: "quantize_to money_quantum (canonical_zero d) = Inr x" "dval x = rhu (-2) (dval d)"
    using quantize_money [OF a(1)] by auto
  have "rhu (-2) (dval d) = dval d" using rhu_expo [of d] a(2) by simp
  with x a show ?thesis by (simp add: check_fen_def round_money_def)
qed

lemma price_ok_accountable: "price_ok d \<Longrightarrow> accountable d"
  by (rule accountableI [of d 14]) (simp_all add: price_ok_def)

lemma check_price_precision_ok:
  assumes "price_ok d"
  shows "check_price_precision f d = Inr ()"
proof -
  obtain x where x: "quantize_to price_quantum d = Inr x" "dval x = rhu (-4) (dval d)"
    using quantize_price [OF price_ok_accountable [OF assms]] by blast
  have "rhu (-4) (dval d) = dval d" using rhu_expo [of d] assms by (simp add: price_ok_def)
  with x show ?thesis by (simp add: check_price_precision_def)
qed

lemma mk_order_cost_ok:
  assumes r: "price_ok ref" "0 < dval ref" and f: "price_ok fill" "0 < dval fill"
    and q: "lot_quantity_ok q"
    and side: "case side of Buy \<Rightarrow> dval ref \<le> dval fill | Sell \<Rightarrow> dval fill \<le> dval ref"
    and fen: "fen_ok n" "fen_ok sl" "fen_ok c" "fen_ok t"
    and n: "dval n = rhu (-2) (dval fill * of_int q)"
    and sl: "dval sl = rhu (-2) ((if side = Buy then dval fill - dval ref else dval ref - dval fill) * of_int q)"
    and t: "side = Buy \<Longrightarrow> dval t = 0"
  shows "mk_order_cost side (Finite ref) (Finite fill) q (Finite n) (Finite sl) (Finite c) (Finite t)
    = Inr \<lparr>oc_side = side, oc_reference_open = ref, oc_fill_price = fill, oc_quantity = q,
           oc_notional = canonical_zero n, oc_slippage_cost = canonical_zero sl,
           oc_commission = canonical_zero c, oc_sell_tax = canonical_zero t\<rparr>"
proof -
  have z: "canonical_zero ref = ref" "canonical_zero fill = fill"
    using r f by (auto simp: canonical_zero_def dec_is_zero_def dval_pos_iff)
  have lot: "validate_lot q = Inr ()" using q by (simp add: validate_lot_def lot_quantity_ok_def)
  have cs: "check_fill_side side ref fill = Inr ()" using side by (cases side) (simp_all add: check_fill_side_def)
  obtain en where en: "expected_notional fill q = Inr en" "dval en = dval n"
    using expected_notional_ok [OF f(1) q] n by auto
  obtain es where es: "expected_slippage side ref fill q = Inr es" "dval es = dval sl"
    using expected_slippage_ok [OF r(1) f(1) q, of side] sl by auto
  have vr: "validate_positive_decimal fn (canonical_pydec (Finite ref)) = Inr ref"
    and vf: "validate_positive_decimal fn (canonical_pydec (Finite fill)) = Inr fill" for fn
    using r f z by simp_all
  show ?thesis
    unfolding mk_order_cost_def vr vf bind_res_simps lot then_res_simps check_fen_ok [OF fen(1)]
      check_fen_ok [OF fen(2)] check_fen_ok [OF fen(3)] check_fen_ok [OF fen(4)]
      check_price_precision_ok [OF r(1)] check_price_precision_ok [OF f(1)] cs en(1) es(1)
    using en(2) es(2) t by auto
qed

section \<open>The specification of a priced order\<close>

definition model_ok :: "cost_model \<Rightarrow> bool" where
  "model_ok m \<longleftrightarrow> rate_ok (cm_commission_bps m) \<and> rate_ok (cm_sell_tax_bps m) \<and> rate_ok (cm_slippage_bps m)
     \<and> fen_ok (cm_minimum_commission m)"

text \<open>The contract in rational arithmetic: prices rounded to four places, each fee to fen, half up.\<close>

definition slipped_price :: "order_side \<Rightarrow> rat \<Rightarrow> cost_model \<Rightarrow> rat" where
  "slipped_price side reference model =
     rhu (-4) (rhu (-4) reference * fill_factor side (dval (cm_slippage_bps model)))"

definition cost_contract :: "order_side \<Rightarrow> rat \<Rightarrow> int \<Rightarrow> cost_model \<Rightarrow> order_cost \<Rightarrow> bool" where
  "cost_contract side reference q model c \<longleftrightarrow>
     (let r = rhu (-4) reference; f = slipped_price side reference model; n = rhu (-2) (f * of_int q)
      in oc_side c = side \<and> oc_quantity c = q
        \<and> dval (oc_reference_open c) = r \<and> dval (oc_fill_price c) = f \<and> dval (oc_notional c) = n
        \<and> dval (oc_slippage_cost c) = rhu (-2) (\<bar>f - r\<bar> * of_int q)
        \<and> dval (oc_commission c) = max (dval (cm_minimum_commission model))
             (rhu (-2) (n * dval (cm_commission_bps model) / 10000))
        \<and> dval (oc_sell_tax c) = (if side = Sell then rhu (-2) (n * dval (cm_sell_tax_bps model) / 10000) else 0))"

lemma fill_factor_side:
  assumes "0 \<le> b"
  shows "case side of Buy \<Rightarrow> 1 \<le> fill_factor side b | Sell \<Rightarrow> fill_factor side b \<le> 1"
  using assms by (cases side) (simp_all add: fill_factor_def)

lemma reference_priced:
  assumes "0 < dval d" and "dval d < 1000000000000"
  shows "\<exists>ref. normalize_reference_price (Finite d) = Inr ref \<and> dval ref = rhu (-4) (dval d)
    \<and> price_ok ref \<and> dval ref < 10 powi 13 \<and> amount_ok ref"
proof -
  have d12: "\<bar>dval d\<bar> < 10 powi 12" using assms by simp
  obtain ref where ref: "quantize_to price_quantum d = Inr ref" "dval ref = rhu (-4) (dval d)" "expo ref = -4"
    using quantize_price [OF accountableI [OF d12]] by auto
  have nn: "0 \<le> dval ref" using ref rhu_nonneg [of "dval d" "-4"] assms by simp
  have "\<bar>rhu (-4) (dval d)\<bar> < 10 powi (12 + 1)" by (rule rhu_less [OF d12]) simp
  then have lt: "\<bar>dval ref\<bar> < 10 powi 13" using ref(2) by simp
  have "(10 :: rat) powi 13 < 10 powi 14" by (simp only: pow10_less_iff)
  with lt nn ref(3) have "price_ok ref" unfolding price_ok_def by linarith
  moreover have "adjusted ref \<le> 13" by (rule adjusted_le_of_less [OF lt]) (simp add: ref(3))
  then have "amount_ok ref" by (simp add: amount_ok_def ref(3))
  moreover have "dval ref < 10 powi 13" using lt by linarith
  ultimately show ?thesis using ref assms by (simp add: normalize_reference_price_def)
qed

lemma fill_priced:
  assumes ref: "price_ok ref" "dval ref < 10 powi 13" "amount_ok ref" and s: "rate_ok s"
  shows "\<exists>rf fill. raw_fill side ref s = Inr rf \<and> quantize_to price_quantum rf = Inr fill
    \<and> dval fill = rhu (-4) (dval ref * fill_factor side (dval s)) \<and> price_ok fill"
proof -
  let ?x = "dval ref * fill_factor side (dval s)"
  obtain rf where rf: "raw_fill side ref s = Inr rf" "dval rf = ?x"
    using raw_fill_exact [OF ref(3) s] by blast
  have r0: "0 \<le> dval ref" using ref(1) by (simp add: price_ok_def)
  have ff: "0 \<le> fill_factor side (dval s)" "fill_factor side (dval s) \<le> 2"
    using fill_factor_bounds s by (simp_all add: rate_ok_def)
  have x0: "0 \<le> ?x" using r0 ff by simp
  have "?x \<le> dval ref * 2" using r0 ff by (intro mult_left_mono)
  then have x: "?x < 20000000000000" using ref(2) by simp
  have "\<bar>dval rf\<bar> < 10 powi 14" using x x0 rf(2) by simp
  then obtain fill where fill: "quantize_to price_quantum rf = Inr fill" "dval fill = rhu (-4) ?x" "expo fill = -4"
    using quantize_price [OF accountableI [of rf 14]] rf(2) by auto
  have "\<bar>rhu (-4) ?x - ?x\<bar> \<le> 10 powi (-4) / 2" by (rule rhu_error)
  moreover have "(10 :: rat) powi (-4) \<le> 1" by (simp add: power_int_minus)
  ultimately have "rhu (-4) ?x < 100000000000000" using x by linarith
  moreover have "0 \<le> rhu (-4) ?x" by (rule rhu_nonneg [OF x0])
  ultimately have "price_ok fill" using fill by (simp add: price_ok_def)
  with rf fill show ?thesis by blast
qed

lemma slipped_sides:
  assumes "0 \<le> r" and "\<exists>n. r = of_int n * 10 powi (-4)" and "0 \<le> s"
  shows "case side of Buy \<Rightarrow> r \<le> rhu (-4) (r * fill_factor side s) | Sell \<Rightarrow> rhu (-4) (r * fill_factor side s) \<le> r"
proof -
  have e: "rhu (-4) r = r" by (rule rhu_sub_multiple [OF assms(2)])
  show ?thesis
  proof (cases side)
    case Buy
    have "r * 1 \<le> r * fill_factor Buy s"
      using assms(1,3) by (intro mult_left_mono) (simp_all add: fill_factor_def)
    then have "rhu (-4) r \<le> rhu (-4) (r * fill_factor Buy s)" by (intro rhu_mono) simp
    then show ?thesis using e Buy by simp
  next
    case Sell
    have "r * fill_factor Sell s \<le> r * 1"
      using assms(1,3) by (intro mult_left_mono) (simp_all add: fill_factor_def)
    then have "rhu (-4) (r * fill_factor Sell s) \<le> rhu (-4) r" by (intro rhu_mono) simp
    then show ?thesis using e Sell by simp
  qed
qed

lemma precision_price_quantity:
  assumes "price_ok fill" and "lot_quantity_ok q"
  shows "28 \<le> calculation_precision [fill, dec_of_int q]" and "calculation_precision [fill, dec_of_int q] \<le> 900000"
proof -
  show "28 \<le> calculation_precision [fill, dec_of_int q]"
    using calculation_precision_ge(3) [of "[fill, dec_of_int q]"] by simp
  have "adjusted fill \<le> 14"
    by (rule adjusted_le_of_less) (use assms in \<open>simp_all add: price_ok_def\<close>)
  moreover have "adjusted (dec_of_int q) \<le> 9"
    by (rule adjusted_le_of_less [OF quantity_less [OF assms(2)]]) (simp add: dec_of_int_def)
  ultimately have "int (calculation_precision [fill, dec_of_int q]) \<le> max 50 (14 + 4 + 17)"
    using assms(1) by (intro calculation_precision_le) (auto simp: price_ok_def fractional_digits_def dec_of_int_def)
  then show "calculation_precision [fill, dec_of_int q] \<le> 900000" by simp
qed

lemma raw_slippage_ok:
  assumes "price_ok ref" and "price_ok fill" and "lot_quantity_ok q" and "28 \<le> p" and "p \<le> 900000"
    and "case side of Buy \<Rightarrow> dval ref \<le> dval fill | Sell \<Rightarrow> dval fill \<le> dval ref"
  shows "\<exists>x. raw_slippage p side ref fill q = Inr x \<and> dval x = \<bar>dval fill - dval ref\<bar> * of_int q
    \<and> \<bar>dval x\<bar> < 10 powi 23"
proof -
  have *: "\<exists>x. bind_res (dec_sub HalfEven p a b) (\<lambda>d. mul_in p d (dec_of_int q)) = Inr x
      \<and> dval x = (dval a - dval b) * of_int q \<and> \<bar>dval x\<bar> < 10 powi 23" if ab: "price_ok a" "price_ok b" for a b
  proof -
    from price_diff [OF ab assms(4,5), of HalfEven] obtain d where
      d: "dec_sub HalfEven p a b = Inr d" "dval d = dval a - dval b" by blast
    have "scaled 4 (dval d)" unfolding d(2) by (intro scaled_diff scaled_price ab)
    moreover have "\<bar>dval d\<bar> < 10 powi 14" using ab unfolding d(2) price_ok_def by linarith
    ultimately show ?thesis using times_quantity [OF _ _ assms(3-5), of d HalfEven] d by auto
  qed
  show ?thesis
    using * [OF assms(2,1)] * [OF assms(1,2)] assms(6) by (cases side) (simp_all add: raw_slippage_def)
qed

lemma fen_okI: "expo x = -2 \<Longrightarrow> 0 \<le> dval x \<Longrightarrow> \<bar>dval x\<bar> < 10 powi 100 \<Longrightarrow> fen_ok x"
  using accountableI [of x 100] by (simp add: fen_ok_def)

lemma money_rounded:
  assumes "0 \<le> dval x" and "\<bar>dval x\<bar> < 10 powi 23"
  shows "\<exists>y. quantize_to money_quantum x = Inr y \<and> dval y = rhu (-2) (dval x) \<and> fen_ok y
    \<and> amount_ok y"
proof -
  obtain y where y: "quantize_to money_quantum x = Inr y" "dval y = rhu (-2) (dval x)" "expo y = -2"
    using quantize_money [OF accountable_23 [OF assms(2)]] by blast
  have lt: "\<bar>dval y\<bar> < 10 powi 24" using rhu_less [OF assms(2), of "-2"] y(2) by simp
  moreover have "(10 :: rat) powi 24 \<le> 10 powi 100" by (simp only: pow10_le_iff)
  ultimately have "\<bar>dval y\<bar> < 10 powi 100" by linarith
  then have "fen_ok y" using y rhu_nonneg [OF assms(1)] by (intro fen_okI) simp_all
  moreover have "adjusted y \<le> 24" by (rule adjusted_le_of_less [OF lt]) (simp add: y(3))
  ultimately show ?thesis using y by (simp add: amount_ok_def)
qed

lemma fee_rounded:
  assumes "amount_ok n" and "rate_ok r" and "0 \<le> dval n"
  shows "\<exists>x y. raw_fee n r = Inr x \<and> quantize_to money_quantum x = Inr y
    \<and> dval y = rhu (-2) (dval n * dval r / 10000) \<and> fen_ok y"
proof -
  obtain x where x: "raw_fee n r = Inr x" "dval x = dval n * dval r / 10000"
    using raw_fee_exact [OF assms] by blast
  have r: "0 \<le> dval r" "dval r \<le> 10000" using assms(2) by (simp_all add: rate_ok_def)
  have x0: "0 \<le> dval x" unfolding x(2) using assms(3) r by simp
  have "dval n * dval r \<le> dval n * 10000" using assms(3) r by (intro mult_left_mono)
  then have "dval x \<le> dval n" by (simp add: x(2))
  moreover have "\<bar>dval n\<bar> < 10 powi (adjusted n + 1)" by (rule abs_dval_less)
  moreover have "(10 :: rat) powi (adjusted n + 1) \<le> 10 powi 26"
    using assms(1) by (simp only: pow10_le_iff) (simp add: amount_ok_def)
  ultimately have xl: "\<bar>dval x\<bar> < 10 powi 26" using x0 by linarith
  obtain y where y: "quantize_to money_quantum x = Inr y" "dval y = rhu (-2) (dval x)" "expo y = -2"
    using quantize_money [OF accountableI [OF xl]] by auto
  have "\<bar>dval y\<bar> < 10 powi 27" using rhu_less [OF xl, of "-2"] y(2) by simp
  moreover have "(10 :: rat) powi 27 \<le> 10 powi 100" by (simp only: pow10_le_iff)
  ultimately have "\<bar>dval y\<bar> < 10 powi 100" by linarith
  then have "fen_ok y" using y rhu_nonneg [OF x0] by (intro fen_okI) simp_all
  with x(1) y(1,2) show ?thesis unfolding x(2) by blast
qed

lemma fen_ok_max: "fen_ok a \<Longrightarrow> fen_ok b \<Longrightarrow> fen_ok (dec_max a b)"
  by (simp add: dec_max_def)

lemma fen_ok_zero: "fen_ok (Dec False 0 (-2))"
  by (simp add: fen_ok_def accountable_def dval_def)

lemma sell_tax_ok:
  assumes "amount_ok n" and "0 \<le> dval n" and "model_ok m"
  shows "\<exists>t. sell_tax_of side n m = Inr t \<and> fen_ok t
    \<and> dval t = (if side = Sell then rhu (-2) (dval n * dval (cm_sell_tax_bps m) / 10000) else 0)"
proof (cases side)
  case Buy
  then show ?thesis using fen_ok_zero by (simp add: sell_tax_of_def dval_def)
next
  case Sell
  with fee_rounded [OF assms(1) _ assms(2), of "cm_sell_tax_bps m"] assms(3) show ?thesis
    by (auto simp: sell_tax_of_def model_ok_def)
qed

lemma price_order_priced:
  assumes m: "model_ok model" and d: "0 < dval d" "dval d < 1000000000000" and q: "lot_quantity_ok q"
  shows "(slipped_price side (dval d) model = 0 \<longrightarrow>
      price_order side (Finite d) q model = Inl (ValueError ''slippage must leave a positive sell fill price''))
    \<and> (slipped_price side (dval d) model \<noteq> 0 \<longrightarrow>
      (\<exists>c. price_order side (Finite d) q model = Inr c \<and> cost_contract side (dval d) q model c
        \<and> price_ok (oc_reference_open c) \<and> price_ok (oc_fill_price c)))"
proof -
  have s: "rate_ok (cm_slippage_bps model)" using m by (simp add: model_ok_def)
  obtain ref where ref: "normalize_reference_price (Finite d) = Inr ref" "dval ref = rhu (-4) (dval d)"
      "price_ok ref" "dval ref < 10 powi 13" "amount_ok ref"
    using reference_priced [OF d] by blast
  obtain rf fill where fill: "raw_fill side ref (cm_slippage_bps model) = Inr rf"
      "quantize_to price_quantum rf = Inr fill" "dval fill = slipped_price side (dval d) model" "price_ok fill"
    using fill_priced [OF ref(3-5) s, of side] by (auto simp: slipped_price_def ref(2))
  have lot: "validate_lot q = Inr ()" using q by (simp add: validate_lot_def lot_quantity_ok_def)
  note start = price_order_def validate_positive_decimal.simps(1) lot ref(1) fill(1,2)
  show ?thesis
  proof (cases "dval fill = 0")
    case True
    then have le: "dval fill \<le> 0" "slipped_price side (dval d) model = 0"
      using fill(3) by (linarith, linarith)
    show ?thesis using le d by (simp add: start)
  next
    case False
    moreover have "0 \<le> dval fill" using fill(4) by (simp add: price_ok_def)
    ultimately have f0: "0 < dval fill" by linarith
    have fv: "dval fill = rhu (-4) (dval ref * fill_factor side (dval (cm_slippage_bps model)))"
      using fill(3) by (simp only: slipped_price_def ref(2))
    have mult: "\<exists>n. dval ref = of_int n * 10 powi (-4)" unfolding ref(2) by (rule rhu_is_multiple)
    have sides: "case side of Buy \<Rightarrow> dval ref \<le> dval fill | Sell \<Rightarrow> dval fill \<le> dval ref"
      unfolding fv by (rule slipped_sides [OF _ mult]) (use ref(3) s in \<open>simp_all add: price_ok_def rate_ok_def\<close>)
    have "dval ref \<noteq> 0" using False unfolding fv by (intro notI) simp
    moreover have "0 \<le> dval ref" using ref(3) by (simp add: price_ok_def)
    ultimately have r0: "0 < dval ref" by linarith
    define p where "p = calculation_precision [fill, dec_of_int q]"
    note p = precision_price_quantity [OF fill(4) q, folded p_def]
    have q0: "(0 :: rat) \<le> of_int q" using q by (simp add: lot_quantity_ok_def)
    have "\<bar>dval fill\<bar> < 10 powi 14" using fill(4) by (simp add: price_ok_def)
    from times_quantity [OF scaled_price [OF fill(4)] this q p, of HalfEven] obtain rn where
      rn: "mul_in p fill (dec_of_int q) = Inr rn" "dval rn = dval fill * of_int q" "\<bar>dval rn\<bar> < 10 powi 23"
      by blast
    obtain rs where rs: "raw_slippage p side ref fill q = Inr rs"
        "dval rs = \<bar>dval fill - dval ref\<bar> * of_int q" "\<bar>dval rs\<bar> < 10 powi 23"
      using raw_slippage_ok [OF ref(3) fill(4) q p sides] by blast
    obtain n where n: "quantize_to money_quantum rn = Inr n" "dval n = rhu (-2) (dval rn)" "fen_ok n" "amount_ok n"
      using money_rounded [of rn] rn f0 q0 by auto
    obtain sl where sl: "quantize_to money_quantum rs = Inr sl" "dval sl = rhu (-2) (dval rs)" "fen_ok sl"
      using money_rounded [of rs] rs q0 by auto
    have n0: "0 \<le> dval n" using n(3) by (simp add: fen_ok_def)
    obtain rc qc where c: "raw_fee n (cm_commission_bps model) = Inr rc" "quantize_to money_quantum rc = Inr qc"
        "dval qc = rhu (-2) (dval n * dval (cm_commission_bps model) / 10000)" "fen_ok qc"
      using fee_rounded [OF n(4) _ n0] m unfolding model_ok_def by blast
    obtain t where t: "sell_tax_of side n model = Inr t" "fen_ok t"
        "dval t = (if side = Sell then rhu (-2) (dval n * dval (cm_sell_tax_bps model) / 10000) else 0)"
      using sell_tax_ok [OF n(4) n0 m] by blast
    have cm: "fen_ok (dec_max (cm_minimum_commission model) qc)"
      using m c(4) by (intro fen_ok_max) (simp_all add: model_ok_def)
    have sl': "dval sl = rhu (-2) ((if side = Buy then dval fill - dval ref else dval ref - dval fill) * of_int q)"
      using sides unfolding sl(2) rs(2) by (cases side) simp_all
    note ok = mk_order_cost_ok [OF ref(3) r0 fill(4) f0 q sides n(3) sl(3) cm t(2) _ sl']
    have "price_order side (Finite d) q model = mk_order_cost side (Finite ref) (Finite fill) q (Finite n)
        (Finite sl) (Finite (dec_max (cm_minimum_commission model) qc)) (Finite t)"
      using d f0 rn rs n sl c t by (simp add: start Let_def p_def [symmetric])
    also have "\<dots> = Inr \<lparr>oc_side = side, oc_reference_open = ref, oc_fill_price = fill, oc_quantity = q,
           oc_notional = canonical_zero n, oc_slippage_cost = canonical_zero sl,
           oc_commission = canonical_zero (dec_max (cm_minimum_commission model) qc),
           oc_sell_tax = canonical_zero t\<rparr>"
      by (rule ok) (use n rn t in simp_all)
    finally show ?thesis
      using False fill(3) ref(2) n(2) rn(2) sl(2) rs(2) c(3) t(3) ref(3) fill(4)
      by (simp add: cost_contract_def Let_def)
  qed
qed

lemma validate_positive_decimal_Inr [res_simps]:
  "validate_positive_decimal f v = Inr d \<longleftrightarrow> v = Finite d \<and> 0 < dval d"
  by (cases v) (auto simp: not_le)

lemma validate_nonnegative_decimal_Inr [res_simps]:
  "validate_nonnegative_decimal f v = Inr d \<longleftrightarrow> v = Finite d \<and> 0 \<le> dval d"
  by (cases v) (auto simp: not_less)

lemma validate_rate_Inr [res_simps]:
  "validate_rate f v = Inr d \<longleftrightarrow> v = Finite d \<and> 0 \<le> dval d \<and> dval d \<le> 10000"
  by (auto simp: validate_rate_def res_simps dval_bp not_less)

lemma validate_lot_Inr [res_simps]: "validate_lot q = Inr u \<longleftrightarrow> 0 < q \<and> q mod 100 = 0"
  by (auto simp: validate_lot_def)

lemma check_fen_Inr:
  "check_fen f v = Inr d \<Longrightarrow> v = Finite d \<and> 0 \<le> dval d \<and> dval d = rhu (-2) (dval d)"
  using quantize_to_Inr [of money_quantum d] by (auto simp: check_fen_def res_simps round_money_def)

lemma check_price_precision_Inr:
  "check_price_precision f d = Inr u \<Longrightarrow> dval d = rhu (-4) (dval d)"
  using quantize_to_Inr [of price_quantum d] by (auto simp: check_price_precision_def res_simps)

text \<open>What every constructed order cost satisfies.\<close>

definition order_cost_ok :: "order_cost \<Rightarrow> bool" where
  "order_cost_ok c \<longleftrightarrow> 0 < dval (oc_reference_open c) \<and> 0 < dval (oc_fill_price c)
     \<and> 0 < oc_quantity c \<and> oc_quantity c mod 100 = 0
     \<and> (case oc_side c of
          Buy \<Rightarrow> dval (oc_reference_open c) \<le> dval (oc_fill_price c) \<and> dval (oc_sell_tax c) = 0
        | Sell \<Rightarrow> dval (oc_fill_price c) \<le> dval (oc_reference_open c))
     \<and> (\<forall>p \<in> {oc_reference_open c, oc_fill_price c}. dval p = rhu (-4) (dval p))
     \<and> (\<forall>m \<in> {oc_notional c, oc_slippage_cost c, oc_commission c, oc_sell_tax c}.
          0 \<le> dval m \<and> dval m = rhu (-2) (dval m))"

lemma mk_order_cost_Inr:
  assumes "mk_order_cost side r f q n sl c t = Inr oc"
  shows "order_cost_ok oc \<and> oc_side oc = side \<and> oc_quantity oc = q"
proof -
  from assms obtain ref fill n' sl' c' t' en es where
    v: "validate_positive_decimal ''reference_open'' (canonical_pydec r) = Inr ref"
      "validate_positive_decimal ''fill_price'' (canonical_pydec f) = Inr fill" "validate_lot q = Inr ()"
      "check_fen ''notional'' (canonical_pydec n) = Inr n'"
      "check_fen ''slippage_cost'' (canonical_pydec sl) = Inr sl'"
      "check_fen ''commission'' (canonical_pydec c) = Inr c'" "check_fen ''sell_tax'' (canonical_pydec t) = Inr t'"
      "check_price_precision ''reference_open'' ref = Inr ()" "check_price_precision ''fill_price'' fill = Inr ()"
      "check_fill_side side ref fill = Inr ()"
    and last: "\<not> (side = Buy \<and> dval t' \<noteq> 0)"
    and oc: "oc = \<lparr>oc_side = side, oc_reference_open = ref, oc_fill_price = fill, oc_quantity = q,
                 oc_notional = n', oc_slippage_cost = sl', oc_commission = c', oc_sell_tax = t'\<rparr>"
    unfolding mk_order_cost_def bind_res_Inr_iff then_res_Inr_iff if_Inl_Inr_iff by auto
  have side: "case side of Buy \<Rightarrow> dval ref \<le> dval fill | Sell \<Rightarrow> dval fill \<le> dval ref"
    using v(10) by (cases side) (simp_all add: check_fill_side_def not_less split: if_splits)
  show ?thesis
    using v(1-3) check_fen_Inr [OF v(4)] check_fen_Inr [OF v(5)] check_fen_Inr [OF v(6)]
      check_fen_Inr [OF v(7)] check_price_precision_Inr [OF v(8)] check_price_precision_Inr [OF v(9)]
      side last
    by (cases side) (simp_all add: oc order_cost_ok_def res_simps)
qed

lemma price_order_Inr:
  assumes "price_order side r q model = Inr c"
  shows "order_cost_ok c \<and> oc_side c = side \<and> oc_quantity c = q"
  using assms unfolding price_order_def bind_res_Inr_iff then_res_Inr_iff if_Inl_Inr_iff Let_def
  by (elim exE conjE) (rule mk_order_cost_Inr)

lemma dec_fix_Inl: "dec_fix r p d = Inl e \<Longrightarrow> e = DecimalOverflow"
  by (auto simp: dec_fix_def Let_def split: if_splits prod.splits)

lemma dec_div_Inl: "dec_div r p a b = Inl e \<Longrightarrow> is_decimal_exception e"
  by (auto simp: dec_div_def Let_def dest!: dec_fix_Inl split: if_splits prod.splits)

lemma divide_decimal_cases:
  "(dec_is_zero d \<longrightarrow> divide_decimal n d = Inl (ZeroDivisionError ''ratio denominator cannot be zero''))
   \<and> (\<not> dec_is_zero d \<longrightarrow> divide_decimal n d = Inl (ValueError ''ratio result must be a finite Decimal'')
        \<or> (\<exists>r. dec_div HalfUp 28 n d = Inr r \<and> divide_decimal n d = Inr (canonical_zero r)))
   \<and> (\<not> dec_is_zero d \<longrightarrow> fits 28 (dval n / dval d)
        \<longrightarrow> (\<exists>r. divide_decimal n d = Inr r \<and> dval r = dval n / dval d))"
proof (cases "dec_is_zero d")
  case True
  then show ?thesis by (simp add: divide_decimal_def)
next
  case False
  then have "coeff d \<noteq> 0" by (simp add: dec_is_zero_def)
  then have "fits 28 (dval n / dval d) \<Longrightarrow> \<exists>x. dec_div HalfUp 28 n d = Inr x \<and> dval x = dval n / dval d"
    by (intro dec_div_exact) simp_all
  with False dec_div_Inl [of HalfUp 28 n d] show ?thesis
    by (cases "dec_div HalfUp 28 n d") (auto simp: divide_decimal_def)
qed

text \<open>Rounding a concrete value: name the multiple.\<close>

lemma rhu_eqI:
  "0 \<le> x \<Longrightarrow> of_int n \<le> x / 10 powi e + 1 / 2 \<Longrightarrow> x / 10 powi e + 1 / 2 < of_int n + 1
    \<Longrightarrow> v = of_int n * 10 powi e \<Longrightarrow> rhu e x = v"
  by (simp only: rhu_nonneg_eq floor_unique)

section \<open>Properties\<close>

definition example_model :: cost_model where
  "example_model = \<lparr>cm_commission_bps = Dec False 25 (-1), cm_minimum_commission = Dec False 500 (-2),
     cm_sell_tax_bps = Dec False 5 0, cm_slippage_bps = Dec False 5 0, cm_version = cost_model_version\<rparr>"

lemma example_model_ok: "model_ok example_model"
  by (simp add: model_ok_def example_model_def rate_ok_def fen_ok_def accountable_def adjusted_def dval_def
      ndigits.simps power_int_minus)

text \<open>
  C12. The pricing of an order is the rational contract: for any rates up to 10000 basis points,
  any reference price below a trillion and any lot quantity up to a hundred million, price_order
  returns the cost whose fill is the reference slipped against the order and rounded half up
  to four places, and whose notional, slippage, commission (at least the minimum) and sell tax are
  each rounded half up to fen; it raises only when the slipped price is zero.
\<close>

theorem price_order_contract:
  assumes "model_ok model" and "0 < dval d" and "dval d < 1000000000000" and "lot_quantity_ok q"
  shows "(slipped_price side (dval d) model = 0 \<longrightarrow>
      price_order side (Finite d) q model = Inl (ValueError ''slippage must leave a positive sell fill price''))
    \<and> (slipped_price side (dval d) model \<noteq> 0 \<longrightarrow>
      (\<exists>c. price_order side (Finite d) q model = Inr c \<and> cost_contract side (dval d) q model c))"
  using price_order_priced [OF assms, of side] by blast

lemma slipped_example: "slipped_price Buy (dval (Dec False 1023 (-2))) example_model = 102351 / 10000"
proof -
  have r: "rhu (-4) (dval (Dec False 1023 (-2))) = 1023 / 100"
    by (rule rhu_eqI [of _ 102300]) (simp_all add: dval_def power_int_minus)
  show ?thesis unfolding slipped_price_def r
    by (rule rhu_eqI [of _ 102351])
      (simp_all add: fill_factor_def example_model_def dval_def power_int_minus)
qed

theorem price_order_contract_witness:
  "\<exists>c. price_order Buy (Finite (Dec False 1023 (-2))) 1000 example_model = Inr c
    \<and> dval (oc_fill_price c) = 102351 / 10000 \<and> dval (oc_commission c) = 5"
proof -
  let ?d = "Dec False 1023 (-2)"
  have v: "dval ?d = 1023 / 100" by (simp add: dval_def power_int_minus)
  have "slipped_price Buy (dval ?d) example_model \<noteq> 0" unfolding slipped_example by simp
  moreover have "lot_quantity_ok 1000" by (simp add: lot_quantity_ok_def)
  ultimately obtain c where c: "price_order Buy (Finite ?d) 1000 example_model = Inr c"
    "cost_contract Buy (dval ?d) 1000 example_model c"
    using price_order_contract [OF example_model_ok, of ?d 1000 Buy] v by auto
  have "dval (oc_fill_price c) = 102351 / 10000"
    using c(2) by (simp only: cost_contract_def Let_def slipped_example)
  moreover have n: "rhu (-2) (102351 / 10000 * of_int 1000) = 1023510 / 100"
    by (rule rhu_eqI [of _ 1023510]) (simp_all add: power_int_minus)
  have "rhu (-2) (1023510 / 100 * dval (cm_commission_bps example_model) / 10000) = 256 / 100"
    by (rule rhu_eqI [of _ 256]) (simp_all add: power_int_minus example_model_def dval_def)
  then have "dval (oc_commission c) = 5"
    using c(2) unfolding cost_contract_def Let_def slipped_example n
    by (simp add: example_model_def dval_def power_int_minus)
  ultimately show ?thesis using c(1) by blast
qed

text \<open>
  C13. Whatever the arguments, an order cost that exists is consistent: positive prices of four
  places, nonnegative amounts in fen, a 100-share lot, a fill that never improves on the
  reference, and no sell tax on a buy.
\<close>

theorem order_costs_consistent:
  assumes "mk_order_cost side r f q n sl c t = Inr oc"
  shows "order_cost_ok oc \<and> oc_side oc = side \<and> oc_quantity oc = q"
  using assms by (rule mk_order_cost_Inr)

theorem order_costs_consistent_witness:
  "\<exists>oc. mk_order_cost Buy (Finite (Dec False 100000 (-4))) (Finite (Dec False 100000 (-4))) 100
      (Finite (Dec False 100000 (-2))) (Finite (Dec False 0 (-2))) (Finite (Dec False 500 (-2)))
      (Finite (Dec True 0 (-2))) = Inr oc \<and> order_cost_ok oc"
proof -
  let ?p = "Dec False 100000 (-4)"
  have p: "price_ok ?p" "0 < dval ?p" by (simp_all add: price_ok_def dval_def power_int_minus)
  have fen: "fen_ok (Dec b n (-2))" if "n \<le> 100000" "b \<longrightarrow> n = 0" for b n
    using that by (intro fen_okI) (auto simp: dval_def power_int_minus)
  have "mk_order_cost Buy (Finite ?p) (Finite ?p) 100 (Finite (Dec False 100000 (-2)))
      (Finite (Dec False 0 (-2))) (Finite (Dec False 500 (-2))) (Finite (Dec True 0 (-2))) = Inr
      \<lparr>oc_side = Buy, oc_reference_open = ?p, oc_fill_price = ?p, oc_quantity = 100,
       oc_notional = canonical_zero (Dec False 100000 (-2)), oc_slippage_cost = canonical_zero (Dec False 0 (-2)),
       oc_commission = canonical_zero (Dec False 500 (-2)), oc_sell_tax = canonical_zero (Dec True 0 (-2))\<rparr>"
  proof (rule mk_order_cost_ok [OF p p _ _ fen fen fen fen])
    have "rhu (-2) (dval ?p * of_int 100) = 1000"
      by (rule rhu_eqI [of _ 100000]) (simp_all add: dval_def power_int_minus)
    then show "dval (Dec False 100000 (-2)) = rhu (-2) (dval ?p * of_int 100)"
      by (simp add: dval_def power_int_minus)
  qed (simp_all add: lot_quantity_ok_def dval_def power_int_minus)
  with order_costs_consistent [OF this] show ?thesis by blast
qed

text \<open>
  C14. A ratio is an exact quotient or a documented error: a zero denominator raises
  ZeroDivisionError, any decimal signal leaves as ValueError, and a quotient of at most 28 digits is
  returned exactly.
\<close>

theorem divide_decimal_result:
  "(dec_is_zero d \<longrightarrow> divide_decimal n d = Inl (ZeroDivisionError ''ratio denominator cannot be zero''))
   \<and> (\<not> dec_is_zero d \<longrightarrow> divide_decimal n d = Inl (ValueError ''ratio result must be a finite Decimal'')
        \<or> (\<exists>r. dec_div HalfUp 28 n d = Inr r \<and> divide_decimal n d = Inr (canonical_zero r)))
   \<and> (\<not> dec_is_zero d \<longrightarrow> fits 28 (dval n / dval d)
        \<longrightarrow> (\<exists>r. divide_decimal n d = Inr r \<and> dval r = dval n / dval d))"
  by (rule divide_decimal_cases)

lemma fits_quarter: "fits 28 (dval (Dec False 1 0) / dval (Dec False 4 0))"
  by (rule fitsI [of _ 25 "-2"]) (simp_all add: dval_def power_int_minus etiny_def etop_def emin_def emax_def)

theorem divide_decimal_result_witness:
  "\<exists>r. divide_decimal (Dec False 1 0) (Dec False 4 0) = Inr r \<and> dval r = 1 / 4"
proof -
  have "\<not> dec_is_zero (Dec False 4 0)" by (simp add: dec_is_zero_def)
  with divide_decimal_result [of "Dec False 4 0" "Dec False 1 0"] fits_quarter
  obtain r where "divide_decimal (Dec False 1 0) (Dec False 4 0) = Inr r"
    "dval r = dval (Dec False 1 0) / dval (Dec False 4 0)" by blast
  moreover have "dval (Dec False 1 0) / dval (Dec False 4 0) = 1 / 4" by (simp add: dval_def)
  ultimately show ?thesis by (intro exI [of _ r]) (simp only:)
qed

end
