(* ===== verification/Trades.thy ===== *)
theory Trades
  imports Costs Order_Machine
begin

text \<open>
  \<open>backtest/trades.py\<close>: the immutable trade sample, the pricing of a closed and of an open
  trade, the checks every sample must pass (accounting bridge, timestamps, identities) and the
  replay of its order events, and the win rate and payoff ratio of a list of samples. The fields
  of a sample are finite Decimals: the finiteness checks have no branch. The zone \<open>z\<close> is
  Asia/Shanghai in the code; arithmetic outside \<open>price_order\<close> runs in the default context.
\<close>

definition sizing_version :: string where "sizing_version = ''fixed-lot-v1''"

definition price_basis_convention :: string where
  "price_basis_convention = ''selected_adjustment_series_internal_basis''"

definition open_pnl_convention :: string where
  "open_pnl_convention = ''last_price_without_exit_costs''"

section \<open>Ratio metrics\<close>

record ratio_metric =
  rm_value :: "dec option"
  rm_reason :: "string option"
  rm_sample_count :: int

definition mk_ratio_metric :: "pydec option \<Rightarrow> string option \<Rightarrow> int \<Rightarrow> ratio_metric res" where
  "mk_ratio_metric value reason sample_count =
     (if sample_count < 0 then Inl (ValueError ''sample_count cannot be negative'')
      else bind_res
        (case value of
           None \<Rightarrow> Inr None
         | Some (Finite d) \<Rightarrow>
             if dval d < 0 then Inl (ValueError ''value cannot be negative'')
             else Inr (Some (canonical_zero d))
         | Some _ \<Rightarrow> Inl (ValueError ''value must be a finite Decimal'')) (\<lambda>v.
        if (case reason of None \<Rightarrow> False | Some r \<Rightarrow> blank r)
        then Inl (TypeError ''reason must be a nonblank string or None'')
        else if v = None \<and> reason = None then Inl (ValueError ''an undefined ratio requires a reason'')
        else if v \<noteq> None \<and> reason \<noteq> None
        then Inl (ValueError ''a defined ratio cannot include an undefined reason'')
        else Inr \<lparr>rm_value = v, rm_reason = reason, rm_sample_count = sample_count\<rparr>))"

section \<open>Trade samples\<close>

record trade_sample =
  ts_symbol :: string
  ts_realized :: bool
  ts_sizing_version :: string
  ts_cost_model_version :: string
  ts_price_basis_convention :: string
  ts_open_pnl_convention :: "string option"
  ts_quantity :: int
  ts_entry_signal_at :: pytime
  ts_entry_fill_at :: pytime
  ts_exit_signal_at :: "pytime option"
  ts_exit_fill_at :: "pytime option"
  ts_mark_at :: "pytime option"
  ts_entry_reference_open :: dec
  ts_exit_reference_open :: "dec option"
  ts_mark_price :: "dec option"
  ts_buy_fill_price :: dec
  ts_sell_fill_price :: "dec option"
  ts_buy_commission :: dec
  ts_sell_commission :: dec
  ts_sell_tax :: dec
  ts_slippage_cost :: dec
  ts_reference_gross_pnl :: dec
  ts_fill_gross_pnl :: dec
  ts_invested_cost :: dec
  ts_net_pnl :: "dec option"
  ts_net_return :: "dec option"
  ts_floating_pnl :: "dec option"
  ts_floating_return :: "dec option"
  ts_holding_bars :: int
  ts_holding_days :: int
  ts_formula_version_id :: string
  ts_signal_series_id :: string
  ts_market_manifest_ids :: "string list"
  ts_status_manifest_ids :: "string list"
  ts_order_events :: "order_event list"

definition canonicalize_decimal_zeros :: "trade_sample \<Rightarrow> trade_sample" where
  "canonicalize_decimal_zeros s = s
     \<lparr>ts_entry_reference_open := canonical_zero (ts_entry_reference_open s),
      ts_exit_reference_open := map_option canonical_zero (ts_exit_reference_open s),
      ts_mark_price := map_option canonical_zero (ts_mark_price s),
      ts_buy_fill_price := canonical_zero (ts_buy_fill_price s),
      ts_sell_fill_price := map_option canonical_zero (ts_sell_fill_price s),
      ts_buy_commission := canonical_zero (ts_buy_commission s),
      ts_sell_commission := canonical_zero (ts_sell_commission s),
      ts_sell_tax := canonical_zero (ts_sell_tax s),
      ts_slippage_cost := canonical_zero (ts_slippage_cost s),
      ts_reference_gross_pnl := canonical_zero (ts_reference_gross_pnl s),
      ts_fill_gross_pnl := canonical_zero (ts_fill_gross_pnl s),
      ts_invested_cost := canonical_zero (ts_invested_cost s),
      ts_net_pnl := map_option canonical_zero (ts_net_pnl s),
      ts_net_return := map_option canonical_zero (ts_net_return s),
      ts_floating_pnl := map_option canonical_zero (ts_floating_pnl s),
      ts_floating_return := map_option canonical_zero (ts_floating_return s)\<rparr>"

section \<open>Field checks\<close>

definition validate_identity :: "string \<Rightarrow> string \<Rightarrow> unit res" where
  "validate_identity field_name value =
     (if blank value then Inl (ValueError (field_name @ '' must be a nonblank string'')) else Inr ())"

definition validate_id_tuple :: "string \<Rightarrow> string list \<Rightarrow> unit res" where
  "validate_id_tuple field_name value =
     (if value = [] then Inl (ValueError (field_name @ '' must not be empty''))
      else each (validate_identity field_name) value)"

definition check_positive :: "string \<Rightarrow> dec \<Rightarrow> unit res" where
  "check_positive field_name d =
     (if dval d \<le> 0 then Inl (ValueError (field_name @ '' must be a positive finite Decimal'')) else Inr ())"

definition validate_money :: "string \<Rightarrow> dec \<Rightarrow> unit res" where
  "validate_money field_name d =
     bind_res (round_money d) (\<lambda>r.
       if dval d \<noteq> dval r then Inl (ValueError (field_name @ '' must be rounded to fen'')) else Inr ())"

definition validate_nonnegative_money :: "string \<Rightarrow> dec \<Rightarrow> unit res" where
  "validate_nonnegative_money field_name d =
     then_res (validate_money field_name d)
       (if dval d < 0 then Inl (ValueError (field_name @ '' must be nonnegative'')) else Inr ())"

definition validate_realized_times ::
  "pytime \<Rightarrow> pytime \<Rightarrow> pytime option \<Rightarrow> pytime option \<Rightarrow> bool \<Rightarrow> unit res" where
  "validate_realized_times entry_signal_at entry_fill_at exit_signal_at exit_fill_at allow_open =
     then_res (validate_timestamp ''entry_signal_at'' entry_signal_at)
    (then_res (validate_timestamp ''entry_fill_at'' entry_fill_at)
    (if instant entry_fill_at < instant entry_signal_at
     then Inl (ValueError ''entry_fill_at cannot precede entry_signal_at'')
     else if allow_open \<and> exit_signal_at = None \<and> exit_fill_at = None then Inr ()
     else case (exit_signal_at, exit_fill_at) of
         (Some xs, Some xf) \<Rightarrow>
            then_res (validate_timestamp ''exit_signal_at'' xs)
           (then_res (validate_timestamp ''exit_fill_at'' xf)
           (if instant xs < instant entry_fill_at
            then Inl (ValueError ''exit_signal_at cannot precede entry_fill_at'')
            else if instant xf < instant xs
            then Inl (ValueError ''exit_fill_at cannot precede exit_signal_at'')
            else Inr ()))
       | _ \<Rightarrow> Inl (ValueError ''exit_signal_at and exit_fill_at must both be present'')))"

definition holding_days :: "zone \<Rightarrow> pytime \<Rightarrow> pytime \<Rightarrow> int" where
  "holding_days z start end' = local_date z end' - local_date z start"

section \<open>Default-context amounts\<close>

text \<open>\<open>(a - b) * quantity\<close>, \<open>price * quantity + fee\<close> and differences of amounts.\<close>

definition price_gap :: "dec \<Rightarrow> dec \<Rightarrow> int \<Rightarrow> dec res" where
  "price_gap a b quantity = bind_res (sub28 a b) (\<lambda>d. mul28 d (dec_of_int quantity))"

definition money_gap :: "dec \<Rightarrow> dec \<Rightarrow> int \<Rightarrow> dec res" where
  "money_gap a b quantity = bind_res (price_gap a b quantity) round_money"

definition invested :: "dec \<Rightarrow> int \<Rightarrow> dec \<Rightarrow> dec res" where
  "invested fill quantity commission =
     bind_res (mul28 fill (dec_of_int quantity)) (\<lambda>n. bind_res (add28 n commission) round_money)"

fun subtract_all :: "dec \<Rightarrow> dec list \<Rightarrow> dec res" where
  "subtract_all d [] = Inr d"
| "subtract_all d (x # xs) = bind_res (sub28 d x) (\<lambda>r. subtract_all r xs)"

definition money_less :: "dec \<Rightarrow> dec list \<Rightarrow> dec res" where
  "money_less d xs = bind_res (subtract_all d xs) round_money"

definition money_sum :: "dec \<Rightarrow> dec \<Rightarrow> dec res" where
  "money_sum a b = bind_res (add28 a b) round_money"

text \<open>The slippage of both sides of a realized trade, from its four prices.\<close>

definition both_slippages :: "dec \<Rightarrow> dec \<Rightarrow> dec \<Rightarrow> dec \<Rightarrow> int \<Rightarrow> dec res" where
  "both_slippages buy_fill entry exit' sell_fill quantity =
     bind_res (price_gap buy_fill entry quantity) (\<lambda>a.
     bind_res (price_gap exit' sell_fill quantity) (\<lambda>b. money_sum a b))"

section \<open>Replay of the order events\<close>

record replay =
  rp_held :: "order_event option"
  rp_pending :: "order_event option"
  rp_matched_buy :: bool
  rp_matched_sell :: bool
  rp_matched_mark :: bool
  rp_range_ended :: bool
  rp_last_at :: "pytime option"

definition replay_init :: replay where
  "replay_init = \<lparr>rp_held = None, rp_pending = None, rp_matched_buy = False, rp_matched_sell = False,
     rp_matched_mark = False, rp_range_ended = False, rp_last_at = None\<rparr>"

definition validate_ignored_signal_state ::
  "ignored_reason \<Rightarrow> signal_code option \<Rightarrow> replay \<Rightarrow> unit res" where
  "validate_ignored_signal_state reason signal r =
     (case reason of
        CONFLICTING_SIGNALS \<Rightarrow> Inr ()
      | ALREADY_HOLDING \<Rightarrow>
          if rp_held r = None \<or> rp_pending r \<noteq> None
          then Inl (ValueError ''already_holding signal requires an idle held position'') else Inr ()
      | NOT_HOLDING \<Rightarrow>
          if rp_held r \<noteq> None \<or> rp_pending r \<noteq> None
          then Inl (ValueError ''not_holding signal requires an idle flat position'') else Inr ()
      | SAME_SIDE_ORDER_PENDING \<Rightarrow>
          (case (rp_pending r, signal) of
             (Some p, Some sig) \<Rightarrow>
               if sig \<noteq> side_code (pending_side p)
               then Inl (ValueError ''same-side ignored signal requires its active pending order'')
               else Inr ()
           | _ \<Rightarrow> Inl (ValueError ''same-side ignored signal requires its active pending order'')))"

definition bind_buy_fill :: "trade_sample \<Rightarrow> order_event \<Rightarrow> unit res" where
  "bind_buy_fill s e =
     (if filled_signal_at e \<noteq> ts_entry_signal_at s \<or> filled_time e \<noteq> ts_entry_fill_at s
         \<or> dval (filled_price e) \<noteq> dval (ts_entry_reference_open s) \<or> filled_quantity e \<noteq> ts_quantity s
      then Inl (ValueError ''buy fill event does not match the trade reference identity'') else Inr ())"

definition bind_sell_fill :: "trade_sample \<Rightarrow> order_event \<Rightarrow> unit res" where
  "bind_sell_fill s e =
     (if \<not> ts_realized s then Inl (ValueError ''open order_events cannot contain a sell fill'')
      else case (ts_exit_signal_at s, ts_exit_fill_at s, ts_exit_reference_open s) of
          (Some xs, Some xf, Some xr) \<Rightarrow>
            if filled_signal_at e \<noteq> xs \<or> filled_time e \<noteq> xf \<or> dval (filled_price e) \<noteq> dval xr
               \<or> filled_quantity e \<noteq> ts_quantity s
            then Inl (ValueError ''sell fill event does not match the trade reference identity'')
            else Inr ()
        | _ \<Rightarrow> Inl AssertionError)"

definition bind_open_mark :: "trade_sample \<Rightarrow> order_event \<Rightarrow> order_event \<Rightarrow> unit res" where
  "bind_open_mark s e held =
     (if ts_realized s then Inl (ValueError ''realized order_events cannot contain an open mark'')
      else case (ts_mark_at s, ts_mark_price s) of
          (Some ma, Some mp) \<Rightarrow>
            if marked_entry_at e \<noteq> filled_time held \<or> marked_entry_at e \<noteq> ts_entry_fill_at s
               \<or> dval (marked_entry_price e) \<noteq> dval (filled_price held)
               \<or> dval (marked_entry_price e) \<noteq> dval (ts_entry_reference_open s)
               \<or> marked_quantity e \<noteq> filled_quantity held \<or> marked_quantity e \<noteq> ts_quantity s
               \<or> marked_at e \<noteq> ma \<or> dval (marked_price e) \<noteq> dval mp
               \<or> dval (marked_floating_pnl e) \<noteq> dval (ts_reference_gross_pnl s)
            then Inl (ValueError ''open mark event does not match the trade reference identity'')
            else Inr ()
        | _ \<Rightarrow> Inl AssertionError)"

text \<open>One event after its time is checked; \<open>final\<close> says that it is the last of the log.\<close>

definition replay_fill :: "trade_sample \<Rightarrow> replay \<Rightarrow> order_event \<Rightarrow> bool \<Rightarrow> replay res" where
  "replay_fill s r e final =
     (case rp_pending r of
        None \<Rightarrow> Inl (ValueError ''fill requires its active pending order'')
      | Some p \<Rightarrow>
          if pending_side p \<noteq> filled_side e then Inl (ValueError ''fill requires its active pending order'')
          else if filled_signal_at e \<noteq> pending_signal_at p
              \<or> instant (filled_time e) < instant (pending_eligible_at p)
          then Inl (ValueError ''fill does not match its active pending order'')
          else if filled_side e = Buy
          then (if rp_held r \<noteq> None \<or> rp_matched_buy r
                then Inl (ValueError ''buy fill requires one flat sample lifecycle'')
                else then_res (bind_buy_fill s e)
                  (Inr (r\<lparr>rp_pending := None, rp_held := Some e, rp_matched_buy := True\<rparr>)))
          else (if rp_held r = None \<or> rp_matched_sell r
                then Inl (ValueError ''sell fill requires one held sample lifecycle'')
                else then_res (bind_sell_fill s e)
                  (if \<not> final then Inl (ValueError ''realized sell fill must be final'')
                   else Inr (r\<lparr>rp_pending := None, rp_held := None, rp_matched_sell := True\<rparr>))))"

fun replay_event :: "trade_sample \<Rightarrow> replay \<Rightarrow> order_event \<Rightarrow> bool \<Rightarrow> replay res" where
  "replay_event s r (OrderPending side sig el) final =
     (if rp_pending r \<noteq> None
      then Inl (ValueError ''a new order cannot replace an active pending order'')
      else if side = Buy \<and> rp_held r \<noteq> None
      then Inl (ValueError ''buy pending order requires a flat position'')
      else if side = Sell \<and> rp_held r = None
      then Inl (ValueError ''sell pending order requires a held position'')
      else Inr (r\<lparr>rp_pending := Some (OrderPending side sig el)\<rparr>))"
| "replay_event s r (IgnoredSignal reason signal tm) final =
     then_res (validate_ignored_signal_state reason signal r) (Inr r)"
| "replay_event s r (OrderCancelled side reason tm) final =
     (case rp_pending r of
        None \<Rightarrow> Inl (ValueError ''cancellation requires its active pending order'')
      | Some p \<Rightarrow>
          if pending_side p \<noteq> side
          then Inl (ValueError ''cancellation requires its active pending order'')
          else Inr (r\<lparr>rp_pending := None\<rparr>))"
| "replay_event s r (OrderBlocked side tm reason) final =
     (case rp_pending r of
        None \<Rightarrow> Inl (ValueError ''blocked event requires its active pending order'')
      | Some p \<Rightarrow>
          if pending_side p \<noteq> side
          then Inl (ValueError ''blocked event requires its active pending order'')
          else if instant tm < instant (pending_eligible_at p)
          then Inl (ValueError ''blocked event cannot precede pending eligibility'')
          else Inr r)"
| "replay_event s r (OrderFilled side sig tm price q) final =
     replay_fill s r (OrderFilled side sig tm price q) final"
| "replay_event s r (OrderUnfilled side sig el tm) final =
     (case rp_pending r of
        None \<Rightarrow> Inl (ValueError ''unfilled event requires its active pending order'')
      | Some p \<Rightarrow>
          if pending_side p \<noteq> side
          then Inl (ValueError ''unfilled event requires its active pending order'')
          else if sig \<noteq> pending_signal_at p \<or> el \<noteq> pending_eligible_at p
          then Inl (ValueError ''unfilled event does not match its active pending order'')
          else Inr (r\<lparr>rp_pending := None, rp_range_ended := True\<rparr>))"
| "replay_event s r (OpenTradeMarked ea ep q tm mp pnl) final =
     (if \<not> final then Inl (ValueError ''terminal open mark must be final'')
      else case (rp_pending r, rp_held r) of
          (None, Some held) \<Rightarrow>
            then_res (bind_open_mark s (OpenTradeMarked ea ep q tm mp pnl) held)
              (Inr (r\<lparr>rp_matched_mark := True\<rparr>))
        | _ \<Rightarrow> Inl (ValueError ''open mark requires a held position and no pending order''))"

definition replay_step :: "trade_sample \<Rightarrow> replay \<Rightarrow> order_event \<times> bool \<Rightarrow> replay res" where
  "replay_step s r = (\<lambda>(e, final).
     if (case rp_last_at r of None \<Rightarrow> False | Some l \<Rightarrow> instant (event_operation_time e) < instant l)
     then Inl (ValueError ''order_events must be replayed in chronological order'')
     else if rp_range_ended r \<and> \<not> is_OpenTradeMarked e
     then Inl (ValueError ''range-ended events may only be followed by an open mark'')
     else replay_event s (r\<lparr>rp_last_at := Some (event_operation_time e)\<rparr>) e final)"

fun mark_final :: "'a list \<Rightarrow> ('a \<times> bool) list" where
  "mark_final [] = []"
| "mark_final [x] = [(x, True)]"
| "mark_final (x # y # zs) = (x, False) # mark_final (y # zs)"

definition check_replay_end :: "trade_sample \<Rightarrow> replay \<Rightarrow> unit res" where
  "check_replay_end s r =
     (if ts_realized s
      then (if \<not> rp_matched_buy r
            then Inl (ValueError ''order_events must contain exactly one matching buy fill'')
            else if \<not> rp_matched_sell r
            then Inl (ValueError ''order_events must contain exactly one matching sell fill'')
            else if rp_matched_mark r \<or> rp_held r \<noteq> None \<or> rp_pending r \<noteq> None
            then Inl (ValueError ''realized order_events must end flat at the matching sell fill'')
            else Inr ())
      else if \<not> rp_matched_buy r
      then Inl (ValueError ''order_events must contain exactly one matching buy fill'')
      else if rp_matched_sell r
      then Inl (ValueError ''open order_events cannot contain a sell fill'')
      else if \<not> rp_matched_mark r
      then Inl (ValueError ''order_events must contain exactly one matching open mark'')
      else if rp_held r = None \<or> rp_pending r \<noteq> None
      then Inl (ValueError ''open order_events must end held at the matching open mark'')
      else Inr ())"

definition validate_order_event_identity :: "trade_sample \<Rightarrow> unit res" where
  "validate_order_event_identity s =
     bind_res (run_res (replay_step s) replay_init (mark_final (ts_order_events s)))
       (check_replay_end s)"

section \<open>The checks of a sample\<close>

definition validate_accounting_bridge :: "trade_sample \<Rightarrow> dec \<Rightarrow> dec \<Rightarrow> unit res" where
  "validate_accounting_bridge s exp_reference exp_slippage =
     (if dval (ts_reference_gross_pnl s) \<noteq> dval exp_reference
      then Inl (ValueError ''reference_gross_pnl does not match reference prices'')
      else if dval (ts_slippage_cost s) \<noteq> dval exp_slippage
      then Inl (ValueError ''slippage_cost does not bridge reference and fill prices'')
      else bind_res (money_less (ts_reference_gross_pnl s) [ts_slippage_cost s]) (\<lambda>g.
        if dval (ts_fill_gross_pnl s) \<noteq> dval g
        then Inl (ValueError ''fill_gross_pnl does not equal reference PnL less slippage'') else Inr ()))"

text \<open>The checks that do not depend on whether the trade is realized.\<close>

definition validate_common :: "trade_sample \<Rightarrow> unit res" where
  "validate_common s =
     then_res (validate_identity ''symbol'' (ts_symbol s))
    (if ts_sizing_version s \<noteq> sizing_version then Inl (ValueError ''sizing_version must be fixed-lot-v1'')
     else if ts_cost_model_version s \<noteq> cost_model_version
     then Inl (ValueError ''cost_model_version must be a-share-cost-v1'')
     else if ts_price_basis_convention s \<noteq> price_basis_convention
     then Inl (ValueError ''price_basis_convention is not supported'')
     else if ts_quantity s \<le> 0 then Inl (ValueError ''quantity must be a positive integer'')
     else if ts_quantity s mod 100 \<noteq> 0 then Inl (ValueError ''quantity must use a 100-share lot'')
     else if ts_holding_bars s < 0 then Inl (ValueError ''holding_bars must be a nonnegative integer'')
     else if ts_holding_days s < 0 then Inl (ValueError ''holding_days must be a nonnegative integer'')
     else
      then_res (check_positive ''entry_reference_open'' (ts_entry_reference_open s))
     (then_res (check_positive ''buy_fill_price'' (ts_buy_fill_price s))
     (then_res (check_positive ''invested_cost'' (ts_invested_cost s))
     (then_res (validate_nonnegative_money ''buy_commission'' (ts_buy_commission s))
     (then_res (validate_nonnegative_money ''sell_commission'' (ts_sell_commission s))
     (then_res (validate_nonnegative_money ''sell_tax'' (ts_sell_tax s))
     (then_res (validate_nonnegative_money ''slippage_cost'' (ts_slippage_cost s))
     (then_res (validate_money ''reference_gross_pnl'' (ts_reference_gross_pnl s))
     (then_res (validate_money ''fill_gross_pnl'' (ts_fill_gross_pnl s))
     (bind_res (invested (ts_buy_fill_price s) (ts_quantity s) (ts_buy_commission s)) (\<lambda>cost.
      if dval (ts_invested_cost s) \<noteq> dval cost
      then Inl (ValueError ''invested_cost does not equal buy notional plus commission'')
      else
       then_res (validate_identity ''formula_version_id'' (ts_formula_version_id s))
      (then_res (validate_identity ''signal_series_id'' (ts_signal_series_id s))
      (then_res (validate_id_tuple ''market_manifest_ids'' (ts_market_manifest_ids s))
      (then_res (validate_id_tuple ''status_manifest_ids'' (ts_status_manifest_ids s))
      (if ts_order_events s = []
       then Inl (ValueError ''order_events must contain the full trade lifecycle'')
       else validate_realized_times (ts_entry_signal_at s) (ts_entry_fill_at s) (ts_exit_signal_at s)
              (ts_exit_fill_at s) (\<not> ts_realized s))))))))))))))))"

definition validate_realized_sample :: "zone \<Rightarrow> trade_sample \<Rightarrow> unit res" where
  "validate_realized_sample z s =
     (if ts_open_pnl_convention s \<noteq> None
      then Inl (ValueError ''realized trade cannot use an open PnL convention'')
      else if ts_mark_at s \<noteq> None \<or> ts_mark_price s \<noteq> None
      then Inl (ValueError ''realized trade cannot contain a mark'')
      else case (ts_exit_reference_open s, ts_sell_fill_price s) of
          (Some xr, Some sf) \<Rightarrow>
            (case (ts_net_pnl s, ts_net_return s, ts_exit_fill_at s) of
               (Some net, Some ret, Some xf) \<Rightarrow>
                 then_res (check_positive ''exit_reference_open'' xr)
                (then_res (check_positive ''sell_fill_price'' sf)
                (then_res (validate_money ''net_pnl'' net)
                (if ts_floating_pnl s \<noteq> None \<or> ts_floating_return s \<noteq> None
                 then Inl (ValueError ''realized trade cannot contain floating results'')
                 else if ts_holding_days s \<noteq> holding_days z (ts_entry_fill_at s) xf
                 then Inl (ValueError ''holding_days does not match fill timestamps'')
                 else
                  bind_res (money_gap xr (ts_entry_reference_open s) (ts_quantity s)) (\<lambda>er.
                  bind_res (both_slippages (ts_buy_fill_price s) (ts_entry_reference_open s) xr sf
                              (ts_quantity s)) (\<lambda>es.
                  then_res (validate_accounting_bridge s er es)
                 (bind_res (money_less (ts_fill_gross_pnl s)
                             [ts_buy_commission s, ts_sell_commission s, ts_sell_tax s]) (\<lambda>en.
                  if dval net \<noteq> dval en
                  then Inl (ValueError ''net_pnl does not equal fill PnL less disclosed costs'')
                  else bind_res (divide_decimal net (ts_invested_cost s)) (\<lambda>r.
                    if dval ret \<noteq> dval r
                    then Inl (ValueError ''net_return does not equal net_pnl divided by invested_cost'')
                    else Inr ()))))))))
             | (Some _, Some _, None) \<Rightarrow> Inl AssertionError
             | _ \<Rightarrow> Inl (ValueError ''realized trade requires net results''))
        | _ \<Rightarrow> Inl (ValueError ''realized trade requires exit prices''))"

definition validate_open_sample :: "zone \<Rightarrow> trade_sample \<Rightarrow> unit res" where
  "validate_open_sample z s =
     (if ts_open_pnl_convention s \<noteq> Some open_pnl_convention
      then Inl (ValueError ''open trade must disclose its PnL convention'')
      else case (ts_mark_at s, ts_mark_price s) of
          (Some ma, Some mp) \<Rightarrow>
            (if ts_exit_reference_open s \<noteq> None \<or> ts_sell_fill_price s \<noteq> None
             then Inl (ValueError ''open trade cannot contain exit prices'')
             else if ts_net_pnl s \<noteq> None \<or> ts_net_return s \<noteq> None
             then Inl (ValueError ''open trade cannot contain realized net results'')
             else case (ts_floating_pnl s, ts_floating_return s) of
                 (Some fl, Some ret) \<Rightarrow>
                   then_res (check_positive ''mark_price'' mp)
                  (then_res (validate_money ''floating_pnl'' fl)
                  (if dval (ts_sell_commission s) \<noteq> 0 \<or> dval (ts_sell_tax s) \<noteq> 0
                   then Inl (ValueError ''open trade cannot include hypothetical exit costs'')
                   else
                    then_res (validate_timestamp ''mark_at'' ma)
                   (if instant ma < instant (ts_entry_fill_at s)
                    then Inl (ValueError ''mark_at cannot precede entry_fill_at'')
                    else if ts_holding_days s \<noteq> holding_days z (ts_entry_fill_at s) ma
                    then Inl (ValueError ''holding_days does not match mark timestamp'')
                    else
                     bind_res (money_gap mp (ts_entry_reference_open s) (ts_quantity s)) (\<lambda>er.
                     bind_res (money_gap (ts_buy_fill_price s) (ts_entry_reference_open s) (ts_quantity s)) (\<lambda>es.
                     then_res (validate_accounting_bridge s er es)
                    (bind_res (money_less (ts_fill_gross_pnl s) [ts_buy_commission s]) (\<lambda>ef.
                     if dval fl \<noteq> dval ef
                     then Inl (ValueError ''floating_pnl does not match the disclosed open convention'')
                     else bind_res (divide_decimal fl (ts_invested_cost s)) (\<lambda>r.
                       if dval ret \<noteq> dval r
                       then Inl (ValueError ''floating_return does not equal floating_pnl divided by invested_cost'')
                       else Inr ()))))))))
               | _ \<Rightarrow> Inl (ValueError ''open trade requires floating results''))
        | _ \<Rightarrow> Inl (ValueError ''open trade requires a last-price mark''))"

definition validate_trade_sample :: "zone \<Rightarrow> trade_sample \<Rightarrow> unit res" where
  "validate_trade_sample z s =
     then_res (validate_common s)
    (then_res (if ts_realized s then validate_realized_sample z s else validate_open_sample z s)
      (validate_order_event_identity s))"

definition mk_trade_sample :: "zone \<Rightarrow> trade_sample \<Rightarrow> trade_sample res" where
  "mk_trade_sample z s =
     (let c = canonicalize_decimal_zeros s in then_res (validate_trade_sample z c) (Inr c))"

section \<open>Closing and marking a trade\<close>

text \<open>The keyword arguments that \<open>close_trade\<close> and \<open>mark_open_trade\<close> share.\<close>

record trade_args =
  ta_entry :: pydec
  ta_quantity :: int
  ta_cost_model :: cost_model
  ta_symbol :: string
  ta_entry_signal_at :: pytime
  ta_entry_fill_at :: pytime
  ta_holding_bars :: int
  ta_formula_version_id :: string
  ta_signal_series_id :: string
  ta_market_manifest_ids :: "string list"
  ta_status_manifest_ids :: "string list"
  ta_order_events :: "order_event list"

definition realized_sample ::
  "zone \<Rightarrow> trade_args \<Rightarrow> pytime \<Rightarrow> pytime \<Rightarrow> order_cost \<Rightarrow> order_cost
     \<Rightarrow> dec \<Rightarrow> dec \<Rightarrow> dec \<Rightarrow> dec \<Rightarrow> dec \<Rightarrow> dec \<Rightarrow> trade_sample" where
  "realized_sample z a exit_signal_at exit_fill_at buy sell reference_gross slippage fill_gross net cost net_return =
       \<lparr>ts_symbol = ta_symbol a, ts_realized = True, ts_sizing_version = sizing_version,
        ts_cost_model_version = cm_version (ta_cost_model a),
        ts_price_basis_convention = price_basis_convention, ts_open_pnl_convention = None,
        ts_quantity = ta_quantity a, ts_entry_signal_at = ta_entry_signal_at a,
        ts_entry_fill_at = ta_entry_fill_at a, ts_exit_signal_at = Some exit_signal_at,
        ts_exit_fill_at = Some exit_fill_at, ts_mark_at = None,
        ts_entry_reference_open = oc_reference_open buy,
        ts_exit_reference_open = Some (oc_reference_open sell), ts_mark_price = None,
        ts_buy_fill_price = oc_fill_price buy, ts_sell_fill_price = Some (oc_fill_price sell),
        ts_buy_commission = oc_commission buy, ts_sell_commission = oc_commission sell,
        ts_sell_tax = oc_sell_tax sell, ts_slippage_cost = slippage,
        ts_reference_gross_pnl = reference_gross, ts_fill_gross_pnl = fill_gross,
        ts_invested_cost = cost, ts_net_pnl = Some net, ts_net_return = Some net_return,
        ts_floating_pnl = None, ts_floating_return = None, ts_holding_bars = ta_holding_bars a,
        ts_holding_days = holding_days z (ta_entry_fill_at a) exit_fill_at,
        ts_formula_version_id = ta_formula_version_id a, ts_signal_series_id = ta_signal_series_id a,
        ts_market_manifest_ids = ta_market_manifest_ids a,
        ts_status_manifest_ids = ta_status_manifest_ids a, ts_order_events = ta_order_events a\<rparr>"

definition close_trade :: "zone \<Rightarrow> trade_args \<Rightarrow> pydec \<Rightarrow> pytime \<Rightarrow> pytime \<Rightarrow> trade_sample res" where
  "close_trade z a exit' exit_signal_at exit_fill_at =
     then_res (validate_realized_times (ta_entry_signal_at a) (ta_entry_fill_at a)
                 (Some exit_signal_at) (Some exit_fill_at) False)
    (bind_res (price_order Buy (ta_entry a) (ta_quantity a) (ta_cost_model a)) (\<lambda>buy.
     bind_res (price_order Sell exit' (ta_quantity a) (ta_cost_model a)) (\<lambda>sell.
     bind_res (money_gap (oc_reference_open sell) (oc_reference_open buy) (ta_quantity a)) (\<lambda>reference_gross.
     bind_res (money_sum (oc_slippage_cost buy) (oc_slippage_cost sell)) (\<lambda>slippage.
     bind_res (money_less reference_gross [slippage]) (\<lambda>fill_gross.
     bind_res (money_less fill_gross [oc_commission buy, oc_commission sell, oc_sell_tax sell]) (\<lambda>net.
     bind_res (invested (oc_fill_price buy) (ta_quantity a) (oc_commission buy)) (\<lambda>cost.
     bind_res (divide_decimal net cost) (\<lambda>net_return.
     mk_trade_sample z
       (realized_sample z a exit_signal_at exit_fill_at buy sell reference_gross slippage fill_gross net cost
          net_return))))))))))"

definition normalize_mark_price :: "pydec \<Rightarrow> dec res" where
  "normalize_mark_price value =
     bind_res (mk_cost_model (Finite (Dec False 0 0)) (Finite (Dec False 0 0)) (Finite (Dec False 0 0))
                 (Finite (Dec False 0 0)) cost_model_version) (\<lambda>zero_cost_model.
     bind_res (price_order Buy value 100 zero_cost_model) (\<lambda>c. Inr (oc_reference_open c)))"

definition open_sample ::
  "zone \<Rightarrow> trade_args \<Rightarrow> pytime \<Rightarrow> order_cost \<Rightarrow> dec
     \<Rightarrow> dec \<Rightarrow> dec \<Rightarrow> dec \<Rightarrow> dec \<Rightarrow> dec \<Rightarrow> trade_sample" where
  "open_sample z a mark_at buy mark_price reference_gross fill_gross cost floating floating_return =
       \<lparr>ts_symbol = ta_symbol a, ts_realized = False, ts_sizing_version = sizing_version,
        ts_cost_model_version = cm_version (ta_cost_model a),
        ts_price_basis_convention = price_basis_convention,
        ts_open_pnl_convention = Some open_pnl_convention,
        ts_quantity = ta_quantity a, ts_entry_signal_at = ta_entry_signal_at a,
        ts_entry_fill_at = ta_entry_fill_at a, ts_exit_signal_at = None,
        ts_exit_fill_at = None, ts_mark_at = Some mark_at,
        ts_entry_reference_open = oc_reference_open buy,
        ts_exit_reference_open = None, ts_mark_price = Some mark_price,
        ts_buy_fill_price = oc_fill_price buy, ts_sell_fill_price = None,
        ts_buy_commission = oc_commission buy, ts_sell_commission = Dec False 0 (-2),
        ts_sell_tax = Dec False 0 (-2), ts_slippage_cost = oc_slippage_cost buy,
        ts_reference_gross_pnl = reference_gross, ts_fill_gross_pnl = fill_gross,
        ts_invested_cost = cost, ts_net_pnl = None, ts_net_return = None,
        ts_floating_pnl = Some floating, ts_floating_return = Some floating_return,
        ts_holding_bars = ta_holding_bars a,
        ts_holding_days = holding_days z (ta_entry_fill_at a) mark_at,
        ts_formula_version_id = ta_formula_version_id a, ts_signal_series_id = ta_signal_series_id a,
        ts_market_manifest_ids = ta_market_manifest_ids a,
        ts_status_manifest_ids = ta_status_manifest_ids a, ts_order_events = ta_order_events a\<rparr>"

definition mark_open_trade :: "zone \<Rightarrow> trade_args \<Rightarrow> pydec \<Rightarrow> pytime \<Rightarrow> trade_sample res" where
  "mark_open_trade z a mark mark_at =
     then_res (validate_timestamp ''mark_at'' mark_at)
    (then_res (validate_timestamp ''entry_fill_at'' (ta_entry_fill_at a))
    (if instant mark_at < instant (ta_entry_fill_at a)
     then Inl (ValueError ''mark_at cannot precede entry_fill_at'')
     else
      bind_res (price_order Buy (ta_entry a) (ta_quantity a) (ta_cost_model a)) (\<lambda>buy.
      bind_res (normalize_mark_price mark) (\<lambda>mark_price.
      bind_res (money_gap mark_price (oc_reference_open buy) (ta_quantity a)) (\<lambda>reference_gross.
      bind_res (money_less reference_gross [oc_slippage_cost buy]) (\<lambda>fill_gross.
      bind_res (invested (oc_fill_price buy) (ta_quantity a) (oc_commission buy)) (\<lambda>cost.
      bind_res (money_less fill_gross [oc_commission buy]) (\<lambda>floating.
      bind_res (divide_decimal floating cost) (\<lambda>floating_return.
      mk_trade_sample z
       (open_sample z a mark_at buy mark_price reference_gross fill_gross cost floating floating_return))))))))))"

section \<open>Win rate and payoff\<close>

definition required_net_pnl :: "trade_sample \<Rightarrow> dec res" where
  "required_net_pnl s =
     (case ts_net_pnl s of None \<Rightarrow> Inl (ValueError ''realized trade is missing net_pnl'') | Some d \<Rightarrow> Inr d)"

definition required_net_return :: "trade_sample \<Rightarrow> dec res" where
  "required_net_return s =
     (case ts_net_return s of None \<Rightarrow> Inl (ValueError ''realized trade is missing net_return'')
      | Some d \<Rightarrow> Inr d)"

definition calculate_win_rate :: "trade_sample list \<Rightarrow> ratio_metric res" where
  "calculate_win_rate samples =
     (let realized = filter ts_realized samples
      in if realized = [] then mk_ratio_metric None (Some ''no_realized_samples'') 0
         else bind_res (traverse required_net_pnl realized) (\<lambda>pnls.
           let winners = length (filter (\<lambda>p. 0 < dval p) pnls)
           in bind_res (divide_decimal (dec_of_int (int winners)) (dec_of_int (int (length realized)))) (\<lambda>v.
             mk_ratio_metric (Some (Finite v)) None (int (length realized)))))"

definition dec_mean :: "dec list \<Rightarrow> dec res" where
  "dec_mean ds = bind_res (dec_sum ds) (\<lambda>s. divide_decimal s (dec_of_int (int (length ds))))"

text \<open>\<open>abs\<close> of a Decimal rounds to the default context.\<close>

definition dec_abs :: "dec \<Rightarrow> dec res" where
  "dec_abs d = dec_fix HalfEven default_prec (copy_abs d)"

definition calculate_payoff_ratio :: "trade_sample list \<Rightarrow> ratio_metric res" where
  "calculate_payoff_ratio samples =
     (let realized = filter ts_realized samples; n = int (length realized)
      in bind_res (traverse required_net_return realized) (\<lambda>returns.
         let positive = filter (\<lambda>r. 0 < dval r) returns; negative = filter (\<lambda>r. dval r < 0) returns
         in if positive = [] \<and> negative = []
            then mk_ratio_metric None (Some ''no_positive_or_negative_returns'') n
            else if positive = [] then mk_ratio_metric None (Some ''no_positive_returns'') n
            else if negative = [] then mk_ratio_metric None (Some ''no_negative_returns'') n
            else
              bind_res (dec_mean positive) (\<lambda>pm.
              bind_res (dec_mean negative) (\<lambda>nm.
              bind_res (dec_abs nm) (\<lambda>an.
              bind_res (divide_decimal pm an) (\<lambda>v.
              mk_ratio_metric (Some (Finite v)) None n))))))"

section \<open>What the replay accepts\<close>

definition buy_matches :: "trade_sample \<Rightarrow> order_event \<Rightarrow> bool" where
  "buy_matches s e \<longleftrightarrow> is_OrderFilled e \<and> filled_side e = Buy \<and> filled_signal_at e = ts_entry_signal_at s
     \<and> filled_time e = ts_entry_fill_at s \<and> dval (filled_price e) = dval (ts_entry_reference_open s)
     \<and> filled_quantity e = ts_quantity s"

definition sell_matches :: "trade_sample \<Rightarrow> order_event \<Rightarrow> bool" where
  "sell_matches s e \<longleftrightarrow> is_OrderFilled e \<and> filled_side e = Sell \<and> Some (filled_signal_at e) = ts_exit_signal_at s
     \<and> Some (filled_time e) = ts_exit_fill_at s
     \<and> (\<exists>xr. ts_exit_reference_open s = Some xr \<and> dval (filled_price e) = dval xr)
     \<and> filled_quantity e = ts_quantity s"

lemma bind_buy_fill_Inr:
  "is_OrderFilled e \<Longrightarrow> filled_side e = Buy \<Longrightarrow> bind_buy_fill s e = Inr u \<longleftrightarrow> buy_matches s e"
  by (auto simp: bind_buy_fill_def buy_matches_def)

lemma bind_sell_fill_Inr:
  "is_OrderFilled e \<Longrightarrow> filled_side e = Sell \<Longrightarrow>
     bind_sell_fill s e = Inr u \<longleftrightarrow> ts_realized s \<and> sell_matches s e"
  by (auto simp: bind_sell_fill_def sell_matches_def split: option.splits)

text \<open>The lifecycle flags of the replay: held between the buy and the sell.\<close>

definition replay_wf :: "replay \<Rightarrow> bool" where
  "replay_wf r \<longleftrightarrow> (rp_held r \<noteq> None \<longleftrightarrow> rp_matched_buy r \<and> \<not> rp_matched_sell r)
     \<and> (rp_matched_sell r \<longrightarrow> rp_matched_buy r)"

lemma replay_init_wf: "replay_wf replay_init"
  by (simp add: replay_wf_def replay_init_def)

lemma replay_fill_Inr:
  assumes "replay_fill s r e final = Inr r'" and "is_OrderFilled e"
  shows "(filled_side e = Buy \<and> \<not> rp_matched_buy r \<and> rp_held r = None \<and> buy_matches s e
        \<and> r' = r\<lparr>rp_pending := None, rp_held := Some e, rp_matched_buy := True\<rparr>)
    \<or> (filled_side e = Sell \<and> rp_held r \<noteq> None \<and> \<not> rp_matched_sell r \<and> final \<and> ts_realized s
        \<and> sell_matches s e \<and> r' = r\<lparr>rp_pending := None, rp_held := None, rp_matched_sell := True\<rparr>)"
  using assms
  by (cases "filled_side e")
    (auto simp: replay_fill_def res_simps bind_buy_fill_Inr bind_sell_fill_Inr split: option.splits)

lemma replay_event_other:
  assumes "replay_event s r e final = Inr r'" and "\<not> is_OrderFilled e"
  shows "rp_held r' = rp_held r \<and> rp_matched_buy r' = rp_matched_buy r \<and> rp_matched_sell r' = rp_matched_sell r
    \<and> rp_last_at r' = rp_last_at r \<and> (is_OpenTradeMarked e \<longrightarrow> final)"
  using assms by (cases e) (auto simp: res_simps split: option.splits)

lemma replay_step_Inr:
  assumes "replay_step s r (e, final) = Inr r'"
  shows "replay_event s (r\<lparr>rp_last_at := Some (event_operation_time e)\<rparr>) e final = Inr r'
    \<and> (\<forall>l. rp_last_at r = Some l \<longrightarrow> instant l \<le> instant (event_operation_time e))
    \<and> (rp_range_ended r \<longrightarrow> is_OpenTradeMarked e)"
  using assms by (auto simp: replay_step_def if_Inl_Inr_iff split: option.splits)

text \<open>One accepted event: its effect on the flags, and what it is when it is a fill.\<close>

definition fill_effect :: "trade_sample \<Rightarrow> replay \<Rightarrow> order_event \<Rightarrow> bool \<Rightarrow> replay \<Rightarrow> bool" where
  "fill_effect s r e final r' \<longleftrightarrow>
     (if is_OrderFilled e
      then (buy_matches s e \<and> \<not> rp_matched_buy r \<and> rp_matched_buy r' \<and> rp_matched_sell r' = rp_matched_sell r)
         \<or> (sell_matches s e \<and> final \<and> rp_matched_buy r \<and> \<not> rp_matched_sell r
            \<and> rp_matched_buy r' \<and> rp_matched_sell r')
      else rp_matched_buy r' = rp_matched_buy r \<and> rp_matched_sell r' = rp_matched_sell r)"

lemma replay_step_effect:
  assumes wf: "replay_wf r" and r: "replay_step s r (e, final) = Inr r'"
  shows "replay_wf r' \<and> fill_effect s r e final r' \<and> rp_last_at r' = Some (event_operation_time e)"
proof -
  note step = replay_step_Inr [OF r]
  show ?thesis
  proof (cases "is_OrderFilled e")
    case True
    then have "replay_fill s (r\<lparr>rp_last_at := Some (event_operation_time e)\<rparr>) e final = Inr r'"
      using step by (cases e) simp_all
    from replay_fill_Inr [OF this True] wf True show ?thesis
      by (auto simp: replay_wf_def fill_effect_def)
  next
    case False
    from replay_event_other [OF conjunct1 [OF step] False] wf False show ?thesis
      by (simp add: replay_wf_def fill_effect_def)
  qed
qed

text \<open>The fills of an accepted log: at most the buy, then at most the sell as the last event.\<close>

definition accepted_fills :: "trade_sample \<Rightarrow> replay \<Rightarrow> order_event list \<Rightarrow> replay \<Rightarrow> bool" where
  "accepted_fills s r es r' \<longleftrightarrow>
     (\<exists>bs xs. filter is_OrderFilled es = bs @ xs
        \<and> (if \<not> rp_matched_buy r \<and> rp_matched_buy r' then \<exists>b. bs = [b] \<and> buy_matches s b else bs = [])
        \<and> (if \<not> rp_matched_sell r \<and> rp_matched_sell r'
           then \<exists>x. xs = [x] \<and> sell_matches s x \<and> last es = x else xs = []))"

lemma accepted_fills_one:
  assumes "fill_effect s r e True r'"
  shows "accepted_fills s r [e] r'"
proof (cases "is_OrderFilled e")
  case True
  with assms consider (buy) "buy_matches s e" "\<not> rp_matched_buy r" "rp_matched_buy r'"
      "rp_matched_sell r' = rp_matched_sell r"
    | (sell) "sell_matches s e" "rp_matched_buy r" "\<not> rp_matched_sell r" "rp_matched_buy r'" "rp_matched_sell r'"
    by (auto simp: fill_effect_def)
  then show ?thesis
  proof cases
    case buy
    then show ?thesis using True unfolding accepted_fills_def by (intro exI [of _ "[e]"] exI [of _ "[]"]) simp
  next
    case sell
    then show ?thesis using True unfolding accepted_fills_def by (intro exI [of _ "[]"] exI [of _ "[e]"]) simp
  qed
next
  case False
  with assms show ?thesis by (simp add: accepted_fills_def fill_effect_def)
qed

lemma accepted_fills_Cons:
  assumes eff: "fill_effect s r e False t" and ih: "accepted_fills s t es r'" and "es \<noteq> []"
    and mono: "rp_matched_buy t \<longrightarrow> rp_matched_buy r'"
  shows "accepted_fills s r (e # es) r'"
proof -
  obtain bs xs where f: "filter is_OrderFilled es = bs @ xs"
    and bs: "if \<not> rp_matched_buy t \<and> rp_matched_buy r' then \<exists>b. bs = [b] \<and> buy_matches s b else bs = []"
    and xs: "if \<not> rp_matched_sell t \<and> rp_matched_sell r'
       then \<exists>x. xs = [x] \<and> sell_matches s x \<and> last es = x else xs = []"
    using ih unfolding accepted_fills_def by blast
  have l: "last (e # es) = last es" using \<open>es \<noteq> []\<close> by simp
  show ?thesis
  proof (cases "is_OrderFilled e")
    case True
    with eff have t: "buy_matches s e" "\<not> rp_matched_buy r" "rp_matched_buy t"
        "rp_matched_sell t = rp_matched_sell r"
      by (auto simp: fill_effect_def)
    have "bs = []" using bs t(3) by simp
    then have "filter is_OrderFilled (e # es) = [e] @ xs" using True f by simp
    moreover have "rp_matched_buy r'" using mono t(3) by blast
    ultimately show ?thesis unfolding accepted_fills_def l
      using t xs by (intro exI [of _ "[e]"] exI [of _ xs]) simp
  next
    case False
    with eff have t: "rp_matched_buy t = rp_matched_buy r" "rp_matched_sell t = rp_matched_sell r"
      by (simp_all add: fill_effect_def)
    have "filter is_OrderFilled (e # es) = bs @ xs" using False f by simp
    then show ?thesis unfolding accepted_fills_def l using t bs xs
      by (intro exI [of _ bs] exI [of _ xs]) simp
  qed
qed

lemma fill_effect_mono:
  "fill_effect s r e final t \<Longrightarrow> (rp_matched_buy r \<longrightarrow> rp_matched_buy t) \<and> (rp_matched_sell r \<longrightarrow> rp_matched_sell t)"
  by (auto simp: fill_effect_def split: if_splits)

definition after_clock :: "replay \<Rightarrow> order_event list \<Rightarrow> bool" where
  "after_clock r es \<longleftrightarrow> sorted (map (instant \<circ> event_operation_time) es)
     \<and> (\<forall>l. rp_last_at r = Some l \<longrightarrow> (\<forall>e \<in> set es. instant l \<le> instant (event_operation_time e)))"

lemma after_clock_Cons:
  assumes "replay_step s r (e, final) = Inr t" and "rp_last_at t = Some (event_operation_time e)"
    and "after_clock t es"
  shows "after_clock r (e # es)"
proof -
  have chron: "instant (event_operation_time e) \<le> instant (event_operation_time x)" if "x \<in> set es" for x
    using assms(2,3) that by (simp add: after_clock_def)
  have "instant l \<le> instant (event_operation_time x)"
    if "rp_last_at r = Some l" "x \<in> set (e # es)" for l x
  proof -
    have "instant l \<le> instant (event_operation_time e)" using replay_step_Inr [OF assms(1)] that(1) by blast
    then show ?thesis using that(2) chron order_trans by (cases "x = e") auto
  qed
  then show ?thesis using chron assms(3) by (simp add: after_clock_def)
qed

lemma replay_run_fills:
  assumes "replay_wf r" and "run_res (replay_step s) r (mark_final es) = Inr r'"
  shows "accepted_fills s r es r' \<and> replay_wf r' \<and> after_clock r es
    \<and> (rp_matched_buy r \<longrightarrow> rp_matched_buy r') \<and> (rp_matched_sell r \<longrightarrow> rp_matched_sell r')"
  using assms
proof (induction es arbitrary: r rule: mark_final.induct)
  case 1
  then show ?case by (simp add: accepted_fills_def after_clock_def)
next
  case (2 e)
  then have st: "replay_step s r (e, True) = Inr r'" by (auto simp: res_simps)
  note eff = replay_step_effect [OF 2(1) st]
  have "after_clock r' []" by (simp add: after_clock_def)
  with after_clock_Cons [OF st _ this] accepted_fills_one [of s r e r'] fill_effect_mono [of s r e True r'] eff
  show ?case by blast
next
  case (3 e e' es)
  then obtain t where st: "replay_step s r (e, False) = Inr t"
    and rest: "run_res (replay_step s) t (mark_final (e' # es)) = Inr r'"
    by (auto simp: res_simps)
  note eff = replay_step_effect [OF 3(2) st]
  note ih = 3(1) [OF conjunct1 [OF eff] rest]
  have "accepted_fills s r (e # e' # es) r'"
    by (rule accepted_fills_Cons [of s r e t]) (use eff ih in simp_all)
  moreover have "after_clock r (e # e' # es)"
    by (rule after_clock_Cons [OF st]) (use eff ih in simp_all)
  ultimately show ?case using ih eff fill_effect_mono [of s r e False t] by blast
qed

interpretation trade_replay: fallible_machine "replay_step s" replay_wf "\<lambda>_. True" for s
  by unfold_locales (metis prod.exhaust replay_step_effect)

lemma validate_order_event_identity_Inr:
  assumes "validate_order_event_identity s = Inr u"
  shows "sorted (map (instant \<circ> event_operation_time) (ts_order_events s))
    \<and> (if ts_realized s
       then \<exists>b x. filter is_OrderFilled (ts_order_events s) = [b, x] \<and> buy_matches s b
              \<and> sell_matches s x \<and> last (ts_order_events s) = x
       else \<exists>b. filter is_OrderFilled (ts_order_events s) = [b] \<and> buy_matches s b)"
proof -
  from assms obtain r where run: "run_res (replay_step s) replay_init (mark_final (ts_order_events s)) = Inr r"
    and e: "check_replay_end s r = Inr u"
    by (auto simp: validate_order_event_identity_def res_simps)
  note facts = replay_run_fills [OF replay_init_wf run]
  have i: "\<not> rp_matched_buy replay_init" "\<not> rp_matched_sell replay_init" by (simp_all add: replay_init_def)
  have "sorted (map (instant \<circ> event_operation_time) (ts_order_events s))"
    using facts by (simp add: after_clock_def)
  moreover have "rp_matched_buy r" "rp_matched_sell r = ts_realized s"
    using e by (auto simp: check_replay_end_def split: if_splits)
  ultimately show ?thesis using facts i by (auto simp: accepted_fills_def)
qed

section \<open>The replay accepts every legal round trip\<close>

text \<open>The replay state that an order view stands for.\<close>

definition replays :: "replay \<Rightarrow> order_view \<Rightarrow> bool" where
  "replays r v \<longleftrightarrow>
     rp_pending r = map_option (\<lambda>p. OrderPending (po_side p) (po_signal_at p) (po_eligible_at p)) (fst v)
     \<and> (rp_held r \<noteq> None \<longleftrightarrow> snd v \<noteq> None) \<and> \<not> rp_range_ended r \<and> replay_wf r"

lemma replay_other_accepts:
  assumes sim: "replays r v" and p: "protocol v e = Some v'" and "\<not> is_OrderFilled e"
    and "\<not> is_OrderUnfilled e" and "\<not> is_OpenTradeMarked e"
  shows "\<exists>r'. replay_event s r e final = Inr r' \<and> replays r' v' \<and> rp_matched_buy r' = rp_matched_buy r
    \<and> rp_matched_sell r' = rp_matched_sell r \<and> rp_last_at r' = rp_last_at r \<and> rp_matched_mark r' = rp_matched_mark r"
proof -
  obtain a l where v: "v = (a, l)" by (cases v)
  show ?thesis
  proof (cases e)
    case (OrderPending side sig el)
    then show ?thesis using sim p
      by (cases side) (auto simp: v replays_def replay_wf_def split: if_splits)
  next
    case (IgnoredSignal reason sig tm)
    then show ?thesis using sim p
      by (cases reason) (auto simp: v replays_def validate_ignored_signal_state_def split: if_splits)
  next
    case (OrderCancelled side reason tm)
    then show ?thesis using sim p
      by (cases a) (auto simp: v replays_def replay_wf_def split: if_splits)
  next
    case (OrderBlocked side tm reason)
    then show ?thesis using sim p
      by (cases a) (auto simp: v replays_def replay_wf_def split: if_splits)
  qed (use assms in simp_all)
qed

lemma replay_buy_accepts:
  assumes "replays r v" and "protocol v e = Some v'" and "buy_matches s e" and "\<not> rp_matched_buy r"
  shows "\<exists>r'. replay_event s r e final = Inr r' \<and> replays r' v' \<and> rp_matched_buy r'
    \<and> rp_matched_sell r' = rp_matched_sell r \<and> rp_last_at r' = rp_last_at r \<and> rp_matched_mark r' = rp_matched_mark r"
proof -
  obtain a l where v: "v = (a, l)" by (cases v)
  have bf: "bind_buy_fill s e = Inr ()"
    using assms(3) bind_buy_fill_Inr [of e s] by (simp add: buy_matches_def)
  obtain sig tm price q where e: "e = OrderFilled Buy sig tm price q"
    using assms(3) by (cases e) (auto simp: buy_matches_def)
  from assms(2) obtain p where p: "a = Some p" "po_side p = Buy" "po_signal_at p = sig"
      "instant (po_eligible_at p) \<le> instant tm" "l = None"
    and v': "v' = (None, Some \<lparr>lot_entry_at = tm, lot_entry_price = price, lot_quantity = q\<rparr>)"
    by (cases a; cases l) (auto simp: v e split: if_splits)
  have held: "rp_held r = None" and rp: "rp_pending r = Some (OrderPending Buy sig (po_eligible_at p))"
    using assms(1) p by (simp_all add: v replays_def)
  have "replay_event s r e final = Inr (r\<lparr>rp_pending := None, rp_held := Some e, rp_matched_buy := True\<rparr>)"
    using bf p held rp assms(4) by (simp add: e replay_fill_def)
  then show ?thesis using assms(1,4) v' by (auto simp: replays_def replay_wf_def)
qed

lemma replay_sell_accepts:
  assumes "replays r v" and "protocol v e = Some v'" and "sell_matches s e" and "ts_realized s"
    and "\<not> rp_matched_sell r"
  shows "\<exists>r'. replay_event s r e True = Inr r' \<and> rp_held r' = None \<and> rp_pending r' = None \<and> rp_matched_sell r'
    \<and> rp_matched_buy r' = rp_matched_buy r \<and> rp_matched_mark r' = rp_matched_mark r"
proof -
  obtain a l where v: "v = (a, l)" by (cases v)
  have bf: "bind_sell_fill s e = Inr ()"
    using assms(3,4) bind_sell_fill_Inr [of e s] by (simp add: sell_matches_def)
  obtain sig tm price q where e: "e = OrderFilled Sell sig tm price q"
    using assms(3) by (cases e) (auto simp: sell_matches_def)
  from assms(2) obtain p lot where p: "a = Some p" "po_side p = Sell" "po_signal_at p = sig"
      "instant (po_eligible_at p) \<le> instant tm" "l = Some lot"
    by (cases a; cases l) (auto simp: v e split: if_splits)
  have held: "rp_held r \<noteq> None" and rp: "rp_pending r = Some (OrderPending Sell sig (po_eligible_at p))"
    using assms(1) p by (simp_all add: v replays_def)
  then show ?thesis using bf p assms(5) by (auto simp: e replay_fill_def)
qed

definition plain_event :: "order_event \<Rightarrow> bool" where
  "plain_event e \<longleftrightarrow> \<not> is_OrderUnfilled e \<and> \<not> is_OpenTradeMarked e"

lemma mark_final_snoc: "mark_final (es @ [x]) = map (\<lambda>e. (e, False)) es @ [(x, True)]"
  by (induction es rule: mark_final.induct) simp_all

lemma replays_clock [simp]: "replays (r\<lparr>rp_last_at := t\<rparr>) v = replays r v"
  by (simp add: replays_def replay_wf_def)

lemma replay_step_accepts:
  assumes "replays r v" and "\<forall>l. rp_last_at r = Some l \<longrightarrow> instant l \<le> instant (event_operation_time e)"
  shows "replay_step s r (e, final) = replay_event s (r\<lparr>rp_last_at := Some (event_operation_time e)\<rparr>) e final"
  using assms by (auto simp: replay_step_def replays_def split: option.splits)

lemma replay_accepts_prefix:
  assumes "replays r v" and "protocol_run v es = Some v'" and "\<forall>e \<in> set es. plain_event e"
    and "after_clock r es"
    and "if rp_matched_buy r then filter is_OrderFilled es = []
         else filter is_OrderFilled es = [] \<or> (\<exists>b. filter is_OrderFilled es = [b] \<and> buy_matches s b)"
  shows "\<exists>r'. run_res (replay_step s) r (map (\<lambda>e. (e, False)) es) = Inr r' \<and> replays r' v'
    \<and> (rp_matched_buy r' \<longleftrightarrow> rp_matched_buy r \<or> filter is_OrderFilled es \<noteq> [])
    \<and> rp_matched_sell r' = rp_matched_sell r \<and> rp_matched_mark r' = rp_matched_mark r
    \<and> rp_last_at r' = (if es = [] then rp_last_at r else Some (event_operation_time (last es)))"
  using assms
proof (induction es arbitrary: r v)
  case (Cons e es)
  let ?r = "r\<lparr>rp_last_at := Some (event_operation_time e)\<rparr>"
  from Cons.prems(2) obtain w where w: "protocol v e = Some w" and rest: "protocol_run w es = Some v'"
    by (auto split: option.splits)
  have sim: "replays ?r v" using Cons.prems(1) by simp
  have st: "replay_step s r (e, False) = replay_event s ?r e False"
    by (rule replay_step_accepts [OF Cons.prems(1)]) (use Cons.prems(4) in \<open>simp add: after_clock_def\<close>)
  have plain: "plain_event e" "\<forall>e \<in> set es. plain_event e" using Cons.prems(3) by simp_all
  have "\<exists>t. replay_event s ?r e False = Inr t \<and> replays t w \<and> (rp_matched_buy t \<longleftrightarrow> rp_matched_buy r \<or> is_OrderFilled e)
      \<and> rp_matched_sell t = rp_matched_sell r \<and> rp_matched_mark t = rp_matched_mark r
      \<and> rp_last_at t = Some (event_operation_time e)"
  proof (cases "is_OrderFilled e")
    case True
    then have b: "buy_matches s e" "\<not> rp_matched_buy ?r" using Cons.prems(5) by (auto split: if_splits)
    from replay_buy_accepts [OF sim w b, of False] True show ?thesis by auto
  next
    case False
    from replay_other_accepts [OF sim w False, of s False] plain(1) False show ?thesis
      by (auto simp: plain_event_def)
  qed
  then obtain t where t: "replay_event s ?r e False = Inr t" "replays t w"
      "rp_matched_buy t \<longleftrightarrow> rp_matched_buy r \<or> is_OrderFilled e" "rp_matched_sell t = rp_matched_sell r"
      "rp_matched_mark t = rp_matched_mark r" "rp_last_at t = Some (event_operation_time e)" by blast
  have "after_clock t es" using Cons.prems(4) t(6) by (auto simp: after_clock_def)
  moreover have "if rp_matched_buy t then filter is_OrderFilled es = []
      else filter is_OrderFilled es = [] \<or> (\<exists>b. filter is_OrderFilled es = [b] \<and> buy_matches s b)"
    using Cons.prems(5) t(3) by (auto split: if_splits)
  ultimately obtain r' where "run_res (replay_step s) t (map (\<lambda>e. (e, False)) es) = Inr r'" "replays r' v'"
      "rp_matched_buy r' \<longleftrightarrow> rp_matched_buy t \<or> filter is_OrderFilled es \<noteq> []"
      "rp_matched_sell r' = rp_matched_sell t" "rp_matched_mark r' = rp_matched_mark t"
      "rp_last_at r' = (if es = [] then rp_last_at t else Some (event_operation_time (last es)))"
    using Cons.IH [OF t(2) rest plain(2)] by blast
  with t st show ?case by (intro exI [of _ r']) simp
qed simp

lemma replay_accepts_round_trip:
  assumes run: "protocol_run (None, None) (ts_order_events s) = Some (None, None)"
    and chron: "sorted (map (instant \<circ> event_operation_time) (ts_order_events s))"
    and plain: "\<forall>e \<in> set (ts_order_events s). plain_event e"
    and fills: "filter is_OrderFilled (ts_order_events s) = [b, x]" "last (ts_order_events s) = x"
    and match: "buy_matches s b" "sell_matches s x" "ts_realized s"
  shows "validate_order_event_identity s = Inr ()"
proof -
  have ne: "ts_order_events s \<noteq> []" using fills(1) by auto
  define pre where "pre = butlast (ts_order_events s)"
  have es: "ts_order_events s = pre @ [x]" using append_butlast_last_id [OF ne] fills(2) by (simp add: pre_def)
  have fx: "is_OrderFilled x" using match(2) by (simp add: sell_matches_def)
  then have fp: "filter is_OrderFilled pre = [b]" using fills(1) by (simp add: es)
  from run obtain w where w: "protocol_run (None, None) pre = Some w" and last: "protocol w x = Some (None, None)"
    by (auto simp: es protocol_run_append split: option.splits)
  have ac: "after_clock replay_init pre"
    using chron by (simp add: es after_clock_def replay_init_def sorted_append)
  have sim: "replays replay_init (None, None)"
    by (simp add: replays_def replay_init_wf) (simp add: replay_init_def)
  have "\<not> rp_matched_buy replay_init" by (simp add: replay_init_def)
  with replay_accepts_prefix [OF sim w _ ac, of s] plain fp match(1) obtain r where
    r: "run_res (replay_step s) replay_init (map (\<lambda>e. (e, False)) pre) = Inr r" "replays r w" "rp_matched_buy r"
      "\<not> rp_matched_sell r" "\<not> rp_matched_mark r"
      "rp_last_at r = (if pre = [] then None else Some (event_operation_time (last pre)))"
    by (auto simp: es replay_init_def)
  have "\<forall>l. rp_last_at r = Some l \<longrightarrow> instant l \<le> instant (event_operation_time x)"
    using r(6) chron by (auto simp: es sorted_append)
  note st = replay_step_accepts [OF r(2) this, of s True]
  have sim': "replays (r\<lparr>rp_last_at := Some (event_operation_time x)\<rparr>) w" using r(2) by simp
  from replay_sell_accepts [OF sim' last match(2,3)] r(4) obtain r' where
    "replay_event s (r\<lparr>rp_last_at := Some (event_operation_time x)\<rparr>) x True = Inr r'" "rp_held r' = None"
    "rp_pending r' = None" "rp_matched_sell r'" "rp_matched_buy r'" "\<not> rp_matched_mark r'"
    using r(3,5) by auto
  then show ?thesis using r(1) st match(3)
    by (simp add: validate_order_event_identity_def es mark_final_snoc run_res_append check_replay_end_def)
qed

section \<open>Exact accounting\<close>

definition canonical :: "dec \<Rightarrow> bool" where
  "canonical d \<longleftrightarrow> (coeff d = 0 \<longrightarrow> \<not> neg d)"

lemma canonical_id: "canonical d \<Longrightarrow> canonical_zero d = d"
  by (cases d) (auto simp: canonical_def canonical_zero_def dec_is_zero_def copy_abs_def)

lemma canonical_canonical_zero [simp]: "canonical (canonical_zero d)"
  by (simp add: canonical_def canonical_zero_def dec_is_zero_def copy_abs_def)

lemma scaled_rhu: "scaled (- e) (rhu e x)"
  using rhu_is_multiple [of e x] by (auto simp: scaled_def)

lemma rhu_scaled: "scaled k x \<Longrightarrow> rhu (- k) x = x"
  unfolding scaled_def by (rule rhu_sub_multiple)

lemma scaled_lot:
  assumes "scaled 4 x" and "q mod 100 = 0"
  shows "scaled 2 (x * of_int q)"
proof -
  from assms(1) obtain n where x: "x = of_int n * 10 powi (-4)" by (auto simp: scaled_def)
  obtain m where q: "q = 100 * m" using assms(2) by auto
  have p: "(10 :: rat) powi (-4) * 100 = 10 powi (-2)" by (simp add: power_int_minus)
  have "x * of_int q = of_int n * of_int m * (10 powi (-4) * 100)"
    unfolding x q of_int_mult of_int_numeral by (simp only: mult_ac)
  also have "\<dots> = of_int (n * m) * 10 powi (-2)" by (simp only: p of_int_mult)
  finally show ?thesis by (rule scaledI)
qed

text \<open>An amount in fen that the 28-digit context holds exactly, with room for a few sums.\<close>

definition cash :: "rat \<Rightarrow> bool" where
  "cash x \<longleftrightarrow> scaled 2 x \<and> \<bar>x\<bar> < 10 powi 26"

lemma cash_fits: "cash x \<Longrightarrow> fits default_prec x"
  unfolding cash_def by (elim conjE, rule fits_scaled [of 2 x 26]) (simp_all add: default_prec_def)

lemma sub28_cash: "cash (dval a - dval b) \<Longrightarrow> \<exists>x. sub28 a b = Inr x \<and> dval x = dval a - dval b"
  by (rule dec_sub_exact) (simp_all add: cash_fits, simp add: default_prec_def)

lemma add28_cash: "cash (dval a + dval b) \<Longrightarrow> \<exists>x. add28 a b = Inr x \<and> dval x = dval a + dval b"
  by (rule dec_add_exact) (simp_all add: cash_fits, simp add: default_prec_def)

definition fen_dec :: "dec \<Rightarrow> bool" where
  "fen_dec d \<longleftrightarrow> canonical d \<and> expo d = -2"

lemma round_money_cash:
  assumes "cash (dval d)"
  shows "\<exists>m. round_money d = Inr m \<and> dval m = dval d \<and> fen_dec m"
proof -
  have lt: "\<bar>dval d\<bar> < 10 powi 26" and sc: "scaled 2 (dval d)" using assms unfolding cash_def by blast+
  have a: "accountable d" by (rule accountableI [OF lt]) simp
  obtain m where m: "quantize_to money_quantum d = Inr m" "dval m = rhu (-2) (dval d)" "expo m = -2"
      "coeff m = 0 \<longrightarrow> \<not> neg m"
    by (rule quantize_money [OF a])
  have "dval m = dval d" unfolding m(2) by (rule rhu_scaled [OF sc])
  moreover have "fen_dec m" using m(3,4) by (simp add: fen_dec_def canonical_def)
  moreover have "round_money d = Inr m" using m(1) unfolding round_money_def .
  ultimately show ?thesis by blast
qed

lemma money_sum_cash:
  assumes "cash (dval a + dval b)"
  shows "\<exists>m. money_sum a b = Inr m \<and> dval m = dval a + dval b \<and> fen_dec m"
proof -
  obtain x where x: "add28 a b = Inr x" "dval x = dval a + dval b" using add28_cash [OF assms] by blast
  with round_money_cash [of x] assms show ?thesis by (auto simp: money_sum_def)
qed

lemma subtract_all_cash:
  assumes "scaled 2 (dval d)" and "\<forall>x \<in> set xs. scaled 2 (dval x)"
    and "\<bar>dval d\<bar> + (\<Sum>x \<leftarrow> xs. \<bar>dval x\<bar>) < 10 powi 26"
  shows "\<exists>r. subtract_all d xs = Inr r \<and> dval r = dval d - (\<Sum>x \<leftarrow> xs. dval x) \<and> cash (dval r)"
  using assms
proof (induction xs arbitrary: d)
  case Nil
  then show ?case by (simp add: cash_def)
next
  case (Cons x xs)
  have nn: "0 \<le> (\<Sum>x \<leftarrow> xs. \<bar>dval x\<bar>)" by (rule sum_list_nonneg) auto
  have s: "scaled 2 (dval d - dval x)" using Cons.prems by (intro scaled_diff) simp_all
  have le: "\<bar>dval d - dval x\<bar> + (\<Sum>x \<leftarrow> xs. \<bar>dval x\<bar>) < 10 powi 26"
    using Cons.prems(3) by simp
  then have "cash (dval d - dval x)" unfolding cash_def using s nn by linarith
  then obtain y where y: "sub28 d x = Inr y" "dval y = dval d - dval x" using sub28_cash by blast
  have "\<exists>r. subtract_all y xs = Inr r \<and> dval r = dval y - (\<Sum>x \<leftarrow> xs. dval x) \<and> cash (dval r)"
    by (rule Cons.IH) (use s le y Cons.prems(2) in simp_all)
  with y show ?case by auto
qed

lemma money_less_cash:
  assumes "scaled 2 (dval d)" and "\<forall>x \<in> set xs. scaled 2 (dval x)"
    and "\<bar>dval d\<bar> + (\<Sum>x \<leftarrow> xs. \<bar>dval x\<bar>) < 10 powi 26"
  shows "\<exists>m. money_less d xs = Inr m \<and> dval m = dval d - (\<Sum>x \<leftarrow> xs. dval x) \<and> fen_dec m"
proof -
  obtain r where r: "subtract_all d xs = Inr r" "dval r = dval d - (\<Sum>x \<leftarrow> xs. dval x)" "cash (dval r)"
    using subtract_all_cash [OF assms] by blast
  with round_money_cash [OF r(3)] show ?thesis by (auto simp: money_less_def)
qed

lemma cash_of_23: "scaled 2 x \<Longrightarrow> \<bar>x\<bar> < 10 powi 23 \<Longrightarrow> cash x"
proof -
  assume "scaled 2 x" "\<bar>x\<bar> < 10 powi 23"
  moreover have "(10 :: rat) powi 23 < 10 powi 26" by (simp only: pow10_less_iff)
  ultimately show ?thesis unfolding cash_def by linarith
qed

definition four_place :: "rat \<Rightarrow> bool" where
  "four_place x \<longleftrightarrow> scaled 4 x \<and> 0 < x \<and> x < 10 powi 14"

lemma price_gap_cash:
  assumes a: "four_place (dval a)" and b: "four_place (dval b)" and q: "lot_quantity_ok q"
  shows "\<exists>x. price_gap a b q = Inr x \<and> dval x = (dval a - dval b) * of_int q \<and> scaled 2 (dval x)
    \<and> \<bar>dval x\<bar> < 10 powi 23"
proof -
  have s: "scaled 4 (dval a - dval b)" using a b by (intro scaled_diff) (simp_all add: four_place_def)
  have lt: "\<bar>dval a - dval b\<bar> < 10 powi 14" using a b unfolding four_place_def by linarith
  have "fits default_prec (dval a - dval b)"
    by (rule fits_scaled [OF s lt]) (simp_all add: default_prec_def)
  then obtain d where d: "sub28 a b = Inr d" "dval d = dval a - dval b"
    using dec_sub_exact [of default_prec a b HalfEven] by (auto simp: default_prec_def)
  from times_quantity [of d q default_prec HalfEven] s lt q d obtain x where
    x: "mul28 d (dec_of_int q) = Inr x" "dval x = dval d * of_int q" "\<bar>dval x\<bar> < 10 powi 23"
    by (auto simp: default_prec_def)
  have "scaled 2 (dval x)" unfolding x(2) d(2)
    by (rule scaled_lot [OF s]) (use q in \<open>simp add: lot_quantity_ok_def\<close>)
  with d x show ?thesis by (auto simp: price_gap_def)
qed

lemma money_gap_cash:
  assumes "four_place (dval a)" and "four_place (dval b)" and "lot_quantity_ok q"
  shows "\<exists>m. money_gap a b q = Inr m \<and> dval m = (dval a - dval b) * of_int q \<and> fen_dec m
    \<and> scaled 2 (dval m) \<and> \<bar>dval m\<bar> < 10 powi 23"
proof -
  obtain x where x: "price_gap a b q = Inr x" "dval x = (dval a - dval b) * of_int q" "scaled 2 (dval x)"
      "\<bar>dval x\<bar> < 10 powi 23"
    using price_gap_cash [OF assms] by blast
  with round_money_cash [OF cash_of_23 [OF x(3,4)]] show ?thesis by (auto simp: money_gap_def)
qed

lemma both_slippages_cash:
  assumes "four_place (dval bf)" and "four_place (dval er)" and "four_place (dval xr)" and "four_place (dval sf)"
    and "lot_quantity_ok q"
  shows "\<exists>m. both_slippages bf er xr sf q = Inr m
    \<and> dval m = (dval bf - dval er) * of_int q + (dval xr - dval sf) * of_int q"
proof -
  obtain a where a: "price_gap bf er q = Inr a" "dval a = (dval bf - dval er) * of_int q" "scaled 2 (dval a)"
      "\<bar>dval a\<bar> < 10 powi 23" using price_gap_cash [OF assms(1,2,5)] by blast
  obtain b where b: "price_gap xr sf q = Inr b" "dval b = (dval xr - dval sf) * of_int q" "scaled 2 (dval b)"
      "\<bar>dval b\<bar> < 10 powi 23" using price_gap_cash [OF assms(3,4,5)] by blast
  have "\<bar>dval a + dval b\<bar> < 10 powi 26" using a(4) b(4) by simp
  then have "cash (dval a + dval b)" using a(3) b(3) by (simp add: cash_def scaled_add)
  from money_sum_cash [OF this] a b show ?thesis by (auto simp: both_slippages_def)
qed

lemma invested_cash:
  assumes "four_place (dval f)" and "lot_quantity_ok q" and "scaled 2 (dval c)" and "0 \<le> dval c"
    and "dval c < 10 powi 25"
  shows "\<exists>m. invested f q c = Inr m \<and> dval m = dval f * of_int q + dval c \<and> fen_dec m"
proof -
  have f: "scaled 4 (dval f)" "\<bar>dval f\<bar> < 10 powi 14" using assms(1) by (simp_all add: four_place_def)
  from times_quantity [OF f assms(2), of default_prec HalfEven] obtain x where
    x: "mul28 f (dec_of_int q) = Inr x" "dval x = dval f * of_int q" "\<bar>dval x\<bar> < 10 powi 23"
    by (auto simp: default_prec_def)
  have "scaled 2 (dval x)" unfolding x(2)
    by (rule scaled_lot [OF f(1)]) (use assms(2) in \<open>simp add: lot_quantity_ok_def\<close>)
  then have "cash (dval x + dval c)" using assms(3-5) x(3) by (simp add: cash_def scaled_add)
  then obtain y where y: "add28 x c = Inr y" "dval y = dval x + dval c" "cash (dval y)"
    using add28_cash by auto
  from round_money_cash [OF y(3)] x y show ?thesis by (auto simp: invested_def)
qed

lemma canonical_pydec_canonical: "canonical_pydec v = Finite d \<Longrightarrow> canonical d"
  by (cases v) auto

lemma mk_order_cost_canonical:
  assumes "mk_order_cost side r f q n sl c t = Inr oc"
  shows "canonical (oc_reference_open oc) \<and> canonical (oc_fill_price oc) \<and> canonical (oc_slippage_cost oc)
    \<and> canonical (oc_commission oc) \<and> canonical (oc_sell_tax oc)"
proof -
  from assms obtain ref fill n' sl' c' t' en es where
    v: "validate_positive_decimal ''reference_open'' (canonical_pydec r) = Inr ref"
      "validate_positive_decimal ''fill_price'' (canonical_pydec f) = Inr fill"
      "check_fen ''slippage_cost'' (canonical_pydec sl) = Inr sl'"
      "check_fen ''commission'' (canonical_pydec c) = Inr c'" "check_fen ''sell_tax'' (canonical_pydec t) = Inr t'"
    and oc: "oc = \<lparr>oc_side = side, oc_reference_open = ref, oc_fill_price = fill, oc_quantity = q,
                 oc_notional = n', oc_slippage_cost = sl', oc_commission = c', oc_sell_tax = t'\<rparr>"
    unfolding mk_order_cost_def bind_res_Inr_iff then_res_Inr_iff if_Inl_Inr_iff by auto
  show ?thesis
    using v(1,2) check_fen_Inr [OF v(3)] check_fen_Inr [OF v(4)] check_fen_Inr [OF v(5)]
    by (auto simp: oc res_simps dest: canonical_pydec_canonical)
qed

lemma price_order_canonical:
  assumes "price_order side r q model = Inr c"
  shows "canonical (oc_reference_open c) \<and> canonical (oc_fill_price c) \<and> canonical (oc_slippage_cost c)
    \<and> canonical (oc_commission c) \<and> canonical (oc_sell_tax c)"
  using assms unfolding price_order_def bind_res_Inr_iff then_res_Inr_iff if_Inl_Inr_iff Let_def
  by (elim exE conjE) (rule mk_order_cost_canonical)

text \<open>A fee in fen, below the size at which sums would leave the 28 digits.\<close>

definition fee_amount :: "dec \<Rightarrow> bool" where
  "fee_amount d \<longleftrightarrow> scaled 2 (dval d) \<and> 0 \<le> dval d \<and> dval d < 10 powi 25 \<and> canonical d"

definition priced :: "order_side \<Rightarrow> int \<Rightarrow> order_cost \<Rightarrow> bool" where
  "priced side q c \<longleftrightarrow> four_place (dval (oc_reference_open c)) \<and> four_place (dval (oc_fill_price c))
     \<and> dval (oc_slippage_cost c) = (if side = Buy then dval (oc_fill_price c) - dval (oc_reference_open c)
          else dval (oc_reference_open c) - dval (oc_fill_price c)) * of_int q
     \<and> fee_amount (oc_slippage_cost c) \<and> fee_amount (oc_commission c) \<and> fee_amount (oc_sell_tax c)
     \<and> canonical (oc_reference_open c) \<and> canonical (oc_fill_price c)
     \<and> (side = Buy \<longrightarrow> dval (oc_sell_tax c) = 0)"

lemma scaled_of_rhu: "x = rhu (-2) x \<Longrightarrow> scaled 2 x"
  using scaled_rhu [of "-2" x] by (metis minus_minus)

lemma fee_less:
  assumes "0 \<le> n" and "n < 10 powi 24" and "0 \<le> r" and "r \<le> 10000"
  shows "0 \<le> rhu (-2) (n * r / 10000) \<and> rhu (-2) (n * r / 10000) < 10 powi 25"
proof -
  have "n * r \<le> n * 10000" using assms by (intro mult_left_mono)
  moreover have nr: "0 \<le> n * r / 10000" using assms by simp
  ultimately have "\<bar>n * r / 10000\<bar> < 10 powi 24" using assms(2) by simp
  from rhu_less [OF this, of "-2"] rhu_nonneg [OF nr, of "-2"] show ?thesis by simp
qed

lemma price_order_priced_order:
  assumes m: "model_ok model" "dval (cm_minimum_commission model) < 1000000000000"
    and d: "0 < dval d" "dval d < 1000000000000" and q: "lot_quantity_ok q"
    and nz: "slipped_price side (dval d) model \<noteq> 0"
  shows "\<exists>c. price_order side (Finite d) q model = Inr c \<and> cost_contract side (dval d) q model c \<and> priced side q c"
proof -
  obtain c where c: "price_order side (Finite d) q model = Inr c" and k: "cost_contract side (dval d) q model c"
    and p: "price_ok (oc_reference_open c)" "price_ok (oc_fill_price c)"
    using price_order_priced [OF m(1) d q, of side] nz by blast
  note ok = conjunct1 [OF price_order_Inr [OF c]] and can = price_order_canonical [OF c]
  have pos: "0 < dval (oc_reference_open c)" "0 < dval (oc_fill_price c)" and q0: "0 < oc_quantity c"
    using ok by (simp_all add: order_cost_ok_def)
  have fp: "four_place (dval (oc_reference_open c))" "four_place (dval (oc_fill_price c))"
    using p pos scaled_price unfolding four_place_def by (simp_all add: price_ok_def)
  define n where "n = rhu (-2) (slipped_price side (dval d) model * of_int q)"
  have f: "dval (oc_fill_price c) = slipped_price side (dval d) model"
    and r: "dval (oc_reference_open c) = rhu (-4) (dval d)"
    and sl: "dval (oc_slippage_cost c) = rhu (-2) (\<bar>dval (oc_fill_price c) - dval (oc_reference_open c)\<bar> * of_int q)"
    and com: "dval (oc_commission c) = max (dval (cm_minimum_commission model))
        (rhu (-2) (n * dval (cm_commission_bps model) / 10000))"
    and tax: "dval (oc_sell_tax c) = (if side = Sell then rhu (-2) (n * dval (cm_sell_tax_bps model) / 10000) else 0)"
    and sd: "oc_side c = side"
    using k by (simp_all add: cost_contract_def Let_def n_def)
  have money: "\<forall>x \<in> {oc_slippage_cost c, oc_commission c, oc_sell_tax c}. 0 \<le> dval x \<and> scaled 2 (dval x)"
    using ok scaled_of_rhu unfolding order_cost_ok_def by blast
  have lim: "\<bar>dval x\<bar> < 10 powi 14 \<Longrightarrow> \<bar>dval x * of_int q\<bar> < 10 powi 23" for x
  proof -
    assume "\<bar>dval x\<bar> < 10 powi 14"
    then have "\<bar>dval x\<bar> * \<bar>dval (dec_of_int q)\<bar> < 10 powi 14 * 10 powi 9"
      using quantity_less [OF q] by (intro mult_strict_mono') simp_all
    then show ?thesis by (simp add: abs_mult pow10_add [symmetric])
  qed
  have n0: "0 \<le> n \<and> n < 10 powi 24"
  proof -
    have "\<bar>dval (oc_fill_price c) * of_int q\<bar> < 10 powi 23"
      using p(2) by (intro lim) (simp add: price_ok_def)
    then have lt: "\<bar>slipped_price side (dval d) model * of_int q\<bar> < 10 powi 23" by (simp only: f)
    moreover have "0 \<le> slipped_price side (dval d) model * of_int q"
      using pos(2) q unfolding f by (simp add: lot_quantity_ok_def)
    ultimately show ?thesis
      using rhu_less [OF lt, of "-2"] rhu_nonneg unfolding n_def by simp
  qed
  have rates: "0 \<le> dval (cm_commission_bps model)" "dval (cm_commission_bps model) \<le> 10000"
    "0 \<le> dval (cm_sell_tax_bps model)" "dval (cm_sell_tax_bps model) \<le> 10000"
    using m(1) by (simp_all add: model_ok_def rate_ok_def)
  have fees: "dval (oc_commission c) < 10 powi 25" "dval (oc_sell_tax c) < 10 powi 25"
    using fee_less [of n "dval (cm_commission_bps model)"] fee_less [of n "dval (cm_sell_tax_bps model)"]
      n0 rates m(2) unfolding com tax by simp_all
  have gap: "\<bar>dval (oc_fill_price c) - dval (oc_reference_open c)\<bar> < 10 powi 14"
    using fp unfolding four_place_def by linarith
  have sgap: "scaled 2 (\<bar>dval (oc_fill_price c) - dval (oc_reference_open c)\<bar> * of_int q)"
  proof -
    have "scaled 4 (\<bar>dval (oc_fill_price c) - dval (oc_reference_open c)\<bar>)"
      using fp scaled_diff scaled_minus unfolding four_place_def abs_if by metis
    then show ?thesis by (rule scaled_lot) (use q in \<open>simp add: lot_quantity_ok_def\<close>)
  qed
  have sl': "dval (oc_slippage_cost c) = \<bar>dval (oc_fill_price c) - dval (oc_reference_open c)\<bar> * of_int q"
    unfolding sl by (rule rhu_scaled [OF sgap])
  have adverse: "\<bar>dval (oc_fill_price c) - dval (oc_reference_open c)\<bar>
      = (if side = Buy then dval (oc_fill_price c) - dval (oc_reference_open c)
         else dval (oc_reference_open c) - dval (oc_fill_price c))"
    using ok sd by (cases side) (auto simp: order_cost_ok_def)
  have "\<bar>dval (oc_slippage_cost c)\<bar> < 10 powi 23"
  proof -
    have "\<bar>dval (oc_fill_price c) - dval (oc_reference_open c)\<bar> * \<bar>dval (dec_of_int q)\<bar> < 10 powi 14 * 10 powi 9"
      using gap quantity_less [OF q] by (intro mult_strict_mono') simp_all
    then show ?thesis unfolding sl' by (simp add: abs_mult pow10_add [symmetric])
  qed
  moreover have "(10 :: rat) powi 23 < 10 powi 25" by (simp only: pow10_less_iff)
  ultimately have "dval (oc_slippage_cost c) < 10 powi 25" by linarith
  then have "priced side q c"
    using fp can money fees tax sl' adverse by (simp add: priced_def fee_amount_def)
  with c k show ?thesis by blast
qed

lemma dec_fix_total:
  assumes "adjusted d < emax" and "1 < p" and "p \<le> 1000"
  shows "\<exists>x. dec_fix r p d = Inr x"
  using assms by (auto simp: dec_fix_def Let_def etop_def etiny_def adjusted_def emax_def emin_def split: prod.splits)

lemma ndigits_le_of_less: "n < 10 ^ k \<Longrightarrow> 0 < k \<Longrightarrow> ndigits n \<le> k"
  by (simp add: ndigits_le_iff)

lemma strip_zeros_adjusted:
  "c \<noteq> 0 \<Longrightarrow> strip_zeros k c e = (c', e') \<Longrightarrow> adjusted (Dec s c' e') = adjusted (Dec s c e)"
proof -
  assume "c \<noteq> 0" and "strip_zeros k c e = (c', e')"
  then have "\<bar>dval (Dec s c' e')\<bar> = \<bar>dval (Dec s c e)\<bar>"
    using strip_zeros_value by (simp add: abs_dval)
  then have "c' \<noteq> 0 \<Longrightarrow> ?thesis" by (intro adjusted_cong) simp_all
  moreover have "c' \<noteq> 0"
  proof
    assume "c' = 0"
    then have "(of_nat c :: rat) * 10 powi e = 0"
      using strip_zeros_value [OF \<open>strip_zeros k c e = (c', e')\<close>] by simp
    with \<open>c \<noteq> 0\<close> show False by simp
  qed
  ultimately show ?thesis by blast
qed

lemma dec_div_total:
  assumes b: "coeff b \<noteq> 0" and e: "expo a = expo b" and n: "ndigits (coeff a) \<le> 100"
  shows "\<exists>x. dec_div r 28 a b = Inr x"
proof (cases "coeff a = 0")
  case True
  then show ?thesis using b by (simp add: dec_div_def dec_fix_def Let_def)
next
  case False
  define shift where "shift = int (ndigits (coeff b)) - int (ndigits (coeff a)) + 29"
  define q where "q = coeff a * 10 ^ nat shift div (coeff b * 10 ^ nat (- shift))"
  have sh_eq: "int (ndigits (coeff b)) - int (ndigits (coeff a)) + int 28 + 1 = shift" by (simp add: shift_def)
  have e0: "expo a - expo b - shift = - shift" using e by simp
  have div: "dec_div r 28 a b = (let s = (neg a \<noteq> neg b); m = coeff b * 10 ^ nat (- shift); n = coeff a * 10 ^ nat shift
      in if n mod m \<noteq> 0 then dec_fix r 28 (Dec s (if q mod 5 = 0 then q + 1 else q) (- shift))
         else (case strip_zeros (nat shift) q (- shift) of (c, e') \<Rightarrow> dec_fix r 28 (Dec s c e')))"
    unfolding dec_div_def Let_def sh_eq e0 q_def using b False by simp
  have "coeff a < 10 ^ 100" using n by (simp add: ndigits_le_iff)
  moreover have "q \<le> coeff a * 10 ^ nat shift" unfolding q_def by (rule div_le_dividend)
  ultimately have "q < 10 ^ 100 * 10 ^ nat shift" by (meson le_less_trans mult_less_mono1 zero_less_numeral zero_less_power)
  then have q: "q + 1 < 10 ^ (101 + nat shift)" by (simp add: power_add)
  have sh: "- 100 \<le> shift" using n by (simp add: shift_def)
  have nd: "ndigits m \<le> 101 + nat shift" if "m \<le> q + 1" for m
    using that q by (intro ndigits_le_of_less) simp_all
  have adj: "adjusted (Dec s m (- shift)) < emax" if "m \<le> q + 1" for s m
    using nd [OF that] sh by (simp add: adjusted_def emax_def)
  show ?thesis
  proof (cases "coeff a * 10 ^ nat shift mod (coeff b * 10 ^ nat (- shift)) = 0")
    case nz: False
    have "dec_div r 28 a b = dec_fix r 28 (Dec (neg a \<noteq> neg b) (if q mod 5 = 0 then q + 1 else q) (- shift))"
      using nz by (simp add: div Let_def)
    also have "\<exists>x. \<dots> = Inr x" by (rule dec_fix_total [OF adj]) simp_all
    finally show ?thesis .
  next
    case z: True
    obtain c' e' where st: "strip_zeros (nat shift) q (- shift) = (c', e')" by (cases "strip_zeros (nat shift) q (- shift)")
    have "coeff a * 10 ^ nat shift \<noteq> 0" using False by simp
    then have "q \<noteq> 0" using z unfolding q_def by (metis mult_0_right mult_div_mod_eq add.right_neutral)
    from strip_zeros_adjusted [OF this st] adj [of q] have "adjusted (Dec s c' e') < emax" for s by simp
    moreover have "dec_div r 28 a b = dec_fix r 28 (Dec (neg a \<noteq> neg b) c' e')"
      using z st by (simp add: div Let_def)
    ultimately show ?thesis using dec_fix_total by simp
  qed
qed

lemma fen_dec_digits:
  assumes "expo d = -2" and "\<bar>dval d\<bar> < 10 powi 26"
  shows "ndigits (coeff d) \<le> 100"
proof -
  have "adjusted d \<le> 26" by (rule adjusted_le_of_less [OF assms(2)]) (simp add: assms(1))
  then show ?thesis using assms(1) by (simp add: adjusted_def)
qed

lemma divide_decimal_total:
  assumes "fen_dec a" and "fen_dec b" and "\<bar>dval a\<bar> < 10 powi 26" and "0 < dval b"
  shows "\<exists>r. divide_decimal a b = Inr r \<and> canonical r"
proof -
  have b: "coeff b \<noteq> 0" using assms(4) by (auto simp: dval_pos_iff)
  obtain x where "dec_div HalfUp 28 a b = Inr x"
    using dec_div_total [OF b, of a HalfUp] assms(1,2) fen_dec_digits [OF _ assms(3)] by (auto simp: fen_dec_def)
  with b show ?thesis by (simp add: divide_decimal_def dec_is_zero_def)
qed

lemma validate_money_cash: "cash (dval d) \<Longrightarrow> validate_money f d = Inr ()"
  using round_money_cash [of d] by (auto simp: validate_money_def)

lemma validate_nonnegative_money_cash:
  "cash (dval d) \<Longrightarrow> 0 \<le> dval d \<Longrightarrow> validate_nonnegative_money f d = Inr ()"
  by (simp add: validate_nonnegative_money_def validate_money_cash)

lemma fee_cash: "fee_amount d \<Longrightarrow> cash (dval d)"
proof -
  assume "fee_amount d"
  moreover have "(10 :: rat) powi 25 < 10 powi 26" by (simp only: pow10_less_iff)
  ultimately show ?thesis unfolding cash_def fee_amount_def by linarith
qed

definition args_ok :: "trade_args \<Rightarrow> bool" where
  "args_ok a \<longleftrightarrow> \<not> blank (ta_symbol a) \<and> \<not> blank (ta_formula_version_id a) \<and> \<not> blank (ta_signal_series_id a)
     \<and> ta_market_manifest_ids a \<noteq> [] \<and> ta_status_manifest_ids a \<noteq> []
     \<and> (\<forall>i \<in> set (ta_market_manifest_ids a) \<union> set (ta_status_manifest_ids a). \<not> blank i)
     \<and> 0 \<le> ta_holding_bars a \<and> ta_order_events a \<noteq> []
     \<and> cm_version (ta_cost_model a) = cost_model_version"

definition times_ok :: "pytime list \<Rightarrow> bool" where
  "times_ok ts \<longleftrightarrow> list_all is_aware ts \<and> sorted (map instant ts)"

text \<open>The amounts of a realized trade, as exact differences of its prices and fees.\<close>

definition realized_accounts :: "trade_sample \<Rightarrow> bool" where
  "realized_accounts s \<longleftrightarrow> (\<exists>xr sf net.
     ts_exit_reference_open s = Some xr \<and> ts_sell_fill_price s = Some sf \<and> ts_net_pnl s = Some net
     \<and> dval (ts_reference_gross_pnl s) = (dval xr - dval (ts_entry_reference_open s)) * of_int (ts_quantity s)
     \<and> dval (ts_slippage_cost s) = (dval (ts_buy_fill_price s) - dval (ts_entry_reference_open s)
          + (dval xr - dval sf)) * of_int (ts_quantity s)
     \<and> dval (ts_fill_gross_pnl s) = (dval sf - dval (ts_buy_fill_price s)) * of_int (ts_quantity s)
     \<and> dval net = dval (ts_fill_gross_pnl s) - dval (ts_buy_commission s) - dval (ts_sell_commission s)
          - dval (ts_sell_tax s)
     \<and> dval (ts_invested_cost s) = dval (ts_buy_fill_price s) * of_int (ts_quantity s) + dval (ts_buy_commission s)
     \<and> 0 < dval (ts_invested_cost s))"

lemma closed_amounts:
  assumes buy: "priced Buy q buy" and sell: "priced Sell q sell" and q: "lot_quantity_ok q"
  obtains rg sl fg net cost ret where
    "money_gap (oc_reference_open sell) (oc_reference_open buy) q = Inr rg"
    "money_sum (oc_slippage_cost buy) (oc_slippage_cost sell) = Inr sl"
    "money_less rg [sl] = Inr fg"
    "money_less fg [oc_commission buy, oc_commission sell, oc_sell_tax sell] = Inr net"
    "invested (oc_fill_price buy) q (oc_commission buy) = Inr cost"
    "divide_decimal net cost = Inr ret"
    "dval rg = (dval (oc_reference_open sell) - dval (oc_reference_open buy)) * of_int q"
    "dval sl = (dval (oc_fill_price buy) - dval (oc_reference_open buy)
       + (dval (oc_reference_open sell) - dval (oc_fill_price sell))) * of_int q"
    "dval fg = (dval (oc_fill_price sell) - dval (oc_fill_price buy)) * of_int q"
    "dval net = dval fg - dval (oc_commission buy) - dval (oc_commission sell) - dval (oc_sell_tax sell)"
    "dval cost = dval (oc_fill_price buy) * of_int q + dval (oc_commission buy)"
    "0 < dval cost" "0 \<le> dval sl" "cash (dval rg)" "cash (dval sl)" "cash (dval fg)" "cash (dval net)"
    "fen_dec rg" "fen_dec sl" "fen_dec fg" "fen_dec net" "fen_dec cost" "canonical ret"
proof -
  let ?f = "\<lambda>c. dval (oc_fill_price c)" and ?r = "\<lambda>c. dval (oc_reference_open c)"
  have fp: "four_place (?r buy)" "four_place (?f buy)" "four_place (?r sell)" "four_place (?f sell)"
    using buy sell by (simp_all add: priced_def)
  have fee: "fee_amount (oc_slippage_cost buy)" "fee_amount (oc_slippage_cost sell)" "fee_amount (oc_commission buy)"
      "fee_amount (oc_commission sell)" "fee_amount (oc_sell_tax sell)"
    using buy sell by (simp_all add: priced_def)
  have slip: "dval (oc_slippage_cost buy) = (?f buy - ?r buy) * of_int q"
      "dval (oc_slippage_cost sell) = (?r sell - ?f sell) * of_int q"
    using buy sell by (simp_all add: priced_def)
  obtain rg where rg: "money_gap (oc_reference_open sell) (oc_reference_open buy) q = Inr rg"
      "dval rg = (?r sell - ?r buy) * of_int q" "fen_dec rg" "scaled 2 (dval rg)" "\<bar>dval rg\<bar> < 10 powi 23"
    using money_gap_cash [OF fp(3,1) q] by blast
  have num: "(10 :: rat) powi 23 = 100000000000000000000000" "(10 :: rat) powi 25 = 10000000000000000000000000"
      "(10 :: rat) powi 26 = 100000000000000000000000000"
    by simp_all
  have slb: "scaled 2 (dval (oc_slippage_cost buy) + dval (oc_slippage_cost sell))"
      "\<bar>dval (oc_slippage_cost buy) + dval (oc_slippage_cost sell)\<bar> < 2 * 10 powi 25"
    using fee(1,2) scaled_add unfolding fee_amount_def by auto
  then have "cash (dval (oc_slippage_cost buy) + dval (oc_slippage_cost sell))"
    unfolding cash_def num by linarith
  then obtain sl where sl: "money_sum (oc_slippage_cost buy) (oc_slippage_cost sell) = Inr sl"
      "dval sl = dval (oc_slippage_cost buy) + dval (oc_slippage_cost sell)" "fen_dec sl"
    using money_sum_cash by blast
  have slv: "dval sl = (?f buy - ?r buy + (?r sell - ?f sell)) * of_int q"
    unfolding sl(2) slip by (simp only: distrib_right)
  have slc: "scaled 2 (dval sl)" "\<bar>dval sl\<bar> < 2 * 10 powi 25" "0 \<le> dval sl"
    using slb fee(1,2) unfolding sl(2) fee_amount_def by auto
  have "\<bar>dval rg\<bar> + (\<Sum>x \<leftarrow> [sl]. \<bar>dval x\<bar>) < 10 powi 26"
    using rg(5) slc(2) unfolding num by simp
  then obtain fg where fg: "money_less rg [sl] = Inr fg" "dval fg = dval rg - dval sl" "fen_dec fg"
    using money_less_cash [OF rg(4), of "[sl]"] slc(1) by auto
  have fgv: "dval fg = (?f sell - ?f buy) * of_int q"
    unfolding fg(2) rg(2) slv by (simp only: left_diff_distrib [symmetric]) (simp add: algebra_simps)
  have fgs: "scaled 2 (dval fg)" unfolding fg(2) by (rule scaled_diff [OF rg(4) slc(1)])
  obtain w where w: "dval w = (?f sell - ?f buy) * of_int q" "\<bar>dval w\<bar> < 10 powi 23"
    using price_gap_cash [OF fp(4,2) q] by blast
  have fgl: "\<bar>dval fg\<bar> < 10 powi 23" using w by (simp only: fgv)
  have feel: "\<bar>dval x\<bar> < 10 powi 25" "scaled 2 (dval x)" if "fee_amount x" for x
    using that unfolding fee_amount_def by linarith+
  have "\<bar>dval fg\<bar> + (\<Sum>x \<leftarrow> [oc_commission buy, oc_commission sell, oc_sell_tax sell]. \<bar>dval x\<bar>) < 10 powi 26"
    using fgl feel(1) [OF fee(3)] feel(1) [OF fee(4)] feel(1) [OF fee(5)] unfolding num by simp
  then obtain net where net: "money_less fg [oc_commission buy, oc_commission sell, oc_sell_tax sell] = Inr net"
      "dval net = dval fg - (dval (oc_commission buy) + (dval (oc_commission sell) + dval (oc_sell_tax sell)))" "fen_dec net"
    using money_less_cash [OF fgs, of "[oc_commission buy, oc_commission sell, oc_sell_tax sell]"] feel(2) fee by auto
  have netc: "cash (dval net)"
  proof -
    have "scaled 2 (dval net)" unfolding net(2) using fgs feel(2) fee by (intro scaled_diff scaled_add)
    moreover have "\<bar>dval net\<bar> < 10 powi 26"
      using fgl feel(1) [OF fee(3)] feel(1) [OF fee(4)] feel(1) [OF fee(5)] unfolding num net(2) by linarith
    ultimately show ?thesis by (simp add: cash_def)
  qed
  have c0: "0 \<le> dval (oc_commission buy)" "dval (oc_commission buy) < 10 powi 25"
    using fee(3) by (simp_all add: fee_amount_def)
  obtain cost where cost: "invested (oc_fill_price buy) q (oc_commission buy) = Inr cost"
      "dval cost = ?f buy * of_int q + dval (oc_commission buy)" "fen_dec cost"
    using invested_cash [OF fp(2) q feel(2) [OF fee(3)] c0] by blast
  have "0 < ?f buy * of_int q" using fp(2) q by (simp add: four_place_def lot_quantity_ok_def)
  then have cpos: "0 < dval cost" unfolding cost(2) using c0(1) by linarith
  have "\<bar>dval net\<bar> < 10 powi 26" using netc by (simp add: cash_def)
  from divide_decimal_total [OF net(3) cost(3) this cpos] obtain ret where
    ret: "divide_decimal net cost = Inr ret" "canonical ret" by blast
  have "cash (dval rg)" using cash_of_23 [OF rg(4,5)] .
  moreover have "cash (dval fg)" using cash_of_23 [OF fgs fgl] .
  moreover have "cash (dval sl)" using slc(1,2) unfolding cash_def num by linarith
  moreover have "dval net = dval fg - dval (oc_commission buy) - dval (oc_commission sell) - dval (oc_sell_tax sell)"
    unfolding net(2) by linarith
  ultimately show ?thesis
    using that [OF rg(1) sl(1) fg(1) net(1) cost(1) ret(1) rg(2) slv fgv _ cost(2) cpos slc(3) _ _ _ netc rg(3) sl(3) fg(3)
      net(3) cost(3) ret(2)] by blast
qed

lemma check_positive_ok: "0 < dval d \<Longrightarrow> check_positive f d = Inr ()"
  by (simp add: check_positive_def)

lemma validate_identity_ok: "\<not> blank v \<Longrightarrow> validate_identity f v = Inr ()"
  by (simp add: validate_identity_def)

lemma validate_id_tuple_ok: "vs \<noteq> [] \<Longrightarrow> \<forall>v \<in> set vs. \<not> blank v \<Longrightarrow> validate_id_tuple f vs = Inr ()"
  by (simp add: validate_id_tuple_def each_Inr_iff validate_identity_def res_simps)

lemma validate_realized_times_ok:
  "times_ok [es, ef, xs, xf] \<Longrightarrow> validate_realized_times es ef (Some xs) (Some xf) b = Inr ()"
  by (auto simp: validate_realized_times_def times_ok_def)

lemma holding_days_nonneg:
  "local_clock z \<Longrightarrow> instant a \<le> instant b \<Longrightarrow> 0 \<le> holding_days z a b"
  using local_clock.local_date_mono by (simp add: holding_days_def)

lemma both_slippages_priced:
  assumes "priced Buy q buy" and "priced Sell q sell" and "lot_quantity_ok q"
    and "cash (dval (oc_slippage_cost buy) + dval (oc_slippage_cost sell))"
  shows "\<exists>x. both_slippages (oc_fill_price buy) (oc_reference_open buy) (oc_reference_open sell)
      (oc_fill_price sell) q = Inr x \<and> dval x = dval (oc_slippage_cost buy) + dval (oc_slippage_cost sell)"
proof -
  obtain a where a: "price_gap (oc_fill_price buy) (oc_reference_open buy) q = Inr a"
      "dval a = (dval (oc_fill_price buy) - dval (oc_reference_open buy)) * of_int q"
    using price_gap_cash [of "oc_fill_price buy" "oc_reference_open buy" q] assms(1,3) by (auto simp: priced_def)
  obtain b where b: "price_gap (oc_reference_open sell) (oc_fill_price sell) q = Inr b"
      "dval b = (dval (oc_reference_open sell) - dval (oc_fill_price sell)) * of_int q"
    using price_gap_cash [of "oc_reference_open sell" "oc_fill_price sell" q] assms(2,3) by (auto simp: priced_def)
  have ab: "dval a + dval b = dval (oc_slippage_cost buy) + dval (oc_slippage_cost sell)"
    using assms(1,2) a b by (simp add: priced_def)
  with assms(4) have "cash (dval a + dval b)" by simp
  then obtain m where "money_sum a b = Inr m" "dval m = dval a + dval b" using money_sum_cash by blast
  with a b ab show ?thesis by (simp add: both_slippages_def)
qed

lemma realized_sample_canonical:
  assumes "priced Buy q buy" and "priced Sell q sell"
    and "fen_dec rg" "fen_dec sl" "fen_dec fg" "fen_dec net" "fen_dec cost" "canonical ret"
  shows "canonicalize_decimal_zeros (realized_sample z a xs xf buy sell rg sl fg net cost ret)
    = realized_sample z a xs xf buy sell rg sl fg net cost ret"
  using assms by (simp add: canonicalize_decimal_zeros_def realized_sample_def canonical_id priced_def
      fee_amount_def fen_dec_def)

lemma realized_sample_checks:
  assumes z: "local_clock z" and a: "args_ok a" "lot_quantity_ok (ta_quantity a)"
    and t: "times_ok [ta_entry_signal_at a, ta_entry_fill_at a, xs, xf]"
    and buy: "priced Buy (ta_quantity a) buy" and sell: "priced Sell (ta_quantity a) sell"
    and am: "money_gap (oc_reference_open sell) (oc_reference_open buy) (ta_quantity a) = Inr rg"
      "money_less rg [sl] = Inr fg"
      "money_less fg [oc_commission buy, oc_commission sell, oc_sell_tax sell] = Inr net"
      "invested (oc_fill_price buy) (ta_quantity a) (oc_commission buy) = Inr cost" "divide_decimal net cost = Inr ret"
    and sl: "dval sl = dval (oc_slippage_cost buy) + dval (oc_slippage_cost sell)" "0 \<le> dval sl"
    and c: "cash (dval rg)" "cash (dval sl)" "cash (dval fg)" "cash (dval net)" "0 < dval cost"
  defines "s \<equiv> realized_sample z a xs xf buy sell rg sl fg net cost ret"
  shows "validate_common s = Inr ()" and "validate_realized_sample z s = Inr ()"
proof -
  have fees: "cash (dval (oc_commission buy))" "cash (dval (oc_commission sell))" "cash (dval (oc_sell_tax sell))"
      "0 \<le> dval (oc_commission buy)" "0 \<le> dval (oc_commission sell)" "0 \<le> dval (oc_sell_tax sell)"
    using buy sell fee_cash by (auto simp: priced_def fee_amount_def)
  have pos: "0 < dval (oc_reference_open buy)" "0 < dval (oc_fill_price buy)" "0 < dval (oc_reference_open sell)"
      "0 < dval (oc_fill_price sell)"
    using buy sell by (simp_all add: priced_def four_place_def)
  have q: "0 < ta_quantity a" "ta_quantity a mod 100 = 0" using a(2) by (simp_all add: lot_quantity_ok_def)
  have hd: "0 \<le> holding_days z (ta_entry_fill_at a) xf"
    by (rule holding_days_nonneg [OF z]) (use t in \<open>simp add: times_ok_def\<close>)
  have ids: "validate_id_tuple ''market_manifest_ids'' (ta_market_manifest_ids a) = Inr ()"
      "validate_id_tuple ''status_manifest_ids'' (ta_status_manifest_ids a) = Inr ()"
    using a(1) by (auto intro!: validate_id_tuple_ok simp: args_ok_def)
  show "validate_common s = Inr ()"
    unfolding validate_common_def s_def realized_sample_def
    using a(1) q hd ids pos fees c am(4) sl(2)
    by (simp add: args_ok_def validate_identity_ok check_positive_ok validate_nonnegative_money_cash
        validate_money_cash validate_realized_times_ok [OF t] not_less [symmetric])
  obtain es where es: "both_slippages (oc_fill_price buy) (oc_reference_open buy) (oc_reference_open sell)
      (oc_fill_price sell) (ta_quantity a) = Inr es" "dval es = dval sl"
    using both_slippages_priced [OF buy sell a(2)] c(2) sl(1) by auto
  show "validate_realized_sample z s = Inr ()"
    unfolding validate_realized_sample_def s_def realized_sample_def
    using pos c am es
    by (simp add: check_positive_ok validate_money_cash validate_accounting_bridge_def)
qed

definition prices_ok :: "trade_args \<Rightarrow> dec \<Rightarrow> dec \<Rightarrow> bool" where
  "prices_ok a entry exit' \<longleftrightarrow> ta_entry a = Finite entry \<and> model_ok (ta_cost_model a)
     \<and> dval (cm_minimum_commission (ta_cost_model a)) < 1000000000000
     \<and> 0 < dval entry \<and> dval entry < 1000000000000 \<and> 0 < dval exit' \<and> dval exit' < 1000000000000
     \<and> slipped_price Buy (dval entry) (ta_cost_model a) \<noteq> 0
     \<and> slipped_price Sell (dval exit') (ta_cost_model a) \<noteq> 0 \<and> lot_quantity_ok (ta_quantity a)"

lemma close_trade_checks:
  assumes z: "local_clock z" and a: "args_ok a" and t: "times_ok [ta_entry_signal_at a, ta_entry_fill_at a, xs, xf]"
    and p: "prices_ok a entry exit'"
  obtains s buy sell where "close_trade z a (Finite exit') xs xf = then_res (validate_order_event_identity s) (Inr s)"
    and "price_order Buy (Finite entry) (ta_quantity a) (ta_cost_model a) = Inr buy"
    and "price_order Sell (Finite exit') (ta_quantity a) (ta_cost_model a) = Inr sell"
    and "cost_contract Buy (dval entry) (ta_quantity a) (ta_cost_model a) buy"
    and "cost_contract Sell (dval exit') (ta_quantity a) (ta_cost_model a) sell"
    and "realized_accounts s" and "ts_entry_reference_open s = oc_reference_open buy"
    and "ts_exit_reference_open s = Some (oc_reference_open sell)" and "ts_realized s"
    and "ts_quantity s = ta_quantity a" and "ts_order_events s = ta_order_events a"
    and "ts_entry_signal_at s = ta_entry_signal_at a" and "ts_entry_fill_at s = ta_entry_fill_at a"
    and "ts_exit_signal_at s = Some xs" and "ts_exit_fill_at s = Some xf"
    and "ts_buy_commission s = oc_commission buy" and "ts_sell_commission s = oc_commission sell"
    and "ts_sell_tax s = oc_sell_tax sell"
    and "ts_buy_fill_price s = oc_fill_price buy" and "ts_sell_fill_price s = Some (oc_fill_price sell)"
proof -
  let ?q = "ta_quantity a" and ?m = "ta_cost_model a"
  have m: "model_ok ?m" "dval (cm_minimum_commission ?m) < 1000000000000"
    and en: "0 < dval entry" "dval entry < 1000000000000" and ex: "0 < dval exit'" "dval exit' < 1000000000000"
    and nz: "slipped_price Buy (dval entry) ?m \<noteq> 0" "slipped_price Sell (dval exit') ?m \<noteq> 0"
    and q: "lot_quantity_ok ?q" and ta: "ta_entry a = Finite entry"
    using p unfolding prices_ok_def by blast+
  obtain buy where buy: "price_order Buy (Finite entry) ?q ?m = Inr buy"
      "cost_contract Buy (dval entry) ?q ?m buy" "priced Buy ?q buy"
    using price_order_priced_order [OF m en q nz(1)] by blast
  obtain sell where sell: "price_order Sell (Finite exit') ?q ?m = Inr sell"
      "cost_contract Sell (dval exit') ?q ?m sell" "priced Sell ?q sell"
    using price_order_priced_order [OF m ex q nz(2)] by blast
  obtain rg sl fg net cost ret where am:
    "money_gap (oc_reference_open sell) (oc_reference_open buy) ?q = Inr rg"
    "money_sum (oc_slippage_cost buy) (oc_slippage_cost sell) = Inr sl"
    "money_less rg [sl] = Inr fg"
    "money_less fg [oc_commission buy, oc_commission sell, oc_sell_tax sell] = Inr net"
    "invested (oc_fill_price buy) ?q (oc_commission buy) = Inr cost"
    "divide_decimal net cost = Inr ret"
    and v: "dval rg = (dval (oc_reference_open sell) - dval (oc_reference_open buy)) * of_int ?q"
    "dval sl = (dval (oc_fill_price buy) - dval (oc_reference_open buy)
       + (dval (oc_reference_open sell) - dval (oc_fill_price sell))) * of_int ?q"
    "dval fg = (dval (oc_fill_price sell) - dval (oc_fill_price buy)) * of_int ?q"
    "dval net = dval fg - dval (oc_commission buy) - dval (oc_commission sell) - dval (oc_sell_tax sell)"
    "dval cost = dval (oc_fill_price buy) * of_int ?q + dval (oc_commission buy)"
    and c: "0 < dval cost" "0 \<le> dval sl" "cash (dval rg)" "cash (dval sl)" "cash (dval fg)" "cash (dval net)"
    and f: "fen_dec rg" "fen_dec sl" "fen_dec fg" "fen_dec net" "fen_dec cost" "canonical ret"
    using closed_amounts [OF buy(3) sell(3) q] .
  define s where "s = realized_sample z a xs xf buy sell rg sl fg net cost ret"
  have slv: "dval sl = dval (oc_slippage_cost buy) + dval (oc_slippage_cost sell)"
    using buy(3) sell(3) unfolding priced_def v(2) by (simp add: distrib_right)
  note checks = realized_sample_checks [OF z a q t buy(3) sell(3) am(1) am(3-6) slv c(2-6) c(1)]
  have "mk_trade_sample z s = then_res (validate_order_event_identity s) (Inr s)"
    using checks realized_sample_canonical [OF buy(3) sell(3) f]
    by (simp add: mk_trade_sample_def Let_def s_def validate_trade_sample_def) (simp add: realized_sample_def)
  then have "close_trade z a (Finite exit') xs xf = then_res (validate_order_event_identity s) (Inr s)"
    by (simp add: close_trade_def validate_realized_times_ok [OF t] ta buy(1) sell(1) am s_def)
  moreover have "realized_accounts s"
    using v c(1) by (simp add: realized_accounts_def s_def realized_sample_def)
  ultimately show ?thesis
    using that [of s, OF _ buy(1) sell(1) buy(2) sell(2)] by (simp add: s_def realized_sample_def)
qed

section \<open>Properties\<close>

text \<open>A log of a round trip that the order protocol allows, with its two fills.\<close>

definition legal_round_trip :: "order_event list \<Rightarrow> order_event \<Rightarrow> order_event \<Rightarrow> bool" where
  "legal_round_trip es b x \<longleftrightarrow> protocol_run (None, None) es = Some (None, None)
     \<and> sorted (map (instant \<circ> event_operation_time) es) \<and> list_all plain_event es
     \<and> filter is_OrderFilled es = [b, x] \<and> last es = x"

lemma close_trade_exact:
  assumes "local_clock z" and "args_ok a" and "times_ok [ta_entry_signal_at a, ta_entry_fill_at a, xs, xf]"
    and "prices_ok a entry exit'"
    and "legal_round_trip (ta_order_events a)
      (OrderFilled Buy (ta_entry_signal_at a) (ta_entry_fill_at a) pb (ta_quantity a))
      (OrderFilled Sell xs xf px (ta_quantity a))"
    and "dval pb = rhu (-4) (dval entry)" and "dval px = rhu (-4) (dval exit')"
  shows "\<exists>s buy sell. close_trade z a (Finite exit') xs xf = Inr s \<and> realized_accounts s
    \<and> cost_contract Buy (dval entry) (ta_quantity a) (ta_cost_model a) buy
    \<and> cost_contract Sell (dval exit') (ta_quantity a) (ta_cost_model a) sell
    \<and> ts_entry_reference_open s = oc_reference_open buy \<and> ts_exit_reference_open s = Some (oc_reference_open sell)
    \<and> ts_buy_fill_price s = oc_fill_price buy \<and> ts_sell_fill_price s = Some (oc_fill_price sell)
    \<and> ts_buy_commission s = oc_commission buy \<and> ts_sell_commission s = oc_commission sell
    \<and> ts_sell_tax s = oc_sell_tax sell"
proof -
  obtain s buy sell where s: "close_trade z a (Finite exit') xs xf = then_res (validate_order_event_identity s) (Inr s)"
    "cost_contract Buy (dval entry) (ta_quantity a) (ta_cost_model a) buy"
    "cost_contract Sell (dval exit') (ta_quantity a) (ta_cost_model a) sell"
    "realized_accounts s" "ts_entry_reference_open s = oc_reference_open buy"
    "ts_exit_reference_open s = Some (oc_reference_open sell)" "ts_realized s"
    "ts_quantity s = ta_quantity a" "ts_order_events s = ta_order_events a"
    "ts_entry_signal_at s = ta_entry_signal_at a" "ts_entry_fill_at s = ta_entry_fill_at a"
    "ts_exit_signal_at s = Some xs" "ts_exit_fill_at s = Some xf"
    "ts_buy_commission s = oc_commission buy" "ts_sell_commission s = oc_commission sell"
    "ts_sell_tax s = oc_sell_tax sell"
    "ts_buy_fill_price s = oc_fill_price buy" "ts_sell_fill_price s = Some (oc_fill_price sell)"
    by (rule close_trade_checks [OF assms(1-4)])
  have "dval (oc_reference_open buy) = rhu (-4) (dval entry)" "dval (oc_reference_open sell) = rhu (-4) (dval exit')"
    using s(2,3) unfolding cost_contract_def Let_def by blast+
  then have match: "buy_matches s (OrderFilled Buy (ta_entry_signal_at a) (ta_entry_fill_at a) pb (ta_quantity a))"
      "sell_matches s (OrderFilled Sell xs xf px (ta_quantity a))"
    using s(5,6,8) s(10-13) assms(6,7) by (simp_all add: buy_matches_def sell_matches_def)
  have "validate_order_event_identity s = Inr ()"
    by (rule replay_accepts_round_trip [OF _ _ _ _ _ match s(7)])
      (use assms(5) s(9) in \<open>simp_all add: legal_round_trip_def list_all_iff\<close>)
  with s show ?thesis by (intro exI [of _ s] exI [of _ buy] exI [of _ sell]) simp
qed

text \<open>
  C15. Closing a trade is total and exact: for prices below a trillion, any model in range and a
  log that is a legal round trip whose fills carry the signal and fill times and the rounded
  reference prices, close_trade passes its own checks and returns a sample whose sides are
  priced by the rational cost contract and whose gross, net and invested amounts are the exact
  differences of those prices and fees.
\<close>

theorem close_trade_accounts:
  assumes "local_clock z" and "args_ok a" and "times_ok [ta_entry_signal_at a, ta_entry_fill_at a, xs, xf]"
    and "prices_ok a entry exit'"
    and "legal_round_trip (ta_order_events a)
      (OrderFilled Buy (ta_entry_signal_at a) (ta_entry_fill_at a) pb (ta_quantity a))
      (OrderFilled Sell xs xf px (ta_quantity a))"
    and "dval pb = rhu (-4) (dval entry)" and "dval px = rhu (-4) (dval exit')"
  shows "\<exists>s buy sell. close_trade z a (Finite exit') xs xf = Inr s \<and> realized_accounts s
    \<and> cost_contract Buy (dval entry) (ta_quantity a) (ta_cost_model a) buy
    \<and> cost_contract Sell (dval exit') (ta_quantity a) (ta_cost_model a) sell
    \<and> ts_entry_reference_open s = oc_reference_open buy \<and> ts_exit_reference_open s = Some (oc_reference_open sell)
    \<and> ts_buy_fill_price s = oc_fill_price buy \<and> ts_sell_fill_price s = Some (oc_fill_price sell)
    \<and> ts_buy_commission s = oc_commission buy \<and> ts_sell_commission s = oc_commission sell
    \<and> ts_sell_tax s = oc_sell_tax sell"
  by (rule close_trade_exact [OF assms])

definition example_log :: "order_event list" where
  "example_log =
     [OrderPending Buy (Aware 0) (Aware 1),
      OrderFilled Buy (Aware 0) (Aware 2) (Dec False 1023 (-2)) 1000,
      OrderPending Sell (Aware 3) (Aware 4),
      OrderFilled Sell (Aware 3) (Aware 5) (Dec False 11 0) 1000]"

definition example_args :: trade_args where
  "example_args = \<lparr>ta_entry = Finite (Dec False 1023 (-2)), ta_quantity = 1000, ta_cost_model = example_model,
     ta_symbol = ''000001.SZ'', ta_entry_signal_at = Aware 0, ta_entry_fill_at = Aware 2, ta_holding_bars = 1,
     ta_formula_version_id = ''f'', ta_signal_series_id = ''s'', ta_market_manifest_ids = [''m''],
     ta_status_manifest_ids = [''e''], ta_order_events = example_log\<rparr>"

lemma example_args_ok: "args_ok example_args"
  by (simp add: args_ok_def example_args_def blank_def py_space_def example_log_def example_model_def
      cost_model_version_def)

lemma example_log_legal:
  "legal_round_trip example_log (OrderFilled Buy (Aware 0) (Aware 2) (Dec False 1023 (-2)) 1000)
     (OrderFilled Sell (Aware 3) (Aware 5) (Dec False 11 0) 1000)"
  by (simp add: legal_round_trip_def example_log_def plain_event_def dval_def)

lemma slipped_sell_example: "slipped_price Sell (dval (Dec False 11 0)) example_model = 109945 / 10000"
proof -
  have r: "rhu (-4) (dval (Dec False 11 0)) = 11"
    by (rule rhu_eqI [of _ 110000]) (simp_all add: dval_def power_int_minus)
  show ?thesis unfolding slipped_price_def r
    by (rule rhu_eqI [of _ 109945]) (simp_all add: fill_factor_def example_model_def dval_def power_int_minus)
qed

lemma example_prices_ok: "prices_ok example_args (Dec False 1023 (-2)) (Dec False 11 0)"
proof -
  have "0 < dval (Dec False 11 0)" "dval (Dec False 11 0) < 1000000000000"
      "0 < dval (Dec False 1023 (-2))" "dval (Dec False 1023 (-2)) < 1000000000000"
      "dval (cm_minimum_commission example_model) < 1000000000000"
    by (simp_all add: dval_def power_int_minus example_model_def)
  moreover have "slipped_price Buy (dval (Dec False 1023 (-2))) example_model \<noteq> 0"
      "slipped_price Sell (dval (Dec False 11 0)) example_model \<noteq> 0"
    unfolding slipped_example slipped_sell_example by simp_all
  ultimately show ?thesis using example_model_ok
    by (simp only: prices_ok_def example_args_def trade_args.simps lot_quantity_ok_def) simp
qed

lemma example_closes:
  "times_ok [ta_entry_signal_at example_args, ta_entry_fill_at example_args, Aware 3, Aware 5]"
  "legal_round_trip (ta_order_events example_args)
      (OrderFilled Buy (ta_entry_signal_at example_args) (ta_entry_fill_at example_args) (Dec False 1023 (-2))
        (ta_quantity example_args)) (OrderFilled Sell (Aware 3) (Aware 5) (Dec False 11 0) (ta_quantity example_args))"
  "dval (Dec False 1023 (-2)) = rhu (-4) (dval (Dec False 1023 (-2)))"
  "dval (Dec False 11 0) = rhu (-4) (dval (Dec False 11 0))"
proof -
  show "dval (Dec False 1023 (-2)) = rhu (-4) (dval (Dec False 1023 (-2)))"
    by (rule sym, rule rhu_eqI [of _ 102300]) (simp_all add: dval_def power_int_minus)
  show "dval (Dec False 11 0) = rhu (-4) (dval (Dec False 11 0))"
    by (rule sym, rule rhu_eqI [of _ 110000]) (simp_all add: dval_def power_int_minus)
qed (use example_log_legal in \<open>simp_all add: times_ok_def example_args_def\<close>)

theorem close_trade_accounts_witness:
  "\<exists>s. close_trade china_standard_time example_args (Finite (Dec False 11 0)) (Aware 3) (Aware 5) = Inr s
     \<and> realized_accounts s \<and> dval (ts_buy_fill_price s) = 102351 / 10000"
proof -
  obtain s buy where s: "close_trade china_standard_time example_args (Finite (Dec False 11 0)) (Aware 3) (Aware 5) = Inr s"
    "realized_accounts s" "ts_buy_fill_price s = oc_fill_price buy"
    "cost_contract Buy (dval (Dec False 1023 (-2))) (ta_quantity example_args) (ta_cost_model example_args) buy"
    using close_trade_accounts [OF cst.local_clock_axioms example_args_ok example_closes(1) example_prices_ok
      example_closes(2-4)] by blast
  have m: "ta_cost_model example_args = example_model" by (simp add: example_args_def)
  have "dval (oc_fill_price buy) = 102351 / 10000"
    using s(4) unfolding cost_contract_def Let_def m slipped_example by blast
  with s(1-3) show ?thesis by (intro exI [of _ s]) (simp only: simp_thms)
qed

text \<open>The times and fills of a sample that its constructor accepted.\<close>

definition sample_lifecycle :: "zone \<Rightarrow> trade_sample \<Rightarrow> bool" where
  "sample_lifecycle z t \<longleftrightarrow>
     sorted (map (instant \<circ> event_operation_time) (ts_order_events t))
     \<and> instant (ts_entry_signal_at t) \<le> instant (ts_entry_fill_at t)
     \<and> 0 < ts_quantity t \<and> ts_quantity t mod 100 = 0
     \<and> (if ts_realized t
        then \<exists>b x xs xf. filter is_OrderFilled (ts_order_events t) = [b, x] \<and> buy_matches t b \<and> sell_matches t x
          \<and> last (ts_order_events t) = x \<and> ts_exit_signal_at t = Some xs \<and> ts_exit_fill_at t = Some xf
          \<and> instant (ts_entry_fill_at t) \<le> instant xs \<and> instant xs \<le> instant xf
          \<and> ts_holding_days t = local_date z xf - local_date z (ts_entry_fill_at t)
        else \<exists>b ma. filter is_OrderFilled (ts_order_events t) = [b] \<and> buy_matches t b \<and> ts_mark_at t = Some ma
          \<and> instant (ts_entry_fill_at t) \<le> instant ma \<and> ts_net_pnl t = None
          \<and> dval (ts_sell_commission t) = 0 \<and> dval (ts_sell_tax t) = 0
          \<and> ts_holding_days t = local_date z ma - local_date z (ts_entry_fill_at t))"

lemma validate_common_Inr:
  assumes "validate_common s = Inr u"
  shows "0 < ts_quantity s \<and> ts_quantity s mod 100 = 0
    \<and> validate_realized_times (ts_entry_signal_at s) (ts_entry_fill_at s) (ts_exit_signal_at s) (ts_exit_fill_at s)
        (\<not> ts_realized s) = Inr ()"
  using assms unfolding validate_common_def then_res_Inr_iff bind_res_Inr_iff if_Inl_Inr_iff by auto

lemma validate_realized_times_Inr:
  assumes "validate_realized_times es ef xs xf b = Inr u"
  shows "instant es \<le> instant ef \<and> (b \<and> xs = None \<and> xf = None
    \<or> (\<exists>s f. xs = Some s \<and> xf = Some f \<and> instant ef \<le> instant s \<and> instant s \<le> instant f))"
  using assms by (auto simp: validate_realized_times_def res_simps split: if_splits option.splits)

lemma validate_realized_sample_Inr:
  assumes "validate_realized_sample z s = Inr u"
  shows "\<exists>xf. ts_exit_fill_at s = Some xf \<and> ts_holding_days s = holding_days z (ts_entry_fill_at s) xf"
  using assms unfolding validate_realized_sample_def if_Inl_Inr_iff
  by (auto simp: then_res_Inr_iff if_Inl_Inr_iff split: option.splits)

lemma validate_open_sample_Inr:
  assumes "validate_open_sample z s = Inr u"
  shows "\<exists>ma. ts_mark_at s = Some ma \<and> instant (ts_entry_fill_at s) \<le> instant ma \<and> ts_net_pnl s = None
    \<and> dval (ts_sell_commission s) = 0 \<and> dval (ts_sell_tax s) = 0
    \<and> ts_holding_days s = holding_days z (ts_entry_fill_at s) ma"
  using assms unfolding validate_open_sample_def if_Inl_Inr_iff
  by (auto simp: then_res_Inr_iff if_Inl_Inr_iff simp del: dval_zero_iff split: option.splits)

text \<open>
  C16. Whatever arguments it is given, the constructor of a trade sample lets through only
  samples with a chronological log whose fills are exactly the one buy, and for a realized sample
  the one sell as its last event, both matching the times, reference prices and quantity of the
  sample; entry signal, entry fill, exit signal and exit fill (or mark) are in order, the holding
  days are the local dates between them, and an open sample carries no exit costs.
\<close>

theorem trade_sample_lifecycle:
  assumes "mk_trade_sample z s = Inr t"
  shows "sample_lifecycle z t"
proof -
  from assms have v: "validate_common t = Inr ()"
    "(if ts_realized t then validate_realized_sample z t else validate_open_sample z t) = Inr ()"
    "validate_order_event_identity t = Inr ()"
    by (auto simp: mk_trade_sample_def Let_def validate_trade_sample_def res_simps)
  note common = validate_common_Inr [OF v(1)]
  note times = validate_realized_times_Inr [OF conjunct2 [OF conjunct2 [OF common]]]
  note log = validate_order_event_identity_Inr [OF v(3)]
  show ?thesis
  proof (cases "ts_realized t")
    case True
    with v(2) validate_realized_sample_Inr [of z t "()"] common times log show ?thesis
      by (auto simp: sample_lifecycle_def holding_days_def)
  next
    case False
    with v(2) validate_open_sample_Inr [of z t "()"] common times log show ?thesis
      by (auto simp: sample_lifecycle_def holding_days_def simp del: dval_zero_iff)
  qed
qed

theorem trade_sample_lifecycle_witness:
  "\<exists>s t. mk_trade_sample china_standard_time s = Inr t \<and> ts_realized t \<and> sample_lifecycle china_standard_time t"
proof -
  obtain s where s: "close_trade china_standard_time example_args (Finite (Dec False 11 0)) (Aware 3) (Aware 5) = Inr s"
    "realized_accounts s"
    using close_trade_exact [OF cst.local_clock_axioms example_args_ok example_closes(1) example_prices_ok
      example_closes(2-4)] by blast
  from s(1) obtain s0 where s0: "mk_trade_sample china_standard_time s0 = Inr s" "ts_realized s0"
    by (auto simp: close_trade_def res_simps realized_sample_def)
  then have "ts_realized s"
    by (auto simp: mk_trade_sample_def Let_def res_simps canonicalize_decimal_zeros_def)
  with s0(1) trade_sample_lifecycle [OF s0(1)] show ?thesis by blast
qed

section \<open>Bounds of a quotient\<close>

lemma dec_fix_le:
  assumes x: "dec_fix r p d = Inr x" and p: "0 < p" and k: "etiny p \<le> k" and le: "\<bar>dval d\<bar> \<le> 10 powi k"
  shows "\<bar>dval x\<bar> \<le> 10 powi k"
proof (cases "coeff d = 0")
  case True
  then have "coeff x = 0" using x by (auto simp: dec_fix_def Let_def)
  then show ?thesis by (simp add: abs_dval)
next
  case False
  define E where "E = max (int (ndigits (coeff d)) + expo d - int p) (etiny p)"
  show ?thesis
  proof (cases "expo d < E")
    case low: False
    then have "x = d" using x False by (auto simp: dec_fix_def Let_def E_def [symmetric] split: if_splits)
    with le show ?thesis by simp
  next
    case low: True
    have kE: "E \<le> k"
    proof (rule ccontr)
      assume "\<not> E \<le> k"
      then have E: "E = int (ndigits (coeff d)) + expo d - int p" using k by (simp add: E_def max_def split: if_splits)
      have "(10 :: rat) powi adjusted d \<le> 10 powi k" using abs_dval_ge [OF False] le by linarith
      then have "adjusted d \<le> k" by simp
      with E \<open>\<not> E \<le> k\<close> p show False by (simp add: adjusted_def)
    qed
    define c where "c = round_quot r (coeff d) (10 ^ nat (E - expo d))"
    have "(of_nat (coeff d) :: rat) \<le> 10 powi (k - expo d)"
      using le by (simp add: abs_dval pow10_diff pos_le_divide_eq)
    also have "\<dots> = of_nat (10 ^ nat (k - E) * 10 ^ nat (E - expo d))"
      using kE low by (simp add: pow10_nat flip: pow10_add)
    finally have "coeff d \<le> 10 ^ nat (k - E) * 10 ^ nat (E - expo d)" by (simp only: of_nat_le_iff)
    then have "c \<le> 10 ^ nat (k - E)" unfolding c_def by (rule round_quot_le) simp
    then have "(of_nat c :: rat) \<le> of_nat (10 ^ nat (k - E))" by (simp only: of_nat_le_iff)
    also have "\<dots> = 10 powi (k - E)" using kE by (simp add: pow10_nat)
    finally have cE: "(of_nat c :: rat) * 10 powi E \<le> 10 powi k" by (simp add: pow10_diff pos_le_divide_eq)
    have div: "(of_nat (c div 10) :: rat) * 10 powi (E + 1) \<le> of_nat c * 10 powi E"
    proof -
      have "(of_nat (c div 10) :: rat) * 10 \<le> of_nat c"
        using of_nat_mono [OF div_times_less_eq_dividend [of c 10], where 'a = rat] by simp
      then have "(of_nat (c div 10) :: rat) * 10 * 10 powi E \<le> of_nat c * 10 powi E"
        by (rule mult_right_mono) simp
      then show ?thesis by (simp add: pow10_add mult_ac)
    qed
    from x low False have "x = Dec (neg d) c E \<or> x = Dec (neg d) (c div 10) (E + 1)"
      by (auto simp: dec_fix_def Let_def E_def [symmetric] c_def [symmetric] split: if_splits prod.splits)
    then show ?thesis using cE div by (auto simp: abs_dval)
  qed
qed

lemma dec_fix_near:
  assumes x: "dec_fix HalfUp 28 d = Inr x" and le: "\<bar>dval d\<bar> \<le> 1"
  shows "\<bar>dval x - dval d\<bar> \<le> 10 powi (-26)"
proof (cases "coeff d = 0")
  case True
  then have "coeff x = 0" using x by (auto simp: dec_fix_def Let_def)
  then have "dval x - dval d = 0" using True by (simp add: dval_def)
  then show ?thesis by (simp only:) simp
next
  case False
  define E where "E = max (int (ndigits (coeff d)) + expo d - 28) (etiny 28)"
  show ?thesis
  proof (cases "expo d < E")
    case low: False
    then have "dval x - dval d = 0" using x False
      by (auto simp: dec_fix_def Let_def E_def [symmetric] split: if_splits)
    then show ?thesis by (simp only:) simp
  next
    case low: True
    have "(10 :: rat) powi adjusted d \<le> 10 powi 0" using abs_dval_ge [OF False] le by simp
    then have "adjusted d \<le> 0" by (simp only: pow10_le_iff)
    then have E: "E \<le> -27" by (simp add: E_def adjusted_def etiny_def emin_def)
    define c where "c = round_quot HalfUp (coeff d) (10 ^ nat (E - expo d))"
    have "dec_rescale HalfUp d E = Dec (neg d) c E" using low False by (simp add: dec_rescale_def c_def)
    then have cE: "dval (Dec (neg d) c E) = rhu E (dval d)" using dval_dec_rescale [of d E] by simp
    have err: "\<bar>dval (Dec (neg d) c E) - dval d\<bar> \<le> 10 powi E / 2" unfolding cE by (rule rhu_error)
    have c10: "(of_nat c :: rat) = of_nat (c div 10) * 10 + of_nat (c mod 10)"
      by (metis div_mult_mod_eq of_nat_add of_nat_mult of_nat_numeral)
    have "dval (Dec (neg d) c E) - dval (Dec (neg d) (c div 10) (E + 1))
      = (if neg d then - 1 else 1) * (of_nat (c mod 10) * 10 powi E)"
      by (simp add: dval_def c10 pow10_add algebra_simps)
    then have "\<bar>dval (Dec (neg d) c E) - dval (Dec (neg d) (c div 10) (E + 1))\<bar> = of_nat (c mod 10) * 10 powi E"
      by (simp add: abs_mult)
    moreover have "c mod 10 \<le> 9" using mod_less_divisor [of 10 c] by simp
    then have "(of_nat (c mod 10) :: rat) \<le> of_nat 9" by (simp only: of_nat_le_iff)
    then have "(of_nat (c mod 10) :: rat) * 10 powi E \<le> of_nat 9 * 10 powi E" by (rule mult_right_mono) simp
    ultimately have drop: "\<bar>dval (Dec (neg d) c E) - dval (Dec (neg d) (c div 10) (E + 1))\<bar> \<le> 9 * 10 powi E" by simp
    have "(10 :: rat) powi E \<le> 10 powi (-27)" using E by (simp only: pow10_le_iff)
    moreover have "(10 :: rat) powi (-26) = 10 * 10 powi (-27)" by simp
    moreover from x low False have "x = Dec (neg d) c E \<or> x = Dec (neg d) (c div 10) (E + 1)"
      by (auto simp: dec_fix_def Let_def E_def [symmetric] c_def [symmetric] split: if_splits prod.splits)
    moreover have "(0 :: rat) < 10 powi E" by simp
    ultimately show ?thesis using err drop by (elim disjE) (hypsubst, linarith)+
  qed
qed

lemma ndigits_mono: "m \<le> n \<Longrightarrow> ndigits m \<le> ndigits n"
  by (rule ndigits_le_of_less) (use less_pow_ndigits [of n] in simp_all)

text \<open>The quotient of two counts.\<close>

lemma count_quotient:
  assumes "i \<le> n" and "0 < i"
  shows "\<exists>c e. dec_div HalfUp 28 (dec_of_int (int i)) (dec_of_int (int n)) = dec_fix HalfUp 28 (Dec False c e)
    \<and> of_nat c * 10 powi e \<le> (1 :: rat) \<and> \<bar>of_nat c * 10 powi e - of_nat i / of_nat n\<bar> \<le> (10 powi (-29) :: rat)"
proof -
  let ?a = "dec_of_int (int i)" and ?b = "dec_of_int (int n)"
  have ab: "coeff ?a = i" "coeff ?b = n" "expo ?a = 0" "expo ?b = 0" "\<not> neg ?a" "\<not> neg ?b"
    by (simp_all add: dec_of_int_def)
  have n: "0 < n" using assms by simp
  define shift where "shift = int (ndigits n) - int (ndigits i) + 29"
  have sh: "29 \<le> shift" using ndigits_mono [OF assms(1)] by (simp add: shift_def)
  have sh_eq: "int (ndigits n) - int (ndigits i) + int 28 + 1 = shift" by (simp add: shift_def)
  have nsh: "nat (- shift) = 0" using sh by simp
  have unit: "(of_nat m :: rat) * 10 powi (- shift) = of_nat m / of_nat (10 ^ nat shift)" for m
    using sh by (simp add: pow10_nat power_int_minus divide_inverse)
  have one: "(of_nat m :: rat) * 10 powi (- shift) \<le> 1" if "m \<le> 10 ^ nat shift" for m
  proof -
    have "(of_nat m :: rat) \<le> of_nat (10 ^ nat shift)" using that by (simp only: of_nat_le_iff)
    then show ?thesis unfolding unit by (simp add: divide_le_eq)
  qed
  define q where "q = i * 10 ^ nat shift div n"
  have div: "dec_div HalfUp 28 ?a ?b = (if i * 10 ^ nat shift mod n \<noteq> 0
      then dec_fix HalfUp 28 (Dec False (if q mod 5 = 0 then q + 1 else q) (- shift))
      else (case strip_zeros (nat shift) q (- shift) of (c, e') \<Rightarrow> dec_fix HalfUp 28 (Dec False c e')))"
    unfolding dec_div_def Let_def ab sh_eq q_def using assms(2) n ab(5,6) by (simp add: nsh)
  have in_le: "i * 10 ^ nat shift \<le> 10 ^ nat shift * n" using assms(1) by simp
  have q: "q \<le> 10 ^ nat shift" unfolding q_def using div_le_mono [OF in_le, of n] n by simp
  have split: "(of_nat q :: rat) * of_nat n + of_nat (i * 10 ^ nat shift mod n) = of_nat i * of_nat (10 ^ nat shift)"
    unfolding q_def by (metis div_mult_mod_eq of_nat_add of_nat_mult)
  show ?thesis
  proof (cases "i * 10 ^ nat shift mod n = 0")
    case nz: False
    let ?c = "if q mod 5 = 0 then q + 1 else q"
    have "q \<noteq> 10 ^ nat shift" using nz in_le split
      by (metis add_diff_cancel_left' diff_is_0_eq div_mult_mod_eq le_add1 q_def)
    with q have c: "?c \<le> 10 ^ nat shift" by simp
    define x :: rat where "x = of_nat (i * 10 ^ nat shift) / of_nat n"
    have m: "i * 10 ^ nat shift mod n < n" using n by simp
    have "x = of_nat q + of_nat (i * 10 ^ nat shift mod n) / of_nat n"
      using split n by (simp add: x_def field_simps)
    moreover have "(of_nat (i * 10 ^ nat shift mod n) :: rat) / of_nat n < 1"
      using m n by (simp only: divide_less_eq_1_pos of_nat_0_less_iff of_nat_less_iff)
    moreover have "0 \<le> (of_nat (i * 10 ^ nat shift mod n) :: rat) / of_nat n" by simp
    ultimately have "\<bar>of_nat ?c - x\<bar> \<le> 1" by (cases "q mod 5 = 0") (simp_all add: abs_le_iff)
    then have "\<bar>of_nat ?c - x\<bar> * 10 powi (- shift) \<le> 1 * 10 powi (- shift)" by (rule mult_right_mono) simp
    moreover have "\<bar>of_nat ?c - x\<bar> * 10 powi (- shift) = \<bar>of_nat ?c * 10 powi (- shift) - of_nat i / of_nat n\<bar>"
    proof -
      have "x * 10 powi (- shift) = of_nat i / of_nat n"
        using sh by (simp add: x_def pow10_nat power_int_minus divide_inverse)
      then show ?thesis by (metis abs_mult_pos left_diff_distrib less_imp_le pow10_pos)
    qed
    moreover have "(10 :: rat) powi (- shift) \<le> 10 powi (-29)" using sh by (simp only: pow10_le_iff)
    ultimately have "\<bar>of_nat ?c * 10 powi (- shift) - of_nat i / of_nat n\<bar> \<le> (10 powi (-29) :: rat)" by linarith
    moreover have "dec_div HalfUp 28 ?a ?b = dec_fix HalfUp 28 (Dec False ?c (- shift))" using nz by (simp only: div) simp
    ultimately show ?thesis using one [OF c] by blast
  next
    case z: True
    obtain c e' where st: "strip_zeros (nat shift) q (- shift) = (c, e')" by fastforce
    have v: "(of_nat c :: rat) * 10 powi e' = of_nat q * 10 powi (- shift)" by (rule strip_zeros_value [OF st])
    moreover have "(of_nat q :: rat) * 10 powi (- shift) = of_nat i / of_nat n"
      unfolding unit using split z n by (simp add: field_simps)
    moreover have "dec_div HalfUp 28 ?a ?b = dec_fix HalfUp 28 (Dec False c e')" using z st by (simp add: div)
    ultimately show ?thesis using one [OF q] by (intro exI [of _ c] exI [of _ e']) simp
  qed
qed

lemma count_ratio:
  assumes "i \<le> n" and "0 < n" and "n < 10 ^ 100"
  shows "\<exists>v. divide_decimal (dec_of_int (int i)) (dec_of_int (int n)) = Inr v \<and> 0 \<le> dval v \<and> dval v \<le> 1
    \<and> \<bar>dval v - of_nat i / of_nat n\<bar> \<le> 10 powi (-25)
    \<and> (fits 28 (of_nat i / of_nat n) \<longrightarrow> dval v = of_nat i / of_nat n)"
proof -
  let ?a = "dec_of_int (int i)" and ?b = "dec_of_int (int n)"
  have ab: "coeff ?a = i" "coeff ?b = n" "expo ?a = 0" "expo ?b = 0" "\<not> neg ?a" "\<not> neg ?b"
    by (simp_all add: dec_of_int_def)
  have dig: "ndigits i \<le> 100" using assms by (simp add: ndigits_le_iff)
  obtain x where x: "dec_div HalfUp 28 ?a ?b = Inr x"
    using dec_div_total [of ?b ?a HalfUp] ab dig assms(2) by auto
  obtain c e where ce: "dec_div HalfUp 28 ?a ?b = dec_fix HalfUp 28 (Dec False c e)"
      "of_nat c * 10 powi e \<le> (1 :: rat)" "\<bar>of_nat c * 10 powi e - of_nat i / of_nat n\<bar> \<le> (10 powi (-29) :: rat)"
  proof (cases "i = 0")
    case True
    show ?thesis by (rule that [of 0 0]) (use True assms(2) ab in \<open>simp_all add: dec_div_def Let_def\<close>)
  next
    case False
    then show ?thesis using count_quotient [OF assms(1)] that by blast
  qed
  let ?d = "Dec False c e"
  have d: "dval ?d = of_nat c * 10 powi e" by (simp add: dval_def)
  have fx: "dec_fix HalfUp 28 ?d = Inr x" using x ce(1) by simp
  have d1: "\<bar>dval ?d\<bar> \<le> 10 powi 0" using ce(2) by (simp add: abs_dval)
  have "\<bar>dval x\<bar> \<le> 10 powi 0" by (rule dec_fix_le [OF fx _ _ d1]) (simp_all add: etiny_def emin_def)
  moreover have "\<not> neg x" using fx by (auto simp: dec_fix_def Let_def split: if_splits prod.splits)
  then have "\<not> dval x < 0" by (simp add: dval_neg_iff)
  moreover have near: "\<bar>dval x - of_nat i / of_nat n\<bar> \<le> 10 powi (-25)"
  proof -
    have "\<bar>dval x - dval ?d\<bar> \<le> 10 powi (-26)" by (rule dec_fix_near [OF fx]) (use d1 in simp)
    moreover have "(10 :: rat) powi (-26) + 10 powi (-29) \<le> 10 powi (-25)" by simp
    ultimately show ?thesis using ce(3) unfolding d by linarith
  qed
  moreover have "divide_decimal ?a ?b = Inr (canonical_zero x)"
    using x ab assms(2) by (simp add: divide_decimal_def dec_is_zero_def)
  moreover have "fits 28 (of_nat i / of_nat n) \<longrightarrow> dval x = of_nat i / of_nat n"
    using dec_div_exact [of 28 ?b ?a HalfUp] x ab assms(2) by auto
  ultimately show ?thesis by (intro exI [of _ "canonical_zero x"]) simp
qed

section \<open>The win rate\<close>

definition winners :: "trade_sample list \<Rightarrow> nat" where
  "winners samples = length (filter (\<lambda>s. ts_realized s \<and> (case ts_net_pnl s of Some d \<Rightarrow> 0 < dval d | None \<Rightarrow> False)) samples)"

lemma required_net_pnls:
  assumes "\<forall>s \<in> set samples. ts_realized s \<longrightarrow> ts_net_pnl s \<noteq> None"
  shows "\<exists>pnls. traverse required_net_pnl (filter ts_realized samples) = Inr pnls
    \<and> length (filter (\<lambda>p. 0 < dval p) pnls) = winners samples"
  using assms by (induction samples) (auto simp: winners_def required_net_pnl_def)

text \<open>
  C17. The win rate of any list of samples whose realized ones carry a net result is defined
  exactly when there is a realized sample, counts the realized samples, lies between 0 and 1
  whatever the division rounds, and is the exact share of samples with a positive net result when
  that share has at most 28 digits.
\<close>

theorem win_rate_bounds:
  assumes "\<forall>s \<in> set samples. ts_realized s \<longrightarrow> ts_net_pnl s \<noteq> None" and "length samples < 10 ^ 100"
  shows "\<exists>m. calculate_win_rate samples = Inr m \<and> rm_sample_count m = int (length (filter ts_realized samples))
    \<and> (case rm_value m of
         None \<Rightarrow> filter ts_realized samples = [] \<and> rm_reason m = Some ''no_realized_samples''
       | Some v \<Rightarrow> filter ts_realized samples \<noteq> [] \<and> 0 \<le> dval v \<and> dval v \<le> 1
           \<and> (let share = of_nat (winners samples) / of_nat (length (filter ts_realized samples))
              in fits 28 share \<longrightarrow> dval v = share))"
proof (cases "filter ts_realized samples = []")
  case True
  then show ?thesis
    by (simp add: calculate_win_rate_def mk_ratio_metric_def blank_def py_space_def)
next
  case False
  let ?n = "length (filter ts_realized samples)"
  obtain pnls where pnls: "traverse required_net_pnl (filter ts_realized samples) = Inr pnls"
      "length (filter (\<lambda>p. 0 < dval p) pnls) = winners samples"
    using required_net_pnls [OF assms(1)] by blast
  have "winners samples \<le> length pnls" unfolding pnls(2) [symmetric] by simp
  then have le: "winners samples \<le> ?n" using traverse_length [OF pnls(1)] by simp
  have pos: "0 < ?n" using False by simp
  have "?n < 10 ^ 100" using assms(2) length_filter_le [of ts_realized samples] by linarith
  from count_ratio [OF le pos this] obtain v where
    v: "divide_decimal (dec_of_int (int (winners samples))) (dec_of_int (int ?n)) = Inr v" "0 \<le> dval v" "dval v \<le> 1"
      "fits 28 (of_nat (winners samples) / of_nat ?n) \<longrightarrow> dval v = of_nat (winners samples) / of_nat ?n" by blast
  have "calculate_win_rate samples
    = Inr \<lparr>rm_value = Some (canonical_zero v), rm_reason = None, rm_sample_count = int ?n\<rparr>"
    using False pnls v(1,2) by (simp add: calculate_win_rate_def mk_ratio_metric_def Let_def)
  with False v show ?thesis by (simp add: Let_def)
qed

definition example_cost :: "order_side \<Rightarrow> order_cost" where
  "example_cost side = \<lparr>oc_side = side, oc_reference_open = Dec False 10 0, oc_fill_price = Dec False 10 0,
     oc_quantity = 1000, oc_notional = Dec False 10000 0, oc_slippage_cost = Dec False 0 (-2),
     oc_commission = Dec False 0 (-2), oc_sell_tax = Dec False 0 (-2)\<rparr>"

definition example_sample :: "int \<Rightarrow> trade_sample" where
  "example_sample pnl = realized_sample china_standard_time example_args (Aware 3) (Aware 5)
     (example_cost Buy) (example_cost Sell) (Dec False 0 (-2)) (Dec False 0 (-2)) (Dec False 0 (-2))
     (dec_of_int pnl) (Dec False 10000 0) (Dec False 0 0)"

theorem win_rate_bounds_witness:
  "\<exists>m v. calculate_win_rate [example_sample 5, example_sample (-3)] = Inr m \<and> rm_value m = Some v
     \<and> dval v = 1 / 2 \<and> rm_sample_count m = 2"
proof -
  let ?s = "[example_sample 5, example_sample (-3)]"
  have r: "filter ts_realized ?s = ?s" by (simp add: example_sample_def realized_sample_def)
  have w: "winners ?s = 1" by (simp add: winners_def example_sample_def realized_sample_def)
  have "\<forall>s \<in> set ?s. ts_realized s \<longrightarrow> ts_net_pnl s \<noteq> None"
    by (simp add: example_sample_def realized_sample_def)
  moreover have "length ?s < 10 ^ 100" by simp
  ultimately obtain m where m: "calculate_win_rate ?s = Inr m"
      "rm_sample_count m = int (length (filter ts_realized ?s))"
      "case rm_value m of
         None \<Rightarrow> filter ts_realized ?s = [] \<and> rm_reason m = Some ''no_realized_samples''
       | Some v \<Rightarrow> filter ts_realized ?s \<noteq> [] \<and> 0 \<le> dval v \<and> dval v \<le> 1
           \<and> (let share = of_nat (winners ?s) / of_nat (length (filter ts_realized ?s))
              in fits 28 share \<longrightarrow> dval v = share)"
    using win_rate_bounds [of ?s] by blast
  have f: "fits 28 (1 / 2)"
    by (rule fitsI [of _ 5 "-1"]) (simp_all add: etiny_def etop_def emin_def emax_def)
  from m(2,3) f obtain v where "rm_value m = Some v" "dval v = 1 / 2"
    unfolding r w Let_def by (cases "rm_value m") auto
  with m(1,2) show ?thesis unfolding r by (intro exI [of _ m] exI [of _ v]) simp
qed

end
