(* ===== verification/Metrics.thy ===== *)
theory Metrics
  imports Trades "HOL-Library.Multiset"
begin

text \<open>
  \<open>backtest/metrics.py\<close>: the summary of independent trade samples, its histogram, its open trades and its
  reliability, and the audit that the summary's constructor repeats from the raw values. Decimals
  are compared by value; the values of a summary are finite, so the finiteness checks have no branch.
  \<open>to_json_dict\<close> is not modelled.
\<close>

definition independent_sample_label :: string where
  "independent_sample_label = ''independent trade samples, not portfolio return''"

definition ratio_quantum :: dec where "ratio_quantum = Dec False 1 (-6)"

text \<open>Equality of Decimals, optional ones and lists of them.\<close>

definition dec_eq :: "dec \<Rightarrow> dec \<Rightarrow> bool" where
  "dec_eq a b \<longleftrightarrow> dval a = dval b"

definition opt_eq :: "dec option \<Rightarrow> dec option \<Rightarrow> bool" where
  "opt_eq a b \<longleftrightarrow> map_option dval a = map_option dval b"

section \<open>Rounded ratios\<close>

definition round_ratio :: "dec \<Rightarrow> dec res" where
  "round_ratio value = bind_res (dec_quantize HalfUp default_prec value ratio_quantum) (\<lambda>r. Inr (canonical_zero r))"

definition ratio :: "nat \<Rightarrow> nat \<Rightarrow> dec res" where
  "ratio numerator denominator =
     bind_res (divide_decimal (dec_of_int (int numerator)) (dec_of_int (int denominator))) round_ratio"

definition mean :: "dec list \<Rightarrow> dec option res" where
  "mean values =
     (if values = [] then Inr None
      else bind_res (dec_sum values) (\<lambda>s. bind_res (divide_decimal s (dec_of_int (int (length values)))) (\<lambda>q.
        bind_res (round_ratio q) (\<lambda>r. Inr (Some r)))))"

definition median :: "dec list \<Rightarrow> dec res" where
  "median values =
     (let ordered = sort_key dval values; midpoint = length ordered div 2
      in if odd (length ordered) then round_ratio (ordered ! midpoint)
         else bind_res (add28 (ordered ! (midpoint - 1)) (ordered ! midpoint)) (\<lambda>s.
           bind_res (divide_decimal s (Dec False 2 0)) round_ratio))"

definition payoff :: "dec list \<Rightarrow> dec list \<Rightarrow> (dec option \<times> string option) res" where
  "payoff positive negative =
     (if positive = [] \<and> negative = [] then Inr (None, Some ''no_positive_or_negative_returns'')
      else if positive = [] then Inr (None, Some ''no_positive_returns'')
      else if negative = [] then Inr (None, Some ''no_negative_returns'')
      else
        bind_res (dec_mean positive) (\<lambda>positive_mean.
        bind_res (dec_mean negative) (\<lambda>negative_mean.
        bind_res (dec_abs negative_mean) (\<lambda>a.
        bind_res (divide_decimal positive_mean a) (\<lambda>q.
        bind_res (round_ratio q) (\<lambda>r. Inr (Some r, None)))))))"

text \<open>\<open>max\<close> keeps the first of equal values, \<open>min\<close> too.\<close>

fun max_dec :: "dec list \<Rightarrow> dec option" where
  "max_dec [] = None"
| "max_dec (x # xs) = Some (foldl (\<lambda>m y. if dval m < dval y then y else m) x xs)"

fun min_dec :: "dec list \<Rightarrow> dec option" where
  "min_dec [] = None"
| "min_dec (x # xs) = Some (foldl (\<lambda>m y. if dval y < dval m then y else m) x xs)"

definition round_optional :: "dec option \<Rightarrow> dec option res" where
  "round_optional v = (case v of None \<Rightarrow> Inr None | Some d \<Rightarrow> bind_res (round_ratio d) (\<lambda>r. Inr (Some r)))"

definition validate_optional_metric :: "dec option \<Rightarrow> string option \<Rightarrow> string \<Rightarrow> bool \<Rightarrow> unit res" where
  "validate_optional_metric value reason field_name nonnegative =
     (case (value, reason) of
        (None, None) \<Rightarrow> Inl (ValueError (''undefined '' @ field_name @ '' requires a reason''))
      | (None, Some r) \<Rightarrow> validate_identity (field_name @ ''_reason'') r
      | (Some v, Some r) \<Rightarrow> Inl (ValueError (''defined '' @ field_name @ '' cannot have a reason''))
      | (Some v, None) \<Rightarrow>
          if nonnegative \<and> dval v < 0 then Inl (ValueError (field_name @ '' cannot be negative'')) else Inr ())"

section \<open>Histogram\<close>

record histogram_bin =
  hb_code :: string
  hb_lower_bound :: "dec option"
  hb_upper_bound :: "dec option"
  hb_lower_inclusive :: bool
  hb_upper_inclusive :: bool
  hb_count :: nat
  hb_share :: "dec option"
  hb_share_reason :: "string option"

definition histogram_contract :: "(string \<times> dec option \<times> dec option \<times> bool \<times> bool) list" where
  "histogram_contract =
     [(''lt_neg_20pct'', None, Some (Dec True 20 (-2)), False, False),
      (''neg_20_to_10pct'', Some (Dec True 20 (-2)), Some (Dec True 10 (-2)), True, False),
      (''neg_10_to_5pct'', Some (Dec True 10 (-2)), Some (Dec True 5 (-2)), True, False),
      (''neg_5_to_0pct'', Some (Dec True 5 (-2)), Some (Dec False 0 0), True, False),
      (''zero'', Some (Dec False 0 0), Some (Dec False 0 0), True, True),
      (''pos_0_to_5pct'', Some (Dec False 0 0), Some (Dec False 5 (-2)), False, True),
      (''pos_5_to_10pct'', Some (Dec False 5 (-2)), Some (Dec False 10 (-2)), False, True),
      (''pos_10_to_20pct'', Some (Dec False 10 (-2)), Some (Dec False 20 (-2)), False, True),
      (''gt_20pct'', Some (Dec False 20 (-2)), None, False, False)]"

definition mk_histogram_bin :: "histogram_bin \<Rightarrow> histogram_bin res" where
  "mk_histogram_bin b =
     (let b = b\<lparr>hb_lower_bound := map_option canonical_zero (hb_lower_bound b),
                hb_upper_bound := map_option canonical_zero (hb_upper_bound b),
                hb_share := map_option canonical_zero (hb_share b)\<rparr>
      in then_res (validate_identity ''code'' (hb_code b))
        (then_res (validate_optional_metric (hb_share b) (hb_share_reason b) ''share'' True)
        (then_res
          (case (hb_lower_bound b, hb_upper_bound b) of
             (Some l, Some u) \<Rightarrow>
               if dval u < dval l then Inl (ValueError ''histogram bounds must be ordered'')
               else if dval l = dval u \<and> \<not> (hb_lower_inclusive b \<and> hb_upper_inclusive b)
               then Inl (ValueError ''equal histogram bounds must both be inclusive'') else Inr ()
           | _ \<Rightarrow> Inr ())
        (case hb_share b of
           Some s \<Rightarrow> if 1 < dval s then Inl (ValueError ''histogram share must be between 0 and 1'') else Inr b
         | None \<Rightarrow> Inr b))))"

definition bin_index :: "dec \<Rightarrow> nat" where
  "bin_index d =
     (let v = dval d
      in if v < - 20 / 100 then 0
         else if v < - 10 / 100 then 1
         else if v < - 5 / 100 then 2
         else if v < 0 then 3
         else if v = 0 then 4
         else if v \<le> 5 / 100 then 5
         else if v \<le> 10 / 100 then 6
         else if v \<le> 20 / 100 then 7
         else 8)"

definition bin_counts :: "dec list \<Rightarrow> nat list" where
  "bin_counts returns = map (\<lambda>i. length (filter (\<lambda>v. bin_index v = i) returns)) [0..<9]"

definition histogram_entry ::
  "nat \<Rightarrow> (string \<times> dec option \<times> dec option \<times> bool \<times> bool) \<times> nat \<Rightarrow> histogram_bin res" where
  "histogram_entry total_count = (\<lambda>((code, lower, upper, lower_inclusive, upper_inclusive), n).
     bind_res (if total_count = 0 then Inr None else bind_res (ratio n total_count) (\<lambda>r. Inr (Some r))) (\<lambda>share.
       mk_histogram_bin \<lparr>hb_code = code, hb_lower_bound = lower, hb_upper_bound = upper,
         hb_lower_inclusive = lower_inclusive, hb_upper_inclusive = upper_inclusive, hb_count = n,
         hb_share = share,
         hb_share_reason = (if total_count = 0 then Some ''no_realized_samples'' else None)\<rparr>))"

definition histogram :: "dec list \<Rightarrow> histogram_bin list res" where
  "histogram returns =
     traverse (histogram_entry (length returns)) (zip histogram_contract (bin_counts returns))"

section \<open>Open trades and reliability\<close>

record open_metrics =
  om_count :: nat
  om_floating_pnl_total :: dec
  om_mean_floating_return :: "dec option"
  om_mean_floating_return_reason :: "string option"

definition mk_open_metrics :: "open_metrics \<Rightarrow> open_metrics res" where
  "mk_open_metrics m =
     (let m = m\<lparr>om_floating_pnl_total := canonical_zero (om_floating_pnl_total m),
                om_mean_floating_return := map_option canonical_zero (om_mean_floating_return m)\<rparr>
      in then_res (validate_optional_metric (om_mean_floating_return m) (om_mean_floating_return_reason m)
           ''mean_floating_return'' False)
        (if om_count m = 0 \<and> om_mean_floating_return m \<noteq> None
         then Inl (ValueError ''empty open samples cannot have a mean return'')
         else if 0 < om_count m \<and> om_mean_floating_return m = None
         then Inl (ValueError ''open samples require a mean return'')
         else Inr m))"

definition open_metrics_from_values :: "dec list \<Rightarrow> dec list \<Rightarrow> open_metrics res" where
  "open_metrics_from_values pnls returns =
     bind_res (dec_sum pnls) (\<lambda>s. bind_res (round_money s) (\<lambda>pnl_total.
     bind_res (mean returns) (\<lambda>m.
       mk_open_metrics \<lparr>om_count = length returns, om_floating_pnl_total = pnl_total, om_mean_floating_return = m,
         om_mean_floating_return_reason = (if returns = [] then Some ''no_open_samples'' else None)\<rparr>)))"

record reliability =
  rl_level :: string
  rl_reason :: "string option"
  rl_realized_count :: nat
  rl_largest_symbol_share :: "dec option"

definition reliability_semantics :: "nat \<Rightarrow> dec option \<Rightarrow> (string \<times> string option) res" where
  "reliability_semantics realized_count largest_symbol_share =
     (if realized_count = 0 then Inr (''low'', Some ''no_realized_samples'')
      else case largest_symbol_share of
          None \<Rightarrow> Inl AssertionError
        | Some share \<Rightarrow>
            if realized_count < 30 then Inr (''low'', Some ''small_sample'')
            else if 1 / 2 < dval share then Inr (''low'', Some ''high_symbol_concentration'')
            else if realized_count < 100 then Inr (''medium'', Some ''moderate_sample'')
            else Inr (''high'', None))"

definition mk_reliability :: "reliability \<Rightarrow> reliability res" where
  "mk_reliability r =
     (let r = r\<lparr>rl_largest_symbol_share := map_option canonical_zero (rl_largest_symbol_share r)\<rparr>
      in if rl_level r \<notin> {''low'', ''medium'', ''high''}
         then Inl (ValueError ''reliability level must be low, medium, or high'')
         else then_res (case rl_reason r of None \<Rightarrow> Inr () | Some t \<Rightarrow> validate_identity ''reliability reason'' t)
           (if rl_realized_count r = 0 \<and> rl_largest_symbol_share r \<noteq> None
            then Inl (ValueError ''empty reliability cannot have symbol concentration'')
            else if 0 < rl_realized_count r \<and> rl_largest_symbol_share r = None
            then Inl (ValueError ''nonempty reliability requires symbol concentration'')
            else if (case rl_largest_symbol_share r of None \<Rightarrow> False | Some s \<Rightarrow> \<not> (0 \<le> dval s \<and> dval s \<le> 1))
            then Inl (ValueError ''largest symbol share must be between 0 and 1'')
            else bind_res (reliability_semantics (rl_realized_count r) (rl_largest_symbol_share r)) (\<lambda>(level, reason).
              if (rl_level r, rl_reason r) \<noteq> (level, reason)
              then Inl (ValueError (''reliability must use ''
                @ (case reason of None \<Rightarrow> ''high_reliability'' | Some t \<Rightarrow> t) @ '' semantics''))
              else Inr r)))"

text \<open>\<open>max(Counter(symbols).values())\<close>.\<close>

definition largest_count :: "string list \<Rightarrow> nat" where
  "largest_count symbols = foldr max (map (\<lambda>s. length (filter (\<lambda>t. t = s) symbols)) symbols) 0"

definition reliability_from_symbols :: "string list \<Rightarrow> reliability res" where
  "reliability_from_symbols symbols =
     (let n = length symbols
      in if n = 0
         then mk_reliability \<lparr>rl_level = ''low'', rl_reason = Some ''no_realized_samples'', rl_realized_count = 0,
           rl_largest_symbol_share = None\<rparr>
         else bind_res (ratio (largest_count symbols) n) (\<lambda>largest_share.
           bind_res (reliability_semantics n (Some largest_share)) (\<lambda>(level, reason).
             mk_reliability \<lparr>rl_level = level, rl_reason = reason, rl_realized_count = n,
               rl_largest_symbol_share = Some largest_share\<rparr>)))"

section \<open>The summary\<close>

record backtest_metrics =
  bm_label :: string
  bm_realized_count :: nat
  bm_win_rate_denominator :: nat
  bm_positive_count :: nat
  bm_negative_count :: nat
  bm_zero_count :: nat
  bm_win_rate :: "dec option"
  bm_win_rate_reason :: "string option"
  bm_mean_net_return :: "dec option"
  bm_mean_net_return_reason :: "string option"
  bm_median_net_return :: "dec option"
  bm_median_net_return_reason :: "string option"
  bm_payoff_ratio :: "dec option"
  bm_payoff_ratio_reason :: "string option"
  bm_max_win_return :: "dec option"
  bm_max_win_return_reason :: "string option"
  bm_max_loss_return :: "dec option"
  bm_max_loss_return_reason :: "string option"
  bm_realized_net_pnl_total :: dec
  bm_average_holding_bars :: "dec option"
  bm_average_holding_bars_reason :: "string option"
  bm_average_holding_days :: "dec option"
  bm_average_holding_days_reason :: "string option"
  bm_histogram :: "histogram_bin list"
  bm_open_trades :: open_metrics
  bm_reliability :: reliability
  bm_realized_net_returns :: "dec list"
  bm_realized_net_pnls :: "dec list"
  bm_realized_holding_bars :: "int list"
  bm_realized_holding_days :: "int list"
  bm_realized_symbols :: "string list"
  bm_open_floating_pnls :: "dec list"
  bm_open_floating_returns :: "dec list"

definition canonicalize_metrics :: "backtest_metrics \<Rightarrow> backtest_metrics" where
  "canonicalize_metrics m = m
     \<lparr>bm_realized_net_returns := map canonical_zero (bm_realized_net_returns m),
      bm_realized_net_pnls := map canonical_zero (bm_realized_net_pnls m),
      bm_open_floating_pnls := map canonical_zero (bm_open_floating_pnls m),
      bm_open_floating_returns := map canonical_zero (bm_open_floating_returns m),
      bm_win_rate := map_option canonical_zero (bm_win_rate m),
      bm_mean_net_return := map_option canonical_zero (bm_mean_net_return m),
      bm_median_net_return := map_option canonical_zero (bm_median_net_return m),
      bm_payoff_ratio := map_option canonical_zero (bm_payoff_ratio m),
      bm_max_win_return := map_option canonical_zero (bm_max_win_return m),
      bm_max_loss_return := map_option canonical_zero (bm_max_loss_return m),
      bm_realized_net_pnl_total := canonical_zero (bm_realized_net_pnl_total m),
      bm_average_holding_bars := map_option canonical_zero (bm_average_holding_bars m),
      bm_average_holding_days := map_option canonical_zero (bm_average_holding_days m)\<rparr>"

text \<open>Equality of the parts of a summary, by value.\<close>

definition bin_eq :: "histogram_bin \<Rightarrow> histogram_bin \<Rightarrow> bool" where
  "bin_eq a b \<longleftrightarrow> hb_code a = hb_code b \<and> opt_eq (hb_lower_bound a) (hb_lower_bound b)
     \<and> opt_eq (hb_upper_bound a) (hb_upper_bound b) \<and> hb_lower_inclusive a = hb_lower_inclusive b
     \<and> hb_upper_inclusive a = hb_upper_inclusive b \<and> hb_count a = hb_count b
     \<and> opt_eq (hb_share a) (hb_share b) \<and> hb_share_reason a = hb_share_reason b"

definition reliability_eq :: "reliability \<Rightarrow> reliability \<Rightarrow> bool" where
  "reliability_eq a b \<longleftrightarrow> rl_level a = rl_level b \<and> rl_reason a = rl_reason b
     \<and> rl_realized_count a = rl_realized_count b \<and> opt_eq (rl_largest_symbol_share a) (rl_largest_symbol_share b)"

definition open_metrics_eq :: "open_metrics \<Rightarrow> open_metrics \<Rightarrow> bool" where
  "open_metrics_eq a b \<longleftrightarrow> om_count a = om_count b \<and> dec_eq (om_floating_pnl_total a) (om_floating_pnl_total b)
     \<and> opt_eq (om_mean_floating_return a) (om_mean_floating_return b)
     \<and> om_mean_floating_return_reason a = om_mean_floating_return_reason b"

definition contract_row_eq ::
  "histogram_bin \<Rightarrow> string \<times> dec option \<times> dec option \<times> bool \<times> bool \<Rightarrow> bool" where
  "contract_row_eq b = (\<lambda>(code, lower, upper, li, ui). hb_code b = code \<and> opt_eq (hb_lower_bound b) lower
     \<and> opt_eq (hb_upper_bound b) upper \<and> hb_lower_inclusive b = li \<and> hb_upper_inclusive b = ui)"

definition check_bin_share :: "nat \<Rightarrow> histogram_bin \<Rightarrow> unit res" where
  "check_bin_share realized_count b =
     (if realized_count = 0
      then (if hb_share b \<noteq> None \<or> hb_share_reason b \<noteq> Some ''no_realized_samples''
            then Inl (ValueError ''empty histogram shares require an explicit reason'') else Inr ())
      else bind_res (ratio (hb_count b) realized_count) (\<lambda>r.
        if \<not> opt_eq (hb_share b) (Some r) \<or> hb_share_reason b \<noteq> None
        then Inl (ValueError ''histogram share must equal count/global denominator'') else Inr ()))"

text \<open>
  \<open>abs(sum(shares) - 1) > len * RATIO_QUANTUM / 2\<close> in the default context; a missing or zero share adds
  \<open>Decimal("0")\<close>.
\<close>

definition share_error_exceeds :: "dec list \<Rightarrow> bool res" where
  "share_error_exceeds shares =
     bind_res (dec_sum shares) (\<lambda>s. bind_res (sub28 s (Dec False 1 0)) (\<lambda>d. bind_res (dec_abs d) (\<lambda>error.
     bind_res (mul28 (dec_of_int (int (length shares))) ratio_quantum) (\<lambda>t.
     bind_res (dec_div HalfEven default_prec t (Dec False 2 0)) (\<lambda>tolerance.
       Inr (dval tolerance < dval error))))))"

definition share_or_zero :: "dec option \<Rightarrow> dec" where
  "share_or_zero share = (case share of Some s \<Rightarrow> if dec_is_zero s then Dec False 0 0 else s | None \<Rightarrow> Dec False 0 0)"

definition check_derived ::
  "nat \<Rightarrow> string \<Rightarrow> dec option \<Rightarrow> string option \<Rightarrow> dec option res \<Rightarrow> string option \<Rightarrow> unit res" where
  "check_derived n field_name actual actual_reason expected expected_reason =
     bind_res expected (\<lambda>e.
       if \<not> (opt_eq actual e \<and> actual_reason = expected_reason)
       then Inl (ValueError (field_name @ (if n = 0 then '' must be None with no_realized_samples''
                                          else '' does not match global audit values'')))
       else Inr ())"

definition check_ratio :: "dec option \<Rightarrow> string option \<Rightarrow> dec option res \<Rightarrow> string option \<Rightarrow> string \<Rightarrow> unit res" where
  "check_ratio actual actual_reason expected expected_reason message =
     bind_res expected (\<lambda>e. if \<not> (opt_eq actual e \<and> actual_reason = expected_reason) then Inl (ValueError message)
       else Inr ())"

definition win_rate_of :: "dec list \<Rightarrow> dec option res" where
  "win_rate_of returns =
     (if returns = [] then Inr None
      else bind_res (ratio (length (filter (\<lambda>v. 0 < dval v) returns)) (length returns)) (\<lambda>r. Inr (Some r)))"

definition median_of :: "dec list \<Rightarrow> dec option res" where
  "median_of returns =
     (if returns = [] then Inr None else bind_res (median returns) (\<lambda>r. Inr (Some r)))"

text \<open>\<open>_validate_global_derivations\<close>. The tuples are built before the loop, so all five values are computed first.\<close>

definition validate_global_derivations :: "backtest_metrics \<Rightarrow> unit res" where
  "validate_global_derivations m =
     (let returns = bm_realized_net_returns m; pnls = bm_realized_net_pnls m; bars = bm_realized_holding_bars m;
          days = bm_realized_holding_days m; symbols = bm_realized_symbols m; n = bm_realized_count m;
          positive = filter (\<lambda>v. 0 < dval v) returns; negative = filter (\<lambda>v. dval v < 0) returns;
          reason = (if n = 0 then Some ''no_realized_samples'' else None)
      in if \<not> (length returns = length pnls \<and> length pnls = length bars \<and> length bars = length days
               \<and> length days = length symbols \<and> length symbols = n)
         then Inl (ValueError ''global metric audit values must match realized_count'')
         else if length (bm_open_floating_pnls m) \<noteq> length (bm_open_floating_returns m)
         then Inl (ValueError ''open metric audit values must have matching lengths'')
         else then_res (each (validate_identity ''realized symbol audit'') symbols)
        (if \<not> list_all (\<lambda>v. 0 \<le> v) (bars @ days)
         then Inl (ValueError ''holding audit values must be nonnegative integers'')
         else if \<not> (bm_positive_count m = length positive \<and> bm_negative_count m = length negative
                    \<and> bm_zero_count m = length (filter (\<lambda>v. dval v = 0) returns))
         then Inl (ValueError ''global sign counts must match realized return audit values'')
         else
          bind_res (win_rate_of returns) (\<lambda>w. bind_res (mean returns) (\<lambda>mr. bind_res (median_of returns) (\<lambda>md.
          bind_res (mean (map dec_of_int bars)) (\<lambda>ab. bind_res (mean (map dec_of_int days)) (\<lambda>ad.
          then_res (check_derived n ''win_rate'' (bm_win_rate m) (bm_win_rate_reason m) (Inr w) reason)
         (then_res (check_derived n ''mean_net_return'' (bm_mean_net_return m) (bm_mean_net_return_reason m) (Inr mr) reason)
         (then_res (check_derived n ''median_net_return'' (bm_median_net_return m) (bm_median_net_return_reason m)
            (Inr md) reason)
         (then_res (check_derived n ''average_holding_bars'' (bm_average_holding_bars m)
            (bm_average_holding_bars_reason m) (Inr ab) reason)
         (then_res (check_derived n ''average_holding_days'' (bm_average_holding_days m)
            (bm_average_holding_days_reason m) (Inr ad) reason)
         (bind_res (payoff positive negative) (\<lambda>(p, p_reason).
          then_res (check_ratio (bm_payoff_ratio m) (bm_payoff_ratio_reason m) (Inr p) p_reason
            ''payoff_ratio does not match global audit values'')
         (bind_res (round_optional (max_dec positive)) (\<lambda>max_win.
          bind_res (round_optional (min_dec negative)) (\<lambda>max_loss.
          then_res (check_ratio (bm_max_win_return m) (bm_max_win_return_reason m) (Inr max_win)
            (if positive = [] then Some ''no_positive_returns'' else None)
            ''max_win_return does not match global audit values'')
         (then_res (check_ratio (bm_max_loss_return m) (bm_max_loss_return_reason m) (Inr max_loss)
            (if negative = [] then Some ''no_negative_returns'' else None)
            ''max_loss_return does not match global audit values'')
         (bind_res (dec_sum pnls) (\<lambda>s. bind_res (round_money s) (\<lambda>pnl_total.
          if \<not> dec_eq (bm_realized_net_pnl_total m) pnl_total
          then Inl (ValueError ''realized_net_pnl_total does not match global audit values'')
          else
           bind_res (histogram returns) (\<lambda>h.
           if \<not> list_all2 bin_eq (bm_histogram m) h
           then Inl (ValueError ''histogram does not match realized return audit values'')
           else bind_res (reliability_from_symbols symbols) (\<lambda>rel.
             if \<not> reliability_eq (bm_reliability m) rel
             then Inl (ValueError ''reliability does not match realized symbol audit values'')
             else bind_res (open_metrics_from_values (bm_open_floating_pnls m) (bm_open_floating_returns m)) (\<lambda>om.
               if \<not> open_metrics_eq (bm_open_trades m) om
               then Inl (ValueError ''open metrics do not match open value audit inputs'')
               else Inr ())))))))))))))))))))))))"

definition optional_metric_fields :: "backtest_metrics \<Rightarrow> (string \<times> dec option \<times> string option) list" where
  "optional_metric_fields m =
     [(''win_rate'', bm_win_rate m, bm_win_rate_reason m),
      (''mean_net_return'', bm_mean_net_return m, bm_mean_net_return_reason m),
      (''median_net_return'', bm_median_net_return m, bm_median_net_return_reason m),
      (''payoff_ratio'', bm_payoff_ratio m, bm_payoff_ratio_reason m),
      (''max_win_return'', bm_max_win_return m, bm_max_win_return_reason m),
      (''max_loss_return'', bm_max_loss_return m, bm_max_loss_return_reason m),
      (''average_holding_bars'', bm_average_holding_bars m, bm_average_holding_bars_reason m),
      (''average_holding_days'', bm_average_holding_days m, bm_average_holding_days_reason m)]"

definition validate_metrics :: "backtest_metrics \<Rightarrow> unit res" where
  "validate_metrics m =
     (if bm_label m \<noteq> independent_sample_label
      then Inl (ValueError ''metrics must retain the independent-sample label'')
      else if bm_win_rate_denominator m \<noteq> bm_realized_count m
      then Inl (ValueError ''win-rate denominator must equal realized_count'')
      else if bm_positive_count m + bm_negative_count m + bm_zero_count m \<noteq> bm_realized_count m
      then Inl (ValueError ''realized sign counts must reconcile'')
      else then_res (each (\<lambda>(f, v, r). validate_optional_metric v r f False) (optional_metric_fields m))
        (if sum_list (map hb_count (bm_histogram m)) \<noteq> bm_realized_count m
         then Inl (ValueError ''histogram counts must reconcile to realized_count'')
         else if rl_realized_count (bm_reliability m) \<noteq> bm_realized_count m
         then Inl (ValueError ''reliability realized_count must equal global realized_count'')
         else if \<not> list_all2 contract_row_eq (bm_histogram m) histogram_contract
         then Inl (ValueError ''histogram must use the exact fixed 9-bin contract'')
         else then_res (each (check_bin_share (bm_realized_count m)) (bm_histogram m))
          (bind_res (if bm_realized_count m = 0 then Inr False
                     else share_error_exceeds (map (share_or_zero \<circ> hb_share) (bm_histogram m))) (\<lambda>exceeds.
           if exceeds then Inl (ValueError ''histogram shares exceed the quantization error bound'')
           else validate_global_derivations m))))"

definition mk_backtest_metrics :: "backtest_metrics \<Rightarrow> backtest_metrics res" where
  "mk_backtest_metrics m =
     (let c = canonicalize_metrics m in then_res (validate_metrics c) (Inr c))"

section \<open>Identities and summarize\<close>

record trade_identity =
  ti_symbol :: string
  ti_entry_signal_at :: pytime
  ti_entry_fill_at :: pytime
  ti_entry_eligible_at :: pytime
  ti_formula_version_id :: string
  ti_signal_series_id :: string
  ti_market_manifest_ids :: "string list"
  ti_status_manifest_ids :: "string list"
  ti_quantity :: int
  ti_entry_reference_open :: rat

text \<open>The price of an identity is held by value, as the equality and the hash of a Decimal are.\<close>

definition entry_pendings :: "trade_sample \<Rightarrow> order_event list" where
  "entry_pendings s = filter (\<lambda>e. is_OrderPending e \<and> pending_side e = Buy \<and> pending_signal_at e = ts_entry_signal_at s)
     (ts_order_events s)"

definition identity_of :: "trade_sample \<Rightarrow> trade_identity res" where
  "identity_of s =
     (case entry_pendings s of
        [p] \<Rightarrow> Inr \<lparr>ti_symbol = ts_symbol s, ti_entry_signal_at = ts_entry_signal_at s,
          ti_entry_fill_at = ts_entry_fill_at s, ti_entry_eligible_at = pending_eligible_at p,
          ti_formula_version_id = ts_formula_version_id s, ti_signal_series_id = ts_signal_series_id s,
          ti_market_manifest_ids = ts_market_manifest_ids s, ti_status_manifest_ids = ts_status_manifest_ids s,
          ti_quantity = ts_quantity s, ti_entry_reference_open = dval (ts_entry_reference_open s)\<rparr>
      | _ \<Rightarrow> Inl (ValueError ''trade sample is missing stable entry order identity''))"

definition identity_step :: "trade_identity list \<Rightarrow> trade_sample \<Rightarrow> trade_identity list res" where
  "identity_step identities s =
     bind_res (identity_of s) (\<lambda>i.
       if i \<in> set identities then Inl (ValueError ''duplicate trade identity is not allowed'')
       else Inr (i # identities))"

definition freeze_unique_samples :: "trade_sample list \<Rightarrow> trade_sample list res" where
  "freeze_unique_samples samples = then_res (run_res identity_step [] samples) (Inr samples)"

definition required_metric_return :: "trade_sample \<Rightarrow> dec res" where
  "required_metric_return s =
     (case ts_net_return s of None \<Rightarrow> Inl (ValueError ''realized sample requires net_return'') | Some d \<Rightarrow> Inr d)"

definition required_metric_pnl :: "trade_sample \<Rightarrow> dec res" where
  "required_metric_pnl s =
     (case ts_net_pnl s of None \<Rightarrow> Inl (ValueError ''realized sample requires net_pnl'') | Some d \<Rightarrow> Inr d)"

definition required_floating_return :: "trade_sample \<Rightarrow> dec res" where
  "required_floating_return s =
     (case ts_floating_return s of None \<Rightarrow> Inl (ValueError ''open sample requires floating_return'') | Some d \<Rightarrow> Inr d)"

definition required_floating_pnl :: "trade_sample \<Rightarrow> dec res" where
  "required_floating_pnl s =
     (case ts_floating_pnl s of None \<Rightarrow> Inl (ValueError ''open sample requires floating_pnl'') | Some d \<Rightarrow> Inr d)"

text \<open>The values of a summary, before its constructor audits them.\<close>

definition summary_values :: "trade_sample list \<Rightarrow> backtest_metrics res" where
  "summary_values samples =
     (let realized = filter ts_realized samples; opened = filter (\<lambda>s. \<not> ts_realized s) samples; n = length realized;
          reason = (if n = 0 then Some ''no_realized_samples'' else None);
          bars = map ts_holding_bars realized; days = map ts_holding_days realized
      in bind_res (traverse required_metric_return realized) (\<lambda>returns.
      (let positive = filter (\<lambda>v. 0 < dval v) returns; negative = filter (\<lambda>v. dval v < 0) returns
       in bind_res (win_rate_of returns) (\<lambda>win_rate.
          bind_res (mean returns) (\<lambda>mean_return.
          bind_res (median_of returns) (\<lambda>median_return.
          bind_res (payoff positive negative) (\<lambda>(payoff_ratio, payoff_reason).
          bind_res (round_optional (max_dec positive)) (\<lambda>max_win.
          bind_res (round_optional (min_dec negative)) (\<lambda>max_loss.
          bind_res (mean (map dec_of_int bars)) (\<lambda>average_bars.
          bind_res (mean (map dec_of_int days)) (\<lambda>average_days.
          bind_res (traverse required_metric_pnl realized) (\<lambda>pnls.
          bind_res (dec_sum pnls) (\<lambda>s. bind_res (round_money s) (\<lambda>pnl_total.
          bind_res (histogram returns) (\<lambda>h.
          bind_res (traverse required_floating_return opened) (\<lambda>open_returns.
          bind_res (traverse required_floating_pnl opened) (\<lambda>open_pnls.
          bind_res (open_metrics_from_values open_pnls open_returns) (\<lambda>open_trades.
          bind_res (reliability_from_symbols (map ts_symbol realized)) (\<lambda>rel.
          Inr \<lparr>bm_label = independent_sample_label, bm_realized_count = n, bm_win_rate_denominator = n,
               bm_positive_count = length positive, bm_negative_count = length negative,
               bm_zero_count = length (filter (\<lambda>v. dval v = 0) returns),
               bm_win_rate = win_rate, bm_win_rate_reason = reason,
               bm_mean_net_return = mean_return, bm_mean_net_return_reason = reason,
               bm_median_net_return = median_return, bm_median_net_return_reason = reason,
               bm_payoff_ratio = payoff_ratio, bm_payoff_ratio_reason = payoff_reason,
               bm_max_win_return = max_win,
               bm_max_win_return_reason = (if positive = [] then Some ''no_positive_returns'' else None),
               bm_max_loss_return = max_loss,
               bm_max_loss_return_reason = (if negative = [] then Some ''no_negative_returns'' else None),
               bm_realized_net_pnl_total = pnl_total,
               bm_average_holding_bars = average_bars, bm_average_holding_bars_reason = reason,
               bm_average_holding_days = average_days, bm_average_holding_days_reason = reason,
               bm_histogram = h, bm_open_trades = open_trades, bm_reliability = rel,
               bm_realized_net_returns = returns, bm_realized_net_pnls = pnls, bm_realized_holding_bars = bars,
               bm_realized_holding_days = days, bm_realized_symbols = map ts_symbol realized,
               bm_open_floating_pnls = open_pnls, bm_open_floating_returns = open_returns\<rparr>)))))))))))))))))))"

definition summarize :: "trade_sample list \<Rightarrow> backtest_metrics res" where
  "summarize samples =
     bind_res (freeze_unique_samples samples) (\<lambda>frozen. bind_res (summary_values frozen) mk_backtest_metrics)"

section \<open>Rounded ratios of counts\<close>

lemma quantum_expo6 [simp]: "expo ratio_quantum = -6"
  by (simp add: ratio_quantum_def)

lemma round_ratio_Inr: "round_ratio v = Inr r \<Longrightarrow> canonical r"
  by (auto simp: round_ratio_def res_simps)

lemma round_ratio_small:
  assumes "\<bar>dval v\<bar> \<le> 1"
  shows "\<exists>r. round_ratio v = Inr r \<and> dval r = rhu (-6) (dval v)"
proof -
  have a: "adjusted v \<le> 0" if "coeff v \<noteq> 0"
  proof -
    have "(10 :: rat) powi adjusted v \<le> 10 powi 0" using abs_dval_ge [OF that] assms by simp
    then show ?thesis by (simp only: pow10_le_iff)
  qed
  then have acc: "accountable v" by (cases "coeff v = 0") (auto simp: accountable_def)
  obtain x where x: "dec_quantize HalfUp 28 v ratio_quantum = Inr x"
    using dec_quantize_ok [OF acc, of ratio_quantum 28] a by (cases "coeff v = 0") auto
  have "dval x = rhu (-6) (dval v)" using dec_quantize_Inr [OF x] by simp
  with x show ?thesis by (simp add: round_ratio_def default_prec_def)
qed

lemma ratio_ok:
  assumes "i \<le> n" and "0 < n" and "n < 10 ^ 100"
  shows "\<exists>r. ratio i n = Inr r \<and> canonical r \<and> scaled 6 (dval r) \<and> 0 \<le> dval r \<and> dval r \<le> 1
    \<and> \<bar>dval r - of_nat i / of_nat n\<bar> \<le> 10 powi (-6) / 2 + 10 powi (-25)"
proof -
  from count_ratio [OF assms] obtain v where v: "divide_decimal (dec_of_int (int i)) (dec_of_int (int n)) = Inr v"
    "0 \<le> dval v" "dval v \<le> 1" "\<bar>dval v - of_nat i / of_nat n\<bar> \<le> 10 powi (-25)" by blast
  from v(2,3) obtain r where r: "round_ratio v = Inr r" "dval r = rhu (-6) (dval v)"
    using round_ratio_small [of v] by auto
  have "\<bar>dval r - dval v\<bar> \<le> 10 powi (-6) / 2" unfolding r(2) by (rule rhu_error)
  with v(4) have "\<bar>dval r - of_nat i / of_nat n\<bar> \<le> 10 powi (-6) / 2 + 10 powi (-25)" by linarith
  moreover have "0 \<le> dval r" using v(2) by (simp add: r(2) rhu_nonneg)
  moreover have "dval r \<le> 1"
  proof -
    have "rhu (-6) 1 = 1" using rhu_scaled [of 6 1] scaled_raise [OF scaled_one, of 6] by simp
    then show ?thesis using rhu_mono [OF v(3), of "-6"] by (simp add: r(2))
  qed
  moreover have "scaled 6 (dval r)" unfolding r(2) using scaled_rhu [of "-6"] by simp
  ultimately show ?thesis using v(1) r(1) round_ratio_Inr [OF r(1)] by (simp add: ratio_def)
qed

section \<open>Sums of shares\<close>

lemma dec_sum_from_exact:
  assumes "scaled 6 (dval acc)" and "0 \<le> dval acc" and "\<forall>x \<in> set xs. scaled 6 (dval x) \<and> 0 \<le> dval x"
    and "dval acc + sum_list (map dval xs) < 10 powi 20"
  shows "\<exists>s. dec_sum_from acc xs = Inr s \<and> dval s = dval acc + sum_list (map dval xs)"
  using assms
proof (induction xs arbitrary: acc)
  case (Cons x xs)
  have nn: "0 \<le> sum_list (map dval xs)" using Cons.prems(3) by (intro sum_list_nonneg) auto
  have s: "scaled 6 (dval acc + dval x)" using Cons.prems by (intro scaled_add) simp_all
  have "fits default_prec (dval acc + dval x)"
    by (rule fits_scaled [OF s, of 20]) (use Cons.prems nn in \<open>simp_all add: default_prec_def\<close>)
  then obtain y where y: "add28 acc x = Inr y" "dval y = dval acc + dval x"
    using dec_add_exact [of default_prec acc x HalfEven] by (auto simp: default_prec_def)
  have "\<exists>t. dec_sum_from y xs = Inr t \<and> dval t = dval y + sum_list (map dval xs)"
    by (rule Cons.IH) (use Cons.prems y s in \<open>simp_all add: add.assoc\<close>)
  then show ?case using y by (simp add: add.assoc)
qed simp

lemma dval_share_or_zero: "dval (share_or_zero (Some s)) = dval s"
  by (simp add: share_or_zero_def dec_is_zero_def dval_def)

lemma share_tolerance:
  assumes "list_all2 (\<lambda>i r. ratio i n = Inr r) counts shares" and "sum_list counts = n" and "0 < n"
    and "n < 10 ^ 100"
  shows "\<bar>sum_list (map dval shares) - 1\<bar> \<le> of_nat (length shares) * (10 powi (-6) / 2 + 10 powi (-25))"
    and "\<forall>s \<in> set shares. scaled 6 (dval s) \<and> 0 \<le> dval s \<and> dval s \<le> 1"
proof -
  have each_le: "\<forall>i \<in> set counts. i \<le> n" using assms(2) by (auto intro: member_le_sum_list)
  have one: "scaled 6 (dval r) \<and> 0 \<le> dval r \<and> dval r \<le> 1 \<and> \<bar>dval r - of_nat i / of_nat n\<bar> \<le> 10 powi (-6) / 2 + 10 powi (-25)"
    if "ratio i n = Inr r" "i \<le> n" for i r
    using ratio_ok [OF that(2) assms(3,4)] that(1) by auto
  have "list_all2 (\<lambda>i r. ratio i n = Inr r) is rs \<Longrightarrow> \<forall>i \<in> set is. i \<le> n \<Longrightarrow>
      \<bar>sum_list (map dval rs) - of_nat (sum_list is) / of_nat n\<bar> \<le> of_nat (length rs) * (10 powi (-6) / 2 + 10 powi (-25))
      \<and> (\<forall>s \<in> set rs. scaled 6 (dval s) \<and> 0 \<le> dval s \<and> dval s \<le> 1)" for "is" rs
  proof (induction rule: list_all2_induct)
    case (Cons i "is" r rs)
    let ?e = "10 powi (-6) / 2 + 10 powi (-25) :: rat"
    have r: "scaled 6 (dval r) \<and> 0 \<le> dval r \<and> dval r \<le> 1" "\<bar>dval r - of_nat i / of_nat n\<bar> \<le> ?e"
      using one [OF Cons.hyps(1)] Cons.prems by simp_all
    have IH: "\<bar>sum_list (map dval rs) - of_nat (sum_list is) / of_nat n\<bar> \<le> of_nat (length rs) * ?e"
      using Cons.IH Cons.prems by simp
    have "of_nat (sum_list (i # is)) / of_nat n = of_nat i / of_nat n + (of_nat (sum_list is) / of_nat n :: rat)"
      by (simp add: add_divide_distrib)
    moreover have "of_nat (length (r # rs)) * ?e = ?e + of_nat (length rs) * ?e" by (simp add: distrib_right)
    ultimately have "\<bar>sum_list (map dval (r # rs)) - of_nat (sum_list (i # is)) / of_nat n\<bar> \<le> of_nat (length (r # rs)) * ?e"
      using r(2) IH unfolding list.map sum_list.Cons by linarith
    with r(1) Cons show ?case by simp
  qed simp
  from this [OF assms(1) each_le] show
    "\<bar>sum_list (map dval shares) - 1\<bar> \<le> of_nat (length shares) * (10 powi (-6) / 2 + 10 powi (-25))"
    "\<forall>s \<in> set shares. scaled 6 (dval s) \<and> 0 \<le> dval s \<and> dval s \<le> 1" using assms(2,3) by simp_all
qed
lemma dval_ratio_quantum: "dval ratio_quantum = 1 / 1000000"
  by (simp add: ratio_quantum_def dval_def)

text \<open>The audit of the shares: the sum of the rounded shares is one up to half a quantum per share.\<close>

lemma share_error_within:
  assumes all2: "list_all2 (\<lambda>i r. ratio i n = Inr r) counts shares" and sum: "sum_list counts = n" and "0 < n"
    and "n < 10 ^ 100" and len: "length shares < 10 ^ 18"
    and eq: "map dval zs = map dval shares"
  shows "share_error_exceeds zs = Inr False"
proof -
  note tol = share_tolerance [OF all2 sum assms(3,4)]
  let ?S = "sum_list (map dval shares)" and ?l = "of_nat (length shares) :: rat"
  have lz: "length zs = length shares" using eq by (metis length_map)
  have l: "?l < 10 powi 18"
  proof -
    have "(of_nat (length shares) :: rat) < of_nat (10 ^ 18)" using len by (simp only: of_nat_less_iff)
    then show ?thesis by simp
  qed
  have zs: "\<forall>x \<in> set zs. scaled 6 (dval x) \<and> 0 \<le> dval x"
  proof
    fix x assume "x \<in> set zs"
    then have "dval x \<in> set (map dval shares)" using eq by (metis image_eqI list.set_map)
    with tol(2) show "scaled 6 (dval x) \<and> 0 \<le> dval x" by auto
  qed
  have sc: "scaled 6 ?S" using tol(2) by (induction shares) (auto intro: scaled_add simp: scaled_raise [OF scaled_of_int [of 0, simplified]])
  have upper: "\<bar>?S - 1\<bar> < 10 powi 13"
  proof -
    have "?l * (10 powi (-6) / 2 + 10 powi (-25)) \<le> 10 powi 18 * (10 powi (-6) / 2 + 10 powi (-25))"
      by (rule mult_right_mono) (use l in simp_all)
    also have "\<dots> < 10 powi 12" by simp
    finally show ?thesis using tol(1) by simp
  qed
  obtain s where s: "dec_sum zs = Inr s" "dval s = ?S"
  proof -
    have "\<exists>s. dec_sum_from (Dec False 0 0) zs = Inr s \<and> dval s = dval (Dec False 0 0) + sum_list (map dval zs)"
    proof (rule dec_sum_from_exact)
      show "scaled 6 (dval (Dec False 0 0))" using scaled_raise [OF scaled_of_int [of 0], of 6] by (simp add: dval_def)
      show "dval (Dec False 0 0) + sum_list (map dval zs) < 10 powi 20" using upper by (simp add: eq dval_def abs_less_iff)
    qed (use zs in \<open>simp_all add: dval_def\<close>)
    with that show ?thesis by (auto simp: dec_sum_def eq dval_def)
  qed
  have s1: "scaled 6 (?S - 1)" by (rule scaled_diff [OF sc scaled_raise [OF scaled_one]]) simp
  obtain d where d: "sub28 s (Dec False 1 0) = Inr d" "dval d = ?S - 1"
  proof -
    have "fits default_prec (dval s - dval (Dec False 1 0))"
      unfolding s(2) by (rule fits_scaled [of 6 _ 13]) (use s1 upper in \<open>simp_all add: dval_def default_prec_def\<close>)
    from dec_sub_exact [OF _ this, of HalfEven] that s(2) show ?thesis by (auto simp: dval_def default_prec_def)
  qed
  obtain e where e: "dec_abs d = Inr e" "dval e = \<bar>?S - 1\<bar>"
  proof -
    have "fits 28 (?S - 1)" by (rule fits_scaled [OF s1 upper]) simp_all
    then have "fits 28 (dval (copy_abs d))" using d(2) by (simp add: dval_copy_abs fits_def)
    from dec_fix_exact [OF _ this, of HalfEven] that d(2) show ?thesis
      by (auto simp: dec_abs_def dval_copy_abs default_prec_def)
  qed
  obtain t where t: "mul28 (dec_of_int (int (length zs))) ratio_quantum = Inr t" "dval t = ?l * 10 powi (-6)"
  proof -
    have "scaled 6 (?l * 10 powi (-6))" by (rule scaledI [of _ "int (length shares)"]) simp
    moreover have "?l * 10 powi (-6) < 10 powi 12" using l by (simp add: divide_less_eq)
    ultimately have "fits default_prec (dval (dec_of_int (int (length zs))) * dval ratio_quantum)"
      using fits_scaled [of 6 "?l * 10 powi (-6)" 12 28] by (simp add: dval_ratio_quantum default_prec_def lz)
    from dec_mul_exact [OF _ this, of HalfEven] that lz show ?thesis
      by (auto simp: dval_ratio_quantum default_prec_def)
  qed
  obtain u where u: "dec_div HalfEven default_prec t (Dec False 2 0) = Inr u" "dval u = ?l * 10 powi (-6) / 2"
  proof -
    have "?l * 10 powi (-6) / 2 = of_int (5 * int (length shares)) * 10 powi (- 7)" by simp
    then have "scaled 7 (?l * 10 powi (-6) / 2)" by (rule scaledI)
    moreover have "?l * 10 powi (-6) / 2 < 10 powi 12" using l by (simp add: divide_less_eq)
    ultimately have "fits default_prec (dval t / dval (Dec False 2 0))"
      using fits_scaled [of 7 "?l * 10 powi (-6) / 2" 12 28] by (simp add: t(2) dval_def [of "Dec False 2 0"] default_prec_def)
    from dec_div_exact [OF _ _ this, of HalfEven] that t(2) show ?thesis by (auto simp: dval_def [of "Dec False 2 0"] default_prec_def)
  qed
  have "\<bar>?S - 1\<bar> \<le> ?l * 10 powi (-6) / 2"
  proof -
    obtain k where k: "?S - 1 = of_int k * 10 powi (- 6)" using s1 by (auto simp: scaled_def)
    have "of_int (2 * \<bar>k\<bar>) * 10 powi (-6) / 2 \<le> ?l * (10 powi (-6) / 2 + 10 powi (-25))"
      using tol(1) unfolding k by (simp add: abs_mult)
    also have "\<dots> < (?l + 1) * 10 powi (-6) / 2" using l by (simp add: field_simps)
    finally have "(of_int (2 * \<bar>k\<bar>) :: rat) < of_int (int (length shares) + 1)" by simp
    then have "2 * \<bar>k\<bar> \<le> int (length shares)" by (simp only: of_int_less_iff)
    then have "(of_int (2 * \<bar>k\<bar>) :: rat) \<le> of_int (int (length shares))" by (simp only: of_int_le_iff)
    then show ?thesis unfolding k by (simp add: abs_mult)
  qed
  then have "\<not> dval u < dval e" by (simp only: u e not_less)
  with s d e t u show ?thesis by (simp add: share_error_exceeds_def)
qed
section \<open>The histogram\<close>

lemma ratio_Inr: "ratio i n = Inr r \<Longrightarrow> canonical r"
  by (auto simp: ratio_def res_simps dest: round_ratio_Inr)

lemma opt_eq_refl [simp]: "opt_eq x x"
  by (simp add: opt_eq_def)

lemma dec_eq_refl [simp]: "dec_eq x x"
  by (simp add: dec_eq_def)

lemma opt_eq_canonical [simp]: "opt_eq (map_option canonical_zero x) x"
  by (cases x) (simp_all add: opt_eq_def)

lemma mk_histogram_bin_Inr:
  assumes "mk_histogram_bin b = Inr c"
  shows "c = b\<lparr>hb_lower_bound := map_option canonical_zero (hb_lower_bound b),
                hb_upper_bound := map_option canonical_zero (hb_upper_bound b),
                hb_share := map_option canonical_zero (hb_share b)\<rparr>"
  using assms unfolding mk_histogram_bin_def Let_def
  by (auto simp: then_res_Inr_iff split: option.splits if_splits)

definition bin_share_of :: "nat \<Rightarrow> histogram_bin \<Rightarrow> bool" where
  "bin_share_of n b \<longleftrightarrow> (if n = 0 then hb_share b = None \<and> hb_share_reason b = Some ''no_realized_samples''
     else \<exists>r. ratio (hb_count b) n = Inr r \<and> hb_share b = Some r \<and> hb_share_reason b = None)"

lemma histogram_entry_Inr:
  assumes "histogram_entry n (row, c) = Inr b"
  shows "contract_row_eq b row \<and> hb_count b = c \<and> bin_share_of n b"
proof -
  obtain code lower upper li ui where row: "row = (code, lower, upper, li, ui)" by (cases row) auto
  from assms obtain share where
    s: "(if n = 0 then Inr None else bind_res (ratio c n) (\<lambda>r. Inr (Some r))) = Inr share"
    and b: "mk_histogram_bin \<lparr>hb_code = code, hb_lower_bound = lower, hb_upper_bound = upper,
         hb_lower_inclusive = li, hb_upper_inclusive = ui, hb_count = c, hb_share = share,
         hb_share_reason = (if n = 0 then Some ''no_realized_samples'' else None)\<rparr> = Inr b"
    by (auto simp: histogram_entry_def row bind_res_Inr_iff)
  note b = mk_histogram_bin_Inr [OF b]
  show ?thesis
  proof (cases "n = 0")
    case True
    with s b show ?thesis by (simp add: row contract_row_eq_def bin_share_of_def)
  next
    case False
    with s obtain r where r: "ratio c n = Inr r" "share = Some r" by (auto simp: bind_res_Inr_iff)
    then have "canonical_zero r = r" by (intro canonical_id ratio_Inr)
    with False r b show ?thesis by (simp add: row contract_row_eq_def bin_share_of_def)
  qed
qed

lemma bin_index_less: "bin_index v < 9"
  by (simp add: bin_index_def Let_def)

lemma bin_counts_sum: "sum_list (bin_counts returns) = length returns"
proof (induction returns)
  case (Cons v returns)
  have "sum_list (map (\<lambda>i. length (filter (\<lambda>w. bin_index w = i) (v # returns))) [0..<9])
    = sum_list (map (\<lambda>i. (if bin_index v = i then 1 else 0) + length (filter (\<lambda>w. bin_index w = i) returns)) [0..<9])"
    by (rule arg_cong [where f = sum_list], rule map_cong) auto
  also have "\<dots> = sum_list (map (\<lambda>i. if bin_index v = i then 1 else 0) [0..<9]) + sum_list (bin_counts returns)"
    by (simp add: sum_list_addf bin_counts_def)
  also have "sum_list (map (\<lambda>i. if bin_index v = i then 1 else 0) [0..<9]) = (1 :: nat)"
    using bin_index_less [of v] by (simp add: sum_list_distinct_conv_sum_set)
  finally show ?case using Cons by (simp add: bin_counts_def)
qed (simp add: bin_counts_def)

lemma length_bin_counts: "length (bin_counts returns) = length histogram_contract"
  by (simp add: bin_counts_def histogram_contract_def)

lemma histogram_Inr:
  assumes "histogram returns = Inr h"
  shows "list_all2 contract_row_eq h histogram_contract \<and> map hb_count h = bin_counts returns
    \<and> list_all (bin_share_of (length returns)) h"
proof -
  have aux: "traverse (histogram_entry n) (zip rows cs) = Inr bs \<Longrightarrow> length cs = length rows \<Longrightarrow>
      list_all2 contract_row_eq bs rows \<and> map hb_count bs = cs \<and> list_all (bin_share_of n) bs" for n rows cs bs
  proof (induction rows arbitrary: cs bs)
    case (Cons row rows)
    then obtain c cs' where cs: "cs = c # cs'" by (cases cs) auto
    with Cons.prems obtain b bs' where b: "histogram_entry n (row, c) = Inr b" "bs = b # bs'"
        "traverse (histogram_entry n) (zip rows cs') = Inr bs'" by (auto simp: bind_res_Inr_iff)
    with Cons.IH [OF b(3)] Cons.prems(2) histogram_entry_Inr [OF b(1)] cs show ?case by simp
  qed simp
  show ?thesis using assms aux [OF _ length_bin_counts] by (simp add: histogram_def)
qed

lemma histogram_shares:
  assumes h: "histogram returns = Inr h" and "returns \<noteq> []" and "length returns < 10 ^ 100"
  shows "share_error_exceeds (map (share_or_zero \<circ> hb_share) h) = Inr False"
proof -
  let ?n = "length returns"
  note h = histogram_Inr [OF h]
  have shares: "\<forall>b \<in> set h. \<exists>r. ratio (hb_count b) ?n = Inr r \<and> hb_share b = Some r"
    using h assms(2) by (auto simp: list_all_iff bin_share_of_def)
  define rs where "rs = map (the \<circ> hb_share) h"
  have "list_all2 (\<lambda>i r. ratio i ?n = Inr r) (map hb_count h) rs"
    using shares by (auto simp: rs_def list_all2_conv_all_nth all_set_conv_all_nth)
  moreover have "sum_list (map hb_count h) = ?n" using h bin_counts_sum by simp
  moreover have "length rs < 10 ^ 18"
  proof -
    have "length h = length (bin_counts returns)" using h by (metis length_map)
    then show ?thesis by (simp add: rs_def bin_counts_def)
  qed
  moreover have "map dval (map (share_or_zero \<circ> hb_share) h) = map dval rs"
    using shares by (auto simp: rs_def dval_share_or_zero)
  ultimately show ?thesis using share_error_within [of ?n "map hb_count h" rs] assms(2,3) by simp
qed
definition bin_admits :: "histogram_bin \<Rightarrow> dec \<Rightarrow> bool" where
  "bin_admits b v \<longleftrightarrow>
     (case hb_lower_bound b of None \<Rightarrow> True | Some l \<Rightarrow> if hb_lower_inclusive b then dval l \<le> dval v else dval l < dval v)
     \<and> (case hb_upper_bound b of None \<Rightarrow> True | Some u \<Rightarrow> if hb_upper_inclusive b then dval v \<le> dval u else dval v < dval u)"

definition row_admits :: "string \<times> dec option \<times> dec option \<times> bool \<times> bool \<Rightarrow> rat \<Rightarrow> bool" where
  "row_admits = (\<lambda>(code, lower, upper, li, ui) v.
     (case lower of None \<Rightarrow> True | Some l \<Rightarrow> if li then dval l \<le> v else dval l < v)
     \<and> (case upper of None \<Rightarrow> True | Some u \<Rightarrow> if ui then v \<le> dval u else v < dval u))"

lemma bin_admits_row: "contract_row_eq b row \<Longrightarrow> bin_admits b v = row_admits row (dval v)"
proof -
  obtain code lower upper li ui where row: "row = (code, lower, upper, li, ui)" by (cases row) auto
  assume "contract_row_eq b row"
  then have *: "opt_eq (hb_lower_bound b) lower" "opt_eq (hb_upper_bound b) upper" "hb_lower_inclusive b = li"
      "hb_upper_inclusive b = ui" by (simp_all add: row contract_row_eq_def)
  have "(case hb_lower_bound b of None \<Rightarrow> True | Some l \<Rightarrow> if li then dval l \<le> dval v else dval l < dval v)
      = (case lower of None \<Rightarrow> True | Some l \<Rightarrow> if li then dval l \<le> dval v else dval l < dval v)"
    using *(1) by (cases "hb_lower_bound b"; cases lower) (simp_all add: opt_eq_def)
  moreover have "(case hb_upper_bound b of None \<Rightarrow> True | Some u \<Rightarrow> if ui then dval v \<le> dval u else dval v < dval u)
      = (case upper of None \<Rightarrow> True | Some u \<Rightarrow> if ui then dval v \<le> dval u else dval v < dval u)"
    using *(2) by (cases "hb_upper_bound b"; cases upper) (simp_all add: opt_eq_def)
  ultimately show ?thesis by (simp only: bin_admits_def row_admits_def row *(3,4) prod.case)
qed

lemma contract_bounds: "map row_admits histogram_contract =
   [\<lambda>v. v < - 20 / 100, \<lambda>v. - 20 / 100 \<le> v \<and> v < - 10 / 100, \<lambda>v. - 10 / 100 \<le> v \<and> v < - 5 / 100,
    \<lambda>v. - 5 / 100 \<le> v \<and> v < 0, \<lambda>v. 0 \<le> v \<and> v \<le> 0, \<lambda>v. 0 < v \<and> v \<le> 5 / 100,
    \<lambda>v. 5 / 100 < v \<and> v \<le> 10 / 100, \<lambda>v. 10 / 100 < v \<and> v \<le> 20 / 100, \<lambda>v. 20 / 100 < v]"
  by (simp add: histogram_contract_def row_admits_def dval_Dec fun_eq_iff)

lemma bin_index_admits:
  assumes "i < 9"
  shows "bin_index v = i \<longleftrightarrow> row_admits (histogram_contract ! i) (dval v)"
proof -
  have len: "length histogram_contract = 9" by (simp add: histogram_contract_def)
  have adm: "row_admits (histogram_contract ! i) = map row_admits histogram_contract ! i"
    using assms by (simp add: len)
  have "(if x < - 20 / 100 then 0 else if x < - 10 / 100 then 1 else if x < - 5 / 100 then 2 else if x < 0 then 3
      else if x = 0 then 4 else if x \<le> 5 / 100 then 5 else if x \<le> 10 / 100 then 6 else if x \<le> 20 / 100 then 7
      else 8) = i \<longleftrightarrow> (map row_admits histogram_contract ! i) x" for x
  proof -
    have "i \<in> {0, 1, 2, 3, 4, 5, 6, 7, 8}" using assms by auto
    then show ?thesis unfolding contract_bounds by (elim insertE emptyE; hypsubst) auto
  qed
  from this [of "dval v"] show ?thesis unfolding adm bin_index_def Let_def .
qed

lemma histogram_total:
  assumes "length returns < 10 ^ 100"
  shows "\<exists>h. histogram returns = Inr h"
proof -
  let ?n = "length returns"
  have nb: "\<forall>row \<in> set histogram_contract. \<not> blank (fst row)"
    by (simp add: histogram_contract_def blank_def py_space_def)
  have bounds: "\<forall>(code, lower, upper, li, ui) \<in> set histogram_contract.
      case (lower, upper) of (Some l, Some u) \<Rightarrow> dval l < dval u \<or> dval l = dval u \<and> li \<and> ui | _ \<Rightarrow> True"
    by (simp add: histogram_contract_def dval_Dec)
  have one: "\<exists>b. histogram_entry ?n (row, c) = Inr b" if row: "row \<in> set histogram_contract" and c: "c \<le> ?n" for row c
  proof -
    obtain code lower upper li ui where r: "row = (code, lower, upper, li, ui)" by (cases row) auto
    have ok: "\<not> blank code" "case (lower, upper) of (Some l, Some u) \<Rightarrow> dval l < dval u \<or> dval l = dval u \<and> li \<and> ui | _ \<Rightarrow> True"
      using nb bounds row r by auto
    show ?thesis
    proof (cases "?n = 0")
      case True
      then show ?thesis using ok
        by (auto simp: histogram_entry_def r mk_histogram_bin_def validate_identity_def validate_optional_metric_def
          blank_def py_space_def split: option.splits)
    next
      case False
      then obtain s where s: "ratio c ?n = Inr s" "0 \<le> dval s" "dval s \<le> 1" using ratio_ok [OF c _ assms] by auto
      with False ok show ?thesis
        by (auto simp: histogram_entry_def r mk_histogram_bin_def validate_identity_def validate_optional_metric_def
          split: option.splits)
    qed
  qed
  have le: "c \<le> ?n" if "c \<in> set (bin_counts returns)" for c
    using that bin_counts_sum [of returns] member_le_sum_list [of c "bin_counts returns"] by simp
  have "\<exists>ys. traverse f xs = Inr ys" if "\<forall>x \<in> set xs. \<exists>y. f x = Inr y"
    for f :: "_ \<Rightarrow> histogram_bin res" and xs :: "((string \<times> dec option \<times> dec option \<times> bool \<times> bool) \<times> nat) list"
    using that by (induction xs) auto
  then show ?thesis unfolding histogram_def using one le
    by (metis (no_types, lifting) set_zip_leftD set_zip_rightD surj_pair)
qed

text \<open>
  C29. The histogram of any returns exists, and its nine bins are what they disclose: the count of a bin is
  the number of returns between its bounds (each included or not as the bin says), every value belongs to exactly one bin,
  and the counts add up to the number of returns.
\<close>

theorem histogram_partitions_returns:
  assumes "length returns < 10 ^ 100"
  shows "\<exists>h. histogram returns = Inr h
    \<and> (\<forall>b \<in> set h. hb_count b = length (filter (bin_admits b) returns))
    \<and> (\<forall>v. \<exists>!i. i < length h \<and> bin_admits (h ! i) v)
    \<and> sum_list (map hb_count h) = length returns"
proof -
  obtain h where h: "histogram returns = Inr h" using histogram_total [OF assms] by blast
  note hf = histogram_Inr [OF h]
  have len: "length h = 9" using hf by (metis length_map bin_counts_def length_upt diff_zero)
  have adm: "bin_admits (h ! i) v \<longleftrightarrow> bin_index v = i" if "i < 9" for i v
    using bin_index_admits [OF that] bin_admits_row list_all2_nthD [OF conjunct1 [OF hf], of i] len that by simp
  have "hb_count (h ! i) = length (filter (bin_admits (h ! i)) returns)" if i: "i < 9" for i
  proof -
    have "hb_count (h ! i) = bin_counts returns ! i" using hf i len by (metis nth_map)
    also have "\<dots> = length (filter (\<lambda>v. bin_index v = i) returns)" using i by (simp add: bin_counts_def)
    finally show ?thesis using adm [OF i] by (simp cong: filter_cong)
  qed
  then have "\<forall>b \<in> set h. hb_count b = length (filter (bin_admits b) returns)"
    using len by (auto simp: in_set_conv_nth)
  moreover have "\<exists>!i. i < length h \<and> bin_admits (h ! i) v" for v
    using adm bin_index_less [of v] len by (intro ex1I [of _ "bin_index v"]) auto
  moreover have "sum_list (map hb_count h) = length returns" using hf bin_counts_sum by simp
  ultimately show ?thesis using h by blast
qed

theorem histogram_partitions_returns_witness:
  "\<exists>h. histogram [Dec False 5 (-2), Dec True 20 (-2), Dec False 0 0] = Inr h
     \<and> (\<forall>b \<in> set h. hb_count b = length (filter (bin_admits b) [Dec False 5 (-2), Dec True 20 (-2), Dec False 0 0]))
     \<and> sum_list (map hb_count h) = 3"
  using histogram_partitions_returns [of "[Dec False 5 (-2), Dec True 20 (-2), Dec False 0 0]"] by auto

section \<open>The audit of a summary\<close>

text \<open>A sample that the constructor has let through, and the fields of it that the summary uses.\<close>

definition constructed :: "trade_sample \<Rightarrow> bool" where
  "constructed s \<longleftrightarrow> (\<exists>z s0. mk_trade_sample z s0 = Inr s)"

lemma validate_common_fields:
  assumes "validate_common s = Inr u"
  shows "\<not> blank (ts_symbol s) \<and> 0 \<le> ts_holding_bars s \<and> 0 \<le> ts_holding_days s"
proof -
  have "validate_identity ''symbol'' (ts_symbol s) = Inr ()" and "\<not> ts_holding_bars s < 0" and "\<not> ts_holding_days s < 0"
    using assms unfolding validate_common_def then_res_Inr_iff if_Inl_Inr_iff by auto
  then show ?thesis by (auto simp: validate_identity_def split: if_splits)
qed

lemma constructed_fields:
  assumes "constructed s"
  shows "\<not> blank (ts_symbol s) \<and> 0 \<le> ts_holding_bars s \<and> 0 \<le> ts_holding_days s
    \<and> map_option canonical_zero (ts_net_return s) = ts_net_return s
    \<and> map_option canonical_zero (ts_net_pnl s) = ts_net_pnl s
    \<and> map_option canonical_zero (ts_floating_return s) = ts_floating_return s
    \<and> map_option canonical_zero (ts_floating_pnl s) = ts_floating_pnl s"
proof -
  from assms obtain z s0 where s: "s = canonicalize_decimal_zeros s0" "validate_common s = Inr ()"
    by (auto simp: constructed_def mk_trade_sample_def Let_def validate_trade_sample_def res_simps)
  have idem: "map_option canonical_zero (map_option canonical_zero x) = map_option canonical_zero x" for x
    by (cases x) simp_all
  from validate_common_fields [OF s(2)] s(1) show ?thesis by (simp add: canonicalize_decimal_zeros_def idem)
qed

text \<open>What a summary says of its audit values.\<close>

definition no_samples :: "nat \<Rightarrow> string option" where
  "no_samples n = (if n = 0 then Some ''no_realized_samples'' else None)"

definition summary_contract :: "backtest_metrics \<Rightarrow> bool" where
  "summary_contract m \<longleftrightarrow>
     bm_label m = independent_sample_label
     \<and> bm_win_rate_denominator m = bm_realized_count m
     \<and> length (bm_realized_net_returns m) = bm_realized_count m \<and> length (bm_realized_net_pnls m) = bm_realized_count m
     \<and> length (bm_realized_holding_bars m) = bm_realized_count m
     \<and> length (bm_realized_holding_days m) = bm_realized_count m \<and> length (bm_realized_symbols m) = bm_realized_count m
     \<and> length (bm_open_floating_pnls m) = length (bm_open_floating_returns m)
     \<and> bm_positive_count m = length (filter (\<lambda>v. 0 < dval v) (bm_realized_net_returns m))
     \<and> bm_negative_count m = length (filter (\<lambda>v. dval v < 0) (bm_realized_net_returns m))
     \<and> bm_zero_count m = length (filter (\<lambda>v. dval v = 0) (bm_realized_net_returns m))
     \<and> win_rate_of (bm_realized_net_returns m) = Inr (bm_win_rate m)
     \<and> bm_win_rate_reason m = no_samples (bm_realized_count m)
     \<and> mean (bm_realized_net_returns m) = Inr (bm_mean_net_return m)
     \<and> bm_mean_net_return_reason m = no_samples (bm_realized_count m)
     \<and> median_of (bm_realized_net_returns m) = Inr (bm_median_net_return m)
     \<and> bm_median_net_return_reason m = no_samples (bm_realized_count m)
     \<and> payoff (filter (\<lambda>v. 0 < dval v) (bm_realized_net_returns m))
         (filter (\<lambda>v. dval v < 0) (bm_realized_net_returns m)) = Inr (bm_payoff_ratio m, bm_payoff_ratio_reason m)
     \<and> round_optional (max_dec (filter (\<lambda>v. 0 < dval v) (bm_realized_net_returns m))) = Inr (bm_max_win_return m)
     \<and> bm_max_win_return_reason m
         = (if filter (\<lambda>v. 0 < dval v) (bm_realized_net_returns m) = [] then Some ''no_positive_returns'' else None)
     \<and> round_optional (min_dec (filter (\<lambda>v. dval v < 0) (bm_realized_net_returns m))) = Inr (bm_max_loss_return m)
     \<and> bm_max_loss_return_reason m
         = (if filter (\<lambda>v. dval v < 0) (bm_realized_net_returns m) = [] then Some ''no_negative_returns'' else None)
     \<and> bind_res (dec_sum (bm_realized_net_pnls m)) round_money = Inr (bm_realized_net_pnl_total m)
     \<and> mean (map dec_of_int (bm_realized_holding_bars m)) = Inr (bm_average_holding_bars m)
     \<and> bm_average_holding_bars_reason m = no_samples (bm_realized_count m)
     \<and> mean (map dec_of_int (bm_realized_holding_days m)) = Inr (bm_average_holding_days m)
     \<and> bm_average_holding_days_reason m = no_samples (bm_realized_count m)
     \<and> histogram (bm_realized_net_returns m) = Inr (bm_histogram m)
     \<and> open_metrics_from_values (bm_open_floating_pnls m) (bm_open_floating_returns m) = Inr (bm_open_trades m)
     \<and> reliability_from_symbols (bm_realized_symbols m) = Inr (bm_reliability m)"

lemma summary_values_contract:
  assumes "summary_values samples = Inr m"
  shows "summary_contract m
    \<and> traverse required_metric_return (filter ts_realized samples) = Inr (bm_realized_net_returns m)
    \<and> traverse required_metric_pnl (filter ts_realized samples) = Inr (bm_realized_net_pnls m)
    \<and> traverse required_floating_return (filter (\<lambda>s. \<not> ts_realized s) samples) = Inr (bm_open_floating_returns m)
    \<and> traverse required_floating_pnl (filter (\<lambda>s. \<not> ts_realized s) samples) = Inr (bm_open_floating_pnls m)
    \<and> bm_realized_holding_bars m = map ts_holding_bars (filter ts_realized samples)
    \<and> bm_realized_holding_days m = map ts_holding_days (filter ts_realized samples)
    \<and> bm_realized_symbols m = map ts_symbol (filter ts_realized samples)"
proof -
  let ?r = "filter ts_realized samples" and ?o = "filter (\<lambda>s. \<not> ts_realized s) samples"
  let ?pos = "\<lambda>rs. filter (\<lambda>v. 0 < dval v) rs" and ?neg = "\<lambda>rs. filter (\<lambda>v. dval v < 0) rs"
  obtain returns w mr md p pr mw ml ab ad pnls s t h ors ops ot rel where
    v: "traverse required_metric_return ?r = Inr returns" "win_rate_of returns = Inr w" "mean returns = Inr mr"
      "median_of returns = Inr md" "payoff (?pos returns) (?neg returns) = Inr (p, pr)"
      "round_optional (max_dec (?pos returns)) = Inr mw" "round_optional (min_dec (?neg returns)) = Inr ml"
      "mean (map dec_of_int (map ts_holding_bars ?r)) = Inr ab" "mean (map dec_of_int (map ts_holding_days ?r)) = Inr ad"
      "traverse required_metric_pnl ?r = Inr pnls" "dec_sum pnls = Inr s" "round_money s = Inr t"
      "histogram returns = Inr h" "traverse required_floating_return ?o = Inr ors"
      "traverse required_floating_pnl ?o = Inr ops" "open_metrics_from_values ops ors = Inr ot"
      "reliability_from_symbols (map ts_symbol ?r) = Inr rel"
    and m: "m = \<lparr>bm_label = independent_sample_label, bm_realized_count = length ?r, bm_win_rate_denominator = length ?r,
               bm_positive_count = length (?pos returns), bm_negative_count = length (?neg returns),
               bm_zero_count = length (filter (\<lambda>v. dval v = 0) returns),
               bm_win_rate = w, bm_win_rate_reason = no_samples (length ?r),
               bm_mean_net_return = mr, bm_mean_net_return_reason = no_samples (length ?r),
               bm_median_net_return = md, bm_median_net_return_reason = no_samples (length ?r),
               bm_payoff_ratio = p, bm_payoff_ratio_reason = pr, bm_max_win_return = mw,
               bm_max_win_return_reason = (if ?pos returns = [] then Some ''no_positive_returns'' else None),
               bm_max_loss_return = ml,
               bm_max_loss_return_reason = (if ?neg returns = [] then Some ''no_negative_returns'' else None),
               bm_realized_net_pnl_total = t,
               bm_average_holding_bars = ab, bm_average_holding_bars_reason = no_samples (length ?r),
               bm_average_holding_days = ad, bm_average_holding_days_reason = no_samples (length ?r),
               bm_histogram = h, bm_open_trades = ot, bm_reliability = rel,
               bm_realized_net_returns = returns, bm_realized_net_pnls = pnls,
               bm_realized_holding_bars = map ts_holding_bars ?r, bm_realized_holding_days = map ts_holding_days ?r,
               bm_realized_symbols = map ts_symbol ?r, bm_open_floating_pnls = ops, bm_open_floating_returns = ors\<rparr>"
    using assms unfolding summary_values_def Let_def no_samples_def [symmetric] bind_res_Inr_iff
    by (elim exE conjE) (simp only: split_paired_all prod.case bind_res_Inr_iff sum.inject, elim exE conjE, metis)
  have len: "length returns = length ?r" "length pnls = length ?r" "length ops = length ors"
    using v traverse_length by metis+
  show ?thesis unfolding summary_contract_def m
    using v len by simp
qed
lemma mean_Inr: "mean vs = Inr x \<Longrightarrow> map_option canonical_zero x = x \<and> (x = None \<longleftrightarrow> vs = [])"
  by (auto simp: mean_def res_simps canonical_id dest!: round_ratio_Inr split: if_splits)

lemma win_rate_of_Inr: "win_rate_of vs = Inr x \<Longrightarrow> map_option canonical_zero x = x \<and> (x = None \<longleftrightarrow> vs = [])"
  by (auto simp: win_rate_of_def res_simps canonical_id dest!: ratio_Inr split: if_splits)

lemma median_Inr: "median vs = Inr r \<Longrightarrow> canonical r"
  by (auto simp: median_def Let_def res_simps dest: round_ratio_Inr split: if_splits)

lemma median_of_Inr: "median_of vs = Inr x \<Longrightarrow> map_option canonical_zero x = x \<and> (x = None \<longleftrightarrow> vs = [])"
  by (auto simp: median_of_def res_simps canonical_id dest!: median_Inr split: if_splits)

lemma round_optional_Inr: "round_optional v = Inr x \<Longrightarrow> map_option canonical_zero x = x \<and> (x = None \<longleftrightarrow> v = None)"
  by (auto simp: round_optional_def res_simps canonical_id dest!: round_ratio_Inr split: option.splits)

lemma max_dec_None [simp]: "max_dec vs = None \<longleftrightarrow> vs = []"
  by (cases vs) simp_all

lemma min_dec_None [simp]: "min_dec vs = None \<longleftrightarrow> vs = []"
  by (cases vs) simp_all

lemma payoff_Inr:
  assumes "payoff pos negs = Inr (x, r)"
  shows "map_option canonical_zero x = x
    \<and> (x = None \<and> (r = Some ''no_positive_or_negative_returns'' \<or> r = Some ''no_positive_returns''
                  \<or> r = Some ''no_negative_returns'') \<or> x \<noteq> None \<and> r = None)"
  using assms by (auto simp: payoff_def bind_res_Inr_iff canonical_id dest!: round_ratio_Inr split: if_splits)

lemma round_money_Inr: "round_money d = Inr x \<Longrightarrow> canonical_zero x = x"
  using quantize_to_Inr [of money_quantum d x] by (auto simp: round_money_def canonical_def intro: canonical_id)

lemma traverse_canonical:
  assumes "traverse f samples = Inr vs" and "\<And>s v. s \<in> set samples \<Longrightarrow> f s = Inr v \<Longrightarrow> canonical_zero v = v"
  shows "map canonical_zero vs = vs"
proof (rule map_idI)
  fix v assume "v \<in> set vs"
  with traverse_mem [OF assms(1)] assms(2) show "canonical_zero v = v" by blast
qed

lemma summary_canonical:
  assumes c: "\<forall>s \<in> set samples. constructed s" and m: "summary_values samples = Inr m"
  shows "canonicalize_metrics m = m"
proof -
  note v = summary_values_contract [OF m]
  note k = conjunct1 [OF v, unfolded summary_contract_def]
  have tr: "traverse required_metric_return (filter ts_realized samples) = Inr (bm_realized_net_returns m)"
      "traverse required_metric_pnl (filter ts_realized samples) = Inr (bm_realized_net_pnls m)"
      "traverse required_floating_return (filter (\<lambda>s. \<not> ts_realized s) samples) = Inr (bm_open_floating_returns m)"
      "traverse required_floating_pnl (filter (\<lambda>s. \<not> ts_realized s) samples) = Inr (bm_open_floating_pnls m)"
    by (simp_all only: v)
  have cf: "required_metric_return s = Inr x \<Longrightarrow> canonical_zero x = x" "required_metric_pnl s = Inr x \<Longrightarrow> canonical_zero x = x"
      "required_floating_return s = Inr x \<Longrightarrow> canonical_zero x = x" "required_floating_pnl s = Inr x \<Longrightarrow> canonical_zero x = x"
    if "s \<in> set samples" for s x
    using constructed_fields [of s] c that
    by (auto simp: required_metric_return_def required_metric_pnl_def required_floating_return_def
      required_floating_pnl_def split: option.splits)
  have r: "map canonical_zero (bm_realized_net_returns m) = bm_realized_net_returns m"
    by (rule traverse_canonical [OF tr(1)]) (erule cf(1) [rotated], simp)
  have p: "map canonical_zero (bm_realized_net_pnls m) = bm_realized_net_pnls m"
    by (rule traverse_canonical [OF tr(2)]) (erule cf(2) [rotated], simp)
  have fr: "map canonical_zero (bm_open_floating_returns m) = bm_open_floating_returns m"
    by (rule traverse_canonical [OF tr(3)]) (erule cf(3) [rotated], simp)
  have fp: "map canonical_zero (bm_open_floating_pnls m) = bm_open_floating_pnls m"
    by (rule traverse_canonical [OF tr(4)]) (erule cf(4) [rotated], simp)
  have "bind_res (dec_sum (bm_realized_net_pnls m)) round_money = Inr (bm_realized_net_pnl_total m)"
    using k by (elim conjE)
  then have t: "canonical_zero (bm_realized_net_pnl_total m) = bm_realized_net_pnl_total m"
    using round_money_Inr by (auto simp: bind_res_Inr_iff)
  have "win_rate_of (bm_realized_net_returns m) = Inr (bm_win_rate m)" using k by (elim conjE)
  note w = conjunct1 [OF win_rate_of_Inr [OF this]]
  have "mean (bm_realized_net_returns m) = Inr (bm_mean_net_return m)" using k by (elim conjE)
  note mr = conjunct1 [OF mean_Inr [OF this]]
  have "median_of (bm_realized_net_returns m) = Inr (bm_median_net_return m)" using k by (elim conjE)
  note md = conjunct1 [OF median_of_Inr [OF this]]
  have "payoff (filter (\<lambda>v. 0 < dval v) (bm_realized_net_returns m))
         (filter (\<lambda>v. dval v < 0) (bm_realized_net_returns m)) = Inr (bm_payoff_ratio m, bm_payoff_ratio_reason m)"
    using k by (elim conjE)
  note po = conjunct1 [OF payoff_Inr [OF this]]
  have "round_optional (max_dec (filter (\<lambda>v. 0 < dval v) (bm_realized_net_returns m))) = Inr (bm_max_win_return m)"
    using k by (elim conjE)
  note mw = conjunct1 [OF round_optional_Inr [OF this]]
  have "round_optional (min_dec (filter (\<lambda>v. dval v < 0) (bm_realized_net_returns m))) = Inr (bm_max_loss_return m)"
    using k by (elim conjE)
  note ml = conjunct1 [OF round_optional_Inr [OF this]]
  have "mean (map dec_of_int (bm_realized_holding_bars m)) = Inr (bm_average_holding_bars m)" using k by (elim conjE)
  note ab = conjunct1 [OF mean_Inr [OF this]]
  have "mean (map dec_of_int (bm_realized_holding_days m)) = Inr (bm_average_holding_days m)" using k by (elim conjE)
  note ad = conjunct1 [OF mean_Inr [OF this]]
  show ?thesis by (simp add: canonicalize_metrics_def r p fr fp t w mr md po mw ml ab ad)
qed
lemma sign_counts:
  "length (filter (\<lambda>v. 0 < dval v) vs) + length (filter (\<lambda>v. dval v < 0) vs) + length (filter (\<lambda>v. dval v = 0) vs)
     = length vs"
  by (induction vs) (auto simp del: dval_zero_iff)

lemma list_all2_same: "(\<And>x. P x x) \<Longrightarrow> list_all2 P xs xs"
  by (induction xs) simp_all

lemma bin_eq_refl: "bin_eq b b"
  by (simp add: bin_eq_def)

lemma reliability_eq_refl: "reliability_eq r r"
  by (simp add: reliability_eq_def)

lemma open_metrics_eq_refl: "open_metrics_eq o1 o1"
  by (simp add: open_metrics_eq_def)

lemma check_derived_ok: "check_derived n f x r (Inr x) r = Inr ()"
  by (simp add: check_derived_def)

lemma check_ratio_ok: "check_ratio x r (Inr x) r msg = Inr ()"
  by (simp add: check_ratio_def)

lemma each_ok: "\<forall>x \<in> set xs. \<exists>y. f x = Inr y \<Longrightarrow> each f xs = Inr ()"
  using each_Inr_iff [of f xs "()"] by simp

lemma validate_global_ok:
  assumes "summary_contract m" and sym: "\<forall>s \<in> set (bm_realized_symbols m). \<not> blank s"
    and hold: "\<forall>v \<in> set (bm_realized_holding_bars m @ bm_realized_holding_days m). 0 \<le> v"
  shows "validate_global_derivations m = Inr ()"
proof -
  note k = assms(1) [unfolded summary_contract_def]
  have "bind_res (dec_sum (bm_realized_net_pnls m)) round_money = Inr (bm_realized_net_pnl_total m)"
    using k by (elim conjE)
  then obtain s where s: "dec_sum (bm_realized_net_pnls m) = Inr s" "round_money s = Inr (bm_realized_net_pnl_total m)"
    by (auto simp: bind_res_Inr_iff)
  have e: "each (validate_identity ''realized symbol audit'') (bm_realized_symbols m) = Inr ()"
    using sym by (intro each_ok) (simp add: validate_identity_def)
  have h: "list_all (\<lambda>v. 0 \<le> v) (bm_realized_holding_bars m @ bm_realized_holding_days m)"
    using hold by (simp only: list_all_iff)
  show ?thesis
    unfolding validate_global_derivations_def Let_def no_samples_def [symmetric]
    by (simp only: k s e h check_derived_ok check_ratio_ok bind_res_simps then_res_simps prod.case dec_eq_refl
      list_all2_same [of bin_eq, OF bin_eq_refl] reliability_eq_refl open_metrics_eq_refl simp_thms if_False if_True)
qed

lemma optional_metric_ok:
  "(x = None \<longleftrightarrow> n = 0) \<Longrightarrow> \<exists>u. validate_optional_metric x (no_samples n) f False = Inr u"
  by (cases x) (auto simp: validate_optional_metric_def no_samples_def validate_identity_def blank_def py_space_def)

lemma optional_metrics_ok:
  assumes "summary_contract m"
  shows "each (\<lambda>(f, v, r). validate_optional_metric v r f False) (optional_metric_fields m) = Inr ()"
proof (rule each_ok)
  note k = assms [unfolded summary_contract_def]
  have n0: "bm_realized_net_returns m = [] \<longleftrightarrow> bm_realized_count m = 0"
      "map dec_of_int (bm_realized_holding_bars m) = [] \<longleftrightarrow> bm_realized_count m = 0"
      "map dec_of_int (bm_realized_holding_days m) = [] \<longleftrightarrow> bm_realized_count m = 0"
    using k by (metis length_0_conv length_map)+
  have "win_rate_of (bm_realized_net_returns m) = Inr (bm_win_rate m)" using k by (elim conjE)
  note w = conjunct2 [OF win_rate_of_Inr [OF this], unfolded n0]
  have "mean (bm_realized_net_returns m) = Inr (bm_mean_net_return m)" using k by (elim conjE)
  note mr = conjunct2 [OF mean_Inr [OF this], unfolded n0]
  have "median_of (bm_realized_net_returns m) = Inr (bm_median_net_return m)" using k by (elim conjE)
  note md = conjunct2 [OF median_of_Inr [OF this], unfolded n0]
  have "payoff (filter (\<lambda>v. 0 < dval v) (bm_realized_net_returns m))
         (filter (\<lambda>v. dval v < 0) (bm_realized_net_returns m)) = Inr (bm_payoff_ratio m, bm_payoff_ratio_reason m)"
    using k by (elim conjE)
  note po = conjunct2 [OF payoff_Inr [OF this]]
  have "mean (map dec_of_int (bm_realized_holding_bars m)) = Inr (bm_average_holding_bars m)" using k by (elim conjE)
  note ab = conjunct2 [OF mean_Inr [OF this], unfolded n0]
  have "mean (map dec_of_int (bm_realized_holding_days m)) = Inr (bm_average_holding_days m)" using k by (elim conjE)
  note ad = conjunct2 [OF mean_Inr [OF this], unfolded n0]
  have p: "\<exists>u. validate_optional_metric (bm_payoff_ratio m) (bm_payoff_ratio_reason m) ''payoff_ratio'' False = Inr u"
    using po by (auto simp: validate_optional_metric_def validate_identity_def blank_def py_space_def split: option.splits)
  have ext: "\<exists>u. validate_optional_metric x (if vs = [] then Some c else None) f False = Inr u"
    if "x = None \<longleftrightarrow> vs = []" "\<not> blank c" for x c f and vs :: "dec list"
    using that by (auto simp: validate_optional_metric_def validate_identity_def split: option.splits)
  have "round_optional (max_dec (filter (\<lambda>v. 0 < dval v) (bm_realized_net_returns m))) = Inr (bm_max_win_return m)"
    using k by (elim conjE)
  note mw = conjunct2 [OF round_optional_Inr [OF this], unfolded max_dec_None]
  have "round_optional (min_dec (filter (\<lambda>v. dval v < 0) (bm_realized_net_returns m))) = Inr (bm_max_loss_return m)"
    using k by (elim conjE)
  note ml = conjunct2 [OF round_optional_Inr [OF this], unfolded min_dec_None]
  have r: "bm_win_rate_reason m = no_samples (bm_realized_count m)"
    "bm_mean_net_return_reason m = no_samples (bm_realized_count m)"
    "bm_median_net_return_reason m = no_samples (bm_realized_count m)"
    "bm_average_holding_bars_reason m = no_samples (bm_realized_count m)"
    "bm_average_holding_days_reason m = no_samples (bm_realized_count m)"
    "bm_max_win_return_reason m
         = (if filter (\<lambda>v. 0 < dval v) (bm_realized_net_returns m) = [] then Some ''no_positive_returns'' else None)"
    "bm_max_loss_return_reason m
         = (if filter (\<lambda>v. dval v < 0) (bm_realized_net_returns m) = [] then Some ''no_negative_returns'' else None)"
    by (simp_all only: k)
  have nb: "\<not> blank ''no_positive_returns''" "\<not> blank ''no_negative_returns''" by (simp_all add: blank_def py_space_def)
  show "\<forall>x \<in> set (optional_metric_fields m). \<exists>y. (case x of (f, v, r) \<Rightarrow> validate_optional_metric v r f False) = Inr y"
    unfolding optional_metric_fields_def list.set ball_simps prod.case r
    by (intro conjI TrueI optional_metric_ok w mr md ab ad p ext [OF mw nb(1)] ext [OF ml nb(2)])
qed
lemma reliability_count: "reliability_from_symbols symbols = Inr r \<Longrightarrow> rl_realized_count r = length symbols"
proof -
  have mk: "mk_reliability a = Inr b \<Longrightarrow> rl_realized_count b = rl_realized_count a" for a b
    by (auto simp: mk_reliability_def Let_def bind_res_Inr_iff then_res_Inr_iff split: if_splits)
  assume "reliability_from_symbols symbols = Inr r"
  then show ?thesis
    by (auto simp: reliability_from_symbols_def Let_def bind_res_Inr_iff dest!: mk split: if_splits)
qed

lemma validate_metrics_ok:
  assumes s: "summary_contract m" and sym: "\<forall>s \<in> set (bm_realized_symbols m). \<not> blank s"
    and hold: "\<forall>v \<in> set (bm_realized_holding_bars m @ bm_realized_holding_days m). 0 \<le> v"
    and n: "bm_realized_count m < 10 ^ 100"
  shows "validate_metrics m = Inr ()"
proof -
  note k = s [unfolded summary_contract_def]
  have "histogram (bm_realized_net_returns m) = Inr (bm_histogram m)" using k by (elim conjE)
  note h = this histogram_Inr [OF this]
  have len: "length (bm_realized_net_returns m) = bm_realized_count m" using k by (elim conjE)
  have rel: "rl_realized_count (bm_reliability m) = bm_realized_count m"
  proof -
    have "reliability_from_symbols (bm_realized_symbols m) = Inr (bm_reliability m)" using k by (elim conjE)
    moreover have "length (bm_realized_symbols m) = bm_realized_count m" using k by (elim conjE)
    ultimately show ?thesis using reliability_count by simp
  qed
  have counts: "sum_list (map hb_count (bm_histogram m)) = bm_realized_count m" using h(2) bin_counts_sum len by simp
  have share: "check_bin_share (bm_realized_count m) b = Inr ()" if "b \<in> set (bm_histogram m)" for b
    using h(2) that len by (auto simp: list_all_iff bin_share_of_def check_bin_share_def split: if_splits)
  have shares: "each (check_bin_share (bm_realized_count m)) (bm_histogram m) = Inr ()"
    by (rule each_ok) (use share in blast)
  have err: "(if bm_realized_count m = 0 then Inr False
      else share_error_exceeds (map (share_or_zero \<circ> hb_share) (bm_histogram m))) = Inr False"
  proof (cases "bm_realized_count m = 0")
    case False
    then have "bm_realized_net_returns m \<noteq> []" using len by auto
    from histogram_shares [OF h(1) this] False len n show ?thesis by simp
  qed simp
  have signs: "bm_positive_count m + bm_negative_count m + bm_zero_count m = bm_realized_count m"
    using sign_counts [of "bm_realized_net_returns m"] by (simp only: k)
  have den: "bm_label m = independent_sample_label" "bm_win_rate_denominator m = bm_realized_count m"
    by (simp_all only: k)
  show ?thesis
    unfolding validate_metrics_def
    by (simp only: den signs optional_metrics_ok [OF s] counts rel conjunct1 [OF h(2)] shares err
      validate_global_ok [OF s sym hold] then_res_simps bind_res_simps simp_thms if_False if_True)
qed

lemma summarize_audited:
  assumes "\<forall>s \<in> set samples. constructed s" and "length samples < 10 ^ 100"
  shows "summarize samples = bind_res (freeze_unique_samples samples) summary_values"
proof -
  have "mk_backtest_metrics m = Inr m" if m: "summary_values samples = Inr m" for m
  proof -
    note v = summary_values_contract [OF m]
    have f: "bm_realized_holding_bars m = map ts_holding_bars (filter ts_realized samples)"
        "bm_realized_holding_days m = map ts_holding_days (filter ts_realized samples)"
        "bm_realized_symbols m = map ts_symbol (filter ts_realized samples)" by (simp_all only: v)
    have sym: "\<forall>s \<in> set (bm_realized_symbols m). \<not> blank s"
      and hold: "\<forall>h \<in> set (bm_realized_holding_bars m @ bm_realized_holding_days m). 0 \<le> h"
      using constructed_fields assms(1) by (auto simp: f)
    have "length (bm_realized_symbols m) = bm_realized_count m"
      using conjunct1 [OF v, unfolded summary_contract_def] by (elim conjE)
    then have "bm_realized_count m < 10 ^ 100"
      using assms(2) length_filter_le [of ts_realized samples] by (simp add: f)
    from validate_metrics_ok [OF conjunct1 [OF v] sym hold this] summary_canonical [OF assms(1) m]
    show ?thesis by (simp add: mk_backtest_metrics_def)
  qed
  then show ?thesis unfolding summarize_def freeze_unique_samples_def
    by (cases "run_res identity_step [] samples"; cases "summary_values samples") simp_all
qed

lemma constructed_example: "\<exists>s. constructed s \<and> ts_realized s"
proof -
  obtain s where s: "close_trade china_standard_time example_args (Finite (Dec False 11 0)) (Aware 3) (Aware 5) = Inr s"
    using close_trade_exact [OF cst.local_clock_axioms example_args_ok example_closes(1) example_prices_ok
      example_closes(2-4)] by blast
  from s obtain s0 where s0: "mk_trade_sample china_standard_time s0 = Inr s" "ts_realized s0"
    by (auto simp: close_trade_def res_simps realized_sample_def)
  then have "ts_realized s"
    by (auto simp: mk_trade_sample_def Let_def res_simps canonicalize_decimal_zeros_def)
  with s0 show ?thesis by (auto simp: constructed_def)
qed

text \<open>
  C30. The audit that the constructor of a summary repeats from the raw values never rejects what
  \<open>summarize\<close> computed: for any list of constructed samples, the result of \<open>summarize\<close> is the computed
  summary itself, unchanged, once the identities of the samples are unique. In particular the rounded shares of
  the histogram always stay inside the quantization bound.
\<close>

theorem summary_audit_accepts:
  assumes "\<forall>s \<in> set samples. constructed s" and "length samples < 10 ^ 100"
  shows "summarize samples = bind_res (freeze_unique_samples samples) summary_values"
  using assms by (rule summarize_audited)

theorem summary_audit_accepts_witness:
  "\<exists>s. constructed s \<and> ts_realized s \<and> summarize [s] = bind_res (freeze_unique_samples [s]) summary_values"
proof -
  obtain s where s: "constructed s" "ts_realized s" using constructed_example by blast
  have "\<forall>x \<in> set [s]. constructed x" using s by simp
  moreover have "length [s] < 10 ^ 100" by simp
  ultimately have "summarize [s] = bind_res (freeze_unique_samples [s]) summary_values"
    by (rule summary_audit_accepts)
  with s show ?thesis by blast
qed

end
