(* ===== verification/Grouping.thy ===== *)
theory Grouping
  imports Metrics "HOL-Library.List_Lexorder" "HOL-Library.Char_ord"
begin

text \<open>
  \<open>backtest/grouping.py\<close>: the realized samples grouped by symbol, entry month or entry year, one
  summary per group in the order of the keys, and the audits of both constructors. Decimals are compared by value; the values
  of a group are finite, so the finiteness checks have no branch. The \<open>to_json_dict\<close> methods are
  not modelled.
\<close>

section \<open>Group summaries\<close>

record group_summary =
  gs_key :: string
  gs_realized_denominator :: nat
  gs_realized_count :: nat
  gs_positive_count :: nat
  gs_negative_count :: nat
  gs_zero_count :: nat
  gs_share_of_all :: dec
  gs_win_rate :: dec
  gs_mean_net_return :: dec
  gs_median_net_return :: dec
  gs_payoff_ratio :: "dec option"
  gs_payoff_ratio_reason :: "string option"
  gs_net_pnl_total :: dec
  gs_average_holding_days :: dec
  gs_net_returns :: "dec list"
  gs_net_pnls :: "dec list"
  gs_holding_days :: "int list"

definition group_round_ratio :: "dec \<Rightarrow> dec res" where
  "group_round_ratio value =
     bind_res (dec_quantize HalfUp default_prec value ratio_quantum) (\<lambda>r. Inr (canonical_zero r))"

definition group_ratio :: "nat \<Rightarrow> nat \<Rightarrow> dec res" where
  "group_ratio numerator denominator =
     bind_res (divide_decimal (dec_of_int (int numerator)) (dec_of_int (int denominator))) (\<lambda>q.
     bind_res (dec_quantize HalfUp default_prec q ratio_quantum) (\<lambda>r. Inr (canonical_zero r)))"

definition mean_values :: "dec list \<Rightarrow> dec res" where
  "mean_values values =
     bind_res (dec_sum values) (\<lambda>s. bind_res (divide_decimal s (dec_of_int (int (length values)))) group_round_ratio)"

definition median_values :: "dec list \<Rightarrow> dec res" where
  "median_values values =
     (let ordered = sort_key dval values; midpoint = length ordered div 2
      in if odd (length ordered) then group_round_ratio (ordered ! midpoint)
         else bind_res (add28 (ordered ! (midpoint - 1)) (ordered ! midpoint)) (\<lambda>s.
           bind_res (divide_decimal s (Dec False 2 0)) group_round_ratio))"

definition payoff_values :: "dec list \<Rightarrow> dec list \<Rightarrow> (dec option \<times> string option) res" where
  "payoff_values positive negative =
     (if positive = [] \<and> negative = [] then Inr (None, Some ''no_positive_or_negative_returns'')
      else if positive = [] then Inr (None, Some ''no_positive_returns'')
      else if negative = [] then Inr (None, Some ''no_negative_returns'')
      else
        bind_res (bind_res (dec_sum positive) (\<lambda>s. divide_decimal s (dec_of_int (int (length positive))))) (\<lambda>positive_mean.
        bind_res (bind_res (dec_sum negative) (\<lambda>s. divide_decimal s (dec_of_int (int (length negative))))) (\<lambda>negative_mean.
        bind_res (dec_abs negative_mean) (\<lambda>a. bind_res (divide_decimal positive_mean a) (\<lambda>q.
        bind_res (group_round_ratio q) (\<lambda>r. Inr (Some r, None)))))))"

definition canonicalize_group :: "group_summary \<Rightarrow> group_summary" where
  "canonicalize_group g = g
     \<lparr>gs_net_returns := map canonical_zero (gs_net_returns g),
      gs_net_pnls := map canonical_zero (gs_net_pnls g),
      gs_share_of_all := canonical_zero (gs_share_of_all g),
      gs_win_rate := canonical_zero (gs_win_rate g),
      gs_mean_net_return := canonical_zero (gs_mean_net_return g),
      gs_median_net_return := canonical_zero (gs_median_net_return g),
      gs_payoff_ratio := map_option canonical_zero (gs_payoff_ratio g),
      gs_net_pnl_total := canonical_zero (gs_net_pnl_total g),
      gs_average_holding_days := canonical_zero (gs_average_holding_days g)\<rparr>"

definition validate_group_derivations :: "group_summary \<Rightarrow> unit res" where
  "validate_group_derivations g =
     (let returns = gs_net_returns g; pnls = gs_net_pnls g; days = gs_holding_days g;
          positive = filter (\<lambda>v. 0 < dval v) returns; negative = filter (\<lambda>v. dval v < 0) returns
      in if \<not> (length returns = length pnls \<and> length pnls = length days \<and> length days = gs_realized_count g)
         then Inl (ValueError ''group audit values must match realized_count'')
         else if \<not> list_all (\<lambda>v. 0 \<le> v) days
         then Inl (ValueError ''group holding audit must contain nonnegative integers'')
         else if \<not> (gs_positive_count g = length positive \<and> gs_negative_count g = length negative
                    \<and> gs_zero_count g = length (filter (\<lambda>v. dval v = 0) returns))
         then Inl (ValueError ''group sign counts must match return audit values'')
         else bind_res (mean_values returns) (\<lambda>expected_mean. bind_res (median_values returns) (\<lambda>expected_median.
           if \<not> dec_eq (gs_mean_net_return g) expected_mean
           then Inl (ValueError ''mean_net_return does not match group audit values'')
           else if \<not> dec_eq (gs_median_net_return g) expected_median
           then Inl (ValueError ''median_net_return does not match group audit values'')
           else bind_res (payoff_values positive negative) (\<lambda>(expected_payoff, expected_reason).
             if \<not> (opt_eq (gs_payoff_ratio g) expected_payoff \<and> gs_payoff_ratio_reason g = expected_reason)
             then Inl (ValueError ''payoff_ratio does not match group audit values'')
             else bind_res (dec_sum pnls) (\<lambda>s. bind_res (round_money s) (\<lambda>pnl_total.
               if \<not> dec_eq (gs_net_pnl_total g) pnl_total
               then Inl (ValueError ''net_pnl_total does not match group audit values'')
               else bind_res (mean_values (map dec_of_int days)) (\<lambda>d.
                 if \<not> dec_eq (gs_average_holding_days g) d
                 then Inl (ValueError ''average_holding_days does not match group audit values'')
                 else Inr ())))))))"

definition validate_group :: "group_summary \<Rightarrow> unit res" where
  "validate_group g =
     then_res (validate_identity ''group key'' (gs_key g))
    (if gs_realized_count g = 0 then Inl (ValueError ''persisted groups must contain realized samples'')
     else if gs_realized_denominator g = 0 then Inl (ValueError ''group denominator must be positive'')
     else if gs_realized_denominator g < gs_realized_count g
     then Inl (ValueError ''group count cannot exceed the global denominator'')
     else if gs_positive_count g + gs_negative_count g + gs_zero_count g \<noteq> gs_realized_count g
     then Inl (ValueError ''group sign counts must reconcile'')
     else then_res
       (case gs_payoff_ratio g of
          None \<Rightarrow> if gs_payoff_ratio_reason g = None
                  then Inl (ValueError ''undefined group payoff requires a reason'') else Inr ()
        | Some p \<Rightarrow> if gs_payoff_ratio_reason g \<noteq> None
                    then Inl (ValueError ''defined group payoff cannot include a reason'')
                    else if dval p < 0 then Inl (ValueError ''group payoff cannot be negative'') else Inr ())
      (if \<not> (0 \<le> dval (gs_share_of_all g) \<and> dval (gs_share_of_all g) \<le> 1)
       then Inl (ValueError ''group share must be between 0 and 1'')
       else if \<not> (0 \<le> dval (gs_win_rate g) \<and> dval (gs_win_rate g) \<le> 1)
       then Inl (ValueError ''group win_rate must be between 0 and 1'')
       else bind_res (group_ratio (gs_realized_count g) (gs_realized_denominator g)) (\<lambda>share.
         if \<not> dec_eq (gs_share_of_all g) share
         then Inl (ValueError ''group share must equal count/global denominator'')
         else bind_res (group_ratio (gs_positive_count g) (gs_realized_count g)) (\<lambda>rate.
           if \<not> dec_eq (gs_win_rate g) rate
           then Inl (ValueError ''group win_rate must equal positive/count'')
           else if dval (gs_average_holding_days g) < 0
           then Inl (ValueError ''group average holding days cannot be negative'')
           else validate_group_derivations g))))"

definition mk_group_summary :: "group_summary \<Rightarrow> group_summary res" where
  "mk_group_summary g = (let c = canonicalize_group g in then_res (validate_group c) (Inr c))"

section \<open>Grouped metrics\<close>

record grouped_metrics =
  gm_dimension :: string
  gm_label :: string
  gm_realized_denominator :: nat
  gm_groups :: "group_summary list"
  gm_reason :: "string option"

definition mk_grouped_metrics :: "grouped_metrics \<Rightarrow> grouped_metrics res" where
  "mk_grouped_metrics g =
     (let keys = map gs_key (gm_groups g); n = gm_realized_denominator g
      in if gm_dimension g \<notin> {''symbol'', ''entry_month'', ''entry_year''}
         then Inl (ValueError ''unsupported grouping dimension'')
         else if gm_label g \<noteq> independent_sample_label
         then Inl (ValueError ''groups must retain the independent-sample label'')
         else if keys \<noteq> sort keys then Inl (ValueError ''group keys must use deterministic sorted order'')
         else if \<not> distinct keys then Inl (ValueError ''group keys must be unique'')
         else if sum_list (map gs_realized_count (gm_groups g)) \<noteq> n
         then Inl (ValueError ''group counts must reconcile to the global denominator'')
         else if \<not> list_all (\<lambda>s. gs_realized_denominator s = n) (gm_groups g)
         then Inl (ValueError ''every group must disclose the same global denominator'')
         else bind_res (if n = 0 then Inr False else share_error_exceeds (map gs_share_of_all (gm_groups g))) (\<lambda>exceeds.
           if exceeds then Inl (ValueError ''group shares exceed the quantization error bound'')
           else if n = 0
           then (if gm_groups g \<noteq> [] \<or> gm_reason g \<noteq> Some ''no_realized_samples''
                 then Inl (ValueError ''empty groups require no_realized_samples'') else Inr g)
           else if gm_reason g \<noteq> None then Inl (ValueError ''nonempty groups cannot include an empty reason'')
           else Inr g))"

section \<open>Grouping\<close>

text \<open>\<open>buckets.setdefault(key(sample), []).append(sample)\<close>; a dict keeps its keys in insertion order.\<close>

fun add_to_bucket :: "string \<Rightarrow> trade_sample \<Rightarrow> (string \<times> trade_sample list) list \<Rightarrow> (string \<times> trade_sample list) list" where
  "add_to_bucket k s [] = [(k, [s])]"
| "add_to_bucket k s ((k', ss) # bs) = (if k = k' then (k', ss @ [s]) # bs else (k', ss) # add_to_bucket k s bs)"

definition buckets_of :: "(trade_sample \<Rightarrow> string) \<Rightarrow> trade_sample list \<Rightarrow> (string \<times> trade_sample list) list" where
  "buckets_of key realized = fold (\<lambda>s bs. add_to_bucket (key s) s bs) realized []"

definition group_net_return :: "trade_sample \<Rightarrow> dec res" where
  "group_net_return s =
     (case ts_net_return s of None \<Rightarrow> Inl (ValueError ''group realized sample requires net_return'') | Some d \<Rightarrow> Inr d)"

definition group_net_pnl :: "trade_sample \<Rightarrow> dec res" where
  "group_net_pnl s =
     (case ts_net_pnl s of None \<Rightarrow> Inl (ValueError ''group realized sample requires net_pnl'') | Some d \<Rightarrow> Inr d)"

definition required :: "'a option \<Rightarrow> 'a res" where
  "required v = (case v of None \<Rightarrow> Inl AssertionError | Some x \<Rightarrow> Inr x)"

text \<open>The fields of a group, before its constructor audits them.\<close>

definition group_values :: "string \<Rightarrow> trade_sample list \<Rightarrow> nat \<Rightarrow> backtest_metrics \<Rightarrow> group_summary res" where
  "group_values key samples denominator m =
     bind_res (required (bm_win_rate m)) (\<lambda>win_rate.
     bind_res (required (bm_mean_net_return m)) (\<lambda>mean_return.
     bind_res (required (bm_median_net_return m)) (\<lambda>median_return.
     bind_res (required (bm_average_holding_days m)) (\<lambda>average_days.
     bind_res (group_ratio (bm_realized_count m) denominator) (\<lambda>share.
     bind_res (traverse group_net_return samples) (\<lambda>returns.
     bind_res (traverse group_net_pnl samples) (\<lambda>pnls.
       Inr \<lparr>gs_key = key, gs_realized_denominator = denominator, gs_realized_count = bm_realized_count m,
            gs_positive_count = bm_positive_count m, gs_negative_count = bm_negative_count m,
            gs_zero_count = bm_zero_count m, gs_share_of_all = share, gs_win_rate = win_rate,
            gs_mean_net_return = mean_return, gs_median_net_return = median_return,
            gs_payoff_ratio = bm_payoff_ratio m, gs_payoff_ratio_reason = bm_payoff_ratio_reason m,
            gs_net_pnl_total = bm_realized_net_pnl_total m, gs_average_holding_days = average_days,
            gs_net_returns = returns, gs_net_pnls = pnls,
            gs_holding_days = map ts_holding_days samples\<rparr>)))))))"

definition summarize_group :: "string \<Rightarrow> trade_sample list \<Rightarrow> nat \<Rightarrow> group_summary res" where
  "summarize_group key samples denominator =
     bind_res (summarize samples) (\<lambda>m. bind_res (group_values key samples denominator m) mk_group_summary)"

definition group_samples :: "string \<Rightarrow> (trade_sample \<Rightarrow> string) \<Rightarrow> trade_sample list \<Rightarrow> grouped_metrics res" where
  "group_samples dimension key samples =
     bind_res (freeze_unique_samples samples) (\<lambda>frozen.
       let realized = filter ts_realized frozen; denominator = length realized; buckets = buckets_of key realized
       in bind_res (traverse (\<lambda>k. summarize_group k (the (map_of buckets k)) denominator) (sort (map fst buckets)))
         (\<lambda>groups. mk_grouped_metrics \<lparr>gm_dimension = dimension, gm_label = independent_sample_label,
            gm_realized_denominator = denominator, gm_groups = groups,
            gm_reason = (if denominator = 0 then Some ''no_realized_samples'' else None)\<rparr>))"

section \<open>The three dimensions\<close>

text \<open>
  Year and month of a local date (the proleptic Gregorian calendar of \<open>datetime.date\<close>), counted in days from
  1970-01-01: the years and months begin at the first of March of the year 0, in eras of 400 years.
\<close>

definition civil_year_month :: "int \<Rightarrow> int \<times> int" where
  "civil_year_month day =
     (let z = day + 719468; era = z div 146097; doe = z mod 146097;
          yoe = (doe - doe div 1460 + doe div 36524 - doe div 146096) div 365;
          doy = doe - (365 * yoe + yoe div 4 - yoe div 100);
          mp = (5 * doy + 2) div 153;
          month = (if mp < 10 then mp + 3 else mp - 9)
      in (yoe + era * 400 + (if month \<le> 2 then 1 else 0), month))"

definition year_text :: "int \<Rightarrow> string" where
  "year_text year = nat_text (nat year)"

definition entry_month :: "zone \<Rightarrow> trade_sample \<Rightarrow> string" where
  "entry_month shanghai s =
     (case civil_year_month (local_date shanghai (ts_entry_fill_at s)) of
        (year, month) \<Rightarrow> year_text year @ ''-'' @ zero_padded 2 (nat_text (nat month)))"

definition entry_year :: "zone \<Rightarrow> trade_sample \<Rightarrow> string" where
  "entry_year shanghai s = year_text (fst (civil_year_month (local_date shanghai (ts_entry_fill_at s))))"

definition group_by_symbol :: "trade_sample list \<Rightarrow> grouped_metrics res" where
  "group_by_symbol samples = group_samples ''symbol'' ts_symbol samples"

definition group_by_entry_month :: "zone \<Rightarrow> trade_sample list \<Rightarrow> grouped_metrics res" where
  "group_by_entry_month shanghai samples = group_samples ''entry_month'' (entry_month shanghai) samples"

definition group_by_entry_year :: "zone \<Rightarrow> trade_sample list \<Rightarrow> grouped_metrics res" where
  "group_by_entry_year shanghai samples = group_samples ''entry_year'' (entry_year shanghai) samples"

section \<open>The shared arithmetic\<close>

lemma group_round_ratio_eq: "group_round_ratio = round_ratio"
  by (simp add: fun_eq_iff group_round_ratio_def round_ratio_def)

lemma group_ratio_eq: "group_ratio = ratio"
  by (simp add: fun_eq_iff group_ratio_def ratio_def round_ratio_def [abs_def])

lemma mean_values_eq: "mean vs = Inr (Some r) \<Longrightarrow> mean_values vs = Inr r"
  by (auto simp: mean_def mean_values_def group_round_ratio_eq bind_res_Inr_iff split: if_splits)

lemma median_values_eq: "median_of vs = Inr (Some r) \<Longrightarrow> median_values vs = Inr r"
proof -
  have "median_values vs = median vs"
    by (simp add: median_def median_values_def Let_def group_round_ratio_eq)
  then show "median_of vs = Inr (Some r) \<Longrightarrow> median_values vs = Inr r"
    by (auto simp: median_of_def bind_res_Inr_iff split: if_splits)
qed

lemma payoff_values_eq: "payoff_values = payoff"
  by (simp add: fun_eq_iff payoff_values_def payoff_def group_round_ratio_eq dec_mean_def)

section \<open>Signs\<close>

text \<open>The sign bit of a result, which bounds a ratio of positive means from below.\<close>

lemma nonneg_dval: "\<not> neg d \<Longrightarrow> 0 \<le> dval d"
  using dval_neg_iff [of d] by auto

lemma neg_dec_fix: "dec_fix r p d = Inr x \<Longrightarrow> neg x = neg d"
  by (auto simp: dec_fix_def Let_def split: if_splits prod.splits)

lemma neg_dec_add: "dec_add r p a b = Inr x \<Longrightarrow> \<not> neg a \<Longrightarrow> \<not> neg b \<Longrightarrow> \<not> neg x"
proof -
  assume x: "dec_add r p a b = Inr x" and ab: "\<not> neg a" "\<not> neg b"
  have "\<not> int (coeff a) * 10 ^ i + int (coeff b) * 10 ^ j < 0" for i j by (simp add: not_less)
  with x ab show ?thesis by (auto simp: dec_add_def Let_def signed_coeff_def dest!: neg_dec_fix split: if_splits)
qed

lemma neg_dec_sum: "dec_sum_from acc vs = Inr x \<Longrightarrow> \<not> neg acc \<Longrightarrow> \<forall>v \<in> set vs. \<not> neg v \<Longrightarrow> \<not> neg x"
  by (induction vs arbitrary: acc) (auto simp: bind_res_Inr_iff dest: neg_dec_add)

lemma neg_dec_div: "dec_div r p a b = Inr x \<Longrightarrow> neg x = (neg a \<noteq> neg b)"
  by (auto simp: dec_div_def Let_def dest!: neg_dec_fix split: if_splits prod.splits)

lemma neg_canonical_zero: "\<not> neg d \<Longrightarrow> \<not> neg (canonical_zero d)"
  by (simp add: canonical_zero_def copy_abs_def)

lemma neg_divide_decimal: "divide_decimal a b = Inr x \<Longrightarrow> \<not> neg a \<Longrightarrow> \<not> neg b \<Longrightarrow> \<not> neg x"
  by (auto simp: divide_decimal_def neg_canonical_zero dest: neg_dec_div split: if_splits sum.splits)

lemma neg_round_ratio: "round_ratio d = Inr x \<Longrightarrow> \<not> neg d \<Longrightarrow> \<not> neg x"
  by (auto simp: round_ratio_def bind_res_Inr_iff dec_quantize_def dec_rescale_def Let_def neg_canonical_zero
    dest!: neg_dec_fix split: if_splits)

lemma neg_dec_of_int: "0 \<le> i \<Longrightarrow> \<not> neg (dec_of_int i)"
  by (simp add: dec_of_int_def)

lemma mean_nonneg: "mean vs = Inr (Some r) \<Longrightarrow> \<forall>v \<in> set vs. \<not> neg v \<Longrightarrow> 0 \<le> dval r"
proof -
  assume "mean vs = Inr (Some r)" "\<forall>v \<in> set vs. \<not> neg v"
  then obtain s q where s: "dec_sum vs = Inr s" "divide_decimal s (dec_of_int (int (length vs))) = Inr q"
    "round_ratio q = Inr r" by (auto simp: mean_def bind_res_Inr_iff split: if_splits)
  have "\<not> neg s" by (rule neg_dec_sum [OF s(1) [unfolded dec_sum_def]]) (use \<open>\<forall>v \<in> set vs. \<not> neg v\<close> in simp_all)
  with s(2,3) show ?thesis by (intro nonneg_dval) (simp add: neg_round_ratio neg_divide_decimal neg_dec_of_int)
qed

lemma payoff_nonneg:
  assumes "payoff (filter (\<lambda>v. 0 < dval v) vs) negs = Inr (Some r, reason)"
  shows "0 \<le> dval r"
proof -
  let ?pos = "filter (\<lambda>v. 0 < dval v) vs"
  from assms obtain pm nm a q where s: "dec_mean ?pos = Inr pm" "dec_mean negs = Inr nm" "dec_abs nm = Inr a"
    "divide_decimal pm a = Inr q" "round_ratio q = Inr r" by (auto simp: payoff_def bind_res_Inr_iff split: if_splits)
  from s(1) obtain t where t: "dec_sum ?pos = Inr t" "divide_decimal t (dec_of_int (int (length ?pos))) = Inr pm"
    by (auto simp: dec_mean_def bind_res_Inr_iff)
  have "\<not> neg t" by (rule neg_dec_sum [OF t(1) [unfolded dec_sum_def]]) (simp_all add: dval_pos_iff)
  then have "\<not> neg pm" using t(2) by (simp add: neg_divide_decimal neg_dec_of_int)
  moreover have "\<not> neg a" using s(3) by (auto simp: dec_abs_def copy_abs_def dest: neg_dec_fix)
  ultimately show ?thesis using s(4,5) by (intro nonneg_dval) (simp add: neg_round_ratio neg_divide_decimal)
qed

section \<open>Buckets\<close>

lemma map_of_add_to_bucket:
  "map_of (add_to_bucket k s bs) = (map_of bs)(k \<mapsto> (case map_of bs k of None \<Rightarrow> [s] | Some ss \<Rightarrow> ss @ [s]))"
  by (induction k s bs rule: add_to_bucket.induct) (auto simp: fun_eq_iff)

lemma keys_add_to_bucket: "set (map fst (add_to_bucket k s bs)) = insert k (set (map fst bs))"
  by (induction k s bs rule: add_to_bucket.induct) auto

lemma distinct_add_to_bucket: "distinct (map fst bs) \<Longrightarrow> distinct (map fst (add_to_bucket k s bs))"
  by (induction k s bs rule: add_to_bucket.induct) (use keys_add_to_bucket in \<open>auto simp flip: set_map\<close>)

lemma buckets_of_snoc: "buckets_of key (xs @ [x]) = add_to_bucket (key x) x (buckets_of key xs)"
  by (simp add: buckets_of_def)

lemma buckets_of_keys: "distinct (map fst (buckets_of key xs)) \<and> set (map fst (buckets_of key xs)) = key ` set xs"
proof (induction xs rule: rev_induct)
  case Nil
  then show ?case by (simp add: buckets_of_def)
next
  case (snoc x xs)
  then show ?case unfolding buckets_of_snoc keys_add_to_bucket using distinct_add_to_bucket by simp
qed

lemma map_of_buckets_of:
  "map_of (buckets_of key xs) k = (if k \<in> key ` set xs then Some (filter (\<lambda>s. key s = k) xs) else None)"
proof (induction xs arbitrary: k rule: rev_induct)
  case Nil
  then show ?case by (simp add: buckets_of_def)
next
  case (snoc x xs)
  show ?case unfolding buckets_of_snoc map_of_add_to_bucket by (cases "k = key x") (auto simp: snoc.IH filter_empty_conv image_iff)
qed

lemma sorted_bucket_keys: "sort (map fst (buckets_of key xs)) = sorted_list_of_set (key ` set xs)"
  using buckets_of_keys [of key xs]
  by (metis distinct_remdups_id sorted_list_of_set_sort_remdups)

lemma bucket_sizes: "(\<Sum>k\<leftarrow>sorted_list_of_set (key ` set xs). length (filter (\<lambda>s. key s = k) xs)) = length xs"
proof -
  have "(\<Sum>k\<leftarrow>sorted_list_of_set (key ` set xs). length (filter (\<lambda>s. key s = k) xs))
    = (\<Sum>k \<in> key ` set xs. length (filter (\<lambda>s. key s = k) xs))"
    by (simp add: sum_list_distinct_conv_sum_set)
  also have "\<dots> = length xs"
  proof -
    have "(\<Sum>k \<in> A. length (filter (\<lambda>s. key s = k) xs)) = length xs" if "finite A" "key ` set xs \<subseteq> A" for A
      using that(2)
    proof (induction xs)
      case (Cons x xs)
      have "(\<Sum>k \<in> A. length (filter (\<lambda>s. key s = k) (x # xs)))
        = (\<Sum>k \<in> A. (if key x = k then 1 else 0) + length (filter (\<lambda>s. key s = k) xs))"
        by (rule sum.cong) auto
      with Cons that(1) show ?case by (simp add: sum.distrib)
    qed simp
    then show ?thesis by simp
  qed
  finally show ?thesis .
qed

section \<open>Identities of a part\<close>

lemma run_identities:
  "run_res identity_step seen samples = Inr out \<longleftrightarrow>
     (\<exists>ids. traverse identity_of samples = Inr ids \<and> distinct ids \<and> set ids \<inter> set seen = {} \<and> out = rev ids @ seen)"
proof (induction samples arbitrary: seen)
  case (Cons s samples)
  show ?case
  proof (cases "identity_of s")
    case (Inr i)
    have step: "identity_step seen s =
      (if i \<in> set seen then Inl (ValueError ''duplicate trade identity is not allowed'') else Inr (i # seen))"
      by (simp add: identity_step_def Inr)
    show ?thesis
    proof (cases "i \<in> set seen")
      case False
      then show ?thesis by (auto simp: step Inr Cons.IH bind_res_Inr_iff)
    qed (auto simp: step Inr bind_res_Inr_iff)
  qed (simp add: identity_step_def)
qed auto

lemma traverse_filter:
  assumes "traverse f xs = Inr is" and "distinct is"
  shows "\<exists>js. traverse f (filter P xs) = Inr js \<and> distinct js \<and> set js \<subseteq> set is"
  using assms
proof (induction xs arbitrary: "is")
  case (Cons x xs)
  then obtain i "is'" where i: "f x = Inr i" "traverse f xs = Inr is'" "is = i # is'"
    by (auto simp: bind_res_Inr_iff)
  have "distinct is'" using Cons.prems(2) i(3) by simp
  from Cons.IH [OF i(2) this] obtain js where
    js: "traverse f (filter P xs) = Inr js" "distinct js" "set js \<subseteq> set is'" by blast
  show ?case
  proof (cases "P x")
    case True
    have "i \<notin> set js" using js(3) Cons.prems(2) i(3) by auto
    then show ?thesis using True i js by (intro exI [of _ "i # js"]) auto
  next
    case False
    then show ?thesis using i js by (intro exI [of _ js]) auto
  qed
qed simp

lemma freeze_filter:
  assumes "freeze_unique_samples samples = Inr frozen"
  shows "frozen = samples \<and> freeze_unique_samples (filter P samples) = Inr (filter P samples)"
proof -
  from assms have f: "frozen = samples" and "\<exists>out. run_res identity_step [] samples = Inr out"
    unfolding freeze_unique_samples_def then_res_Inr_iff sum.inject by blast+
  then obtain ids where ids: "traverse identity_of samples = Inr ids" "distinct ids"
    unfolding run_identities by blast
  from traverse_filter [OF ids, of P] obtain js where
    js: "traverse identity_of (filter P samples) = Inr js" "distinct js" by blast
  have "run_res identity_step [] (filter P samples) = Inr (rev js @ [])"
    unfolding run_identities using js by (intro exI [of _ js]) simp
  then show ?thesis unfolding freeze_unique_samples_def f by simp
qed
section \<open>The audit of a group\<close>

lemma traverse_group_returns: "traverse required_metric_return ss = Inr vs \<Longrightarrow> traverse group_net_return ss = Inr vs"
  by (induction ss arbitrary: vs)
    (auto simp: bind_res_Inr_iff required_metric_return_def group_net_return_def split: option.splits)

lemma traverse_group_pnls: "traverse required_metric_pnl ss = Inr vs \<Longrightarrow> traverse group_net_pnl ss = Inr vs"
  by (induction ss arbitrary: vs)
    (auto simp: bind_res_Inr_iff required_metric_pnl_def group_net_pnl_def split: option.splits)

lemma group_of_summary:
  assumes b: "\<forall>s \<in> set b. constructed s \<and> ts_realized s" "b \<noteq> []" and n: "length b \<le> n" "n < 10 ^ 100"
    and k: "\<not> blank k" and m: "summary_values b = Inr m"
  shows "\<exists>g. group_values k b n m = Inr g \<and> mk_group_summary g = Inr g \<and> gs_key g = k
    \<and> gs_realized_count g = length b \<and> gs_realized_denominator g = n \<and> ratio (length b) n = Inr (gs_share_of_all g)"
proof -
  have rb: "filter ts_realized b = b" using b(1) by (simp add: filter_id_conv)
  note v = summary_values_contract [OF m, unfolded rb]
  note c = conjunct1 [OF v, unfolded summary_contract_def]
  let ?rs = "bm_realized_net_returns m" and ?pos = "filter (\<lambda>v. 0 < dval v) (bm_realized_net_returns m)"
    and ?neg = "filter (\<lambda>v. dval v < 0) (bm_realized_net_returns m)"
  have can: "canonicalize_metrics m = m" using summary_canonical [OF _ m] b(1) by blast
  have days: "bm_realized_holding_days m = map ts_holding_days b" by (simp only: v)
  have sym: "bm_realized_symbols m = map ts_symbol b" by (simp only: v)
  have "length (bm_realized_symbols m) = bm_realized_count m" using c by (elim conjE)
  then have cnt: "bm_realized_count m = length b" by (simp add: sym)
  have lens: "length ?rs = length b" "length (bm_realized_net_pnls m) = length b" by (simp_all only: c cnt)
  have nonempty: "?rs \<noteq> []" using lens(1) b(2) by auto
  have "win_rate_of ?rs = Inr (bm_win_rate m)" using c by (elim conjE)
  with nonempty obtain w where w: "bm_win_rate m = Some w" "ratio (length ?pos) (length b) = Inr w"
    by (simp add: win_rate_of_def bind_res_Inr_iff lens) (metis)
  have mr0: "mean ?rs = Inr (bm_mean_net_return m)" using c by (elim conjE)
  with nonempty obtain mr where mr: "bm_mean_net_return m = Some mr" using mean_Inr by blast
  have md0: "median_of ?rs = Inr (bm_median_net_return m)" using c by (elim conjE)
  with nonempty obtain md where md: "bm_median_net_return m = Some md" using median_of_Inr by blast
  have ad0: "mean (map dec_of_int (map ts_holding_days b)) = Inr (bm_average_holding_days m)"
    using c days by metis
  with b(2) obtain ad where ad: "bm_average_holding_days m = Some ad" using mean_Inr by blast
  have po: "payoff ?pos ?neg = Inr (bm_payoff_ratio m, bm_payoff_ratio_reason m)" using c by (elim conjE)
  have "bind_res (dec_sum (bm_realized_net_pnls m)) round_money = Inr (bm_realized_net_pnl_total m)"
    using c by (elim conjE)
  then obtain s where s: "dec_sum (bm_realized_net_pnls m) = Inr s" "round_money s = Inr (bm_realized_net_pnl_total m)"
    by (auto simp: bind_res_Inr_iff)
  obtain share where share: "ratio (length b) n = Inr share" "canonical share" "0 \<le> dval share" "dval share \<le> 1"
    using ratio_ok [OF n(1)] n b(2) by auto
  have w01: "0 \<le> dval w" "dval w \<le> 1"
    using ratio_ok [of "length ?pos" "length b"] w(2) n b(2) lens(1) length_filter_le [of "\<lambda>v. 0 < dval v" ?rs] by auto
  define g where "g = \<lparr>gs_key = k, gs_realized_denominator = n, gs_realized_count = bm_realized_count m,
            gs_positive_count = bm_positive_count m, gs_negative_count = bm_negative_count m,
            gs_zero_count = bm_zero_count m, gs_share_of_all = share, gs_win_rate = w,
            gs_mean_net_return = mr, gs_median_net_return = md,
            gs_payoff_ratio = bm_payoff_ratio m, gs_payoff_ratio_reason = bm_payoff_ratio_reason m,
            gs_net_pnl_total = bm_realized_net_pnl_total m, gs_average_holding_days = ad,
            gs_net_returns = ?rs, gs_net_pnls = bm_realized_net_pnls m, gs_holding_days = map ts_holding_days b\<rparr>"
  have tr: "traverse required_metric_return b = Inr ?rs" "traverse required_metric_pnl b = Inr (bm_realized_net_pnls m)"
    by (simp_all only: v)
  have vals: "group_values k b n m = Inr g"
    by (simp add: group_values_def g_def required_def w mr md ad group_ratio_eq cnt share traverse_group_returns [OF tr(1)]
      traverse_group_pnls [OF tr(2)])
  have cf: "map canonical_zero ?rs = ?rs" "map canonical_zero (bm_realized_net_pnls m) = bm_realized_net_pnls m"
    "canonical_zero w = w" "canonical_zero mr = mr" "canonical_zero md = md" "canonical_zero ad = ad"
    "map_option canonical_zero (bm_payoff_ratio m) = bm_payoff_ratio m"
    "canonical_zero (bm_realized_net_pnl_total m) = bm_realized_net_pnl_total m"
    using arg_cong [OF can, of bm_realized_net_returns] arg_cong [OF can, of bm_realized_net_pnls]
      arg_cong [OF can, of bm_win_rate] arg_cong [OF can, of bm_mean_net_return] arg_cong [OF can, of bm_median_net_return]
      arg_cong [OF can, of bm_average_holding_days] arg_cong [OF can, of bm_payoff_ratio]
      arg_cong [OF can, of bm_realized_net_pnl_total]
    by (simp_all add: canonicalize_metrics_def w mr md ad)
  have cang: "canonicalize_group g = g"
    by (simp add: canonicalize_group_def g_def cf canonical_id [OF share(2)])
  have signs: "bm_positive_count m = length ?pos" "bm_negative_count m = length ?neg"
    "bm_zero_count m = length (filter (\<lambda>v. dval v = 0) ?rs)" by (simp_all only: c)
  have dn: "\<forall>d \<in> set (map ts_holding_days b). 0 \<le> d" using constructed_fields b(1) by auto
  have ad_nn: "0 \<le> dval ad"
    by (rule mean_nonneg [OF ad0 [unfolded ad]]) (use dn neg_dec_of_int in auto)
  have der: "validate_group_derivations g = Inr ()"
    using mean_values_eq [OF mr0 [unfolded mr]] median_values_eq [OF md0 [unfolded md]] mean_values_eq [OF ad0 [unfolded ad]]
      po s dn signs lens
    by (simp add: validate_group_derivations_def g_def cnt payoff_values_eq list_all_iff)
  have pay: "(case bm_payoff_ratio m of
          None \<Rightarrow> if bm_payoff_ratio_reason m = None
                  then Inl (ValueError ''undefined group payoff requires a reason'') else Inr ()
        | Some p \<Rightarrow> if bm_payoff_ratio_reason m \<noteq> None
                    then Inl (ValueError ''defined group payoff cannot include a reason'')
                    else if dval p < 0 then Inl (ValueError ''group payoff cannot be negative'') else Inr ()) = Inr ()"
    using payoff_Inr [OF po] payoff_nonneg [of ?rs ?neg] po by (cases "bm_payoff_ratio m") force+
  have gf: "gs_key g = k" "gs_realized_denominator g = n" "gs_realized_count g = length b" "gs_positive_count g = length ?pos"
    "gs_negative_count g = length ?neg" "gs_zero_count g = length (filter (\<lambda>v. dval v = 0) ?rs)"
    "gs_share_of_all g = share" "gs_win_rate g = w" "gs_payoff_ratio g = bm_payoff_ratio m"
    "gs_payoff_ratio_reason g = bm_payoff_ratio_reason m" "gs_average_holding_days g = ad"
    by (simp_all only: g_def cnt signs group_summary.simps)
  have "0 < n" using n(1) b(2) by (cases b) auto
  then have checks: "validate_identity ''group key'' k = Inr ()" "length b \<noteq> 0" "n \<noteq> 0" "\<not> n < length b"
    "length ?pos + length ?neg + length (filter (\<lambda>v. dval v = 0) ?rs) = length b"
    "\<not> dval ad < 0" using k n b(2) ad_nn sign_counts [of ?rs] lens(1) by (auto simp: validate_identity_def)
  have "validate_group g = Inr ()"
    unfolding validate_group_def gf pay group_ratio_eq
    by (simp only: checks der share w w01 then_res_simps bind_res_simps simp_thms dec_eq_refl if_False if_True)
  then have "mk_group_summary g = Inr g" by (simp add: mk_group_summary_def cang)
  with vals share(1) show ?thesis by (simp add: g_def cnt)
qed

text \<open>
  The grouping without its audits: one group per key, the keys sorted, each with the samples that have it in
  their order, and the values that the summary of those samples gives.
\<close>

definition grouped_reference ::
  "string \<Rightarrow> (trade_sample \<Rightarrow> string) \<Rightarrow> trade_sample list \<Rightarrow> grouped_metrics res" where
  "grouped_reference dimension key realized =
     (let n = length realized
      in bind_res (traverse (\<lambda>k. let b = filter (\<lambda>s. key s = k) realized
                                 in bind_res (summary_values b) (group_values k b n))
                    (sorted_list_of_set (key ` set realized)))
         (\<lambda>groups. Inr \<lparr>gm_dimension = dimension, gm_label = independent_sample_label, gm_realized_denominator = n,
            gm_groups = groups, gm_reason = (if n = 0 then Some ''no_realized_samples'' else None)\<rparr>))"

lemma traverse_cong: "(\<And>x. x \<in> set xs \<Longrightarrow> f x = g x) \<Longrightarrow> traverse f xs = traverse g xs"
  by (induction xs) simp_all

lemma grouped_accepts:
  assumes c: "\<forall>s \<in> set realized. constructed s \<and> ts_realized s \<and> \<not> blank (key s)" and n: "length realized < 10 ^ 18"
    and dim: "dimension \<in> {''symbol'', ''entry_month'', ''entry_year''}"
    and g: "grouped_reference dimension key realized = Inr g"
  shows "mk_grouped_metrics g = Inr g \<and> map gs_key (gm_groups g) = sorted_list_of_set (key ` set realized)
    \<and> (\<forall>s \<in> set (gm_groups g). gs_realized_count s = length (filter (\<lambda>t. key t = gs_key s) realized))"
proof -
  let ?ks = "sorted_list_of_set (key ` set realized)" and ?n = "length realized"
  let ?f = "\<lambda>k. let b = filter (\<lambda>s. key s = k) realized in bind_res (summary_values b) (group_values k b ?n)"
  from g obtain groups where tr: "traverse ?f ?ks = Inr groups"
    and gv: "g = \<lparr>gm_dimension = dimension, gm_label = independent_sample_label, gm_realized_denominator = ?n,
            gm_groups = groups, gm_reason = (if ?n = 0 then Some ''no_realized_samples'' else None)\<rparr>"
    unfolding grouped_reference_def Let_def bind_res_Inr_iff by auto
  have n100: "?n < 10 ^ 100" using n by (rule less_trans) simp
  have one: "gs_key s = k \<and> gs_realized_count s = length (filter (\<lambda>t. key t = k) realized) \<and> gs_realized_denominator s = ?n
      \<and> ratio (length (filter (\<lambda>t. key t = k) realized)) ?n = Inr (gs_share_of_all s)"
    if k: "k \<in> set ?ks" and f: "?f k = Inr s" for k s
  proof -
    let ?b = "filter (\<lambda>t. key t = k) realized"
    have kk: "k \<in> key ` set realized" using k by simp
    from f obtain m where m: "summary_values ?b = Inr m" "group_values k ?b ?n m = Inr s"
      unfolding Let_def bind_res_Inr_iff by blast
    have "\<forall>t \<in> set ?b. constructed t \<and> ts_realized t" "?b \<noteq> []" "length ?b \<le> ?n" "\<not> blank k"
      using c kk by (auto simp: filter_empty_conv)
    from group_of_summary [OF this(1,2,3) n100 this(4) m(1)] m(2) show ?thesis by auto
  qed
  have all2: "list_all2 (\<lambda>k s. gs_key s = k \<and> gs_realized_count s = length (filter (\<lambda>t. key t = k) realized)
      \<and> gs_realized_denominator s = ?n \<and> ratio (length (filter (\<lambda>t. key t = k) realized)) ?n = Inr (gs_share_of_all s)) ?ks groups"
    using tr unfolding traverse_Inr_iff by (rule list.rel_mono_strong) (use one in blast)
  have keys: "map gs_key groups = ?ks"
    using all2 by (induction rule: list_all2_induct) simp_all
  have counts: "map gs_realized_count groups = map (\<lambda>k. length (filter (\<lambda>t. key t = k) realized)) ?ks"
    using all2 by (induction rule: list_all2_induct) simp_all
  have den: "list_all (\<lambda>s. gs_realized_denominator s = ?n) groups"
    using all2 by (induction rule: list_all2_induct) simp_all
  have own: "\<forall>s \<in> set groups. gs_realized_count s = length (filter (\<lambda>t. key t = gs_key s) realized)"
    using all2 by (induction rule: list_all2_induct) simp_all
  have shares: "list_all2 (\<lambda>i r. ratio i ?n = Inr r) (map (\<lambda>k. length (filter (\<lambda>t. key t = k) realized)) ?ks)
      (map gs_share_of_all groups)"
    using all2 by (induction rule: list_all2_induct) simp_all
  have sum: "sum_list (map gs_realized_count groups) = ?n"
    unfolding counts by (rule bucket_sizes)
  have err: "(if ?n = 0 then Inr False else share_error_exceeds (map gs_share_of_all groups)) = Inr False"
  proof (cases "?n = 0")
    case False
    have "length groups = card (key ` set realized)" using keys by (metis length_map length_sorted_list_of_set)
    also have "\<dots> \<le> ?n" by (meson card_image_le card_length finite_set le_trans)
    finally have "length (map gs_share_of_all groups) < 10 ^ 18" using n by simp
    from share_error_within [OF shares sum [unfolded counts] _ n100 this refl] False show ?thesis by simp
  qed simp
  have empty: "?n = 0 \<Longrightarrow> groups = []" using keys by simp
  have "sort ?ks = ?ks" "distinct ?ks" by (simp_all add: sorted_sort_id)
  then have "mk_grouped_metrics g = Inr g"
    using dim sum den err empty keys by (auto simp: mk_grouped_metrics_def gv)
  with keys own show ?thesis by (simp add: gv)
qed

lemma group_samples_reference:
  assumes c: "\<forall>s \<in> set samples. constructed s \<and> \<not> blank (key s)" and n: "length samples < 10 ^ 18"
    and dim: "dimension \<in> {''symbol'', ''entry_month'', ''entry_year''}"
  shows "group_samples dimension key samples
      = then_res (freeze_unique_samples samples) (grouped_reference dimension key (filter ts_realized samples))"
proof (cases "freeze_unique_samples samples")
  case (Inr frozen)
  let ?r = "filter ts_realized samples" and ?n = "length (filter ts_realized samples)"
  let ?f = "\<lambda>k. let b = filter (\<lambda>s. key s = k) ?r in bind_res (summary_values b) (group_values k b ?n)"
  have fz: "frozen = samples" using freeze_filter [OF Inr] by blast
  have rn: "?n < 10 ^ 18" using n length_filter_le [of ts_realized samples] by linarith
  have n100: "?n < 10 ^ 100" using rn by (rule less_trans) simp
  have rc: "\<forall>s \<in> set ?r. constructed s \<and> ts_realized s \<and> \<not> blank (key s)" using c by simp
  have sg: "summarize_group k (the (map_of (buckets_of key ?r) k)) ?n = ?f k" if k: "k \<in> key ` set ?r" for k
  proof -
    let ?b = "filter (\<lambda>s. key s = k) ?r"
    have b0: "\<forall>t \<in> set ?b. constructed t \<and> ts_realized t" "?b \<noteq> []" "\<not> blank k"
      using rc k by (auto simp: filter_empty_conv)
    note b = b0(1,2) length_filter_le [of "\<lambda>s. key s = k" ?r] b0(3)
    have "freeze_unique_samples ?b = Inr ?b"
      using freeze_filter [OF Inr, of "\<lambda>s. ts_realized s \<and> key s = k"] by simp
    moreover have "length ?b < 10 ^ 100" using b(3) n100 by linarith
    moreover have "\<forall>t \<in> set ?b. constructed t" using b(1) by blast
    ultimately have sb: "summarize ?b = summary_values ?b" using summarize_audited [of ?b] by (simp only: bind_res_simps)
    have "summarize_group k ?b ?n = ?f k"
    proof (cases "summary_values ?b")
      case Inl
      then show ?thesis unfolding summarize_group_def sb Let_def by (simp only: bind_res_simps)
    next
      case (Inr m)
      from group_of_summary [OF b(1-3) n100 b(4) Inr] show ?thesis
        unfolding summarize_group_def sb Let_def Inr bind_res_simps by (elim exE conjE) (simp only: bind_res_simps)
    qed
    moreover have "the (map_of (buckets_of key ?r) k) = ?b" using k by (simp only: map_of_buckets_of if_True option.sel)
    ultimately show ?thesis by (simp only:)
  qed
  have tr: "traverse (\<lambda>k. summarize_group k (the (map_of (buckets_of key ?r) k)) ?n) (sort (map fst (buckets_of key ?r)))
    = traverse ?f (sorted_list_of_set (key ` set ?r))"
    unfolding sorted_bucket_keys by (rule traverse_cong) (use sg in simp)
  have "group_samples dimension key samples = bind_res (grouped_reference dimension key ?r) mk_grouped_metrics"
    unfolding group_samples_def Inr bind_res_simps Let_def fz tr grouped_reference_def bind_res_assoc ..
  also have "\<dots> = grouped_reference dimension key ?r"
    using grouped_accepts [OF rc rn dim] by (cases "grouped_reference dimension key ?r") auto
  finally show ?thesis by (simp add: Inr)
qed (simp add: group_samples_def)

text \<open>
  C31. Grouping partitions the realized samples by their key and no audit of a group or of the whole ever
  rejects it: for constructed samples with nonblank keys, the code (a dict of buckets, a summary with its audit
  per bucket, the audits of the groups) computes what the reference says: one group per key that occurs, the keys in
  ascending order, each over the samples with that key in their order; so the counts of the groups are the numbers
  of samples with their keys.
\<close>

theorem grouping_partitions:
  assumes "\<forall>s \<in> set samples. constructed s \<and> \<not> blank (key s)" and "length samples < 10 ^ 18"
    and "dimension \<in> {''symbol'', ''entry_month'', ''entry_year''}"
  shows "group_samples dimension key samples
      = then_res (freeze_unique_samples samples) (grouped_reference dimension key (filter ts_realized samples))
    \<and> (\<forall>g. group_samples dimension key samples = Inr g \<longrightarrow>
        map gs_key (gm_groups g) = sorted_list_of_set (key ` set (filter ts_realized samples))
        \<and> (\<forall>s \<in> set (gm_groups g). gs_realized_count s
             = length (filter (\<lambda>t. key t = gs_key s) (filter ts_realized samples))))"
proof (intro conjI allI impI)
  show eq: "group_samples dimension key samples
      = then_res (freeze_unique_samples samples) (grouped_reference dimension key (filter ts_realized samples))"
    using assms by (rule group_samples_reference)
  fix g assume "group_samples dimension key samples = Inr g"
  then have g: "grouped_reference dimension key (filter ts_realized samples) = Inr g"
    unfolding eq then_res_Inr_iff by blast
  have "\<forall>s \<in> set (filter ts_realized samples). constructed s \<and> ts_realized s \<and> \<not> blank (key s)"
    "length (filter ts_realized samples) < 10 ^ 18"
    using assms(1,2) length_filter_le [of ts_realized samples] by (simp, linarith)
  from grouped_accepts [OF this assms(3) g] show
    "map gs_key (gm_groups g) = sorted_list_of_set (key ` set (filter ts_realized samples))"
    "\<forall>s \<in> set (gm_groups g). gs_realized_count s
             = length (filter (\<lambda>t. key t = gs_key s) (filter ts_realized samples))" by blast+
qed

theorem grouping_partitions_witness:
  "\<exists>s. constructed s \<and> ts_realized s
     \<and> group_by_symbol [s] = then_res (freeze_unique_samples [s]) (grouped_reference ''symbol'' ts_symbol [s])"
proof -
  obtain s where s: "constructed s" "ts_realized s" using constructed_example by blast
  then have "\<forall>x \<in> set [s]. constructed x \<and> \<not> blank (ts_symbol x)" using constructed_fields by simp
  moreover have "length [s] < 10 ^ 18" by simp
  ultimately have "group_samples ''symbol'' ts_symbol [s]
      = then_res (freeze_unique_samples [s]) (grouped_reference ''symbol'' ts_symbol (filter ts_realized [s]))"
    using grouping_partitions [of "[s]" ts_symbol "''symbol''"] by blast
  with s show ?thesis by (auto simp: group_by_symbol_def)
qed

end
