(* ===== verification/Task_Json.thy ===== *)
theory Task_Json
  imports Prelude Complex_Main
begin

text \<open>
  The JSON values of the task repository (\<open>tasks/repository.py\<close>): the validation and
  normalisation of a payload, a result, an error or an event detail, and the frozen view of a
  stored object. A Python value is a finite tree: the test for a container that contains itself
  has no branch. Characters are bytes, so the test for lone surrogates has none either. The
  explicit stack of the source visits the tree in preorder, as the recursion does.
\<close>

datatype task_error =
    TaskNotFound string
  | TaskConflict string
  | TaskValidationError string
  | TaskRepositoryError string
  | IntegrityError
  | TaskRuntimeError string

type_synonym 'a task_res = "task_error + 'a"

text \<open>\<open>PyFloat None\<close> is a float that is not finite, \<open>PyOther\<close> a value of any other type.\<close>

datatype pyval =
    PyNone
  | PyBool bool
  | PyInt int
  | PyFloat "rat option"
  | PyStr string
  | PyMap "(pyval \<times> pyval) list"
  | PySeq "pyval list"
  | PyOther

datatype json =
    JNull
  | JBool bool
  | JInt int
  | JFloat rat
  | JStr string
  | JObj "(string \<times> json) list"
  | JList "json list"

definition max_json_depth :: nat where "max_json_depth = 128"

definition json_validation_error :: "string \<Rightarrow> task_error" where
  "json_validation_error field_name = TaskValidationError (''Task '' @ field_name @ '' must be a JSON-compatible object'')"

fun is_py_str :: "pyval \<Rightarrow> bool" where
  "is_py_str (PyStr _) = True"
| "is_py_str _ = False"

fun py_str :: "pyval \<Rightarrow> string" where
  "py_str (PyStr s) = s"
| "py_str _ = []"

fun normalize_value :: "string \<Rightarrow> nat \<Rightarrow> pyval \<Rightarrow> json task_res"
  and normalize_fields :: "string \<Rightarrow> nat \<Rightarrow> (pyval \<times> pyval) list \<Rightarrow> (string \<times> json) list task_res"
  and normalize_items :: "string \<Rightarrow> nat \<Rightarrow> pyval list \<Rightarrow> json list task_res" where
  "normalize_value field_name depth source =
     (if max_json_depth < depth then Inl (json_validation_error field_name)
      else case source of
          PyNone \<Rightarrow> Inr JNull
        | PyBool b \<Rightarrow> Inr (JBool b)
        | PyInt i \<Rightarrow> Inr (JInt i)
        | PyStr s \<Rightarrow> Inr (JStr s)
        | PyFloat None \<Rightarrow> Inl (json_validation_error field_name)
        | PyFloat (Some x) \<Rightarrow> Inr (JFloat x)
        | PyMap items \<Rightarrow>
            if \<not> list_all (is_py_str \<circ> fst) items
            then Inl (TaskValidationError (''Task '' @ field_name @ '' JSON object keys must be strings''))
            else bind_res (normalize_fields field_name (Suc depth) items) (\<lambda>fs. Inr (JObj fs))
        | PySeq items \<Rightarrow> bind_res (normalize_items field_name (Suc depth) items) (\<lambda>js. Inr (JList js))
        | PyOther \<Rightarrow> Inl (json_validation_error field_name))"
| "normalize_fields field_name depth [] = Inr []"
| "normalize_fields field_name depth ((key, nested) # items) =
     bind_res (normalize_value field_name depth nested) (\<lambda>j.
     bind_res (normalize_fields field_name depth items) (\<lambda>fs. Inr ((py_str key, j) # fs)))"
| "normalize_items field_name depth [] = Inr []"
| "normalize_items field_name depth (item # items) =
     bind_res (normalize_value field_name depth item) (\<lambda>j.
     bind_res (normalize_items field_name depth items) (\<lambda>js. Inr (j # js)))"

fun is_py_map :: "pyval \<Rightarrow> bool" where
  "is_py_map (PyMap _) = True"
| "is_py_map _ = False"

definition normalize_json_object :: "string \<Rightarrow> pyval \<Rightarrow> json task_res" where
  "normalize_json_object field_name value =
     (if \<not> is_py_map value then Inl (json_validation_error field_name)
      else normalize_value field_name 0 value)"

text \<open>
  \<open>json.dumps\<close> raises on an integer of more than 4300 digits (Python's limit for the conversion
  of an int to a string); every other normalised value is written and read back unchanged.
\<close>

definition int_to_str_ok :: "int \<Rightarrow> bool" where
  "int_to_str_ok i \<longleftrightarrow> \<bar>i\<bar> < 10 ^ 4300"

fun json_encodes :: "json \<Rightarrow> bool" where
  "json_encodes (JInt i) \<longleftrightarrow> int_to_str_ok i"
| "json_encodes (JObj fs) \<longleftrightarrow> list_all (\<lambda>(k, j). json_encodes j) fs"
| "json_encodes (JList js) \<longleftrightarrow> list_all json_encodes js"
| "json_encodes _ \<longleftrightarrow> True"

definition validated_json_object :: "string \<Rightarrow> pyval \<Rightarrow> json task_res" where
  "validated_json_object field_name value =
     bind_res (normalize_json_object field_name value) (\<lambda>normalized.
       if \<not> json_encodes normalized then Inl (json_validation_error field_name) else Inr normalized)"

text \<open>\<open>redact\<close> is \<open>clean_active_secrets\<close>: it depends on the secrets the process has registered.\<close>

definition redacted_json_object :: "(pyval \<Rightarrow> pyval) \<Rightarrow> string \<Rightarrow> pyval \<Rightarrow> json task_res" where
  "redacted_json_object redact field_name value =
     (if \<not> is_py_map (redact value) then Inl (json_validation_error field_name)
      else validated_json_object field_name (redact value))"

text \<open>
  The Python value of a stored object, and its frozen copy: a mapping proxy is again a mapping
  and a tuple again a sequence, so both are the same tree.
\<close>

fun freeze_normalized_json :: "json \<Rightarrow> pyval" where
  "freeze_normalized_json JNull = PyNone"
| "freeze_normalized_json (JBool b) = PyBool b"
| "freeze_normalized_json (JInt i) = PyInt i"
| "freeze_normalized_json (JFloat x) = PyFloat (Some x)"
| "freeze_normalized_json (JStr s) = PyStr s"
| "freeze_normalized_json (JObj fs) = PyMap (map (\<lambda>(k, j). (PyStr k, freeze_normalized_json j)) fs)"
| "freeze_normalized_json (JList js) = PySeq (map freeze_normalized_json js)"

definition freeze_json_object :: "json \<Rightarrow> pyval task_res" where
  "freeze_json_object stored =
     bind_res (validated_json_object ''stored JSON'' (freeze_normalized_json stored)) (\<lambda>normalized.
       Inr (freeze_normalized_json normalized))"

section \<open>Properties\<close>

text \<open>What normalisation accepts: JSON values all the way down, nested at most 128 deep.\<close>

fun json_compatible :: "pyval \<Rightarrow> bool" where
  "json_compatible (PyFloat x) \<longleftrightarrow> x \<noteq> None"
| "json_compatible (PyMap items) \<longleftrightarrow> list_all (\<lambda>(k, v). is_py_str k \<and> json_compatible v) items"
| "json_compatible (PySeq items) \<longleftrightarrow> list_all json_compatible items"
| "json_compatible PyOther \<longleftrightarrow> False"
| "json_compatible _ \<longleftrightarrow> True"

fun within_depth :: "nat \<Rightarrow> pyval \<Rightarrow> bool" where
  "within_depth n (PyMap items) \<longleftrightarrow> (items = [] \<or> 0 < n) \<and> list_all (\<lambda>(k, v). within_depth (n - 1) v) items"
| "within_depth n (PySeq items) \<longleftrightarrow> (items = [] \<or> 0 < n) \<and> list_all (within_depth (n - 1)) items"
| "within_depth n _ \<longleftrightarrow> True"

declare normalize_value.simps [simp del]

lemma normalize_deep: "max_json_depth < depth \<Longrightarrow> normalize_value f depth v = Inl (json_validation_error f)"
  by (simp add: normalize_value.simps)

lemma normalize_accepts:
  shows "d \<le> max_json_depth \<Longrightarrow> (\<exists>j. normalize_value f d v = Inr j) \<longleftrightarrow> json_compatible v \<and> within_depth (max_json_depth - d) v"
    and "list_all (is_py_str \<circ> fst) fs \<Longrightarrow> 0 < d \<Longrightarrow> d \<le> Suc max_json_depth \<Longrightarrow> (\<exists>js. normalize_fields f d fs = Inr js)
      \<longleftrightarrow> (fs = [] \<or> d \<le> max_json_depth)
        \<and> list_all (\<lambda>(k, v). json_compatible v \<and> within_depth (max_json_depth - d) v) fs"
    and "0 < d \<Longrightarrow> d \<le> Suc max_json_depth \<Longrightarrow> (\<exists>js. normalize_items f d vs = Inr js)
      \<longleftrightarrow> (vs = [] \<or> d \<le> max_json_depth) \<and> list_all (\<lambda>v. json_compatible v \<and> within_depth (max_json_depth - d) v) vs"
proof (induction f d v and f d fs and f d vs rule: normalize_value_normalize_fields_normalize_items.induct)
  case (1 f d v)
  then show ?case
  proof (cases v)
    case (PyMap items)
    show ?thesis
    proof (cases "list_all (is_py_str \<circ> fst) items")
      case True
      with 1(1) [OF _ PyMap] 1(3) have
        "(\<exists>js. normalize_fields f (Suc d) items = Inr js) \<longleftrightarrow> (items = [] \<or> Suc d \<le> max_json_depth)
          \<and> list_all (\<lambda>(k, v). json_compatible v \<and> within_depth (max_json_depth - Suc d) v) items" by (simp add: o_def)
      moreover have "(\<exists>j. normalize_value f d v = Inr j) \<longleftrightarrow> (\<exists>js. normalize_fields f (Suc d) items = Inr js)"
        using 1(3) True by (auto simp: PyMap normalize_value.simps res_simps)
      ultimately show ?thesis using True 1(3) by (auto simp: PyMap list_all_iff Suc_le_eq)
    next
      case False
      then show ?thesis using 1(3) by (auto simp: PyMap normalize_value.simps list_all_iff)
    qed
  next
    case (PySeq items)
    with 1(2) [OF _ PySeq] 1(3) have
      "(\<exists>js. normalize_items f (Suc d) items = Inr js) \<longleftrightarrow> (items = [] \<or> Suc d \<le> max_json_depth)
        \<and> list_all (\<lambda>v. json_compatible v \<and> within_depth (max_json_depth - Suc d) v) items" by simp
    moreover have "(\<exists>j. normalize_value f d v = Inr j) \<longleftrightarrow> (\<exists>js. normalize_items f (Suc d) items = Inr js)"
      using 1(3) by (auto simp: PySeq normalize_value.simps res_simps)
    ultimately show ?thesis using 1(3) by (auto simp: PySeq list_all_iff Suc_le_eq)
  qed (auto simp: normalize_value.simps split: option.splits)
next
  case (3 f d k v fs)
  show ?case
  proof (cases "d \<le> max_json_depth")
    case True
    with 3 have "(\<exists>j. normalize_value f d v = Inr j) \<longleftrightarrow> json_compatible v \<and> within_depth (max_json_depth - d) v"
      "\<And>j. normalize_value f d v = Inr j \<Longrightarrow> (\<exists>js. normalize_fields f d fs = Inr js) \<longleftrightarrow> list_all (\<lambda>(k, v). json_compatible v \<and> within_depth (max_json_depth - d) v) fs"
      by (auto simp: o_def)
    with True show ?thesis by (cases "\<exists>j. normalize_value f d v = Inr j") (auto simp: res_simps)
  next
    case False
    then show ?thesis by (simp add: normalize_deep)
  qed
next
  case (5 f d v vs)
  show ?case
  proof (cases "d \<le> max_json_depth")
    case True
    with 5 have "(\<exists>j. normalize_value f d v = Inr j) \<longleftrightarrow> json_compatible v \<and> within_depth (max_json_depth - d) v"
      "\<And>j. normalize_value f d v = Inr j \<Longrightarrow> (\<exists>js. normalize_items f d vs = Inr js) \<longleftrightarrow> list_all (\<lambda>v. json_compatible v \<and> within_depth (max_json_depth - d) v) vs"
      by (auto simp: o_def)
    with True show ?thesis by (cases "\<exists>j. normalize_value f d v = Inr j") (auto simp: res_simps)
  next
    case False
    then show ?thesis by (simp add: normalize_deep)
  qed
qed simp_all

lemma normalize_freeze:
  shows "normalize_value f d v = Inr j \<Longrightarrow> normalize_value g d (freeze_normalized_json j) = Inr j"
    and "normalize_fields f d fs = Inr js \<Longrightarrow>
      normalize_fields g d (map (\<lambda>(k, j). (PyStr k, freeze_normalized_json j)) js) = Inr js"
    and "normalize_items f d vs = Inr ks \<Longrightarrow> normalize_items g d (map freeze_normalized_json ks) = Inr ks"
proof (induction f d v and f d fs and f d vs arbitrary: j and js and ks
    rule: normalize_value_normalize_fields_normalize_items.induct)
  case (1 f d v)
  have d: "\<not> max_json_depth < d" using 1(3) by (auto simp: normalize_value.simps)
  show ?case
  proof (cases v)
    case (PyMap items)
    with 1(3) d obtain js where js: "normalize_fields f (Suc d) items = Inr js" "j = JObj js"
        "list_all (is_py_str \<circ> fst) items"
      by (auto simp: normalize_value.simps res_simps)
    have "list_all (is_py_str \<circ> fst) (map (\<lambda>(k, j). (PyStr k, freeze_normalized_json j)) js)"
      by (auto simp: list_all_iff)
    with 1(1) [OF d PyMap _ js(1)] js d show ?thesis
      by (simp add: normalize_value.simps [of _ _ "PyMap _"])
  next
    case (PySeq items)
    with 1(3) d obtain js where "normalize_items f (Suc d) items = Inr js" "j = JList js"
      by (auto simp: normalize_value.simps res_simps)
    with 1(2) [OF d PySeq] d show ?thesis by (simp add: normalize_value.simps [of _ _ "PySeq _"])
  qed (use 1(3) d in \<open>auto simp: normalize_value.simps split: option.splits\<close>)
next
  case (3 f d k v fs)
  then show ?case by (auto simp: res_simps)
next
  case (5 f d v vs)
  then show ?case by (auto simp: res_simps)
qed simp_all

lemma normalize_map: "is_py_map v \<Longrightarrow> normalize_value f d v = Inr j \<Longrightarrow> is_py_map (freeze_normalized_json j)"
  by (cases v) (auto simp: normalize_value.simps res_simps)

lemma validated_freeze:
  assumes "validated_json_object f v = Inr j"
  shows "validated_json_object g (freeze_normalized_json j) = Inr j"
  using assms normalize_freeze(1) [of f 0 v j g] normalize_map [of v f 0 j]
  by (auto simp: validated_json_object_def normalize_json_object_def res_simps)

text \<open>
  C18. The validation of JSON accepts exactly the mappings that are JSON all the way down with
  string keys and finite floats, nested at most 128 deep, and whose integers Python can print.
\<close>

theorem json_validation_accepts:
  "(\<exists>j. validated_json_object field_name v = Inr j)
   \<longleftrightarrow> is_py_map v \<and> json_compatible v \<and> within_depth 128 v
     \<and> (case normalize_json_object field_name v of Inr j \<Rightarrow> json_encodes j | Inl _ \<Rightarrow> True)"
  using normalize_accepts(1) [of 0 field_name v]
  by (auto simp: validated_json_object_def normalize_json_object_def res_simps max_json_depth_def split: sum.splits)

text \<open>
  C19. Stored JSON survives the round trip: an object that validation stored is frozen into a
  snapshot without an error, and validating that snapshot again gives the same object.
\<close>

theorem json_round_trip:
  assumes "validated_json_object field_name v = Inr j"
  shows "freeze_json_object j = Inr (freeze_normalized_json j)
    \<and> validated_json_object other_field (freeze_normalized_json j) = Inr j"
  using validated_freeze [OF assms] by (simp add: freeze_json_object_def)

theorem json_round_trip_witness:
  "freeze_json_object (JObj [(''k'', JList [JInt 1, JNull])])
     = Inr (PyMap [(PyStr ''k'', PySeq [PyInt 1, PyNone])])"
proof -
  have "int_to_str_ok 1"
    unfolding int_to_str_ok_def using one_less_power [of "10 :: int" 4300] by (simp only: abs_one)
  then have "validated_json_object ''payload'' (PyMap [(PyStr ''k'', PySeq [PyInt 1, PyNone])])
      = Inr (JObj [(''k'', JList [JInt 1, JNull])])"
    by (simp add: validated_json_object_def normalize_json_object_def normalize_value.simps max_json_depth_def)
  from json_round_trip [OF this] show ?thesis by simp
qed

end
