(* ===== verification/Task_Store.thy ===== *)
theory Task_Store
  imports Task_Json Py_Time "HOL-Library.List_Lexorder" "HOL-Library.Char_ord"
begin

text \<open>
  The durable task queue of \<open>tasks/repository.py\<close>: rows of tasks, of task events and of the
  backtest and analysis runs that belong to tasks, and every operation that changes them. A table
  is the list of its rows; an \<open>UPDATE ... WHERE ... RETURNING\<close> is \<open>update_returning\<close>; a call is
  one transaction, so a call that raises leaves the store as it was. Times are UTC microseconds;
  \<open>clock\<close> is the reading of the process clock that a call takes when it is given no time, and
  \<open>token\<close> the UUID that a claim draws. The identity checks of a caller's connection are outside
  the model, as are the random ids of events.
\<close>

section \<open>Rows\<close>

datatype task_status = Queued | Running | Succeeded | Failed | Cancelled

datatype event_level = Info | Warning | Error

record task_row =
  tr_id :: string
  tr_kind :: string
  tr_status :: task_status
  tr_progress :: rat
  tr_payload :: json
  tr_result :: "json option"
  tr_error :: "json option"
  tr_cancel_requested :: bool
  tr_worker_id :: "string option"
  tr_claim_token :: "string option"
  tr_lease_expires_at :: "int option"
  tr_heartbeat_at :: "int option"
  tr_attempt_count :: int
  tr_created_at :: int
  tr_updated_at :: int
  tr_started_at :: "int option"
  tr_finished_at :: "int option"

record task_event =
  te_task_id :: string
  te_event_name :: string
  te_level :: event_level
  te_progress :: "rat option"
  te_detail :: json
  te_occurred_at :: int

record backtest_row =
  br_id :: string
  br_task_id :: string
  br_status :: string
  br_stage :: string
  br_processed :: int
  br_total :: int
  br_failed_count :: int
  br_updated_at :: int
  br_finished_at :: "int option"

record analysis_row =
  ar_id :: string
  ar_task_id :: string
  ar_status :: string
  ar_current_stage :: "string option"
  ar_updated_at :: int
  ar_finished_at :: "int option"

record stage_row =
  sg_run_id :: string
  sg_status :: string
  sg_failure_code :: "string option"
  sg_retryable :: "bool option"
  sg_updated_at :: int
  sg_finished_at :: "int option"

record attempt_row =
  at_run_id :: string
  at_status :: string
  at_error :: "string option"
  at_retryable :: "bool option"
  at_backoff_seconds :: "rat option"
  at_finished_at :: "int option"

record task_store =
  st_tasks :: "task_row list"
  st_events :: "task_event list"
  st_backtests :: "backtest_row list"
  st_analyses :: "analysis_row list"
  st_stages :: "stage_row list"
  st_attempts :: "attempt_row list"
  st_heartbeats :: "(string \<times> int) list"
  st_checkpoint_requested :: bool
  st_checkpoint_acknowledged :: bool

definition empty_store :: task_store where
  "empty_store = \<lparr>st_tasks = [], st_events = [], st_backtests = [], st_analyses = [], st_stages = [],
     st_attempts = [], st_heartbeats = [], st_checkpoint_requested = False,
     st_checkpoint_acknowledged = False\<rparr>"

definition backtest_task_kind :: string where "backtest_task_kind = ''backtest.run''"

definition analysis_task_kind :: string where "analysis_task_kind = ''analysis.run''"

definition leased_task_kinds :: "string list" where
  "leased_task_kinds = [backtest_task_kind, analysis_task_kind]"

definition leased :: "task_row \<Rightarrow> bool" where
  "leased r \<longleftrightarrow> tr_kind r \<in> set leased_task_kinds"

text \<open>The rows an update selects, as it leaves them, and the table after it.\<close>

definition update_returning :: "('r \<Rightarrow> bool) \<Rightarrow> ('r \<Rightarrow> 'r) \<Rightarrow> 'r list \<Rightarrow> 'r list \<times> 'r list" where
  "update_returning P f rows = (map f (filter P rows), map (\<lambda>r. if P r then f r else r) rows)"

definition update_where :: "('r \<Rightarrow> bool) \<Rightarrow> ('r \<Rightarrow> 'r) \<Rightarrow> 'r list \<Rightarrow> 'r list" where
  "update_where P f rows = snd (update_returning P f rows)"

definition transition_time :: "int \<Rightarrow> task_row \<Rightarrow> int" where
  "transition_time sampled_at r = (if sampled_at < tr_updated_at r then tr_updated_at r else sampled_at)"

section \<open>Validation\<close>

text \<open>\<open>_validated_aware_utc\<close>, and the time of a call whose \<open>now\<close> may be absent.\<close>

definition validated_aware_utc :: "string \<Rightarrow> pytime \<Rightarrow> int task_res" where
  "validated_aware_utc field_name value =
     (if \<not> is_aware value then Inl (TaskValidationError (''Task '' @ field_name @ '' must be an aware datetime''))
      else Inr (instant value))"

definition sample_time :: "string \<Rightarrow> pytime option \<Rightarrow> int \<Rightarrow> int task_res" where
  "sample_time field_name now clock =
     (case now of None \<Rightarrow> Inr clock | Some t \<Rightarrow> validated_aware_utc field_name t)"

definition lower_hex :: "char \<Rightarrow> bool" where
  "lower_hex c \<longleftrightarrow> c \<in> set ''0123456789abcdef''"

text \<open>A string of 36 characters that \<open>str(UUID(s))\<close> gives back.\<close>

definition canonical_uuid :: "string \<Rightarrow> bool" where
  "canonical_uuid s \<longleftrightarrow> length s = 36
     \<and> list_all (\<lambda>i. if i \<in> {8, 13, 18, 23} then s ! i = CHR ''-'' else lower_hex (s ! i)) [0..<36]"

definition validated_uuid :: "string \<Rightarrow> string \<Rightarrow> string task_res" where
  "validated_uuid field_name value =
     (if \<not> canonical_uuid value then Inl (TaskValidationError (''Task '' @ field_name @ '' must be a canonical UUID''))
      else Inr value)"

definition max_lease_duration :: int where "max_lease_duration = 3600000000"

definition validate_lease_duration :: "int \<Rightarrow> int task_res" where
  "validate_lease_duration value =
     (if value \<le> 0 \<or> max_lease_duration < value
      then Inl (TaskValidationError ''Task lease duration must be positive and at most one hour'') else Inr value)"

text \<open>A progress argument: a finite int or float, or a bool, NaN or infinity.\<close>

datatype progress_arg = Progress rat | BadProgress

definition validated_progress :: "progress_arg \<Rightarrow> rat task_res" where
  "validated_progress p =
     (case p of
        Progress x \<Rightarrow> if 0 \<le> x \<and> x \<le> 1 then Inr x
          else Inl (TaskValidationError ''Task progress must be a finite number from 0 to 1'')
      | BadProgress \<Rightarrow> Inl (TaskValidationError ''Task progress must be a finite number from 0 to 1''))"

definition validated_worker_id :: "string \<Rightarrow> unit task_res" where
  "validated_worker_id worker_id =
     (if worker_id = [] \<or> \<not> stripped worker_id \<or> 255 < length worker_id
      then Inl (TaskValidationError ''Worker id must contain 1 to 255 characters'') else Inr ())"

section \<open>Snapshots and events\<close>

record task_snapshot =
  sn_id :: string
  sn_kind :: string
  sn_status :: task_status
  sn_progress :: rat
  sn_payload :: pyval
  sn_result :: "pyval option"
  sn_error :: "pyval option"
  sn_cancel_requested :: bool
  sn_worker_id :: "string option"
  sn_created_at :: int
  sn_updated_at :: int
  sn_started_at :: "int option"
  sn_finished_at :: "int option"

definition freeze_optional :: "json option \<Rightarrow> pyval option task_res" where
  "freeze_optional j = (case j of None \<Rightarrow> Inr None | Some x \<Rightarrow> bind_res (freeze_json_object x) (\<lambda>v. Inr (Some v)))"

definition snapshot :: "task_row \<Rightarrow> task_snapshot task_res" where
  "snapshot r =
     (if \<not> (0 \<le> tr_progress r \<and> tr_progress r \<le> 1)
      then Inl (TaskRepositoryError ''Stored task progress is invalid'')
      else
        bind_res (freeze_json_object (tr_payload r)) (\<lambda>payload.
        bind_res (freeze_optional (tr_result r)) (\<lambda>result.
        bind_res (freeze_optional (tr_error r)) (\<lambda>error.
          Inr \<lparr>sn_id = tr_id r, sn_kind = tr_kind r, sn_status = tr_status r, sn_progress = tr_progress r,
               sn_payload = payload, sn_result = result, sn_error = error,
               sn_cancel_requested = tr_cancel_requested r, sn_worker_id = tr_worker_id r,
               sn_created_at = tr_created_at r, sn_updated_at = tr_updated_at r,
               sn_started_at = tr_started_at r, sn_finished_at = tr_finished_at r\<rparr>))))"

definition event_times :: "string \<Rightarrow> task_store \<Rightarrow> int list" where
  "event_times task_id st = map te_occurred_at (filter (\<lambda>e. te_task_id e = task_id) (st_events st))"

definition effective_time :: "string \<Rightarrow> int \<Rightarrow> task_store \<Rightarrow> int" where
  "effective_time task_id occurred_at st =
     (case event_times task_id st of
        [] \<Rightarrow> occurred_at
      | t # ts \<Rightarrow> let latest = fold max ts t in if occurred_at \<le> latest then latest + 1 else occurred_at)"

definition append_event ::
  "(pyval \<Rightarrow> pyval) \<Rightarrow> string \<Rightarrow> string \<Rightarrow> event_level \<Rightarrow> rat \<Rightarrow> pyval \<Rightarrow> int \<Rightarrow> task_store
     \<Rightarrow> task_store task_res" where
  "append_event redact task_id event_name level progress detail occurred_at st =
     bind_res (redacted_json_object redact ''event detail'' detail) (\<lambda>safe_detail.
       Inr (st\<lparr>st_events := st_events st @
         [\<lparr>te_task_id = task_id, te_event_name = event_name, te_level = level, te_progress = Some progress,
           te_detail = safe_detail, te_occurred_at = effective_time task_id occurred_at st\<rparr>]\<rparr>))"

definition code_detail :: "string \<Rightarrow> pyval" where
  "code_detail code = PyMap [(PyStr ''code'', PyStr code)]"

text \<open>The loop that reports each returned row.\<close>

definition report_rows ::
  "(pyval \<Rightarrow> pyval) \<Rightarrow> string \<Rightarrow> event_level \<Rightarrow> pyval \<Rightarrow> (task_snapshot \<Rightarrow> int) \<Rightarrow> task_row list \<Rightarrow> task_store
     \<Rightarrow> task_store task_res" where
  "report_rows redact event_name level detail occurred_at rows st =
     run_res (\<lambda>s row. bind_res (snapshot row) (\<lambda>task.
       append_event redact (sn_id task) event_name level (sn_progress task) detail (occurred_at task) s)) st rows"

section \<open>Creation and reads\<close>

definition find_task :: "string \<Rightarrow> task_store \<Rightarrow> task_row option" where
  "find_task task_id st = find (\<lambda>r. tr_id r = task_id) (st_tasks st)"

definition get_task :: "string \<Rightarrow> task_store \<Rightarrow> task_snapshot task_res" where
  "get_task task_id st =
     (case find_task task_id st of None \<Rightarrow> Inl (TaskNotFound task_id) | Some r \<Rightarrow> snapshot r)"

definition new_task_row :: "string \<Rightarrow> string \<Rightarrow> json \<Rightarrow> int \<Rightarrow> task_row" where
  "new_task_row task_id kind payload now =
     \<lparr>tr_id = task_id, tr_kind = kind, tr_status = Queued, tr_progress = 0, tr_payload = payload,
      tr_result = None, tr_error = None, tr_cancel_requested = False, tr_worker_id = None,
      tr_claim_token = None, tr_lease_expires_at = None, tr_heartbeat_at = None, tr_attempt_count = 0,
      tr_created_at = now, tr_updated_at = now, tr_started_at = None, tr_finished_at = None\<rparr>"

definition enqueue_in_transaction ::
  "(pyval \<Rightarrow> pyval) \<Rightarrow> string \<Rightarrow> pyval \<Rightarrow> string \<Rightarrow> pytime \<Rightarrow> task_store \<Rightarrow> (task_snapshot \<times> task_store) task_res" where
  "enqueue_in_transaction redact kind payload task_id now st =
     (if kind = [] \<or> \<not> stripped kind \<or> 64 < length kind
      then Inl (TaskValidationError ''Task kind must contain 1 to 64 characters'')
      else
        bind_res (validated_uuid ''id'' task_id) (\<lambda>validated_task_id.
        bind_res (validated_aware_utc ''enqueue time'' now) (\<lambda>validated_now.
        bind_res (redacted_json_object redact ''payload'' payload) (\<lambda>validated_payload.
        if find_task validated_task_id st \<noteq> None then Inl IntegrityError
        else
          let row = new_task_row validated_task_id kind validated_payload validated_now
          in bind_res (snapshot row) (\<lambda>task.
             bind_res (append_event redact (sn_id task) ''task.created'' Info (sn_progress task)
                 (PyMap [(PyStr ''kind'', PyStr (sn_kind task))]) (sn_created_at task)
                 (st\<lparr>st_tasks := st_tasks st @ [row]\<rparr>)) (\<lambda>st'.
             Inr (task, st')))))))"

definition create_task ::
  "(pyval \<Rightarrow> pyval) \<Rightarrow> string \<Rightarrow> pyval \<Rightarrow> string \<Rightarrow> int \<Rightarrow> task_store \<Rightarrow> (task_snapshot \<times> task_store) task_res" where
  "create_task redact kind payload task_id clock st =
     enqueue_in_transaction redact kind payload task_id (Aware clock) st"

section \<open>Cancellation of the domain rows\<close>

definition active_status :: "string \<Rightarrow> bool" where
  "active_status s \<longleftrightarrow> s \<in> {''queued'', ''running''}"

definition cancel_backtests :: "string list \<Rightarrow> int \<Rightarrow> task_store \<Rightarrow> task_store" where
  "cancel_backtests task_ids sampled_at st = st\<lparr>st_backtests :=
     update_where (\<lambda>r. br_task_id r \<in> set task_ids \<and> active_status (br_status r))
       (\<lambda>r. r\<lparr>br_status := ''cancelled'', br_stage := ''cancelled'', br_updated_at := sampled_at,
             br_finished_at := Some sampled_at\<rparr>) (st_backtests st)\<rparr>"

text \<open>
  The analysis runs of the tasks, their running attempts and their unfinished stages. The
  selected runs are updated again by id: \<open>_terminalize_expired_cancellations\<close> repeats the test of
  the status there and \<open>cancel_desktop_recovery\<close> does not, with the same effect.
\<close>

definition cancel_analyses :: "string list \<Rightarrow> int \<Rightarrow> task_store \<Rightarrow> task_store" where
  "cancel_analyses task_ids sampled_at st =
     (let run_ids = map ar_id (filter (\<lambda>r. ar_task_id r \<in> set task_ids \<and> active_status (ar_status r)) (st_analyses st))
      in st
       \<lparr>st_attempts := update_where (\<lambda>r. at_run_id r \<in> set run_ids \<and> at_status r = ''running'')
          (\<lambda>r. r\<lparr>at_status := ''cancelled'', at_error := None, at_retryable := None,
                at_backoff_seconds := None, at_finished_at := Some sampled_at\<rparr>) (st_attempts st),
        st_stages := update_where (\<lambda>r. sg_run_id r \<in> set run_ids \<and> sg_status r \<in> {''pending'', ''running''})
          (\<lambda>r. r\<lparr>sg_status := ''cancelled'', sg_failure_code := None, sg_retryable := None,
                sg_updated_at := sampled_at, sg_finished_at := Some sampled_at\<rparr>) (st_stages st),
        st_analyses := update_where (\<lambda>r. ar_id r \<in> set run_ids)
          (\<lambda>r. r\<lparr>ar_status := ''cancelled'', ar_current_stage := None, ar_updated_at := sampled_at,
                ar_finished_at := Some sampled_at\<rparr>) (st_analyses st)\<rparr>)"

definition lease_expired :: "int \<Rightarrow> task_row \<Rightarrow> bool" where
  "lease_expired sampled_at r \<longleftrightarrow>
     (case tr_lease_expires_at r of None \<Rightarrow> False | Some e \<Rightarrow> e \<le> sampled_at)"

definition release :: "task_row \<Rightarrow> task_row" where
  "release r = r\<lparr>tr_claim_token := None, tr_lease_expires_at := None, tr_heartbeat_at := None\<rparr>"

definition expired_cancellation :: "int \<Rightarrow> task_row \<Rightarrow> bool" where
  "expired_cancellation sampled_at r \<longleftrightarrow>
     leased r \<and> tr_status r = Running \<and> tr_cancel_requested r \<and> lease_expired sampled_at r"

definition cancel_row :: "int \<Rightarrow> task_row \<Rightarrow> task_row" where
  "cancel_row sampled_at r = release (r\<lparr>tr_status := Cancelled, tr_result := None, tr_error := None,
     tr_updated_at := transition_time sampled_at r, tr_finished_at := Some (transition_time sampled_at r)\<rparr>)"

definition terminalize_expired_cancellations ::
  "(pyval \<Rightarrow> pyval) \<Rightarrow> int \<Rightarrow> task_store \<Rightarrow> (task_row list \<times> task_store) task_res" where
  "terminalize_expired_cancellations redact sampled_at st =
     (case update_returning (expired_cancellation sampled_at) (cancel_row sampled_at) (st_tasks st) of
        (cancelled_rows, tasks) \<Rightarrow>
          let st = st\<lparr>st_tasks := tasks\<rparr>;
              ids = map tr_id cancelled_rows;
              st = (if cancelled_rows = [] then st
                    else cancel_analyses ids sampled_at (cancel_backtests ids sampled_at st))
          in bind_res (report_rows redact ''task.cancelled'' Info (PyMap []) sn_updated_at cancelled_rows st)
               (\<lambda>st'. Inr (cancelled_rows, st')))"

section \<open>Recovery\<close>

definition requeue_row :: "int \<Rightarrow> task_row \<Rightarrow> task_row" where
  "requeue_row sampled_at r = release (r\<lparr>tr_status := Queued, tr_worker_id := None,
     tr_updated_at := transition_time sampled_at r\<rparr>)"

definition abandoned :: "int \<Rightarrow> task_row \<Rightarrow> bool" where
  "abandoned sampled_at r \<longleftrightarrow>
     leased r \<and> tr_status r = Running \<and> \<not> tr_cancel_requested r \<and> lease_expired sampled_at r"

definition requeue_expired_leases_for_offline_snapshot ::
  "(pyval \<Rightarrow> pyval) \<Rightarrow> pytime option \<Rightarrow> int \<Rightarrow> task_store \<Rightarrow> (int \<times> task_store) task_res" where
  "requeue_expired_leases_for_offline_snapshot redact now clock st =
     bind_res (sample_time ''offline snapshot time'' now clock) (\<lambda>sampled_at.
     bind_res (terminalize_expired_cancellations redact sampled_at st) (\<lambda>(cancelled_rows, st).
     case update_returning (abandoned sampled_at) (requeue_row sampled_at) (st_tasks st) of
       (rows, tasks) \<Rightarrow>
         bind_res (report_rows redact ''task.lease_requeued'' Warning (code_detail ''offline_restore_expired_lease'')
                     sn_updated_at rows (st\<lparr>st_tasks := tasks\<rparr>)) (\<lambda>st'.
         Inr (int (length rows) + int (length cancelled_rows), st'))))"

definition resume_desktop_recovery ::
  "(pyval \<Rightarrow> pyval) \<Rightarrow> int \<Rightarrow> task_store \<Rightarrow> (int \<times> task_store) task_res" where
  "resume_desktop_recovery redact clock st =
     (case update_returning (\<lambda>r. tr_status r = Running) (requeue_row clock) (st_tasks st) of
        (rows, tasks) \<Rightarrow>
          bind_res (report_rows redact ''task.lease_requeued'' Warning (code_detail ''desktop_recovery_resumed'')
                      sn_updated_at rows (st\<lparr>st_tasks := tasks\<rparr>)) (\<lambda>st'.
          Inr (int (length (filter (\<lambda>r. tr_status r = Queued) (st_tasks st'))), st')))"

definition active_task :: "task_row \<Rightarrow> bool" where
  "active_task r \<longleftrightarrow> tr_status r \<in> {Queued, Running}"

definition decline_row :: "int \<Rightarrow> task_row \<Rightarrow> task_row" where
  "decline_row sampled_at r = release (r\<lparr>tr_status := Cancelled, tr_cancel_requested := True,
     tr_worker_id := None, tr_result := None, tr_error := None, tr_updated_at := sampled_at,
     tr_finished_at := Some sampled_at\<rparr>)"

text \<open>The events are written from the rows as they were read, before the update.\<close>

definition cancel_desktop_recovery ::
  "(pyval \<Rightarrow> pyval) \<Rightarrow> int \<Rightarrow> task_store \<Rightarrow> (int \<times> task_store) task_res" where
  "cancel_desktop_recovery redact clock st =
     (let rows = filter active_task (st_tasks st); task_ids = map tr_id rows
      in if rows = [] then Inr (0, st)
         else
           let st = st\<lparr>st_tasks := update_where (\<lambda>r. tr_id r \<in> set task_ids) (decline_row clock) (st_tasks st)\<rparr>;
               st = cancel_analyses task_ids clock (cancel_backtests task_ids clock st)
           in bind_res (report_rows redact ''task.cancelled'' Info (code_detail ''desktop_recovery_cancelled'')
                          (\<lambda>_. clock) rows st) (\<lambda>st'.
              Inr (int (length rows), st')))"

section \<open>Claims\<close>

definition claimable :: "int \<Rightarrow> task_row \<Rightarrow> bool" where
  "claimable sampled_at r \<longleftrightarrow>
     (tr_status r = Queued \<or> leased r \<and> tr_status r = Running \<and> lease_expired sampled_at r)
     \<and> \<not> tr_cancel_requested r"

text \<open>\<open>ORDER BY created_at, id LIMIT 1\<close>.\<close>

definition older :: "task_row \<Rightarrow> task_row \<Rightarrow> task_row" where
  "older a b = (if tr_created_at b < tr_created_at a \<or> tr_created_at b = tr_created_at a \<and> tr_id b < tr_id a
     then b else a)"

definition claim_candidate :: "int \<Rightarrow> task_store \<Rightarrow> task_row option" where
  "claim_candidate sampled_at st =
     (case filter (claimable sampled_at) (st_tasks st) of [] \<Rightarrow> None | r # rs \<Rightarrow> Some (foldl older r rs))"

definition claim_row :: "string \<Rightarrow> int \<Rightarrow> int \<Rightarrow> string \<Rightarrow> task_row \<Rightarrow> task_row" where
  "claim_row worker_id sampled_at duration token r =
     r\<lparr>tr_status := Running, tr_worker_id := Some worker_id,
       tr_started_at := (if tr_started_at r = None then Some (transition_time sampled_at r) else tr_started_at r),
       tr_updated_at := transition_time sampled_at r,
       tr_claim_token := (if leased r then Some token else None),
       tr_lease_expires_at := (if leased r then Some (sampled_at + duration) else None),
       tr_heartbeat_at := (if leased r then Some sampled_at else None),
       tr_attempt_count := (if leased r then tr_attempt_count r + 1 else tr_attempt_count r)\<rparr>"

record task_claim =
  tc_snapshot :: task_snapshot
  tc_claim_token :: string
  tc_lease_expires_at :: int
  tc_attempt_count :: int

datatype claim_result = NoTask | Unleased task_snapshot | Claimed task_claim

definition leased_claim :: "task_row \<Rightarrow> task_snapshot \<Rightarrow> string \<Rightarrow> claim_result task_res" where
  "leased_claim r task token =
     (case (tr_claim_token r, tr_lease_expires_at r) of
        (Some stored, Some expiry) \<Rightarrow>
          if stored \<noteq> token \<or> tr_attempt_count r < 1 then Inl (TaskRuntimeError ''Leased task claim is invalid'')
          else Inr (Claimed \<lparr>tc_snapshot = task, tc_claim_token = stored, tc_lease_expires_at = expiry,
                            tc_attempt_count = tr_attempt_count r\<rparr>)
      | _ \<Rightarrow> Inl (TaskRuntimeError ''Leased task claim is invalid''))"

text \<open>
  The claim under the claim gate. The checks of the result run after the commit; they raise with
  the claim in place, which \<open>leased_claim\<close> never does on a row that the update wrote.
\<close>

definition claim_next_without_gate ::
  "(pyval \<Rightarrow> pyval) \<Rightarrow> string \<Rightarrow> pytime option \<Rightarrow> int \<Rightarrow> int \<Rightarrow> string \<Rightarrow> task_store
     \<Rightarrow> (claim_result \<times> task_store) task_res" where
  "claim_next_without_gate redact worker_id now clock lease_duration token st =
     then_res (validated_worker_id worker_id)
    (bind_res (sample_time ''claim time'' now clock) (\<lambda>sampled_at.
     bind_res (validate_lease_duration lease_duration) (\<lambda>duration.
     bind_res (terminalize_expired_cancellations redact sampled_at st) (\<lambda>(_, st).
     case claim_candidate sampled_at st of
       None \<Rightarrow> Inr (NoTask, st)
     | Some candidate \<Rightarrow>
         (case update_returning (\<lambda>r. tr_id r = tr_id candidate \<and> claimable sampled_at r)
                 (claim_row worker_id sampled_at duration token) (st_tasks st) of
            ([row], tasks) \<Rightarrow>
              bind_res (snapshot row) (\<lambda>task.
              bind_res (append_event redact (sn_id task) ''task.claimed'' Info (sn_progress task)
                          (PyMap [(PyStr ''worker_id'', PyStr worker_id)]) (sn_updated_at task)
                          (st\<lparr>st_tasks := tasks\<rparr>)) (\<lambda>st'.
              if sn_kind task \<notin> set leased_task_kinds then Inr (Unleased task, st')
              else bind_res (leased_claim row task token) (\<lambda>c. Inr (c, st'))))
          | ([], tasks) \<Rightarrow> Inr (NoTask, st)
          | _ \<Rightarrow> Inl (TaskRuntimeError ''Multiple rows were found''))))))"

text \<open>\<open>stopped\<close> is the stop event of the worker, read once the gate is held.\<close>

definition claim_next ::
  "(pyval \<Rightarrow> pyval) \<Rightarrow> bool \<Rightarrow> string \<Rightarrow> pytime option \<Rightarrow> int \<Rightarrow> int \<Rightarrow> string \<Rightarrow> task_store
     \<Rightarrow> (claim_result \<times> task_store) task_res" where
  "claim_next redact stopped worker_id now clock lease_duration token st =
     (if stopped then Inr (NoTask, st)
      else claim_next_without_gate redact worker_id now clock lease_duration token st)"

section \<open>Operations of a claim\<close>

definition lease_live :: "int \<Rightarrow> task_row \<Rightarrow> bool" where
  "lease_live operation_time r \<longleftrightarrow>
     (case tr_lease_expires_at r of None \<Rightarrow> False | Some e \<Rightarrow> operation_time < e)"

text \<open>\<open>_ownership_condition\<close>: the token is validated before the statement runs.\<close>

definition ownership_condition :: "string option \<Rightarrow> int \<Rightarrow> (task_row \<Rightarrow> bool) task_res" where
  "ownership_condition claim_token operation_time =
     (case claim_token of
        None \<Rightarrow> Inr (\<lambda>r. \<not> leased r)
      | Some t \<Rightarrow> bind_res (validated_uuid ''claim token'' t) (\<lambda>validated_token.
          Inr (\<lambda>r. leased r \<and> tr_claim_token r = Some validated_token \<and> lease_live operation_time r)))"

text \<open>One statement on the row of a task: the row as it leaves it, if it matched, and the table.\<close>

definition update_task ::
  "string \<Rightarrow> (task_row \<Rightarrow> bool) \<Rightarrow> (task_row \<Rightarrow> task_row) \<Rightarrow> task_store \<Rightarrow> task_row option \<times> task_store" where
  "update_task task_id P f st =
     (case update_returning (\<lambda>r. tr_id r = task_id \<and> P r) f (st_tasks st) of
        (rows, tasks) \<Rightarrow> (case rows of [] \<Rightarrow> None | r # _ \<Rightarrow> Some r, st\<lparr>st_tasks := tasks\<rparr>))"

definition heartbeat ::
  "string \<Rightarrow> string \<Rightarrow> pytime option \<Rightarrow> int \<Rightarrow> int \<Rightarrow> task_store \<Rightarrow> (task_claim \<times> task_store) task_res" where
  "heartbeat task_id claim_token now clock lease_duration st =
     bind_res (validated_uuid ''claim token'' claim_token) (\<lambda>token.
     bind_res (sample_time ''heartbeat time'' now clock) (\<lambda>sampled_at.
     bind_res (validate_lease_duration lease_duration) (\<lambda>duration.
     case update_task task_id
            (\<lambda>r. leased r \<and> tr_status r = Running \<and> tr_claim_token r = Some token \<and> lease_live sampled_at r)
            (\<lambda>r. r\<lparr>tr_heartbeat_at := Some sampled_at, tr_lease_expires_at := Some (sampled_at + duration),
                  tr_updated_at := transition_time sampled_at r\<rparr>) st of
       (None, _) \<Rightarrow> bind_res (get_task task_id st) (\<lambda>current. Inl (TaskConflict (sn_id current)))
     | (Some row, st') \<Rightarrow>
         bind_res (snapshot row) (\<lambda>task.
         case tr_lease_expires_at row of
           None \<Rightarrow> Inl (TaskRuntimeError ''Leased task heartbeat result is invalid'')
         | Some expiry \<Rightarrow> Inr (\<lparr>tc_snapshot = task, tc_claim_token = token, tc_lease_expires_at = expiry,
              tc_attempt_count = tr_attempt_count row\<rparr>, st')))))"

definition progress_row :: "rat \<Rightarrow> int \<Rightarrow> task_row \<Rightarrow> task_row" where
  "progress_row progress sampled_at r =
     r\<lparr>tr_progress := progress, tr_updated_at := transition_time sampled_at r\<rparr>"

definition guard_claim_in_transaction ::
  "string \<Rightarrow> string \<Rightarrow> progress_arg \<Rightarrow> pytime \<Rightarrow> task_store \<Rightarrow> (task_snapshot \<times> task_store) task_res" where
  "guard_claim_in_transaction task_id claim_token progress now st =
     bind_res (validated_progress progress) (\<lambda>p.
     bind_res (validated_aware_utc ''checkpoint time'' now) (\<lambda>sampled_at.
     bind_res (ownership_condition (Some claim_token) sampled_at) (\<lambda>owns.
     case update_task task_id (\<lambda>r. tr_status r = Running \<and> tr_progress r \<le> p \<and> owns r) (progress_row p sampled_at) st of
       (None, _) \<Rightarrow> Inl (TaskConflict task_id)
     | (Some row, st') \<Rightarrow> bind_res (snapshot row) (\<lambda>task. Inr (task, st')))))"

definition complete_row :: "json \<Rightarrow> int \<Rightarrow> task_row \<Rightarrow> task_row" where
  "complete_row result sampled_at r = release (r
     \<lparr>tr_status := (if tr_cancel_requested r then Cancelled else Succeeded),
      tr_progress := (if tr_cancel_requested r then tr_progress r else 1),
      tr_result := (if tr_cancel_requested r then None else Some result),
      tr_error := None,
      tr_updated_at := transition_time sampled_at r,
      tr_finished_at := Some (transition_time sampled_at r)\<rparr>)"

definition fail_row :: "json \<Rightarrow> int \<Rightarrow> task_row \<Rightarrow> task_row" where
  "fail_row error sampled_at r = release (r
     \<lparr>tr_status := (if tr_cancel_requested r then Cancelled else Failed),
      tr_result := None,
      tr_error := (if tr_cancel_requested r then None else Some error),
      tr_updated_at := transition_time sampled_at r,
      tr_finished_at := Some (transition_time sampled_at r)\<rparr>)"

text \<open>The event of a completed and of a failed task.\<close>

definition report_completed ::
  "(pyval \<Rightarrow> pyval) \<Rightarrow> task_snapshot \<Rightarrow> task_store \<Rightarrow> task_store task_res" where
  "report_completed redact task st =
     append_event redact (sn_id task)
       (if sn_status task = Cancelled then ''task.cancelled'' else ''task.succeeded'') Info (sn_progress task)
       (PyMap []) (sn_updated_at task) st"

definition report_failed ::
  "(pyval \<Rightarrow> pyval) \<Rightarrow> task_snapshot \<Rightarrow> task_store \<Rightarrow> task_store task_res" where
  "report_failed redact task st =
     (if sn_status task = Cancelled
      then append_event redact (sn_id task) ''task.cancelled'' Info (sn_progress task) (PyMap []) (sn_updated_at task) st
      else append_event redact (sn_id task) ''task.failed'' Error (sn_progress task) (code_detail ''task_failed'')
             (sn_updated_at task) st)"

definition complete_claim_in_transaction ::
  "(pyval \<Rightarrow> pyval) \<Rightarrow> string \<Rightarrow> string \<Rightarrow> pyval \<Rightarrow> pytime \<Rightarrow> task_store \<Rightarrow> (task_snapshot \<times> task_store) task_res" where
  "complete_claim_in_transaction redact task_id claim_token result now st =
     bind_res (redacted_json_object redact ''result'' result) (\<lambda>validated_result.
     bind_res (validated_aware_utc ''completion time'' now) (\<lambda>sampled_at.
     bind_res (ownership_condition (Some claim_token) sampled_at) (\<lambda>owns.
     case update_task task_id (\<lambda>r. tr_status r = Running \<and> owns r) (complete_row validated_result sampled_at) st of
       (None, _) \<Rightarrow> Inl (TaskConflict task_id)
     | (Some row, st') \<Rightarrow> bind_res (snapshot row) (\<lambda>task.
         bind_res (report_completed redact task st') (\<lambda>st''. Inr (task, st''))))))"

definition fail_claim_in_transaction ::
  "(pyval \<Rightarrow> pyval) \<Rightarrow> string \<Rightarrow> string \<Rightarrow> pyval \<Rightarrow> pytime \<Rightarrow> task_store \<Rightarrow> (task_snapshot \<times> task_store) task_res" where
  "fail_claim_in_transaction redact task_id claim_token error now st =
     bind_res (redacted_json_object redact ''error'' error) (\<lambda>validated_error.
     bind_res (validated_aware_utc ''failure time'' now) (\<lambda>sampled_at.
     bind_res (ownership_condition (Some claim_token) sampled_at) (\<lambda>owns.
     case update_task task_id (\<lambda>r. tr_status r = Running \<and> owns r) (fail_row validated_error sampled_at) st of
       (None, _) \<Rightarrow> Inl (TaskConflict task_id)
     | (Some row, st') \<Rightarrow> bind_res (snapshot row) (\<lambda>task.
         bind_res (report_failed redact task st') (\<lambda>st''. Inr (task, st''))))))"

definition set_progress ::
  "(pyval \<Rightarrow> pyval) \<Rightarrow> string \<Rightarrow> progress_arg \<Rightarrow> pyval option \<Rightarrow> string option \<Rightarrow> pytime option \<Rightarrow> int
     \<Rightarrow> task_store \<Rightarrow> (task_snapshot \<times> task_store) task_res" where
  "set_progress redact task_id progress detail claim_token now clock st =
     bind_res (validated_progress progress) (\<lambda>p.
     bind_res (redacted_json_object redact ''progress detail'' (case detail of None \<Rightarrow> PyMap [] | Some d \<Rightarrow> d))
       (\<lambda>validated_detail.
     bind_res (sample_time ''progress time'' now clock) (\<lambda>sampled_at.
     bind_res (ownership_condition claim_token sampled_at) (\<lambda>owns.
     case update_task task_id (\<lambda>r. tr_status r = Running \<and> tr_progress r \<le> p \<and> owns r) (progress_row p sampled_at) st of
       (Some row, st') \<Rightarrow> bind_res (snapshot row) (\<lambda>task.
         bind_res (append_event redact (sn_id task) ''task.progressed'' Info (sn_progress task)
                     (freeze_normalized_json validated_detail) (sn_updated_at task) st') (\<lambda>st''. Inr (task, st'')))
     | (None, _) \<Rightarrow> bind_res (get_task task_id st) (\<lambda>current. Inl (TaskConflict (sn_id current)))))))"

definition complete_task ::
  "(pyval \<Rightarrow> pyval) \<Rightarrow> string \<Rightarrow> pyval \<Rightarrow> string option \<Rightarrow> pytime option \<Rightarrow> int
     \<Rightarrow> task_store \<Rightarrow> (task_snapshot \<times> task_store) task_res" where
  "complete_task redact task_id result claim_token now clock st =
     bind_res (redacted_json_object redact ''result'' result) (\<lambda>validated_result.
     bind_res (sample_time ''completion time'' now clock) (\<lambda>sampled_at.
     bind_res (ownership_condition claim_token sampled_at) (\<lambda>owns.
     case update_task task_id (\<lambda>r. tr_status r = Running \<and> owns r) (complete_row validated_result sampled_at) st of
       (Some row, st') \<Rightarrow> bind_res (snapshot row) (\<lambda>task.
         bind_res (report_completed redact task st') (\<lambda>st''. Inr (task, st'')))
     | (None, _) \<Rightarrow> bind_res (get_task task_id st) (\<lambda>current.
         if sn_status current = Succeeded then Inr (current, st) else Inl (TaskConflict (sn_id current))))))"

definition fail_task ::
  "(pyval \<Rightarrow> pyval) \<Rightarrow> string \<Rightarrow> pyval \<Rightarrow> string option \<Rightarrow> pytime option \<Rightarrow> int
     \<Rightarrow> task_store \<Rightarrow> (task_snapshot \<times> task_store) task_res" where
  "fail_task redact task_id error claim_token now clock st =
     bind_res (redacted_json_object redact ''error'' error) (\<lambda>validated_error.
     bind_res (sample_time ''failure time'' now clock) (\<lambda>sampled_at.
     bind_res (ownership_condition claim_token sampled_at) (\<lambda>owns.
     case update_task task_id (\<lambda>r. tr_status r = Running \<and> owns r) (fail_row validated_error sampled_at) st of
       (Some row, st') \<Rightarrow> bind_res (snapshot row) (\<lambda>task.
         bind_res (report_failed redact task st') (\<lambda>st''. Inr (task, st'')))
     | (None, _) \<Rightarrow> bind_res (get_task task_id st) (\<lambda>current.
         if sn_status current = Failed then Inr (current, st) else Inl (TaskConflict (sn_id current))))))"

section \<open>Cancellation requests\<close>

definition cancel_queued_backtest :: "task_snapshot \<Rightarrow> task_store \<Rightarrow> task_store" where
  "cancel_queued_backtest task st =
     (if sn_kind task \<noteq> backtest_task_kind then st
      else st\<lparr>st_backtests := update_where (\<lambda>r. br_task_id r = sn_id task \<and> br_status r = ''queued'')
        (\<lambda>r. r\<lparr>br_status := ''cancelled'', br_stage := ''cancelled'', br_updated_at := sn_updated_at task,
              br_finished_at := sn_finished_at task\<rparr>) (st_backtests st)\<rparr>)"

definition cancel_queued_analysis :: "task_snapshot \<Rightarrow> task_store \<Rightarrow> task_store" where
  "cancel_queued_analysis task st =
     (if sn_kind task \<noteq> analysis_task_kind then st
      else case find (\<lambda>r. ar_task_id r = sn_id task \<and> ar_status r = ''queued'') (st_analyses st) of
          None \<Rightarrow> st
        | Some run \<Rightarrow> st
            \<lparr>st_stages := update_where (\<lambda>r. sg_run_id r = ar_id run \<and> sg_status r = ''pending'')
               (\<lambda>r. r\<lparr>sg_status := ''cancelled'', sg_updated_at := sn_updated_at task,
                     sg_finished_at := sn_finished_at task\<rparr>) (st_stages st),
             st_analyses := update_where (\<lambda>r. ar_id r = ar_id run \<and> ar_status r = ''queued'')
               (\<lambda>r. r\<lparr>ar_status := ''cancelled'', ar_current_stage := None, ar_updated_at := sn_updated_at task,
                     ar_finished_at := sn_finished_at task\<rparr>) (st_analyses st)\<rparr>)"

definition cancel_queued_row :: "int \<Rightarrow> task_row \<Rightarrow> task_row" where
  "cancel_queued_row sampled_at r = r\<lparr>tr_status := Cancelled, tr_cancel_requested := True,
     tr_updated_at := transition_time sampled_at r, tr_finished_at := Some (transition_time sampled_at r)\<rparr>"

definition request_row :: "int \<Rightarrow> task_row \<Rightarrow> task_row" where
  "request_row sampled_at r = r\<lparr>tr_cancel_requested := True, tr_updated_at := transition_time sampled_at r\<rparr>"

text \<open>The events of a request: one, and a second one when the task was still queued.\<close>

definition report_cancel_request ::
  "(pyval \<Rightarrow> pyval) \<Rightarrow> task_snapshot \<Rightarrow> task_store \<Rightarrow> task_store task_res" where
  "report_cancel_request redact task st =
     bind_res (append_event redact (sn_id task) ''task.cancel_requested'' Info (sn_progress task) (PyMap [])
                 (sn_updated_at task) st) (\<lambda>st'.
       if sn_status task = Cancelled
       then append_event redact (sn_id task) ''task.cancelled'' Info (sn_progress task) (PyMap [])
              (sn_updated_at task + 1) st'
       else Inr st')"

definition request_cancel ::
  "(pyval \<Rightarrow> pyval) \<Rightarrow> string \<Rightarrow> int \<Rightarrow> task_store \<Rightarrow> (task_snapshot \<times> task_store) task_res" where
  "request_cancel redact task_id clock st =
     (case update_task task_id (\<lambda>r. tr_status r = Queued) (cancel_queued_row clock) st of
        (Some row, st1) \<Rightarrow>
          bind_res (snapshot row) (\<lambda>task.
          bind_res (report_cancel_request redact task (cancel_queued_analysis task (cancel_queued_backtest task st1)))
            (\<lambda>st2. Inr (task, st2)))
      | (None, _) \<Rightarrow>
          (case update_task task_id (\<lambda>r. tr_status r = Running) (request_row clock) st of
             (Some row, st1) \<Rightarrow>
               bind_res (snapshot row) (\<lambda>task.
               bind_res (report_cancel_request redact task st1) (\<lambda>st2. Inr (task, st2)))
           | (None, _) \<Rightarrow> bind_res (get_task task_id st) (\<lambda>current.
               if sn_status current = Cancelled then Inr (current, st)
               else Inl (TaskConflict (sn_id current)))))"

section \<open>The desktop checkpoint\<close>

definition request_desktop_checkpoint :: "task_store \<Rightarrow> task_store" where
  "request_desktop_checkpoint st = st\<lparr>st_checkpoint_acknowledged := False, st_checkpoint_requested := True\<rparr>"

definition cancel_desktop_checkpoint :: "task_store \<Rightarrow> bool \<times> task_store" where
  "cancel_desktop_checkpoint st =
     (st_checkpoint_acknowledged st,
      if st_checkpoint_acknowledged st then st else st\<lparr>st_checkpoint_requested := False\<rparr>)"

text \<open>The result says whether the handler is unwound by \<open>DesktopCheckpointPause\<close>, after the commit.\<close>

definition pause_at_desktop_checkpoint ::
  "(pyval \<Rightarrow> pyval) \<Rightarrow> string \<Rightarrow> int \<Rightarrow> task_store \<Rightarrow> (bool \<times> task_store) task_res" where
  "pause_at_desktop_checkpoint redact task_id clock st =
     (if \<not> st_checkpoint_requested st then Inr (False, st)
      else case find (\<lambda>r. tr_id r = task_id \<and> tr_status r = Running) (st_tasks st) of
          None \<Rightarrow> Inr (False, st)
        | Some row \<Rightarrow>
            bind_res (snapshot row) (\<lambda>task.
            bind_res (append_event redact (sn_id task) ''task.desktop_checkpointed'' Info (sn_progress task)
                        (code_detail ''desktop_shutdown_checkpoint'') clock st) (\<lambda>st'.
            Inr (True, st'\<lparr>st_checkpoint_acknowledged := True\<rparr>))))"

section \<open>Progress events\<close>

definition presentation_stages :: "string list" where
  "presentation_stages = [''queued'', ''executing'', ''completed'', ''failed'', ''cancelled'']"

definition append_backtest_progress_event ::
  "(pyval \<Rightarrow> pyval) \<Rightarrow> string \<Rightarrow> progress_arg \<Rightarrow> string \<Rightarrow> int \<Rightarrow> int \<Rightarrow> int \<Rightarrow> pytime \<Rightarrow> task_store
     \<Rightarrow> task_store task_res" where
  "append_backtest_progress_event redact task_id progress stage processed total_count failed now st =
     (if stage \<notin> set presentation_stages then Inl (TaskValidationError ''Task progress event is invalid'')
      else case validated_progress progress of
          Inl _ \<Rightarrow> Inl (TaskValidationError ''Task progress event is invalid'')
        | Inr p \<Rightarrow>
            if \<not> (0 \<le> failed \<and> failed \<le> processed \<and> processed \<le> total_count \<and> total_count \<le> 10000)
            then Inl (TaskValidationError ''Task progress event is invalid'')
            else
              let first_checkpoint = (processed = 1);
                  final_checkpoint = (0 < total_count \<and> processed = total_count);
                  crossed_percent_bucket = (0 < total_count \<and> 0 < processed
                    \<and> (processed - 1) * 100 div total_count < processed * 100 div total_count)
              in if \<not> (first_checkpoint \<or> crossed_percent_bucket \<or> final_checkpoint) then Inr st
                 else bind_res (validated_aware_utc ''progress event time'' now) (\<lambda>occurred_at.
                   append_event redact task_id ''backtest.progressed'' Info p
                     (PyMap [(PyStr ''stage'', PyStr stage), (PyStr ''processed'', PyInt processed),
                             (PyStr ''total'', PyInt total_count), (PyStr ''failed'', PyInt failed)]) occurred_at st))"

section \<open>Workers and lists\<close>

text \<open>\<open>sampled_at\<close> is the given time, or the clock of the database.\<close>

definition record_worker_heartbeat ::
  "string \<Rightarrow> pytime option \<Rightarrow> int \<Rightarrow> task_store \<Rightarrow> task_store task_res" where
  "record_worker_heartbeat worker_id now clock st =
     then_res (validated_worker_id worker_id)
    (bind_res (sample_time ''heartbeat time'' now clock) (\<lambda>sampled_at.
       Inr (st\<lparr>st_heartbeats :=
         (if worker_id \<in> fst ` set (st_heartbeats st)
          then map (\<lambda>(w, t). if w = worker_id then (w, sampled_at) else (w, t)) (st_heartbeats st)
          else st_heartbeats st @ [(worker_id, sampled_at)])\<rparr>)))"

definition max_worker_future_skew :: int where "max_worker_future_skew = 5000000"

definition worker_status :: "pytime option \<Rightarrow> int \<Rightarrow> int \<Rightarrow> task_store \<Rightarrow> (bool \<times> int option) task_res" where
  "worker_status now clock stale_after st =
     (if stale_after \<le> 0 \<or> max_lease_duration < stale_after
      then Inl (TaskValidationError ''Worker freshness duration must be positive and at most one hour'')
      else bind_res (sample_time ''status sample time'' now clock) (\<lambda>sampled_at.
        let seen = filter (\<lambda>t. t \<le> sampled_at + max_worker_future_skew) (map snd (st_heartbeats st));
            latest = (case seen of [] \<Rightarrow> None | t # ts \<Rightarrow> Some (fold max ts t))
        in Inr (case latest of None \<Rightarrow> False | Some t \<Rightarrow> sampled_at - stale_after \<le> t, latest)))"

definition running_task_count :: "task_store \<Rightarrow> int" where
  "running_task_count st = int (length (filter (\<lambda>r. tr_status r = Running) (st_tasks st)))"

text \<open>\<open>ORDER BY created_at DESC, id DESC\<close> and \<open>ORDER BY occurred_at DESC\<close>.\<close>

definition list_recent :: "int \<Rightarrow> task_store \<Rightarrow> task_snapshot list task_res" where
  "list_recent limit st =
     (if \<not> (1 \<le> limit \<and> limit \<le> 100)
      then Inl (TaskValidationError ''Task list limit must be between 1 and 100'')
      else traverse snapshot (take (nat limit)
             (rev (sort_key (\<lambda>r. tr_created_at r) (sort_key (\<lambda>r. tr_id r) (st_tasks st))))))"

definition list_events :: "string \<Rightarrow> int \<Rightarrow> task_store \<Rightarrow> task_event list task_res" where
  "list_events task_id limit st =
     (if \<not> (1 \<le> limit \<and> limit \<le> 100)
      then Inl (TaskValidationError ''Task event limit must be between 1 and 100'')
      else if find_task task_id st = None then Inl (TaskNotFound task_id)
      else Inr (rev (take (nat limit)
             (rev (sort_key te_occurred_at (filter (\<lambda>e. te_task_id e = task_id) (st_events st)))))))"

section \<open>Presentations\<close>

text \<open>The Chinese labels, by what they say.\<close>

datatype task_label = PoolBacktest | SmartAnalysis | DataUpdate | BackgroundTask

record task_presentation =
  tp_label :: task_label
  tp_stage :: "string option"
  tp_processed :: "int option"
  tp_total :: "int option"
  tp_failed :: "int option"
  tp_target :: "string option"

definition bare_presentation :: "task_label \<Rightarrow> task_presentation" where
  "bare_presentation label = \<lparr>tp_label = label, tp_stage = None, tp_processed = None, tp_total = None,
     tp_failed = None, tp_target = None\<rparr>"

definition backtest_presentation :: "backtest_row option \<Rightarrow> task_presentation" where
  "backtest_presentation row =
     (case row of
        None \<Rightarrow> bare_presentation PoolBacktest
      | Some r \<Rightarrow>
          if br_stage r \<in> set presentation_stages \<and> 0 \<le> br_failed_count r \<and> br_failed_count r \<le> br_processed r
             \<and> br_processed r \<le> br_total r \<and> br_total r \<le> 10000 \<and> canonical_uuid (br_id r)
          then \<lparr>tp_label = PoolBacktest, tp_stage = Some (br_stage r), tp_processed = Some (br_processed r),
                tp_total = Some (br_total r), tp_failed = Some (br_failed_count r), tp_target = Some (br_id r)\<rparr>
          else bare_presentation PoolBacktest)"

definition presentation :: "task_snapshot \<Rightarrow> task_store \<Rightarrow> task_presentation" where
  "presentation task st =
     (if sn_kind task = backtest_task_kind
      then backtest_presentation (find (\<lambda>r. br_task_id r = sn_id task) (st_backtests st))
      else if sn_kind task = analysis_task_kind then bare_presentation SmartAnalysis
      else if sn_kind task \<in> {''market.update'', ''market.catalog.update''} then bare_presentation DataUpdate
      else bare_presentation BackgroundTask)"

definition presentation_many :: "task_snapshot list \<Rightarrow> task_store \<Rightarrow> (string \<rightharpoonup> task_presentation)" where
  "presentation_many tasks st = map_of (rev (map (\<lambda>t. (sn_id t, presentation t st)) tasks))"

datatype event_label =
    TaskCreated | TaskStarted | ProgressUpdated | SymbolsProcessed | CancelRequested | TaskCancelled
  | TaskDone | TaskFailed | OtherEvent

definition event_labels :: "string \<Rightarrow> event_label" where
  "event_labels event_name =
     (case map_of [(''task.created'', TaskCreated), (''task.claimed'', TaskStarted),
        (''task.progressed'', ProgressUpdated), (''backtest.progressed'', SymbolsProcessed),
        (''task.cancel_requested'', CancelRequested), (''task.cancelled'', TaskCancelled),
        (''task.succeeded'', TaskDone), (''task.failed'', TaskFailed)] event_name of
        None \<Rightarrow> OtherEvent | Some l \<Rightarrow> l)"

definition json_field :: "string \<Rightarrow> json \<Rightarrow> json option" where
  "json_field key detail = (case detail of JObj fs \<Rightarrow> map_of (rev fs) key | _ \<Rightarrow> None)"

record event_presentation =
  ep_label :: event_label
  ep_stage :: "string option"
  ep_counts :: "(int \<times> int \<times> int) option"

definition bare_event :: "task_event \<Rightarrow> event_presentation" where
  "bare_event e = \<lparr>ep_label = event_labels (te_event_name e), ep_stage = None, ep_counts = None\<rparr>"

definition event_task_kind :: "task_event \<Rightarrow> string option \<Rightarrow> task_store \<Rightarrow> string option" where
  "event_task_kind e task_kind st =
     (if te_event_name e = ''backtest.progressed'' \<and> task_kind = None
      then map_option tr_kind (find_task (te_task_id e) st) else task_kind)"

definition present_event :: "task_event \<Rightarrow> string option \<Rightarrow> task_store \<Rightarrow> event_presentation" where
  "present_event e task_kind st =
     (case (json_field ''stage'' (te_detail e), json_field ''processed'' (te_detail e),
            json_field ''total'' (te_detail e), json_field ''failed'' (te_detail e)) of
        (Some (JStr stage), Some (JInt processed), Some (JInt total_count), Some (JInt failed)) \<Rightarrow>
          if te_event_name e = ''backtest.progressed'' \<and> event_task_kind e task_kind st = Some backtest_task_kind
             \<and> stage \<in> set presentation_stages \<and> 0 \<le> failed \<and> failed \<le> processed \<and> processed \<le> total_count
             \<and> total_count \<le> 10000
          then \<lparr>ep_label = SymbolsProcessed, ep_stage = Some stage,
                ep_counts = Some (processed, total_count, failed)\<rparr>
          else bare_event e
      | _ \<Rightarrow> bare_event e)"

text \<open>The counts of active tasks, by status and by category.\<close>

definition count_tasks :: "(task_row \<Rightarrow> bool) \<Rightarrow> task_store \<Rightarrow> int" where
  "count_tasks P st = int (length (filter (\<lambda>r. active_task r \<and> P r) (st_tasks st)))"

definition active_desktop_recovery_summary :: "task_store \<Rightarrow> (string \<times> int) list" where
  "active_desktop_recovery_summary st =
     (let market = (\<lambda>r. tr_kind r \<in> {''market.update'', ''market.catalog.update''})
      in [(''queued'', count_tasks (\<lambda>r. tr_status r = Queued) st),
          (''running'', count_tasks (\<lambda>r. tr_status r = Running) st),
          (''analysis'', count_tasks (\<lambda>r. tr_kind r = analysis_task_kind) st),
          (''backtest'', count_tasks (\<lambda>r. tr_kind r = backtest_task_kind) st),
          (''market'', count_tasks market st),
          (''other'', count_tasks (\<lambda>r. tr_kind r \<noteq> analysis_task_kind \<and> tr_kind r \<noteq> backtest_task_kind
             \<and> \<not> market r) st)])"

end
