(* ===== verification/Task_Queue.thy ===== *)
theory Task_Queue
  imports Task_Store
begin

text \<open>
  The correctness of the task queue of \<open>Task_Store\<close>: the legal moves of one task as a step relation, the
  invariant of the store under every sequence of calls, the fencing of stale claims, and what
  claiming, cancelling and recovering do.
\<close>

section \<open>Legal moves of a task\<close>

text \<open>
  What the queue promises of one row, apart from how its statements select it; \<open>K\<close> holds the tokens
  that claims may draw.
\<close>

definition stored_json :: "json \<Rightarrow> bool" where
  "stored_json j \<longleftrightarrow> (\<exists>f v. validated_json_object f v = Inr j)"

inductive task_move :: "string set \<Rightarrow> task_row \<Rightarrow> task_row \<Rightarrow> bool" for K where
  claim: "claimable t r \<Longrightarrow> token \<in> K \<Longrightarrow> task_move K r (claim_row worker t duration token r)"
| renew: "tr_status r = Running \<Longrightarrow> leased r \<Longrightarrow> lease_live t r \<Longrightarrow>
    task_move K r (r\<lparr>tr_heartbeat_at := Some t, tr_lease_expires_at := Some (t + duration),
      tr_updated_at := transition_time t r\<rparr>)"
| progress: "tr_status r = Running \<Longrightarrow> tr_progress r \<le> p \<Longrightarrow> p \<le> 1 \<Longrightarrow> task_move K r (progress_row p t r)"
| finish: "tr_status r = Running \<Longrightarrow> stored_json j \<Longrightarrow> task_move K r (complete_row j t r)"
| break: "tr_status r = Running \<Longrightarrow> stored_json j \<Longrightarrow> task_move K r (fail_row j t r)"
| expire: "expired_cancellation t r \<Longrightarrow> task_move K r (cancel_row t r)"
| requeue: "tr_status r = Running \<Longrightarrow> task_move K r (requeue_row t r)"
| decline: "active_task r \<Longrightarrow> task_move K r (decline_row t r)"
| withdraw: "tr_status r = Queued \<Longrightarrow> task_move K r (cancel_queued_row t r)"
| request: "tr_status r = Running \<Longrightarrow> task_move K r (request_row t r)"

text \<open>The well-formed rows.\<close>

definition row_ok :: "task_row \<Rightarrow> bool" where
  "row_ok r \<longleftrightarrow> 0 \<le> tr_progress r \<and> tr_progress r \<le> 1 \<and> (tr_status r = Succeeded \<longrightarrow> tr_progress r = 1)
     \<and> (tr_finished_at r \<noteq> None \<longleftrightarrow> \<not> active_task r)
     \<and> (tr_result r \<noteq> None \<longleftrightarrow> tr_status r = Succeeded) \<and> (tr_error r \<noteq> None \<longleftrightarrow> tr_status r = Failed)
     \<and> (tr_claim_token r \<noteq> None \<longleftrightarrow> leased r \<and> tr_status r = Running)
     \<and> (tr_lease_expires_at r \<noteq> None \<longleftrightarrow> leased r \<and> tr_status r = Running)
     \<and> (tr_heartbeat_at r \<noteq> None \<longleftrightarrow> leased r \<and> tr_status r = Running)
     \<and> (tr_status r = Running \<longrightarrow> tr_worker_id r \<noteq> None \<and> tr_started_at r \<noteq> None)
     \<and> (tr_status r = Queued \<longrightarrow> tr_worker_id r = None)
     \<and> 0 \<le> tr_attempt_count r \<and> (leased r \<and> tr_status r = Running \<longrightarrow> 1 \<le> tr_attempt_count r)
     \<and> (\<not> leased r \<longrightarrow> tr_attempt_count r = 0)
     \<and> stored_json (tr_payload r) \<and> pred_option stored_json (tr_result r) \<and> pred_option stored_json (tr_error r)"

lemmas row_updates = claim_row_def progress_row_def complete_row_def fail_row_def cancel_row_def requeue_row_def
  decline_row_def cancel_queued_row_def request_row_def release_def

lemma leased_updates [simp]:
  "leased (claim_row w t d k r) = leased r" "leased (progress_row p t r) = leased r"
  "leased (complete_row j t r) = leased r" "leased (fail_row j t r) = leased r"
  "leased (cancel_row t r) = leased r" "leased (requeue_row t r) = leased r"
  "leased (decline_row t r) = leased r" "leased (cancel_queued_row t r) = leased r"
  "leased (request_row t r) = leased r"
  by (simp_all add: row_updates leased_def)

lemma leased_fields [simp]:
  "leased (r\<lparr>tr_heartbeat_at := h\<rparr>) = leased r" "leased (r\<lparr>tr_lease_expires_at := l\<rparr>) = leased r"
  "leased (r\<lparr>tr_updated_at := u\<rparr>) = leased r"
  by (simp_all add: leased_def)

lemma row_ok_simps: "row_ok r \<Longrightarrow> 0 \<le> tr_progress r" "row_ok r \<Longrightarrow> tr_progress r \<le> 1"
  by (simp_all add: row_ok_def)

lemma row_ok_running:
  "row_ok r \<Longrightarrow> tr_status r = Running \<Longrightarrow> tr_result r = None \<and> tr_error r = None \<and> tr_finished_at r = None"
  by (auto simp: row_ok_def active_task_def)

lemma row_ok_queued:
  "row_ok r \<Longrightarrow> tr_status r = Queued \<Longrightarrow> tr_result r = None \<and> tr_error r = None \<and> tr_finished_at r = None
     \<and> tr_claim_token r = None \<and> tr_lease_expires_at r = None \<and> tr_heartbeat_at r = None"
  by (auto simp: row_ok_def active_task_def)

lemma claim_ok:
  assumes ok: "row_ok r" and c: "claimable t r"
  shows "row_ok (claim_row w t d k r)"
proof -
  have none: "tr_result r = None \<and> tr_error r = None \<and> tr_finished_at r = None"
    using row_ok_running [OF ok] row_ok_queued [OF ok] c by (auto simp: claimable_def)
  with ok show ?thesis
    by (cases "leased r") (simp_all add: row_ok_def active_task_def claim_row_def leased_def)
qed

lemma move_row_ok: "task_move K r r' \<Longrightarrow> row_ok r \<Longrightarrow> row_ok r'"
proof (induction rule: task_move.induct)
  case (claim t r worker duration token)
  then show ?case by (simp add: claim_ok)
next
  case (renew r t duration)
  then show ?case by (simp add: row_ok_def active_task_def)
next
  case (progress r p t)
  then have "0 \<le> p" using row_ok_simps(1) order_trans by blast
  with progress show ?case by (simp add: row_ok_def active_task_def progress_row_def leased_def)
next
  case (finish r j t)
  then show ?case by (simp add: row_ok_def active_task_def complete_row_def release_def leased_def)
next
  case (break r j t)
  then show ?case by (simp add: row_ok_def active_task_def fail_row_def release_def leased_def)
next
  case (expire t r)
  then show ?case by (simp add: row_ok_def active_task_def cancel_row_def release_def leased_def expired_cancellation_def)
next
  case (requeue r t)
  then show ?case by (simp add: row_ok_def active_task_def requeue_row_def release_def leased_def)
next
  case (decline r t)
  then show ?case by (simp add: row_ok_def decline_row_def release_def active_task_def leased_def)
next
  case (withdraw r t)
  then show ?case by (simp add: row_ok_def cancel_queued_row_def active_task_def leased_def)
next
  case (request r t)
  then show ?case by (simp add: row_ok_def request_row_def active_task_def leased_def)
qed

lemma move_identity:
  "task_move K r r' \<Longrightarrow> tr_id r' = tr_id r \<and> tr_kind r' = tr_kind r \<and> tr_payload r' = tr_payload r
     \<and> tr_created_at r' = tr_created_at r"
  by (induction rule: task_move.induct) (simp_all add: row_updates)

lemma move_active: "task_move K r r' \<Longrightarrow> active_task r"
  by (induction rule: task_move.induct) (auto simp: active_task_def claimable_def expired_cancellation_def)

lemma move_progress: "task_move K r r' \<Longrightarrow> tr_progress r \<le> 1 \<Longrightarrow> tr_progress r \<le> tr_progress r'"
  by (induction rule: task_move.induct) (simp_all add: row_updates)

section \<open>The store after a call\<close>

definition rows_move :: "string set \<Rightarrow> task_row list \<Rightarrow> task_row list \<Rightarrow> bool" where
  "rows_move K rs rs' \<longleftrightarrow> list_all2 (task_move K)\<^sup>*\<^sup>* rs rs'"

lemma rows_move_refl [simp]: "rows_move K rs rs"
  by (simp add: rows_move_def list.rel_refl)

lemma rows_move_trans: "rows_move K a b \<Longrightarrow> rows_move K b c \<Longrightarrow> rows_move K a c"
  unfolding rows_move_def using list_all2_trans [OF rtranclp_trans] .

lemma rows_move_update:
  "(\<And>r. r \<in> set rows \<Longrightarrow> P r \<Longrightarrow> task_move K r (f r)) \<Longrightarrow> rows_move K rows (snd (update_returning P f rows))"
  by (auto simp: update_returning_def rows_move_def list_all2_map2 list_all2_same)

definition events_ok :: "task_store \<Rightarrow> bool" where
  "events_ok st \<longleftrightarrow> (\<forall>i. sorted_wrt (<) (event_times i st))"

text \<open>A step that only reports: the tables stay, and the events of each task stay ordered.\<close>

definition reports :: "task_store \<Rightarrow> task_store \<Rightarrow> bool" where
  "reports st st' \<longleftrightarrow> (\<exists>es. st' = st\<lparr>st_events := st_events st @ es\<rparr>) \<and> (events_ok st \<longrightarrow> events_ok st')"

lemma reports_refl [simp]: "reports st st"
proof -
  have "st = st\<lparr>st_events := st_events st @ []\<rparr>" by simp
  then show ?thesis unfolding reports_def by blast
qed

lemma reports_trans: "reports a b \<Longrightarrow> reports b c \<Longrightarrow> reports a c"
  by (auto simp: reports_def)

lemma reports_tables:
  "reports st st' \<Longrightarrow> st_tasks st' = st_tasks st \<and> st_backtests st' = st_backtests st
     \<and> st_analyses st' = st_analyses st \<and> st_stages st' = st_stages st \<and> st_attempts st' = st_attempts st
     \<and> st_heartbeats st' = st_heartbeats st"
  by (auto simp: reports_def)

lemma fold_max_ge: "t \<le> fold max ts (t :: int) \<and> (\<forall>x \<in> set ts. x \<le> fold max ts t)"
proof (induction ts arbitrary: t)
  case (Cons u ts)
  have "t \<le> max u t" "u \<le> max u t" by simp_all
  then show ?case using Cons.IH [of "max u t"] by (auto intro: order_trans)
qed simp

lemma latest_bound: "x \<in> set (t # ts) \<Longrightarrow> x \<le> fold max ts (t :: int)"
  using fold_max_ge [of t ts] by auto

lemma effective_time_later: "x \<in> set (event_times i st) \<Longrightarrow> x < effective_time i t st"
proof (cases "event_times i st")
  case (Cons u us)
  assume "x \<in> set (event_times i st)"
  with Cons have "x \<le> fold max us u" using latest_bound by simp
  then show ?thesis by (simp add: effective_time_def Cons Let_def)
qed simp

lemma effective_time_ge: "t \<le> effective_time i t st"
  by (auto simp: effective_time_def Let_def split: list.splits)

lemma append_event_reports:
  assumes "append_event redact i name level p detail t st = Inr st'"
  shows "reports st st'"
proof -
  obtain d where st': "st' = st\<lparr>st_events := st_events st @
      [\<lparr>te_task_id = i, te_event_name = name, te_level = level, te_progress = Some p,
        te_detail = d, te_occurred_at = effective_time i t st\<rparr>]\<rparr>"
    using assms by (auto simp: append_event_def res_simps)
  have "sorted_wrt (<) (event_times k st')" if "events_ok st" for k
    using that effective_time_later [of _ i st t] by (auto simp: events_ok_def st' event_times_def sorted_wrt_append)
  then show ?thesis unfolding reports_def events_ok_def by (auto simp: st')
qed

lemma report_rows_reports:
  "report_rows redact name level detail t rows st = Inr st' \<Longrightarrow> reports st st'"
proof (induction rows arbitrary: st)
  case (Cons r rows)
  then obtain s task where "append_event redact (sn_id task) name level (sn_progress task) detail (t task) st = Inr s"
      "report_rows redact name level detail t rows s = Inr st'"
    by (auto simp: report_rows_def res_simps)
  then show ?case using append_event_reports reports_trans Cons.IH by blast
qed (simp add: report_rows_def)

definition evolves :: "string set \<Rightarrow> task_store \<Rightarrow> task_store \<Rightarrow> bool" where
  "evolves K st st' \<longleftrightarrow> rows_move K (st_tasks st) (st_tasks st') \<and> (events_ok st \<longrightarrow> events_ok st')"

lemma evolves_refl [simp]: "evolves K st st"
  by (simp add: evolves_def)

lemma evolves_trans: "evolves K a b \<Longrightarrow> evolves K b c \<Longrightarrow> evolves K a c"
  by (auto simp: evolves_def intro: rows_move_trans)

lemma evolves_reports: "reports st st' \<Longrightarrow> evolves K st st'"
  by (auto simp: evolves_def reports_def)

lemma evolves_tasks:
  "rows_move K (st_tasks st) tasks \<Longrightarrow> evolves K st (st\<lparr>st_tasks := tasks\<rparr>)"
  by (simp add: evolves_def events_ok_def event_times_def)

lemma cancel_tables [simp]:
  "st_tasks (cancel_backtests ids t st) = st_tasks st" "st_events (cancel_backtests ids t st) = st_events st"
  "st_tasks (cancel_analyses ids t st) = st_tasks st" "st_events (cancel_analyses ids t st) = st_events st"
  "st_tasks (cancel_queued_backtest s st) = st_tasks st" "st_events (cancel_queued_backtest s st) = st_events st"
  "st_tasks (cancel_queued_analysis s st) = st_tasks st" "st_events (cancel_queued_analysis s st) = st_events st"
  by (simp_all add: cancel_backtests_def cancel_analyses_def cancel_queued_backtest_def cancel_queued_analysis_def
      Let_def split: option.splits)

lemma evolves_same: "st_tasks st' = st_tasks st \<Longrightarrow> st_events st' = st_events st \<Longrightarrow> evolves K st st'"
  by (simp add: evolves_def events_ok_def event_times_def)

lemma update_task_evolves:
  assumes "update_task i P f st = (x, st')" and "\<And>r. r \<in> set (st_tasks st) \<Longrightarrow> P r \<Longrightarrow> task_move K r (f r)"
  shows "evolves K st st'"
  using assms by (auto simp: update_task_def evolves_tasks intro!: evolves_tasks rows_move_update split: prod.splits)
    (metis (no_types, lifting) rows_move_update snd_conv)

section \<open>Every operation evolves the store\<close>

lemma update_task_elim:
  assumes "(case update_task i P f st of (None, _) \<Rightarrow> A | (Some row, s) \<Rightarrow> B row s) = Inr y"
  obtains (hit) row s where "update_task i P f st = (Some row, s)" and "B row s = Inr y"
    | (miss) s where "update_task i P f st = (None, s)" and "A = Inr y"
  using assms by (cases "update_task i P f st"; cases "fst (update_task i P f st)") auto

lemma update_returning_elim:
  assumes "(case update_returning P f rows of (rs, tasks) \<Rightarrow> B rs tasks) = Inr y"
  obtains rs tasks where "update_returning P f rows = (rs, tasks)" and "B rs tasks = Inr y"
  using assms by (cases "update_returning P f rows") simp

lemma terminalize_evolves:
  assumes "terminalize_expired_cancellations redact t st = Inr (rows, st')"
  shows "evolves K st st'"
proof -
  obtain tasks where u: "update_returning (expired_cancellation t) (cancel_row t) (st_tasks st) = (rows, tasks)"
    and r: "reports (if rows = [] then st\<lparr>st_tasks := tasks\<rparr>
        else cancel_analyses (map tr_id rows) t (cancel_backtests (map tr_id rows) t (st\<lparr>st_tasks := tasks\<rparr>))) st'"
    using assms report_rows_reports unfolding terminalize_expired_cancellations_def
    by (auto simp: res_simps Let_def elim!: update_returning_elim)
  have "rows_move K (st_tasks st) tasks"
    using rows_move_update [where K = K, of "st_tasks st" "expired_cancellation t" "cancel_row t"] u task_move.expire by simp
  then have "evolves K st (st\<lparr>st_tasks := tasks\<rparr>)" by (rule evolves_tasks)
  moreover have "evolves K (st\<lparr>st_tasks := tasks\<rparr>) (if rows = [] then st\<lparr>st_tasks := tasks\<rparr>
      else cancel_analyses (map tr_id rows) t (cancel_backtests (map tr_id rows) t (st\<lparr>st_tasks := tasks\<rparr>)))"
    by (rule evolves_same) simp_all
  ultimately show ?thesis using evolves_reports [OF r] evolves_trans by blast
qed

lemma requeue_evolves:
  assumes "update_returning P (requeue_row t) (st_tasks st) = (rows, tasks)" and "\<And>r. P r \<Longrightarrow> tr_status r = Running"
    and "report_rows redact name level detail tm rows (st\<lparr>st_tasks := tasks\<rparr>) = Inr st'"
  shows "evolves K st st'"
proof -
  have "rows_move K (st_tasks st) tasks"
    using rows_move_update [where K = K, of "st_tasks st" P "requeue_row t"] assms(1,2) task_move.requeue by simp
  from evolves_trans [OF evolves_tasks [OF this] evolves_reports [OF report_rows_reports [OF assms(3)]]] show ?thesis .
qed

lemma offline_evolves:
  "requeue_expired_leases_for_offline_snapshot redact now clock st = Inr (n, st') \<Longrightarrow> evolves K st st'"
  unfolding requeue_expired_leases_for_offline_snapshot_def bind_res_Inr_iff
  by (auto simp: res_simps abandoned_def elim!: update_returning_elim
      intro: evolves_trans [OF terminalize_evolves requeue_evolves])

lemma resume_evolves: "resume_desktop_recovery redact clock st = Inr (n, st') \<Longrightarrow> evolves K st st'"
  unfolding resume_desktop_recovery_def
  by (auto simp: res_simps elim!: update_returning_elim intro: requeue_evolves)

text \<open>Rows with a duplicate id do not occur, so the update by id touches active rows only.\<close>

lemma decline_evolves:
  assumes "cancel_desktop_recovery redact clock st = Inr (n, st')" and "distinct (map tr_id (st_tasks st))"
  shows "evolves K st st'"
proof (cases "filter active_task (st_tasks st) = []")
  case True
  then show ?thesis using assms by (simp add: cancel_desktop_recovery_def)
next
  case False
  let ?rows = "filter active_task (st_tasks st)"
  let ?tasks = "update_where (\<lambda>r. tr_id r \<in> set (map tr_id ?rows)) (decline_row clock) (st_tasks st)"
  let ?st = "st\<lparr>st_tasks := ?tasks\<rparr>"
  have "report_rows redact ''task.cancelled'' Info (code_detail ''desktop_recovery_cancelled'') (\<lambda>_. clock) ?rows
      (cancel_analyses (map tr_id ?rows) clock (cancel_backtests (map tr_id ?rows) clock ?st)) = Inr st'"
    using assms(1) False by (simp add: cancel_desktop_recovery_def Let_def res_simps)
  from evolves_reports [OF report_rows_reports [OF this]]
  have "evolves K (cancel_analyses (map tr_id ?rows) clock (cancel_backtests (map tr_id ?rows) clock ?st)) st'" .
  moreover have "evolves K ?st (cancel_analyses (map tr_id ?rows) clock (cancel_backtests (map tr_id ?rows) clock ?st))"
    by (rule evolves_same) simp_all
  moreover have "active_task r" if "r \<in> set (st_tasks st)" "tr_id r \<in> set (map tr_id ?rows)" for r
    using that assms(2) by (auto simp: distinct_map dest: inj_onD)
  then have "rows_move K (st_tasks st) ?tasks"
    unfolding update_where_def by (intro rows_move_update task_move.decline) auto
  then have "evolves K st ?st" by (rule evolves_tasks)
  ultimately show ?thesis using evolves_trans by blast
qed

text \<open>What a claim does to the store: expired cancellations, then at most one row, then reports.\<close>

lemma claim_next_elim:
  assumes "claim_next redact False w now clock d k st = Inr (c, st')"
  obtains t rows s tasks where "sample_time ''claim time'' now clock = Inr t"
    and "terminalize_expired_cancellations redact t st = Inr (rows, s)"
    and "tasks = st_tasks s
      \<or> (\<exists>q. tasks = snd (update_returning (\<lambda>r. tr_id r = q \<and> claimable t r) (claim_row w t d k) (st_tasks s)))"
    and "reports (s\<lparr>st_tasks := tasks\<rparr>) st'"
proof -
  obtain t rows s where t: "sample_time ''claim time'' now clock = Inr t"
    and te: "terminalize_expired_cancellations redact t st = Inr (rows, s)"
    and rest: "(case claim_candidate t s of None \<Rightarrow> Inr (NoTask, s) | Some candidate \<Rightarrow>
         (case update_returning (\<lambda>r. tr_id r = tr_id candidate \<and> claimable t r) (claim_row w t d k) (st_tasks s) of
            ([row], tasks) \<Rightarrow>
              bind_res (snapshot row) (\<lambda>task.
              bind_res (append_event redact (sn_id task) ''task.claimed'' Info (sn_progress task)
                          (PyMap [(PyStr ''worker_id'', PyStr w)]) (sn_updated_at task)
                          (s\<lparr>st_tasks := tasks\<rparr>)) (\<lambda>st'.
              if sn_kind task \<notin> set leased_task_kinds then Inr (Unleased task, st')
              else bind_res (leased_claim row task k) (\<lambda>c. Inr (c, st'))))
          | ([], tasks) \<Rightarrow> Inr (NoTask, s)
          | _ \<Rightarrow> Inl (TaskRuntimeError ''Multiple rows were found''))) = Inr (c, st')"
    using assms by (auto simp: claim_next_def claim_next_without_gate_def res_simps validate_lease_duration_def
        split: prod.splits if_splits)
  note that = that [OF t te]
  show ?thesis
  proof (cases "claim_candidate t s")
    case None
    then show ?thesis using rest that [of "st_tasks s"] by simp
  next
    case (Some candidate)
    obtain got tasks where u: "update_returning (\<lambda>r. tr_id r = tr_id candidate \<and> claimable t r) (claim_row w t d k)
        (st_tasks s) = (got, tasks)" by fastforce
    show ?thesis
    proof (cases got)
      case Nil
      then show ?thesis using rest u that [of "st_tasks s"] by (simp add: Some)
    next
      case (Cons row more)
      then have "more = []" using rest u by (cases more) (simp_all add: Some)
      then obtain task :: task_snapshot where "append_event redact (sn_id task) ''task.claimed'' Info (sn_progress task)
          (PyMap [(PyStr ''worker_id'', PyStr w)]) (sn_updated_at task) (s\<lparr>st_tasks := tasks\<rparr>) = Inr st'"
        using rest u Cons by (auto simp: Some res_simps split: if_splits)
      from append_event_reports [OF this] show ?thesis using that [of tasks] u by (metis snd_conv)
    qed
  qed
qed

lemma claim_stopped: "claim_next redact True w now clock d k st = Inr (NoTask, st)"
  by (simp add: claim_next_def)

lemma claim_evolves:
  assumes "claim_next redact stopped w now clock d k st = Inr (c, st')" and k: "k \<in> K"
  shows "evolves K st st'"
proof (cases stopped)
  case True
  then show ?thesis using assms(1) by (simp add: claim_stopped)
next
  case False
  then have "claim_next redact False w now clock d k st = Inr (c, st')" using assms(1) by simp
  then show ?thesis
  proof (cases rule: claim_next_elim)
    case (1 t rows s tasks)
    have "rows_move K (st_tasks s) tasks"
      using 1(3)
    proof
      assume "\<exists>q. tasks = snd (update_returning (\<lambda>r. tr_id r = q \<and> claimable t r) (claim_row w t d k) (st_tasks s))"
      then show ?thesis by (elim exE) (simp only:, rule rows_move_update, blast intro: task_move.claim [OF _ k])
    qed simp
    with evolves_trans [OF terminalize_evolves [OF 1(2)]] evolves_tasks evolves_reports [OF 1(4)] show ?thesis
      using evolves_trans by blast
  qed
qed

lemma heartbeat_evolves: "heartbeat i k now clock d st = Inr (c, st') \<Longrightarrow> evolves K st st'"
  unfolding heartbeat_def
  by (auto simp: res_simps elim!: update_task_elim split: option.splits)
    (erule update_task_evolves, simp add: task_move.renew)

text \<open>The statements that one owner runs on its task.\<close>

lemma owned_evolves:
  assumes "update_task i (\<lambda>r. tr_status r = Running \<and> Q r) f st = (x, st')"
    and "\<And>r. tr_status r = Running \<Longrightarrow> Q r \<Longrightarrow> task_move K r (f r)" and "reports st' st''"
  shows "evolves K st st''"
  using update_task_evolves [OF assms(1)] assms(2) evolves_reports [OF assms(3)] evolves_trans by blast

lemma stored_json_redacted: "redacted_json_object redact f v = Inr j \<Longrightarrow> stored_json j"
  by (auto simp: redacted_json_object_def stored_json_def split: if_splits)

lemma validated_progress_Inr: "validated_progress p = Inr x \<Longrightarrow> p = Progress x \<and> 0 \<le> x \<and> x \<le> 1"
  by (auto simp: validated_progress_def split: progress_arg.splits if_splits)

lemma report_completed_reports: "report_completed redact task st = Inr st' \<Longrightarrow> reports st st'"
  by (auto simp: report_completed_def dest: append_event_reports)

lemma report_failed_reports: "report_failed redact task st = Inr st' \<Longrightarrow> reports st st'"
  by (auto simp: report_failed_def dest: append_event_reports split: if_splits)

lemmas report_facts = report_completed_reports report_failed_reports append_event_reports

lemma guard_evolves: "guard_claim_in_transaction i k p now st = Inr (s, st') \<Longrightarrow> evolves K st st'"
  unfolding guard_claim_in_transaction_def
  by (auto simp: res_simps elim!: update_task_elim dest!: validated_progress_Inr)
    (erule owned_evolves, auto intro: task_move.progress)

lemma set_progress_evolves: "set_progress redact i p detail k now clock st = Inr (s, st') \<Longrightarrow> evolves K st st'"
  unfolding set_progress_def
  by (auto simp: res_simps elim!: update_task_elim dest!: validated_progress_Inr report_facts)
    (erule owned_evolves, auto intro: task_move.progress)

lemma complete_claim_evolves: "complete_claim_in_transaction redact i k v now st = Inr (s, st') \<Longrightarrow> evolves K st st'"
  unfolding complete_claim_in_transaction_def
  by (auto simp: res_simps elim!: update_task_elim dest!: stored_json_redacted report_facts)
    (erule owned_evolves, auto intro: task_move.finish)

lemma fail_claim_evolves: "fail_claim_in_transaction redact i k v now st = Inr (s, st') \<Longrightarrow> evolves K st st'"
  unfolding fail_claim_in_transaction_def
  by (auto simp: res_simps elim!: update_task_elim dest!: stored_json_redacted report_facts)
    (erule owned_evolves, auto intro: task_move.break)

lemma complete_evolves: "complete_task redact i v k now clock st = Inr (s, st') \<Longrightarrow> evolves K st st'"
  unfolding complete_task_def
  by (auto simp: res_simps elim!: update_task_elim dest!: stored_json_redacted report_facts split: if_splits)
    (erule owned_evolves, auto intro: task_move.finish)

lemma fail_evolves: "fail_task redact i v k now clock st = Inr (s, st') \<Longrightarrow> evolves K st st'"
  unfolding fail_task_def
  by (auto simp: res_simps elim!: update_task_elim dest!: stored_json_redacted report_facts split: if_splits)
    (erule owned_evolves, auto intro: task_move.break)

lemma report_cancel_request_reports: "report_cancel_request redact task st = Inr st' \<Longrightarrow> reports st st'"
  by (auto simp: report_cancel_request_def res_simps split: if_splits dest!: append_event_reports intro: reports_trans)

lemma cancel_queued_evolves:
  assumes "update_task i P f st = (x, s)" and "\<And>r. P r \<Longrightarrow> task_move K r (f r)"
    and "reports (cancel_queued_analysis n (cancel_queued_backtest n s)) st'"
  shows "evolves K st st'"
proof -
  have "evolves K s (cancel_queued_analysis n (cancel_queued_backtest n s))" by (rule evolves_same) simp_all
  with update_task_evolves [OF assms(1)] assms(2) evolves_reports [OF assms(3)] show ?thesis
    using evolves_trans by blast
qed

lemma running_evolves:
  assumes "update_task i P f st = (x, s)" and "\<And>r. P r \<Longrightarrow> task_move K r (f r)" and "reports s st'"
  shows "evolves K st st'"
  using update_task_evolves [OF assms(1)] assms(2) evolves_reports [OF assms(3)] evolves_trans by blast

lemma request_cancel_evolves: "request_cancel redact i clock st = Inr (s, st') \<Longrightarrow> evolves K st st'"
  unfolding request_cancel_def
  apply (erule update_task_elim)
  subgoal
    by (auto simp: res_simps dest!: report_cancel_request_reports)
      (erule cancel_queued_evolves, auto intro: task_move.withdraw)
  subgoal
    by (erule update_task_elim)
      (auto simp: res_simps dest!: report_cancel_request_reports split: if_splits
        elim: running_evolves intro: task_move.request)
  done

section \<open>Sequences of calls\<close>

text \<open>A call with its arguments; the result is dropped and a call that raises changes nothing.\<close>

datatype task_call =
    Create string pyval string int
  | Enqueue string pyval string pytime
  | Claim_Next bool string "pytime option" int int string
  | Heartbeat string string "pytime option" int int
  | Guard_Claim string string progress_arg pytime
  | Complete_Claim string string pyval pytime
  | Fail_Claim string string pyval pytime
  | Set_Progress string progress_arg "pyval option" "string option" "pytime option" int
  | Complete string pyval "string option" "pytime option" int
  | Fail string pyval "string option" "pytime option" int
  | Request_Cancel string int
  | Requeue_Expired "pytime option" int
  | Resume_Recovery int
  | Cancel_Recovery int
  | Request_Checkpoint
  | Cancel_Checkpoint
  | Pause_At_Checkpoint string int
  | Backtest_Progress string progress_arg string int int int pytime
  | Worker_Heartbeat string "pytime option" int

definition state_of :: "('a \<times> task_store) task_res \<Rightarrow> task_store task_res" where
  "state_of m = bind_res m (\<lambda>(_, st). Inr st)"

fun task_step :: "(pyval \<Rightarrow> pyval) \<Rightarrow> task_store \<Rightarrow> task_call \<Rightarrow> task_store task_res" where
  "task_step redact st (Create kind payload i clock) = state_of (create_task redact kind payload i clock st)"
| "task_step redact st (Enqueue kind payload i now) = state_of (enqueue_in_transaction redact kind payload i now st)"
| "task_step redact st (Claim_Next stopped w now clock d k) = state_of (claim_next redact stopped w now clock d k st)"
| "task_step redact st (Heartbeat i k now clock d) = state_of (heartbeat i k now clock d st)"
| "task_step redact st (Guard_Claim i k p now) = state_of (guard_claim_in_transaction i k p now st)"
| "task_step redact st (Complete_Claim i k v now) = state_of (complete_claim_in_transaction redact i k v now st)"
| "task_step redact st (Fail_Claim i k v now) = state_of (fail_claim_in_transaction redact i k v now st)"
| "task_step redact st (Set_Progress i p d k now clock) = state_of (set_progress redact i p d k now clock st)"
| "task_step redact st (Complete i v k now clock) = state_of (complete_task redact i v k now clock st)"
| "task_step redact st (Fail i v k now clock) = state_of (fail_task redact i v k now clock st)"
| "task_step redact st (Request_Cancel i clock) = state_of (request_cancel redact i clock st)"
| "task_step redact st (Requeue_Expired now clock) =
     state_of (requeue_expired_leases_for_offline_snapshot redact now clock st)"
| "task_step redact st (Resume_Recovery clock) = state_of (resume_desktop_recovery redact clock st)"
| "task_step redact st (Cancel_Recovery clock) = state_of (cancel_desktop_recovery redact clock st)"
| "task_step redact st Request_Checkpoint = Inr (request_desktop_checkpoint st)"
| "task_step redact st Cancel_Checkpoint = Inr (snd (cancel_desktop_checkpoint st))"
| "task_step redact st (Pause_At_Checkpoint i clock) = state_of (pause_at_desktop_checkpoint redact i clock st)"
| "task_step redact st (Backtest_Progress i p stage n m k now) =
     append_backtest_progress_event redact i p stage n m k now st"
| "task_step redact st (Worker_Heartbeat w now clock) = record_worker_heartbeat w now clock st"

lemma state_of_Inr: "state_of m = Inr st' \<longleftrightarrow> (\<exists>x. m = Inr (x, st'))"
  by (auto simp: state_of_def res_simps)

definition task_run :: "(pyval \<Rightarrow> pyval) \<Rightarrow> task_store \<Rightarrow> task_call list \<Rightarrow> task_store" where
  "task_run redact st calls = foldl (commit (task_step redact)) st calls"

text \<open>The invariant of the store.\<close>

definition store_inv :: "task_store \<Rightarrow> bool" where
  "store_inv st \<longleftrightarrow> distinct (map tr_id (st_tasks st)) \<and> (\<forall>r \<in> set (st_tasks st). row_ok r) \<and> events_ok st"

lemma store_inv_empty: "store_inv empty_store"
  by (simp add: store_inv_def empty_store_def events_ok_def event_times_def)

lemma moves_row_ok: "(task_move K)\<^sup>*\<^sup>* r r' \<Longrightarrow> row_ok r \<Longrightarrow> row_ok r'"
  by (induction rule: rtranclp_induct) (auto intro: move_row_ok)

lemma moves_identity:
  "(task_move K)\<^sup>*\<^sup>* r r' \<Longrightarrow> tr_id r' = tr_id r \<and> tr_kind r' = tr_kind r \<and> tr_payload r' = tr_payload r
     \<and> tr_created_at r' = tr_created_at r"
  by (induction rule: rtranclp_induct) (auto dest: move_identity)

lemma rows_move_ids: "rows_move K rs rs' \<Longrightarrow> map tr_id rs' = map tr_id rs"
  unfolding rows_move_def by (induction rule: list_all2_induct) (auto dest: moves_identity)

lemma rows_move_ok: "rows_move K rs rs' \<Longrightarrow> \<forall>r \<in> set rs. row_ok r \<Longrightarrow> \<forall>r \<in> set rs'. row_ok r"
  unfolding rows_move_def by (induction rule: list_all2_induct) (auto intro: moves_row_ok)

lemma evolves_inv: "evolves K st st' \<Longrightarrow> store_inv st \<Longrightarrow> store_inv st'"
  unfolding evolves_def store_inv_def using rows_move_ids rows_move_ok by metis

fun drawn_tokens :: "task_call \<Rightarrow> string set" where
  "drawn_tokens (Claim_Next stopped w now clock d k) = {k}"
| "drawn_tokens _ = {}"

text \<open>A new row, and the calls that only report or touch other tables.\<close>

lemma new_row_ok: "stored_json payload \<Longrightarrow> row_ok (new_task_row i kind payload now)"
  by (simp add: row_ok_def new_task_row_def active_task_def)

definition store_step :: "string set \<Rightarrow> task_store \<Rightarrow> task_store \<Rightarrow> bool" where
  "store_step K st st' \<longleftrightarrow> evolves K st st'
     \<or> (\<exists>r. row_ok r \<and> tr_id r \<notin> tr_id ` set (st_tasks st) \<and> active_task r \<and> \<not> tr_cancel_requested r
          \<and> tr_claim_token r = None \<and> st_tasks st' = st_tasks st @ [r] \<and> (events_ok st \<longrightarrow> events_ok st'))"

lemma enqueue_step:
  assumes "enqueue_in_transaction redact kind payload i now st = Inr (task, st')"
  shows "store_step K st st'"
proof -
  obtain j t where i: "find_task i st = None" and j: "stored_json j"
    and rep: "reports (st\<lparr>st_tasks := st_tasks st @ [new_task_row i kind j t]\<rparr>) st'"
    using assms by (auto simp: enqueue_in_transaction_def res_simps Let_def validated_uuid_def
        dest!: append_event_reports stored_json_redacted split: if_splits)
  have "tr_id (new_task_row i kind j t) \<notin> tr_id ` set (st_tasks st)"
    using i by (auto simp: find_task_def find_None_iff new_task_row_def)
  moreover have "events_ok st \<longrightarrow> events_ok st'"
    using rep by (auto simp: reports_def events_ok_def event_times_def)
  moreover have "st_tasks st' = st_tasks st @ [new_task_row i kind j t]" using reports_tables [OF rep] by simp
  ultimately show ?thesis unfolding store_step_def using new_row_ok [OF j, of i kind t]
    by (intro disjI2 exI [of _ "new_task_row i kind j t"]) (simp add: new_task_row_def active_task_def)
qed

lemma step_evolves:
  assumes inv: "store_inv st" and step: "task_step redact st c = Inr st'" and K: "drawn_tokens c \<subseteq> K"
  shows "store_step K st st'"
proof -
  have d: "distinct (map tr_id (st_tasks st))" using inv by (simp add: store_inv_def)
  have "evolves K st st'" if "\<forall>kind payload i t. c \<noteq> Create kind payload i t" "\<forall>kind payload i t. c \<noteq> Enqueue kind payload i t"
    using that step d K
    by (cases c)
      (auto simp: state_of_Inr request_desktop_checkpoint_def cancel_desktop_checkpoint_def
        pause_at_desktop_checkpoint_def append_backtest_progress_event_def record_worker_heartbeat_def res_simps Let_def
        dest: claim_evolves heartbeat_evolves guard_evolves complete_claim_evolves fail_claim_evolves
          set_progress_evolves complete_evolves fail_evolves request_cancel_evolves offline_evolves resume_evolves
          decline_evolves
        dest!: append_event_reports evolves_reports
        intro: evolves_same evolves_trans [OF _ evolves_same]
        split: if_splits option.splits sum.splits)
  moreover have "store_step K st st'" if "c = Create kind payload i t \<or> c = Enqueue kind payload i u" for kind payload i t u
    using that step by (auto simp: state_of_Inr create_task_def dest: enqueue_step)
  ultimately show ?thesis unfolding store_step_def by (cases c) (auto simp: store_step_def)
qed

lemma step_inv: "store_inv st \<Longrightarrow> task_step redact st c = Inr st' \<Longrightarrow> store_inv st'"
  using step_evolves [OF _ _ subset_refl] evolves_inv by (fastforce simp: store_step_def store_inv_def)

interpretation task_queue: fallible_machine "task_step redact" store_inv "\<lambda>_. True" for redact
  by unfold_locales (rule step_inv)

section \<open>Properties\<close>

lemma freeze_stored: "stored_json j \<Longrightarrow> freeze_json_object j = Inr (freeze_normalized_json j)"
  unfolding stored_json_def by (auto simp: freeze_json_object_def validated_freeze)

lemma freeze_stored_optional: "pred_option stored_json j \<Longrightarrow> freeze_optional j = Inr (map_option freeze_normalized_json j)"
  by (cases j) (simp_all add: freeze_optional_def freeze_stored)

lemma row_ok_json:
  "row_ok r \<Longrightarrow> stored_json (tr_payload r) \<and> pred_option stored_json (tr_result r) \<and> pred_option stored_json (tr_error r)"
  by (simp add: row_ok_def)

lemma snapshot_total: "row_ok r \<Longrightarrow> \<exists>s. snapshot r = Inr s"
  using row_ok_json [of r] row_ok_simps [of r]
  by (simp add: snapshot_def freeze_stored freeze_stored_optional)

lemma task_run_inv: "store_inv st \<Longrightarrow> store_inv (task_run redact st calls)"
  unfolding task_run_def by (rule task_queue.commits_inv) simp_all

text \<open>
  C20. After any sequence of calls, with any arguments and whichever of them raise, the ids of
  tasks are distinct, the event times of each task are strictly increasing and every task row is
  well formed: a claim token and a lease exactly while a leased task runs, a result exactly when
  it succeeded, an error exactly when it failed, a finish time exactly when it is over; and no
  stored row makes a snapshot raise.
\<close>

theorem task_store_invariant:
  "store_inv (task_run redact empty_store calls)
   \<and> (\<forall>r \<in> set (st_tasks (task_run redact empty_store calls)). \<exists>s. snapshot r = Inr s)"
proof -
  have "store_inv (task_run redact empty_store calls)" by (rule task_run_inv [OF store_inv_empty])
  then show ?thesis using snapshot_total by (auto simp: store_inv_def)
qed

theorem task_store_invariant_witness:
  "store_inv (task_run id empty_store [Request_Cancel ''x'' 0, Resume_Recovery 1])"
  using task_store_invariant [of id "[Request_Cancel ''x'' 0, Resume_Recovery 1]"] by blast

subsection \<open>The life of one task\<close>

definition drawn :: "task_call list \<Rightarrow> string set" where
  "drawn calls = \<Union> (drawn_tokens ` set calls)"

definition rows_kept :: "string set \<Rightarrow> task_store \<Rightarrow> task_store \<Rightarrow> bool" where
  "rows_kept K st st' \<longleftrightarrow> (\<forall>r \<in> set (st_tasks st). \<exists>r' \<in> set (st_tasks st'). (task_move K)\<^sup>*\<^sup>* r r')"

lemma rows_kept_trans: "rows_kept K a b \<Longrightarrow> rows_kept K b c \<Longrightarrow> rows_kept K a c"
  unfolding rows_kept_def by (meson rtranclp_trans)

lemma rows_move_kept:
  assumes "rows_move K rs rs'" and "r \<in> set rs"
  shows "\<exists>r' \<in> set rs'. (task_move K)\<^sup>*\<^sup>* r r'"
  using assms unfolding rows_move_def by (induction rule: list_all2_induct) auto

lemma store_step_kept:
  assumes "store_step K st st'"
  shows "rows_kept K st st'"
proof (cases "evolves K st st'")
  case True
  then show ?thesis unfolding rows_kept_def evolves_def using rows_move_kept by blast
next
  case False
  then obtain r where "st_tasks st' = st_tasks st @ [r]" using assms by (auto simp: store_step_def)
  then show ?thesis by (auto simp: rows_kept_def)
qed

interpretation task_feed: fallible_machine "task_step redact" store_inv "\<lambda>c. drawn_tokens c \<subseteq> K" for redact K
  by unfold_locales (rule step_inv)

lemma run_kept:
  assumes "store_inv st" and "drawn calls \<subseteq> K"
  shows "rows_kept K st (task_run redact st calls)"
  unfolding task_run_def
proof (rule task_feed.commits_rel [OF assms(1)])
  show "\<forall>c \<in> set calls. drawn_tokens c \<subseteq> K" using assms(2) by (auto simp: drawn_def)
  show "rows_kept K t t" for t by (auto simp: rows_kept_def)
  show "rows_kept K t v" if "rows_kept K t u" "rows_kept K u v" for t u v using that by (rule rows_kept_trans)
  show "rows_kept K t u" if "store_inv t" "drawn_tokens c \<subseteq> K" "task_step redact t c = Inr u" for t c u
    using that by (intro store_step_kept step_evolves)
qed

lemma moves_over: "(task_move K)\<^sup>*\<^sup>* r r' \<Longrightarrow> \<not> active_task r \<Longrightarrow> r' = r"
  by (induction rule: rtranclp_induct) (auto dest: move_active)

lemma move_counts: "task_move K r r' \<Longrightarrow> tr_attempt_count r \<le> tr_attempt_count r'"
  by (induction rule: task_move.induct) (simp_all add: row_updates)

lemma moves_grow:
  "(task_move K)\<^sup>*\<^sup>* r r' \<Longrightarrow> row_ok r \<Longrightarrow> tr_progress r \<le> tr_progress r' \<and> tr_attempt_count r \<le> tr_attempt_count r'"
proof (induction rule: rtranclp_induct)
  case (step y z)
  have "row_ok y" using step.hyps(1) step.prems by (rule moves_row_ok)
  then show ?case using step move_progress [of K y z] move_counts [of K y z] row_ok_simps(2) [of y] by force
qed simp

text \<open>
  C21. No sequence of calls loses a task or moves it illegally: every row of the store is still
  there after the calls, reached from its old state by legal moves; a task that is over is
  unchanged to the last field, a task keeps its kind, payload and creation time, and neither
  its progress nor its attempt count ever decreases.
\<close>

theorem task_life:
  assumes "store_inv st" and "r \<in> set (st_tasks st)"
  shows "\<exists>r' \<in> set (st_tasks (task_run redact st calls)). (task_move (drawn calls))\<^sup>*\<^sup>* r r'
    \<and> tr_id r' = tr_id r \<and> tr_kind r' = tr_kind r \<and> tr_payload r' = tr_payload r \<and> tr_created_at r' = tr_created_at r
    \<and> tr_progress r \<le> tr_progress r' \<and> tr_attempt_count r \<le> tr_attempt_count r'
    \<and> (\<not> active_task r \<longrightarrow> r' = r)"
proof -
  obtain r' where r': "r' \<in> set (st_tasks (task_run redact st calls))" "(task_move (drawn calls))\<^sup>*\<^sup>* r r'"
    using run_kept [OF assms(1) subset_refl, where redact = redact and calls = calls] assms(2)
    by (auto simp: rows_kept_def)
  have "row_ok r" using assms by (simp add: store_inv_def)
  with r' moves_grow [OF r'(2)] moves_identity [OF r'(2)] moves_over [OF r'(2)] show ?thesis by blast
qed

definition example_row :: task_row where
  "example_row = (new_task_row ''t'' backtest_task_kind (JObj []) 0)
     \<lparr>tr_status := Cancelled, tr_cancel_requested := True, tr_finished_at := Some 5\<rparr>"

lemma stored_empty: "stored_json (JObj [])"
  unfolding stored_json_def
  by (intro exI [of _ "[]"] exI [of _ "PyMap []"])
    (simp add: validated_json_object_def normalize_json_object_def normalize_value.simps max_json_depth_def)

lemma example_row_inv: "store_inv (empty_store\<lparr>st_tasks := [example_row]\<rparr>)"
  by (simp add: store_inv_def empty_store_def events_ok_def event_times_def example_row_def row_ok_def
      new_task_row_def active_task_def stored_empty)

theorem task_life_witness:
  "example_row \<in> set (st_tasks (task_run id (empty_store\<lparr>st_tasks := [example_row]\<rparr>) [Resume_Recovery 9, Cancel_Recovery 9]))"
proof -
  have "\<not> active_task example_row" by (simp add: example_row_def active_task_def)
  with task_life [OF example_row_inv, of example_row id "[Resume_Recovery 9, Cancel_Recovery 9]"] show ?thesis
    by auto
qed

subsection \<open>Fencing of stale claims\<close>

text \<open>A call by which a worker acts on a task with a claim token.\<close>

fun presents :: "string \<Rightarrow> string \<Rightarrow> task_call \<Rightarrow> bool" where
  "presents i k (Heartbeat i' k' now clock d) \<longleftrightarrow> i' = i \<and> k' = k"
| "presents i k (Guard_Claim i' k' p now) \<longleftrightarrow> i' = i \<and> k' = k"
| "presents i k (Complete_Claim i' k' v now) \<longleftrightarrow> i' = i \<and> k' = k"
| "presents i k (Fail_Claim i' k' v now) \<longleftrightarrow> i' = i \<and> k' = k"
| "presents i k (Set_Progress i' p d k' now clock) \<longleftrightarrow> i' = i \<and> k' = Some k"
| "presents i k (Complete i' v k' now clock) \<longleftrightarrow> i' = i \<and> k' = Some k"
| "presents i k (Fail i' v k' now clock) \<longleftrightarrow> i' = i \<and> k' = Some k"
| "presents i k _ \<longleftrightarrow> False"

definition unowned :: "string \<Rightarrow> string \<Rightarrow> task_store \<Rightarrow> bool" where
  "unowned i k st \<longleftrightarrow> (\<forall>r \<in> set (st_tasks st). tr_id r = i \<longrightarrow> tr_claim_token r \<noteq> Some k)"

lemma update_task_hit:
  "update_task i P f st = (Some row, st') \<Longrightarrow> \<exists>r \<in> set (st_tasks st). tr_id r = i \<and> P r \<and> row = f r"
  by (auto simp: update_task_def update_returning_def filter_eq_Cons_iff split: list.splits)

lemma unowned_update:
  assumes "unowned i k st" and "\<And>r. P r \<Longrightarrow> tr_claim_token r = Some k"
  shows "update_task i P f st \<noteq> (Some row, st')"
  using assms update_task_hit [of i P f st row st'] by (auto simp: unowned_def)

lemma ownership_token:
  "ownership_condition (Some k) t = Inr owns \<Longrightarrow> owns r \<Longrightarrow> tr_claim_token r = Some k"
  by (auto simp: ownership_condition_def validated_uuid_def res_simps split: if_splits)

lemma stale_claim_refused:
  assumes un: "unowned i k st" and c: "presents i k c" and step: "task_step redact st c = Inr st'"
  shows "st' = st"
proof -
  have own: False if "ownership_condition (Some k) t = Inr owns" "update_task i (\<lambda>r. Q r \<and> owns r) f st = (Some row, s)"
    for t owns Q f row s
    using unowned_update [OF un, of "\<lambda>r. Q r \<and> owns r"] ownership_token [OF that(1)] that(2) by blast
  have own': False if "ownership_condition (Some k) t = Inr owns" "update_task i (\<lambda>r. Q r \<and> R r \<and> owns r) f st = (Some row, s)"
    for t owns Q R f row s
    using own [OF that(1), of "\<lambda>r. Q r \<and> R r"] that(2) by simp
  have beat: False if "validated_uuid n k = Inr k'"
      "update_task i (\<lambda>r. leased r \<and> tr_status r = Running \<and> tr_claim_token r = Some k' \<and> lease_live t r) f st = (Some row, s)"
    for n k' t f row s
  proof -
    have "k' = k" using that(1) by (auto simp: validated_uuid_def split: if_splits)
    with unowned_update [OF un, of "\<lambda>r. leased r \<and> tr_status r = Running \<and> tr_claim_token r = Some k' \<and> lease_live t r"]
      that(2) show ?thesis by blast
  qed
  from c step show ?thesis
  proof (cases c)
    case (Heartbeat i' k' now clock d)
    with c step show ?thesis unfolding heartbeat_def
      by (auto simp: state_of_Inr heartbeat_def res_simps elim!: update_task_elim dest: beat)
  next
    case (Guard_Claim i' k' p now)
    with c step show ?thesis
      by (auto simp: state_of_Inr guard_claim_in_transaction_def res_simps elim!: update_task_elim dest: own')
  next
    case (Complete_Claim i' k' v now)
    with c step show ?thesis
      by (auto simp: state_of_Inr complete_claim_in_transaction_def res_simps elim!: update_task_elim dest: own)
  next
    case (Fail_Claim i' k' v now)
    with c step show ?thesis
      by (auto simp: state_of_Inr fail_claim_in_transaction_def res_simps elim!: update_task_elim dest: own)
  next
    case (Set_Progress i' p d k' now clock)
    with c step show ?thesis
      by (auto simp: state_of_Inr set_progress_def res_simps elim!: update_task_elim dest: own')
  next
    case (Complete i' v k' now clock)
    with c step show ?thesis
      by (auto simp: state_of_Inr complete_task_def res_simps elim!: update_task_elim dest: own split: if_splits)
  next
    case (Fail i' v k' now clock)
    with c step show ?thesis
      by (auto simp: state_of_Inr fail_task_def res_simps elim!: update_task_elim dest: own split: if_splits)
  qed simp_all
qed

lemma move_token: "task_move K r r' \<Longrightarrow> tr_claim_token r' = tr_claim_token r \<or> tr_claim_token r' \<in> insert None (Some ` K)"
  by (induction rule: task_move.induct) (auto simp: row_updates)

lemma moves_token:
  "(task_move K)\<^sup>*\<^sup>* r r' \<Longrightarrow> tr_claim_token r \<noteq> Some k \<Longrightarrow> k \<notin> K \<Longrightarrow> tr_claim_token r' \<noteq> Some k"
  by (induction rule: rtranclp_induct) (auto dest: move_token)

lemma unowned_later:
  assumes "store_inv st" and "r \<in> set (st_tasks st)" and "tr_claim_token r \<noteq> Some k" and "k \<notin> drawn calls"
  shows "unowned (tr_id r) k (task_run redact st calls)"
proof -
  let ?st = "task_run redact st calls"
  obtain r' where r': "r' \<in> set (st_tasks ?st)" "(task_move (drawn calls))\<^sup>*\<^sup>* r r'"
    using run_kept [OF assms(1) subset_refl, where redact = redact and calls = calls] assms(2)
    by (auto simp: rows_kept_def)
  have "distinct (map tr_id (st_tasks ?st))" using task_run_inv [OF assms(1)] by (simp add: store_inv_def)
  then have "q = r'" if "q \<in> set (st_tasks ?st)" "tr_id q = tr_id r" for q
    using that r' moves_identity [OF r'(2)] inj_onD [of tr_id "set (st_tasks ?st)" q r'] by (simp add: distinct_map)
  then show ?thesis using moves_token [OF r'(2) assms(3,4)] by (auto simp: unowned_def)
qed

text \<open>
  C22. Stale claims are fenced: once a task does not carry a claim token (the lease was taken
  over, released, or never granted), no heartbeat, checkpoint, progress, completion or failure
  that presents that token changes anything, now or after any sequence of calls, unless a
  later claim draws the same token again.
\<close>

theorem stale_claims_fenced:
  assumes "store_inv st" and "r \<in> set (st_tasks st)" and "tr_claim_token r \<noteq> Some k" and "k \<notin> drawn calls"
    and "presents (tr_id r) k c"
  shows "commit (task_step redact) (task_run redact st calls) c = task_run redact st calls"
proof -
  have "unowned (tr_id r) k (task_run redact st calls)" using assms(1-4) by (rule unowned_later)
  from stale_claim_refused [OF this assms(5)] show ?thesis by (simp add: commit_def split: sum.splits)
qed

theorem stale_claims_fenced_witness:
  "commit (task_step id) (task_run id (empty_store\<lparr>st_tasks := [example_row]\<rparr>) [Resume_Recovery 9])
     (Complete ''t'' (PyMap []) (Some ''k'') None 10)
   = task_run id (empty_store\<lparr>st_tasks := [example_row]\<rparr>) [Resume_Recovery 9]"
  by (rule stale_claims_fenced [OF example_row_inv, of example_row])
    (simp_all add: drawn_def example_row_def new_task_row_def)

subsection \<open>What a claim leaves alone\<close>

lemma update_returning_mem:
  "r \<in> set rows \<Longrightarrow> \<not> P r \<Longrightarrow> update_returning P f rows = (rs, rows') \<Longrightarrow> r \<in> set rows'"
  by (force simp: update_returning_def)

lemma update_returning_hit:
  "r \<in> set rows \<Longrightarrow> P r \<Longrightarrow> update_returning P f rows = (rs, rows') \<Longrightarrow> f r \<in> set rows'"
  by (force simp: update_returning_def)

definition terminal_rows :: "int \<Rightarrow> task_store \<Rightarrow> task_row list" where
  "terminal_rows t st = snd (update_returning (expired_cancellation t) (cancel_row t) (st_tasks st))"

lemma terminalize_tasks:
  assumes "terminalize_expired_cancellations redact t st = Inr (rows, st')"
  shows "st_tasks st' = terminal_rows t st"
proof -
  obtain tasks where u: "update_returning (expired_cancellation t) (cancel_row t) (st_tasks st) = (rows, tasks)"
    and r: "reports (if rows = [] then st\<lparr>st_tasks := tasks\<rparr>
        else cancel_analyses (map tr_id rows) t (cancel_backtests (map tr_id rows) t (st\<lparr>st_tasks := tasks\<rparr>))) st'"
    using assms report_rows_reports unfolding terminalize_expired_cancellations_def
    by (auto simp: res_simps Let_def elim!: update_returning_elim)
  show ?thesis using reports_tables [OF r] u by (simp add: terminal_rows_def split: if_splits)
qed

text \<open>A claim or an offline requeue at time \<open>t\<close>.\<close>

fun takes_over_at :: "int \<Rightarrow> task_call \<Rightarrow> bool" where
  "takes_over_at t (Claim_Next stopped w now clock d k) \<longleftrightarrow> sample_time ''claim time'' now clock = Inr t"
| "takes_over_at t (Requeue_Expired now clock) \<longleftrightarrow> sample_time ''offline snapshot time'' now clock = Inr t"
| "takes_over_at t _ \<longleftrightarrow> False"

lemma claim_next_tasks:
  assumes "claim_next redact stopped w now clock d k st = Inr (c, st')" and "sample_time ''claim time'' now clock = Inr t"
  shows "stopped \<and> st_tasks st' = st_tasks st \<or> st_tasks st' = terminal_rows t st
    \<or> (\<exists>q. st_tasks st' = snd (update_returning (\<lambda>r. tr_id r = q \<and> claimable t r) (claim_row w t d k) (terminal_rows t st)))"
proof (cases stopped)
  case True
  then show ?thesis using assms by (simp add: claim_stopped)
next
  case False
  then have "claim_next redact False w now clock d k st = Inr (c, st')" using assms(1) by simp
  then show ?thesis
  proof (cases rule: claim_next_elim)
    case (1 u rows s tasks)
    then have "u = t" using assms(2) by simp
    with 1 terminalize_tasks [OF 1(2)] reports_tables [OF 1(4)] show ?thesis by auto
  qed
qed

lemma offline_tasks:
  assumes "requeue_expired_leases_for_offline_snapshot redact now clock st = Inr (n, st')"
    and "sample_time ''offline snapshot time'' now clock = Inr t"
  shows "st_tasks st' = snd (update_returning (abandoned t) (requeue_row t) (terminal_rows t st))"
proof -
  obtain rows s rs tasks where te: "terminalize_expired_cancellations redact t st = Inr (rows, s)"
    and u: "update_returning (abandoned t) (requeue_row t) (st_tasks s) = (rs, tasks)"
    and r: "report_rows redact ''task.lease_requeued'' Warning (code_detail ''offline_restore_expired_lease'')
      sn_updated_at rs (s\<lparr>st_tasks := tasks\<rparr>) = Inr st'"
    using assms unfolding requeue_expired_leases_for_offline_snapshot_def bind_res_Inr_iff
    by (auto simp: res_simps elim!: update_returning_elim)
  show ?thesis using reports_tables [OF report_rows_reports [OF r]] u terminalize_tasks [OF te] by simp
qed

lemma take_over_keeps:
  assumes "takes_over_at t c" and "r \<in> set (st_tasks st)" and "\<not> claimable t r" and "\<not> expired_cancellation t r"
    and "\<not> abandoned t r"
  shows "r \<in> set (st_tasks (commit (task_step redact) st c))"
proof (cases "task_step redact st c")
  case (Inl e)
  then show ?thesis using assms by (simp add: commit_def)
next
  case (Inr st')
  have tr: "r \<in> set (terminal_rows t st)"
    using assms(2,4) unfolding terminal_rows_def by (force simp: update_returning_def)
  have "r \<in> set (st_tasks st')"
  proof (cases c)
    case (Claim_Next stopped w now clock d k)
    with assms(1) Inr obtain x where "claim_next redact stopped w now clock d k st = Inr (x, st')"
        "sample_time ''claim time'' now clock = Inr t"
      by (auto simp: state_of_Inr)
    from claim_next_tasks [OF this] show ?thesis
      using assms(2,3) tr by (auto simp: update_returning_def)
  next
    case (Requeue_Expired now clock)
    with assms(1) Inr obtain n where "requeue_expired_leases_for_offline_snapshot redact now clock st = Inr (n, st')"
        "sample_time ''offline snapshot time'' now clock = Inr t"
      by (auto simp: state_of_Inr)
    from offline_tasks [OF this] show ?thesis using assms(5) tr by (auto simp: update_returning_def)
  qed (use assms(1) in simp_all)
  with Inr show ?thesis by (simp add: commit_def)
qed

text \<open>
  C23. A live lease is exclusive: while the lease of a running task has not expired at time \<open>t\<close>, no
  claim and no offline requeue at \<open>t\<close> changes its row in any field.
\<close>

theorem live_lease_kept:
  assumes "r \<in> set (st_tasks st)" and "tr_status r = Running" and "lease_live t r" and "takes_over_at t c"
  shows "r \<in> set (st_tasks (commit (task_step redact) st c))"
  by (rule take_over_keeps [OF assms(4,1)])
    (use assms(2,3) in \<open>auto simp: claimable_def expired_cancellation_def abandoned_def lease_live_def lease_expired_def
       split: option.splits\<close>)

definition running_row :: task_row where
  "running_row = claim_row ''w'' 0 60 ''k'' (new_task_row ''t'' backtest_task_kind (JObj []) 0)"

theorem live_lease_kept_witness:
  "running_row \<in> set (st_tasks (commit (task_step id) (empty_store\<lparr>st_tasks := [running_row]\<rparr>)
     (Claim_Next False ''v'' None 59 60 ''l'')))"
  by (rule live_lease_kept [of _ _ 59])
    (simp_all add: running_row_def claim_row_def new_task_row_def lease_live_def sample_time_def
      leased_def leased_task_kinds_def)

subsection \<open>What a claim takes\<close>

text \<open>Redaction that leaves the details of the queue's own events JSON objects.\<close>

definition harmless :: "(pyval \<Rightarrow> pyval) \<Rightarrow> bool" where
  "harmless redact \<longleftrightarrow> (\<forall>f fs. list_all (\<lambda>(k, v). is_py_str k \<and> is_py_str v) fs
     \<longrightarrow> (\<exists>j. redacted_json_object redact f (PyMap fs) = Inr j))"

lemma string_fields:
  "list_all (\<lambda>(k, v). is_py_str k \<and> is_py_str v) fs \<Longrightarrow>
     \<exists>js. normalize_fields f (Suc 0) fs = Inr js \<and> list_all (\<lambda>(k, j). json_encodes j) js"
proof (induction fs)
  case (Cons p fs)
  obtain k s where p: "p = (k, PyStr s)" using Cons.prems by (cases p; cases "snd p") auto
  have "normalize_value f (Suc 0) (PyStr s) = Inr (JStr s)" by (simp add: normalize_value.simps max_json_depth_def)
  with Cons p show ?case by auto
qed simp

lemma harmless_id: "harmless id"
  unfolding harmless_def
proof (intro allI impI)
  fix f fs assume fs: "list_all (\<lambda>(k, v). is_py_str k \<and> is_py_str v) fs"
  obtain js where js: "normalize_fields f (Suc 0) fs = Inr js" "list_all (\<lambda>(k, j). json_encodes j) js"
    using string_fields [OF fs] by blast
  have "list_all (is_py_str \<circ> fst) fs" using fs by (auto simp: list_all_iff)
  with js show "\<exists>j. redacted_json_object id f (PyMap fs) = Inr j"
    by (simp add: redacted_json_object_def validated_json_object_def normalize_json_object_def
        normalize_value.simps max_json_depth_def)
qed

lemma append_event_total:
  assumes "harmless redact" and "list_all (\<lambda>(k, v). is_py_str k \<and> is_py_str v) fs"
  shows "\<exists>st'. append_event redact i name level p (PyMap fs) t st = Inr st'"
proof -
  obtain j where "redacted_json_object redact ''event detail'' (PyMap fs) = Inr j"
    using assms unfolding harmless_def by blast
  then show ?thesis by (simp add: append_event_def)
qed

lemma report_rows_total:
  assumes "harmless redact" and "\<forall>r \<in> set rows. row_ok r" and "list_all (\<lambda>(k, v). is_py_str k \<and> is_py_str v) fs"
  shows "\<exists>st'. report_rows redact name level (PyMap fs) t rows st = Inr st'"
  using assms(2)
proof (induction rows arbitrary: st)
  case (Cons r rows)
  obtain s where s: "snapshot r = Inr s" using snapshot_total Cons.prems by force
  obtain u where "append_event redact (sn_id s) name level (sn_progress s) (PyMap fs) (t s) st = Inr u"
    using append_event_total [OF assms(1,3)] by blast
  with s Cons show ?case by (auto simp: report_rows_def)
qed (simp add: report_rows_def)

lemma terminalize_total:
  assumes "harmless redact" and "store_inv st"
  shows "\<exists>rows st'. terminalize_expired_cancellations redact t st = Inr (rows, st')"
proof -
  obtain rows tasks where u: "update_returning (expired_cancellation t) (cancel_row t) (st_tasks st) = (rows, tasks)"
    by fastforce
  have "\<forall>r \<in> set rows. row_ok r"
    using u assms(2) move_row_ok [OF task_move.expire] by (auto simp: update_returning_def store_inv_def)
  then have "\<exists>st'. report_rows redact ''task.cancelled'' Info (PyMap []) sn_updated_at rows s = Inr st'" for s
    using report_rows_total [OF assms(1), of rows "[]"] by simp
  then obtain st' where "report_rows redact ''task.cancelled'' Info (PyMap []) sn_updated_at rows
      (if rows = [] then st\<lparr>st_tasks := tasks\<rparr>
       else cancel_analyses (map tr_id rows) t (cancel_backtests (map tr_id rows) t (st\<lparr>st_tasks := tasks\<rparr>))) = Inr st'"
    by blast
  with u show ?thesis by (simp add: terminalize_expired_cancellations_def Let_def)
qed

definition no_later :: "task_row \<Rightarrow> task_row \<Rightarrow> bool" where
  "no_later a b \<longleftrightarrow> tr_created_at a < tr_created_at b \<or> tr_created_at a = tr_created_at b \<and> tr_id a \<le> tr_id b"

lemma oldest:
  "foldl older r rs \<in> set (r # rs) \<and> (\<forall>q \<in> set (r # rs). no_later (foldl older r rs) q)"
proof (induction rs arbitrary: r)
  case Nil
  then show ?case by (simp add: no_later_def)
next
  case (Cons q rs)
  have o: "older r q \<in> {r, q}" "no_later (older r q) r" "no_later (older r q) q"
    by (auto simp: older_def no_later_def)
  have tr: "no_later a b \<Longrightarrow> no_later b c \<Longrightarrow> no_later a c" for a b c
    by (auto simp: no_later_def)
  let ?m = "foldl older (older r q) rs"
  have m: "?m \<in> set (older r q # rs)" "no_later ?m (older r q)" "\<forall>x \<in> set rs. no_later ?m x"
    using Cons.IH [of "older r q"] by simp_all
  have "?m \<in> set (r # q # rs)" using m(1) o(1) by (metis empty_iff insert_iff list.set(2))
  moreover have "no_later ?m r" "no_later ?m q" using tr [OF m(2)] o(2,3) by blast+
  ultimately show ?case using m(3) by simp
qed

lemma claim_candidate_Some:
  "claim_candidate t st = Some r \<Longrightarrow>
     r \<in> set (st_tasks st) \<and> claimable t r \<and> (\<forall>q \<in> set (st_tasks st). claimable t q \<longrightarrow> no_later r q)"
proof -
  assume "claim_candidate t st = Some r"
  then obtain q qs where f: "filter (claimable t) (st_tasks st) = q # qs" and r: "r = foldl older q qs"
    by (auto simp: claim_candidate_def split: list.splits)
  have "r \<in> set (filter (claimable t) (st_tasks st))"
      "\<forall>x \<in> set (filter (claimable t) (st_tasks st)). no_later r x"
    using oldest [of q qs] unfolding f r by blast+
  then show ?thesis by simp
qed

lemma claim_candidate_None: "claim_candidate t st = None \<longleftrightarrow> (\<forall>r \<in> set (st_tasks st). \<not> claimable t r)"
  using filter_empty_conv [of "claimable t" "st_tasks st"] by (simp add: claim_candidate_def split: list.splits) force

lemma claimable_terminal:
  "r \<in> set (terminal_rows t st) \<and> claimable t r \<longleftrightarrow> r \<in> set (st_tasks st) \<and> claimable t r"
  by (auto simp: terminal_rows_def update_returning_def claimable_def expired_cancellation_def cancel_row_def
      release_def split: if_splits)

text \<open>The unique row of an id.\<close>

lemma update_returning_one:
  assumes "distinct (map tr_id rows)" and "r \<in> set rows" and "P r"
  shows "update_returning (\<lambda>q. tr_id q = tr_id r \<and> P q) f rows
    = ([f r], map (\<lambda>q. if tr_id q = tr_id r \<and> P q then f q else q) rows)"
proof -
  have "filter (\<lambda>q. tr_id q = tr_id r \<and> P q) rows = [r]"
    using assms
  proof (induction rows)
    case (Cons q rows)
    then show ?case
      by (cases "q = r") (auto simp: filter_empty_conv image_iff)
  qed simp
  then show ?thesis by (simp add: update_returning_def)
qed

definition claimed :: "claim_result \<Rightarrow> (string \<times> (string \<times> int) option) option" where
  "claimed c = (case c of
     NoTask \<Rightarrow> None
   | Unleased s \<Rightarrow> Some (sn_id s, None)
   | Claimed cl \<Rightarrow> Some (sn_id (tc_snapshot cl), Some (tc_claim_token cl, tc_lease_expires_at cl)))"

lemma snapshot_fields: "snapshot r = Inr s \<Longrightarrow> sn_id s = tr_id r \<and> sn_kind s = tr_kind r \<and> sn_status s = tr_status r"
  by (auto simp: snapshot_def res_simps)

lemma claim_exact:
  assumes inv: "store_inv st" and h: "harmless redact" and w: "validated_worker_id w = Inr ()"
    and t: "sample_time ''claim time'' now clock = Inr t" and d: "0 < d" "d \<le> max_lease_duration"
  shows "\<exists>c st'. claim_next redact False w now clock d k st = Inr (c, st')
    \<and> (case claimed c of
         None \<Rightarrow> \<forall>r \<in> set (st_tasks st). \<not> claimable t r
       | Some (i, lease) \<Rightarrow> \<exists>r \<in> set (st_tasks st). tr_id r = i \<and> claimable t r
           \<and> (\<forall>q \<in> set (st_tasks st). claimable t q \<longrightarrow> no_later r q)
           \<and> claim_row w t d k r \<in> set (st_tasks st') \<and> lease = (if leased r then Some (k, t + d) else None))"
proof -
  obtain rows s where te: "terminalize_expired_cancellations redact t st = Inr (rows, s)"
    using terminalize_total [OF h inv] by blast
  have sinv: "store_inv s" by (rule evolves_inv [OF terminalize_evolves [OF te] inv])
  have cl: "r \<in> set (st_tasks s) \<and> claimable t r \<longleftrightarrow> r \<in> set (st_tasks st) \<and> claimable t r" for r
    unfolding terminalize_tasks [OF te] by (rule claimable_terminal)
  have start: "claim_next redact False w now clock d k st = (case claim_candidate t s of
       None \<Rightarrow> Inr (NoTask, s)
     | Some candidate \<Rightarrow>
         (case update_returning (\<lambda>r. tr_id r = tr_id candidate \<and> claimable t r) (claim_row w t d k) (st_tasks s) of
            ([row], tasks) \<Rightarrow>
              bind_res (snapshot row) (\<lambda>task.
              bind_res (append_event redact (sn_id task) ''task.claimed'' Info (sn_progress task)
                          (PyMap [(PyStr ''worker_id'', PyStr w)]) (sn_updated_at task)
                          (s\<lparr>st_tasks := tasks\<rparr>)) (\<lambda>st'.
              if sn_kind task \<notin> set leased_task_kinds then Inr (Unleased task, st')
              else bind_res (leased_claim row task k) (\<lambda>c. Inr (c, st'))))
          | ([], tasks) \<Rightarrow> Inr (NoTask, s)
          | _ \<Rightarrow> Inl (TaskRuntimeError ''Multiple rows were found'')))"
    using w t d te by (simp add: claim_next_def claim_next_without_gate_def validate_lease_duration_def)
  show ?thesis
  proof (cases "claim_candidate t s")
    case None
    then show ?thesis using cl claim_candidate_None [of t s] start by (auto simp: claimed_def)
  next
    case (Some r)
    note c = claim_candidate_Some [OF Some]
    let ?r = "claim_row w t d k r"
    let ?tasks = "map (\<lambda>q. if tr_id q = tr_id r \<and> claimable t q then claim_row w t d k q else q) (st_tasks s)"
    have rin: "r \<in> set (st_tasks s)" "claimable t r" using c by blast+
    have u: "update_returning (\<lambda>q. tr_id q = tr_id r \<and> claimable t q) (claim_row w t d k) (st_tasks s) = ([?r], ?tasks)"
      by (rule update_returning_one) (use sinv rin in \<open>simp_all add: store_inv_def\<close>)
    have ok: "row_ok ?r" using sinv rin claim_ok by (simp add: store_inv_def)
    obtain task where task: "snapshot ?r = Inr task" using snapshot_total [OF ok] by blast
    obtain st' where ev: "append_event redact (sn_id task) ''task.claimed'' Info (sn_progress task)
        (PyMap [(PyStr ''worker_id'', PyStr w)]) (sn_updated_at task) (s\<lparr>st_tasks := ?tasks\<rparr>) = Inr st'"
    proof -
      have "list_all (\<lambda>(k, v). is_py_str k \<and> is_py_str v) [(PyStr ''worker_id'', PyStr w)]" by simp
      from append_event_total [OF h this] that show thesis by blast
    qed
    have mem: "?r \<in> set (st_tasks st')" using reports_tables [OF append_event_reports [OF ev]] rin by auto
    have att: "leased r \<Longrightarrow> 1 \<le> tr_attempt_count ?r" using ok by (simp add: row_ok_def claim_row_def)
    have fields: "sn_id task = tr_id r" "sn_kind task \<in> set leased_task_kinds \<longleftrightarrow> leased r"
      using snapshot_fields [OF task] by (simp_all add: claim_row_def leased_def)
    have "\<exists>c. claim_next redact False w now clock d k st = Inr (c, st')
        \<and> claimed c = Some (tr_id r, if leased r then Some (k, t + d) else None)"
    proof (cases "leased r")
      case True
      then have "tr_claim_token ?r = Some k" "tr_lease_expires_at ?r = Some (t + d)" "1 \<le> tr_attempt_count ?r"
        using att by (simp_all add: claim_row_def)
      then have "leased_claim ?r task k = Inr (Claimed \<lparr>tc_snapshot = task, tc_claim_token = k,
          tc_lease_expires_at = t + d, tc_attempt_count = tr_attempt_count ?r\<rparr>)"
        by (simp add: leased_claim_def)
      then show ?thesis using start Some u task ev fields True by (simp add: claimed_def)
    next
      case False
      then show ?thesis using start Some u task ev fields by (simp add: claimed_def)
    qed
    then obtain c where c': "claim_next redact False w now clock d k st = Inr (c, st')"
      "claimed c = Some (tr_id r, if leased r then Some (k, t + d) else None)" by blast
    have "r \<in> set (st_tasks st)" "\<forall>q \<in> set (st_tasks st). claimable t q \<longrightarrow> no_later r q" using cl c by blast+
    with c' rin mem show ?thesis
      by (intro exI [of _ c] exI [of _ st'] conjI) (simp_all, blast)
  qed
qed

text \<open>
  C24. A claim with valid arguments never raises and takes the right task: it returns no task
  exactly when none is claimable, and otherwise the oldest claimable one by creation time and id,
  which is left running for the worker, with the drawn token and a lease from the sampled time when
  its kind is leased.
\<close>

theorem claim_takes_oldest:
  assumes "store_inv st" and "harmless redact" and "validated_worker_id w = Inr ()"
    and "sample_time ''claim time'' now clock = Inr t" and "0 < d" and "d \<le> max_lease_duration"
  shows "\<exists>c st'. claim_next redact False w now clock d k st = Inr (c, st')
    \<and> (case claimed c of
         None \<Rightarrow> \<forall>r \<in> set (st_tasks st). \<not> claimable t r
       | Some (i, lease) \<Rightarrow> \<exists>r \<in> set (st_tasks st). tr_id r = i \<and> claimable t r
           \<and> (\<forall>q \<in> set (st_tasks st). claimable t q \<longrightarrow> no_later r q)
           \<and> claim_row w t d k r \<in> set (st_tasks st') \<and> lease = (if leased r then Some (k, t + d) else None))"
  using assms by (rule claim_exact)

lemma queued_row_inv: "store_inv (empty_store\<lparr>st_tasks := [new_task_row ''t'' backtest_task_kind (JObj []) 0]\<rparr>)"
  by (simp add: store_inv_def empty_store_def events_ok_def event_times_def new_row_ok stored_empty)

theorem claim_takes_oldest_witness:
  "\<exists>c st'. claim_next id False ''w'' None 7 60 ''k''
      (empty_store\<lparr>st_tasks := [new_task_row ''t'' backtest_task_kind (JObj []) 0]\<rparr>) = Inr (c, st')
    \<and> claimed c = Some (''t'', Some (''k'', 67))"
proof -
  have w: "validated_worker_id ''w'' = Inr ()"
    by (simp add: validated_worker_id_def stripped_def py_space_def)
  have t: "sample_time ''claim time'' None 7 = Inr 7" by (simp add: sample_time_def)
  obtain c st' where c: "claim_next id False ''w'' None 7 60 ''k''
      (empty_store\<lparr>st_tasks := [new_task_row ''t'' backtest_task_kind (JObj []) 0]\<rparr>) = Inr (c, st')"
    "case claimed c of
         None \<Rightarrow> \<forall>r \<in> set (st_tasks (empty_store\<lparr>st_tasks := [new_task_row ''t'' backtest_task_kind (JObj []) 0]\<rparr>)).
           \<not> claimable 7 r
       | Some (i, lease) \<Rightarrow>
           \<exists>r \<in> set (st_tasks (empty_store\<lparr>st_tasks := [new_task_row ''t'' backtest_task_kind (JObj []) 0]\<rparr>)).
             tr_id r = i \<and> claimable 7 r
           \<and> (\<forall>q \<in> set (st_tasks (empty_store\<lparr>st_tasks := [new_task_row ''t'' backtest_task_kind (JObj []) 0]\<rparr>)).
                claimable 7 q \<longrightarrow> no_later r q)
           \<and> claim_row ''w'' 7 60 ''k'' r \<in> set (st_tasks st') \<and> lease = (if leased r then Some (''k'', 7 + 60) else None)"
    using claim_takes_oldest [OF queued_row_inv harmless_id w t, of 60 "''k''"] by (auto simp: max_lease_duration_def)
  then have "claimed c = Some (''t'', Some (''k'', 67))"
    by (auto simp: claimable_def new_task_row_def leased_def leased_task_kinds_def split: option.splits prod.splits)
  with c(1) show ?thesis by blast
qed

subsection \<open>Cancellation of abandoned work\<close>

definition settled :: "string \<Rightarrow> task_store \<Rightarrow> bool" where
  "settled i st \<longleftrightarrow> (\<forall>b \<in> set (st_backtests st). br_task_id b = i \<longrightarrow> \<not> active_status (br_status b))
     \<and> (\<forall>a \<in> set (st_analyses st). ar_task_id a = i \<longrightarrow> \<not> active_status (ar_status a))"

lemma settled_cancel: "i \<in> set ids \<Longrightarrow> settled i (cancel_analyses ids t (cancel_backtests ids t st))"
  by (auto simp: settled_def cancel_analyses_def cancel_backtests_def update_where_def update_returning_def
      active_status_def Let_def split: if_splits)

lemma terminalize_settles:
  assumes "terminalize_expired_cancellations redact t st = Inr (rows, st')"
    and "r \<in> set (st_tasks st)" and "expired_cancellation t r"
  shows "settled (tr_id r) st'"
proof -
  obtain tasks where u: "update_returning (expired_cancellation t) (cancel_row t) (st_tasks st) = (rows, tasks)"
    and rep: "reports (if rows = [] then st\<lparr>st_tasks := tasks\<rparr>
        else cancel_analyses (map tr_id rows) t (cancel_backtests (map tr_id rows) t (st\<lparr>st_tasks := tasks\<rparr>))) st'"
    using assms(1) report_rows_reports unfolding terminalize_expired_cancellations_def
    by (auto simp: res_simps Let_def elim!: update_returning_elim)
  have "cancel_row t r \<in> set rows" using u assms(2,3) by (force simp: update_returning_def)
  then have "rows \<noteq> []" and i: "tr_id r \<in> set (map tr_id rows)" by (auto simp: cancel_row_def release_def image_iff intro!: bexI [of _ "cancel_row t r"])
  with rep have "reports (cancel_analyses (map tr_id rows) t (cancel_backtests (map tr_id rows) t (st\<lparr>st_tasks := tasks\<rparr>))) st'"
    by simp
  from reports_tables [OF this] settled_cancel [OF i] show ?thesis by (simp add: settled_def)
qed

lemma claim_next_domain:
  assumes "claim_next redact False w now clock d k st = Inr (c, st')" and "sample_time ''claim time'' now clock = Inr t"
  shows "\<exists>rows s. terminalize_expired_cancellations redact t st = Inr (rows, s)
    \<and> st_backtests st' = st_backtests s \<and> st_analyses st' = st_analyses s"
  using assms(1)
proof (cases rule: claim_next_elim)
  case (1 u rows s tasks)
  then have "u = t" using assms(2) by simp
  with 1 reports_tables [OF 1(4)] show ?thesis by auto
qed

lemma claim_settles:
  assumes "store_inv st" and "harmless redact" and "validated_worker_id w = Inr ()"
    and "sample_time ''claim time'' now clock = Inr t" and "0 < d" and "d \<le> max_lease_duration"
    and "r \<in> set (st_tasks st)" and "expired_cancellation t r"
  shows "\<exists>c st'. claim_next redact False w now clock d k st = Inr (c, st') \<and> cancel_row t r \<in> set (st_tasks st')
    \<and> settled (tr_id r) st'"
proof -
  obtain c st' where c: "claim_next redact False w now clock d k st = Inr (c, st')"
    using claim_exact [OF assms(1-6)] by blast
  obtain rows s where te: "terminalize_expired_cancellations redact t st = Inr (rows, s)"
      "st_backtests st' = st_backtests s" "st_analyses st' = st_analyses s"
    using claim_next_domain [OF c assms(4)] by blast
  have set: "settled (tr_id r) st'"
    using terminalize_settles [OF te(1) assms(7,8)] te(2,3) by (simp add: settled_def)
  have tr: "cancel_row t r \<in> set (terminal_rows t st)"
    using assms(7,8) unfolding terminal_rows_def by (force simp: update_returning_def)
  have nc: "\<not> claimable t (cancel_row t r)" by (simp add: claimable_def cancel_row_def release_def)
  have "cancel_row t r \<in> set (st_tasks st')"
    using claim_next_tasks [OF c assms(4)] tr nc by (auto simp: update_returning_def)
  with c set show ?thesis by blast
qed

text \<open>
  C25. A requested cancellation is not lost when its worker dies: once the lease has expired, the next
  claim by any worker with valid arguments, whatever it returns, finishes the task as cancelled and
  leaves no backtest or analysis run of that task queued or running.
\<close>

theorem abandoned_cancellation_settled:
  assumes "store_inv st" and "harmless redact" and "validated_worker_id w = Inr ()"
    and "sample_time ''claim time'' now clock = Inr t" and "0 < d" and "d \<le> max_lease_duration"
    and "r \<in> set (st_tasks st)" and "expired_cancellation t r"
  shows "\<exists>c st'. claim_next redact False w now clock d k st = Inr (c, st')
    \<and> (\<exists>r' \<in> set (st_tasks st'). tr_id r' = tr_id r \<and> tr_status r' = Cancelled) \<and> settled (tr_id r) st'"
proof -
  obtain c st' where "claim_next redact False w now clock d k st = Inr (c, st')" "cancel_row t r \<in> set (st_tasks st')"
      "settled (tr_id r) st'"
    using claim_settles [OF assms] by blast
  moreover have "tr_id (cancel_row t r) = tr_id r" "tr_status (cancel_row t r) = Cancelled"
    by (simp_all add: cancel_row_def release_def)
  ultimately show ?thesis by blast
qed

definition cancelling_row :: task_row where
  "cancelling_row = running_row\<lparr>tr_cancel_requested := True\<rparr>"

lemma running_row_ok: "row_ok running_row"
  unfolding running_row_def
  by (rule claim_ok [OF new_row_ok [OF stored_empty]]) (simp add: claimable_def new_task_row_def)

lemma cancelling_row_ok: "row_ok cancelling_row"
  using running_row_ok by (simp add: cancelling_row_def row_ok_def active_task_def leased_def)

lemma one_row_inv: "row_ok r \<Longrightarrow> store_inv (empty_store\<lparr>st_tasks := [r], st_backtests := bs\<rparr>)"
  by (simp add: store_inv_def empty_store_def events_ok_def event_times_def)

lemma running_row_fields:
  "tr_status running_row = Running" "tr_id running_row = ''t''" "tr_lease_expires_at running_row = Some 60"
  "leased running_row" "tr_kind running_row = backtest_task_kind" "tr_cancel_requested running_row = False"
  "tr_updated_at running_row = 0"
  by (simp_all add: running_row_def claim_row_def new_task_row_def leased_def leased_task_kinds_def transition_time_def)

definition running_backtest :: backtest_row where
  "running_backtest = \<lparr>br_id = ''b'', br_task_id = ''t'', br_status = ''running'', br_stage = ''executing'',
     br_processed = 1, br_total = 2, br_failed_count = 0, br_updated_at = 0, br_finished_at = None\<rparr>"

definition example_store :: "task_row \<Rightarrow> task_store" where
  "example_store r = empty_store\<lparr>st_tasks := [r], st_backtests := [running_backtest]\<rparr>"

lemma example_store_inv: "row_ok r \<Longrightarrow> store_inv (example_store r)"
  unfolding example_store_def by (rule one_row_inv)

lemma worker_ok: "validated_worker_id ''w'' = Inr ()"
  by (simp add: validated_worker_id_def stripped_def py_space_def)

theorem abandoned_cancellation_settled_witness:
  "\<exists>c st'. claim_next id False ''w'' None 60 60 ''l'' (example_store cancelling_row) = Inr (c, st') \<and> settled ''t'' st'"
proof -
  have e: "expired_cancellation 60 cancelling_row"
    using running_row_fields by (simp add: expired_cancellation_def cancelling_row_def lease_expired_def leased_def)
  have t: "sample_time ''claim time'' None 60 = Inr 60" by (simp add: sample_time_def)
  have m: "cancelling_row \<in> set (st_tasks (example_store cancelling_row))" by (simp add: example_store_def)
  have i: "tr_id cancelling_row = ''t''" using running_row_fields by (simp add: cancelling_row_def)
  show ?thesis
    using abandoned_cancellation_settled [OF example_store_inv [OF cancelling_row_ok] harmless_id worker_ok t _ _ m e,
        of 60 "''l''"] by (auto simp: max_lease_duration_def i)
qed

subsection \<open>Where recovery loses a cancellation\<close>

lemma resume_tasks:
  assumes "harmless redact" and "store_inv st"
  shows "\<exists>n st'. resume_desktop_recovery redact t st = Inr (n, st')
    \<and> st_tasks st' = snd (update_returning (\<lambda>r. tr_status r = Running) (requeue_row t) (st_tasks st))
    \<and> st_backtests st' = st_backtests st"
proof -
  obtain rows tasks where u: "update_returning (\<lambda>r. tr_status r = Running) (requeue_row t) (st_tasks st) = (rows, tasks)"
    by fastforce
  have "\<forall>r \<in> set rows. row_ok r"
    using u assms(2) move_row_ok [OF task_move.requeue] by (auto simp: update_returning_def store_inv_def)
  from report_rows_total [OF assms(1) this, of "[(PyStr ''code'', PyStr ''desktop_recovery_resumed'')]"]
  obtain st' where r: "report_rows redact ''task.lease_requeued'' Warning (code_detail ''desktop_recovery_resumed'')
      sn_updated_at rows (st\<lparr>st_tasks := tasks\<rparr>) = Inr st'"
    by (auto simp: code_detail_def) blast
  then show ?thesis using u reports_tables [OF report_rows_reports [OF r]]
    by (simp add: resume_desktop_recovery_def)
qed

definition take_overs :: "task_call list \<Rightarrow> bool" where
  "take_overs calls \<longleftrightarrow> list_all (\<lambda>c. \<exists>t. takes_over_at t c) calls"

lemma stranded_stays:
  assumes "r \<in> set (st_tasks st)" and "tr_status r = Queued" and "tr_cancel_requested r" and "take_overs calls"
  shows "r \<in> set (st_tasks (task_run redact st calls))"
  using assms(1,4)
proof (induction calls arbitrary: st)
  case (Cons c calls)
  then obtain t where "takes_over_at t c" by (auto simp: take_overs_def)
  then have "r \<in> set (st_tasks (commit (task_step redact) st c))"
    by (rule take_over_keeps [OF _ Cons.prems(1)])
      (use assms(2,3) in \<open>auto simp: claimable_def expired_cancellation_def abandoned_def\<close>)
  with Cons show ?case by (simp add: task_run_def take_overs_def)
qed (simp add: task_run_def)

text \<open>The row as a resumed recovery leaves it: queued, without worker and lease, all else kept.\<close>

definition stranded :: "int \<Rightarrow> task_row \<Rightarrow> task_row" where
  "stranded t r = r\<lparr>tr_status := Queued, tr_worker_id := None, tr_claim_token := None,
     tr_lease_expires_at := None, tr_heartbeat_at := None, tr_updated_at := transition_time t r\<rparr>"

lemma filter_distinct_id:
  "distinct (map f xs) \<Longrightarrow> x \<in> set xs \<Longrightarrow> filter (\<lambda>y. f y = f x) xs = [x]"
  by (induction xs) (auto simp: filter_empty_conv image_iff)

text \<open>
  C26. \<open>resume_desktop_recovery\<close> strands a task whose cancellation was requested while it ran.
  Whatever claims and offline requeues follow, at whatever times, the table holds one row of its
  id, and that row is to the last field the one the recovery left: the old row, queued, without
  worker, token, lease and heartbeat, updated at the time of the recovery (or at its own update
  time when the clock ran backwards). The request is still set and the task is not finished, so it
  is neither run nor cancelled.
\<close>

theorem resume_strands_cancelled_task:
  assumes "store_inv st" and "harmless redact" and "r \<in> set (st_tasks st)" and "tr_status r = Running"
    and "tr_cancel_requested r" and "take_overs calls"
  shows "filter (\<lambda>q. tr_id q = tr_id r) (st_tasks (task_run redact st (Resume_Recovery t # calls)))
      = [stranded t r]
    \<and> tr_cancel_requested (stranded t r) \<and> tr_finished_at (stranded t r) = None"
proof -
  obtain n st' where resume: "resume_desktop_recovery redact t st = Inr (n, st')"
      "st_tasks st' = snd (update_returning (\<lambda>r. tr_status r = Running) (requeue_row t) (st_tasks st))"
    using resume_tasks [OF assms(2,1)] by blast
  have row: "requeue_row t r = stranded t r"
    by (simp add: requeue_row_def release_def stranded_def transition_time_def)
  have mem: "stranded t r \<in> set (st_tasks st')"
    using resume(2) assms(3,4) row by (force simp: update_returning_def)
  have "commit (task_step redact) st (Resume_Recovery t) = st'" using resume(1) by (simp add: commit_def state_of_def)
  then have run: "task_run redact st (Resume_Recovery t # calls) = task_run redact st' calls" by (simp add: task_run_def)
  have q: "tr_id (stranded t r) = tr_id r" "tr_status (stranded t r) = Queued" "tr_cancel_requested (stranded t r)"
      "tr_finished_at (stranded t r) = None"
    using assms(1,3-5) row_ok_running [of r] by (auto simp: stranded_def store_inv_def)
  have "stranded t r \<in> set (st_tasks (task_run redact st (Resume_Recovery t # calls)))"
    unfolding run by (rule stranded_stays [OF mem q(2,3) assms(6)])
  moreover have "distinct (map tr_id (st_tasks (task_run redact st (Resume_Recovery t # calls))))"
    using task_run_inv [OF assms(1)] by (simp add: store_inv_def)
  ultimately show ?thesis using filter_distinct_id [of tr_id _ "stranded t r"] q by simp
qed

theorem resume_strands_cancelled_task_witness:
  "filter (\<lambda>q. tr_id q = ''t'') (st_tasks (task_run id (example_store cancelling_row)
       [Resume_Recovery 5, Claim_Next False ''w'' None 1000000 60 ''l'', Requeue_Expired None 2000000]))
     = [stranded 5 cancelling_row]
   \<and> tr_cancel_requested (stranded 5 cancelling_row) \<and> tr_worker_id (stranded 5 cancelling_row) = None"
proof -
  have m: "cancelling_row \<in> set (st_tasks (example_store cancelling_row))" by (simp add: example_store_def)
  have f: "tr_status cancelling_row = Running" "tr_cancel_requested cancelling_row" "tr_id cancelling_row = ''t''"
    using running_row_fields by (simp_all add: cancelling_row_def)
  have "take_overs [Claim_Next False ''w'' None 1000000 60 ''l'', Requeue_Expired None 2000000]"
    by (simp add: take_overs_def sample_time_def)
  from resume_strands_cancelled_task [OF example_store_inv [OF cancelling_row_ok] harmless_id m f(1,2) this, of 5] f(3)
  show ?thesis by (simp add: stranded_def)
qed

text \<open>
  C27. Cancelling a task that was requeued while its backtest ran cancels the task and strands the run:
  \<open>request_cancel\<close> on a queued task leaves every backtest run that is not itself queued as it
  is, so the run of a requeued task stays running although its task is over.
\<close>

theorem requeued_cancel_strands_run:
  assumes "store_inv st" and "r \<in> set (st_tasks st)" and "tr_status r = Queued" and "b \<in> set (st_backtests st)"
    and "br_status b \<noteq> ''queued''" and "request_cancel redact (tr_id r) clock st = Inr (s, st')"
  shows "(\<exists>r' \<in> set (st_tasks st'). tr_id r' = tr_id r \<and> tr_status r' = Cancelled) \<and> b \<in> set (st_backtests st')"
proof -
  have u: "update_returning (\<lambda>q. tr_id q = tr_id r \<and> tr_status q = Queued) (cancel_queued_row clock) (st_tasks st)
    = ([cancel_queued_row clock r],
       map (\<lambda>q. if tr_id q = tr_id r \<and> tr_status q = Queued then cancel_queued_row clock q else q) (st_tasks st))"
    (is "_ = (_, ?tasks)")
    by (rule update_returning_one) (use assms(1-3) in \<open>simp_all add: store_inv_def\<close>)
  obtain task where rep: "reports (cancel_queued_analysis task (cancel_queued_backtest task (st\<lparr>st_tasks := ?tasks\<rparr>))) st'"
    using assms(6) by (auto simp: request_cancel_def update_task_def u res_simps dest!: report_cancel_request_reports)
  have b: "b \<in> set (st_backtests (cancel_queued_backtest task (st\<lparr>st_tasks := ?tasks\<rparr>)))"
    using assms(4,5) by (force simp: cancel_queued_backtest_def update_where_def update_returning_def)
  have keep: "st_backtests (cancel_queued_analysis task q) = st_backtests q" for q
    by (simp add: cancel_queued_analysis_def split: option.splits)
  have "b \<in> set (st_backtests st')" using reports_tables [OF rep] b by (simp only: keep)
  moreover have "st_tasks st' = ?tasks" using reports_tables [OF rep] by simp
  moreover have "cancel_queued_row clock r \<in> set ?tasks" using assms(2,3) by force
  moreover have "tr_id (cancel_queued_row clock r) = tr_id r" "tr_status (cancel_queued_row clock r) = Cancelled"
    by (simp_all add: cancel_queued_row_def)
  ultimately show ?thesis by (metis (no_types))
qed

definition requeued_store :: task_store where
  "requeued_store = task_run id (example_store running_row) [Resume_Recovery 5]"

lemma requeued_store_row:
  "store_inv requeued_store" "requeue_row 5 running_row \<in> set (st_tasks requeued_store)"
  "st_backtests requeued_store = [running_backtest]"
proof -
  have i: "store_inv (example_store running_row)" by (rule example_store_inv [OF running_row_ok])
  obtain n st' where r: "resume_desktop_recovery id 5 (example_store running_row) = Inr (n, st')"
      "st_tasks st' = snd (update_returning (\<lambda>r. tr_status r = Running) (requeue_row 5) (st_tasks (example_store running_row)))"
      "st_backtests st' = st_backtests (example_store running_row)"
    using resume_tasks [OF harmless_id i] by blast
  have e: "requeued_store = st'" using r(1) by (simp add: requeued_store_def task_run_def commit_def state_of_def)
  show "store_inv requeued_store" unfolding requeued_store_def by (rule task_run_inv [OF i])
  show "requeue_row 5 running_row \<in> set (st_tasks requeued_store)"
    using r(2) running_row_fields by (simp add: e example_store_def update_returning_def)
  show "st_backtests requeued_store = [running_backtest]" using r(3) by (simp add: e example_store_def)
qed

lemma request_cancel_total:
  assumes "harmless redact" and "store_inv st" and "r \<in> set (st_tasks st)" and "tr_status r = Queued"
  shows "\<exists>s st'. request_cancel redact (tr_id r) clock st = Inr (s, st')"
proof -
  let ?r = "cancel_queued_row clock r"
  have u: "update_returning (\<lambda>q. tr_id q = tr_id r \<and> tr_status q = Queued) (cancel_queued_row clock) (st_tasks st)
    = ([?r], map (\<lambda>q. if tr_id q = tr_id r \<and> tr_status q = Queued then cancel_queued_row clock q else q) (st_tasks st))"
    by (rule update_returning_one) (use assms(2-4) in \<open>simp_all add: store_inv_def\<close>)
  have "row_ok ?r" using assms(2-4) move_row_ok [OF task_move.withdraw] by (simp add: store_inv_def)
  then obtain task where t: "snapshot ?r = Inr task" using snapshot_total by blast
  have ev: "\<exists>st'. append_event redact i n l p (PyMap []) tm st = Inr st'" for i n l p tm st
    by (rule append_event_total [OF assms(1)]) simp
  have "\<exists>st'. report_cancel_request redact task s = Inr st'" for s
  proof -
    obtain s1 where "append_event redact (sn_id task) ''task.cancel_requested'' Info (sn_progress task) (PyMap [])
        (sn_updated_at task) s = Inr s1" using ev by blast
    then show ?thesis using ev by (simp add: report_cancel_request_def)
  qed
  then obtain st' where "report_cancel_request redact task (cancel_queued_analysis task (cancel_queued_backtest task
      (st\<lparr>st_tasks := map (\<lambda>q. if tr_id q = tr_id r \<and> tr_status q = Queued then cancel_queued_row clock q else q)
         (st_tasks st)\<rparr>))) = Inr st'" by blast
  then show ?thesis by (simp add: request_cancel_def update_task_def u t)
qed

theorem requeued_cancel_strands_run_witness:
  "\<exists>s st'. request_cancel id ''t'' 6 requeued_store = Inr (s, st')
     \<and> (\<exists>r' \<in> set (st_tasks st'). tr_id r' = ''t'' \<and> tr_status r' = Cancelled)
     \<and> running_backtest \<in> set (st_backtests st')"
proof -
  let ?r = "requeue_row 5 running_row"
  have f: "tr_id ?r = ''t''" "tr_status ?r = Queued" using running_row_fields by (simp_all add: requeue_row_def release_def)
  obtain s st' where c: "request_cancel id (tr_id ?r) 6 requeued_store = Inr (s, st')"
    using request_cancel_total [OF harmless_id requeued_store_row(1,2) f(2)] by blast
  have b: "running_backtest \<in> set (st_backtests requeued_store)" "br_status running_backtest \<noteq> ''queued''"
    using requeued_store_row(3) by (simp_all add: running_backtest_def)
  from requeued_cancel_strands_run [OF requeued_store_row(1,2) f(2) b c] c f(1) show ?thesis by auto
qed

lemma decline_total:
  assumes "harmless redact" and "store_inv st"
  shows "\<exists>n st'. cancel_desktop_recovery redact t st = Inr (n, st')
    \<and> (\<forall>r \<in> set (st_tasks st). active_task r \<longrightarrow> decline_row t r \<in> set (st_tasks st') \<and> settled (tr_id r) st')
    \<and> (\<forall>r \<in> set (st_tasks st). \<not> active_task r \<longrightarrow> r \<in> set (st_tasks st'))"
proof (cases "filter active_task (st_tasks st) = []")
  case True
  then show ?thesis by (auto simp: cancel_desktop_recovery_def filter_empty_conv)
next
  case False
  let ?rows = "filter active_task (st_tasks st)"
  let ?ids = "map tr_id ?rows"
  let ?tasks = "update_where (\<lambda>r. tr_id r \<in> set ?ids) (decline_row t) (st_tasks st)"
  let ?st = "cancel_analyses ?ids t (cancel_backtests ?ids t (st\<lparr>st_tasks := ?tasks\<rparr>))"
  have d: "inj_on tr_id (set (st_tasks st))" using assms(2) by (simp add: store_inv_def distinct_map)
  have "\<forall>r \<in> set ?rows. row_ok r" using assms(2) by (simp add: store_inv_def)
  from report_rows_total [OF assms(1) this, of "[(PyStr ''code'', PyStr ''desktop_recovery_cancelled'')]"]
  obtain st' where r: "report_rows redact ''task.cancelled'' Info (code_detail ''desktop_recovery_cancelled'')
      (\<lambda>_. t) ?rows ?st = Inr st'"
    by (auto simp: code_detail_def) blast
  have step: "cancel_desktop_recovery redact t st = Inr (int (length ?rows), st')"
    using False r by (simp add: cancel_desktop_recovery_def Let_def)
  note tables = reports_tables [OF report_rows_reports [OF r]]
  have "decline_row t r \<in> set (st_tasks st') \<and> settled (tr_id r) st'" if r: "r \<in> set (st_tasks st)" "active_task r" for r
  proof -
    have i: "tr_id r \<in> set ?ids" using r by auto
    from settled_cancel [OF i] tables have "settled (tr_id r) st'" by (simp add: settled_def)
    moreover have "decline_row t r \<in> set ?tasks"
      using r(1) i by (force simp: update_where_def update_returning_def)
    ultimately show ?thesis using tables by simp
  qed
  moreover have "r \<in> set (st_tasks st')" if r: "r \<in> set (st_tasks st)" "\<not> active_task r" for r
  proof -
    have "tr_id r \<notin> set ?ids" using r inj_onD [OF d] by auto
    with r(1) have "r \<in> set ?tasks" by (force simp: update_where_def update_returning_def)
    then show ?thesis using tables by simp
  qed
  ultimately show ?thesis using step by blast
qed

text \<open>
  C28. Declining the recovery is total: it cancels every queued or running task with its runs and leaves
  the others alone; but it stamps the tasks with the plain reading of the clock, so a task updated
  later than that reading ends up finished before its last update.
\<close>

theorem declined_recovery:
  assumes "harmless redact" and "store_inv st" and "r \<in> set (st_tasks st)"
  shows "\<exists>n st'. cancel_desktop_recovery redact t st = Inr (n, st')
    \<and> (if active_task r
       then settled (tr_id r) st' \<and> (\<exists>r' \<in> set (st_tasks st'). tr_id r' = tr_id r \<and> tr_status r' = Cancelled
         \<and> tr_updated_at r' = t \<and> tr_finished_at r' = Some t \<and> tr_started_at r' = tr_started_at r)
       else r \<in> set (st_tasks st'))"
proof -
  have "tr_id (decline_row t r) = tr_id r" "tr_status (decline_row t r) = Cancelled" "tr_updated_at (decline_row t r) = t"
      "tr_finished_at (decline_row t r) = Some t" "tr_started_at (decline_row t r) = tr_started_at r"
    by (simp_all add: decline_row_def release_def)
  moreover obtain n st' where "cancel_desktop_recovery redact t st = Inr (n, st')"
      "active_task r \<longrightarrow> decline_row t r \<in> set (st_tasks st') \<and> settled (tr_id r) st'"
      "\<not> active_task r \<longrightarrow> r \<in> set (st_tasks st')"
    using decline_total [OF assms(1,2), of t] assms(3) by blast
  ultimately show ?thesis by (metis (no_types, lifting))
qed

theorem declined_recovery_witness:
  "\<exists>n st'. cancel_desktop_recovery id (- 5) (example_store running_row) = Inr (n, st')
     \<and> (\<exists>r' \<in> set (st_tasks st'). tr_status r' = Cancelled \<and> tr_started_at r' = Some 0 \<and> tr_finished_at r' = Some (- 5))"
proof -
  have m: "running_row \<in> set (st_tasks (example_store running_row))" by (simp add: example_store_def)
  have a: "active_task running_row" using running_row_fields by (simp add: active_task_def)
  have s: "tr_started_at running_row = Some 0"
    by (simp add: running_row_def claim_row_def new_task_row_def transition_time_def)
  from declined_recovery [OF harmless_id example_store_inv [OF running_row_ok] m, of "- 5"] a s show ?thesis by auto
qed

end
