(* ===== verification/Float64.thy ===== *)
theory Float64
  imports Py_Decimal
begin

text \<open>
  Binary64 arithmetic as Python and numpy do it: the exact result, rounded to nearest, ties to even.
  The values are rationals: the sign of a zero is never observed by the code (series store
  positive zeros, divisions by zero are masked), and an overflow, which would give an infinity, is
  \<open>None\<close>. \<open>round64\<close> is the rounding of IEEE 754; the lemmas say that it gives binary64 values and
  leaves binary64 values alone.
\<close>

section \<open>The values\<close>

definition is_float64 :: "rat \<Rightarrow> bool" where
  "is_float64 v \<longleftrightarrow> (\<exists>m e. v = of_int m * 2 powi e \<and> \<bar>m\<bar> \<le> 2 ^ 53 \<and> - 1074 \<le> e \<and> \<bar>v\<bar> < 2 ^ 1024)"

section \<open>Rounding\<close>

fun bit_length :: "nat \<Rightarrow> nat" where
  "bit_length n = (if n = 0 then 0 else Suc (bit_length (n div 2)))"

declare bit_length.simps [simp del]

text \<open>The exponent of the leading bit of a positive rational.\<close>

definition leading_exponent :: "rat \<Rightarrow> int" where
  "leading_exponent x =
     (let (p, q) = quotient_of x; k = int (bit_length (nat p)) - int (bit_length (nat q))
      in if 2 powi k \<le> x then k else k - 1)"

definition round64 :: "rat \<Rightarrow> rat option" where
  "round64 x =
     (if x = 0 then Some 0
      else
        let e = max (leading_exponent \<bar>x\<bar> - 52) (- 1074); (p, q) = quotient_of \<bar>x\<bar>;
            m = round_quot HalfEven (nat p * 2 ^ nat (- e)) (nat q * 2 ^ nat e);
            v = of_nat m * 2 powi e
        in if 2 ^ 1024 \<le> v then None else Some (sgn x * v))"

text \<open>The integer part of a square root, and the correctly rounded square root of \<open>math.sqrt\<close>.\<close>

fun isqrt :: "nat \<Rightarrow> nat" where
  "isqrt n = (if n = 0 then 0 else let r = 2 * isqrt (n div 4) in if (r + 1) * (r + 1) \<le> n then r + 1 else r)"

declare isqrt.simps [simp del]

text \<open>
  A root of a positive binary64 value has its leading bit at half the exponent; the root is taken
  with one bit more than the 53 of the result and a sticky bit for an inexact remainder.
\<close>

definition sqrt64 :: "rat \<Rightarrow> rat" where
  "sqrt64 x =
     (if x \<le> 0 then 0
      else
        let e = leading_exponent x div 2 - 54; (p, q) = quotient_of x;
            n = nat p * 2 ^ nat (- 2 * e); d = nat q * 2 ^ nat (2 * e);
            r = isqrt (n div d);
            exact = (r * r * d = n)
        in case round64 ((of_nat (2 * r + (if exact then 0 else 1))) * 2 powi (e - 1)) of Some v \<Rightarrow> v | None \<Rightarrow> 0)"

section \<open>Operations\<close>

definition f64_add :: "rat \<Rightarrow> rat \<Rightarrow> rat option" where "f64_add a b = round64 (a + b)"

definition f64_sub :: "rat \<Rightarrow> rat \<Rightarrow> rat option" where "f64_sub a b = round64 (a - b)"

definition f64_mul :: "rat \<Rightarrow> rat \<Rightarrow> rat option" where "f64_mul a b = round64 (a * b)"

definition f64_div :: "rat \<Rightarrow> rat \<Rightarrow> rat option" where "f64_div a b = round64 (a / b)"

text \<open>
  \<open>np.remainder\<close> of a nonzero divisor: the exact remainder of truncated division, moved once by the
  divisor when its sign is not the sign of the divisor.
\<close>

definition f64_fmod :: "rat \<Rightarrow> rat \<Rightarrow> rat" where
  "f64_fmod a b = sgn a * (\<bar>a\<bar> - \<bar>b\<bar> * of_int \<lfloor>\<bar>a\<bar> / \<bar>b\<bar>\<rfloor>)"

definition f64_remainder :: "rat \<Rightarrow> rat \<Rightarrow> rat option" where
  "f64_remainder a b =
     (let r = f64_fmod a b in if r \<noteq> 0 \<and> (b < 0) \<noteq> (r < 0) then round64 (r + b) else Some r)"

section \<open>Rounding gives binary64 values\<close>

lemma bit_length_bounds: "0 < n \<Longrightarrow> 2 ^ (bit_length n - 1) \<le> n \<and> n < 2 ^ bit_length n"
proof (induction n rule: bit_length.induct)
  case (1 n)
  show ?case
  proof (cases "n = 1")
    case True
    have "bit_length 0 = 0" by (subst bit_length.simps) simp
    then have "bit_length 1 = 1" by (subst bit_length.simps) simp
    with True show ?thesis by (simp only:) simp
  next
    case False
    with "1.prems" have h: "0 < n div 2" by simp
    with "1.IH" "1.prems" have b: "2 ^ (bit_length (n div 2) - 1) \<le> n div 2" "n div 2 < 2 ^ bit_length (n div 2)"
      by simp_all
    have e: "bit_length n = Suc (bit_length (n div 2))" using "1.prems" by (simp add: bit_length.simps [of n])
    have "0 < bit_length (n div 2)" using h by (subst bit_length.simps) simp
    then have "2 * 2 ^ (bit_length (n div 2) - 1) = (2 ^ bit_length (n div 2) :: nat)"
      by (simp flip: power_Suc)
    then show ?thesis using b unfolding e by simp linarith
  qed
qed

lemma pow2_pos [simp]: "(0 :: rat) < 2 powi k"
  by (rule zero_less_power_int) simp

lemma pow2_add: "(2 :: rat) powi (a + b) = 2 powi a * 2 powi b"
  by (rule power_int_add) simp

lemma pow2_diff: "(2 :: rat) powi (a - b) = 2 powi a / 2 powi b"
  by (rule power_int_diff) simp

lemma pow2_nat: "0 \<le> k \<Longrightarrow> (2 :: rat) ^ nat k = 2 powi k"
  by (simp add: power_int_def)

lemma pow2_less_iff [simp]: "(2 :: rat) powi a < 2 powi b \<longleftrightarrow> a < b"
proof
  assume "(2 :: rat) powi a < 2 powi b"
  then show "a < b"
    using power_int_increasing [of b a "2 :: rat"] by (cases "a < b") auto
qed (simp add: power_int_strict_increasing)

lemma pow2_le_iff [simp]: "(2 :: rat) powi a \<le> 2 powi b \<longleftrightarrow> a \<le> b"
  using pow2_less_iff [of b a] by linarith

lemma quotient_nat:
  assumes "0 < x"
  shows "\<exists>p q. quotient_of x = (int p, int q) \<and> 0 < p \<and> 0 < q \<and> x = of_nat p / of_nat q"
proof -
  obtain p q where pq: "quotient_of x = (p, q)" by fastforce
  have q: "0 < q" using quotient_of_denom_pos [OF pq] .
  have x: "x = of_int p / of_int q" using quotient_of_div [OF pq] .
  have "0 < p"
  proof (rule ccontr)
    assume "\<not> 0 < p"
    then have "(of_int p :: rat) \<le> 0" by simp
    then have "x \<le> 0" using q by (simp add: x divide_nonpos_pos)
    with assms show False by simp
  qed
  with pq q x show ?thesis by (intro exI [of _ "nat p"] exI [of _ "nat q"]) simp
qed

lemma leading_exponent_bounds:
  assumes "0 < x"
  shows "2 powi leading_exponent x \<le> x \<and> x < 2 powi (leading_exponent x + 1)"
proof -
  obtain p q where pq: "quotient_of x = (int p, int q)" "0 < p" "0 < q" "x = of_nat p / of_nat q"
    using quotient_nat [OF assms] by blast
  define a b where "a = int (bit_length p)" and "b = int (bit_length q)"
  have pos: "0 < bit_length p" "0 < bit_length q" using pq(2,3) by (subst bit_length.simps, simp)+
  have conv: "(of_nat (2 ^ n) :: rat) = 2 powi int n" for n by simp
  have bp: "2 ^ (bit_length p - 1) \<le> p" "p < 2 ^ bit_length p"
    and bq: "2 ^ (bit_length q - 1) \<le> q" "q < 2 ^ bit_length q"
    using bit_length_bounds pq(2,3) by blast+
  have "(of_nat (2 ^ (bit_length p - 1)) :: rat) \<le> of_nat p" "(of_nat p :: rat) < of_nat (2 ^ bit_length p)"
    using bp by (simp_all only: of_nat_le_iff of_nat_less_iff)
  then have p: "2 powi (a - 1) \<le> (of_nat p :: rat)" "(of_nat p :: rat) < 2 powi a"
    unfolding conv a_def using pos by (simp_all add: of_nat_diff)
  have "(of_nat (2 ^ (bit_length q - 1)) :: rat) \<le> of_nat q" "(of_nat q :: rat) < of_nat (2 ^ bit_length q)"
    using bq by (simp_all only: of_nat_le_iff of_nat_less_iff)
  then have q: "2 powi (b - 1) \<le> (of_nat q :: rat)" "(of_nat q :: rat) < 2 powi b"
    unfolding conv b_def using pos by (simp_all add: of_nat_diff)
  have q0: "(0 :: rat) < of_nat q" using pq(3) by simp
  have "2 powi (a - 1 - b) * (of_nat q :: rat) \<le> 2 powi (a - 1 - b) * 2 powi b"
    by (rule mult_left_mono) (use q in simp_all)
  also have "\<dots> = 2 powi (a - 1)" by (simp flip: pow2_add)
  finally have lower: "2 powi (a - b - 1) \<le> x" using p q0 by (simp add: pq(4) pos_le_divide_eq algebra_simps)
  have "2 powi a = (2 powi (a - b + 1) * 2 powi (b - 1) :: rat)" by (simp flip: pow2_add)
  also have "\<dots> \<le> 2 powi (a - b + 1) * of_nat q" by (rule mult_left_mono) (use q in simp_all)
  finally have upper: "x < 2 powi (a - b + 1)" using p q0 by (simp add: pq(4) pos_divide_less_eq)
  have "leading_exponent x = (if 2 powi (a - b) \<le> x then a - b else a - b - 1)"
    by (simp add: leading_exponent_def pq(1) Let_def a_def b_def)
  then show ?thesis using lower upper by simp
qed

definition unit_exponent :: "rat \<Rightarrow> int" where
  "unit_exponent x = max (leading_exponent \<bar>x\<bar> - 52) (- 1074)"

definition rounded_units :: "rat \<Rightarrow> nat" where
  "rounded_units x =
     (case quotient_of \<bar>x\<bar> of (p, q) \<Rightarrow>
        round_quot HalfEven (nat p * 2 ^ nat (- unit_exponent x)) (nat q * 2 ^ nat (unit_exponent x)))"

lemma round64_units:
  "round64 x = (if x = 0 then Some 0
     else let v = of_nat (rounded_units x) * 2 powi unit_exponent x in if 2 ^ 1024 \<le> v then None else Some (sgn x * v))"
  by (simp add: round64_def rounded_units_def unit_exponent_def Let_def split: prod.split)

lemma units_quotient:
  assumes "x \<noteq> 0"
  shows "\<exists>c d. rounded_units x = round_quot HalfEven c d \<and> 0 < d
    \<and> of_nat c = (\<bar>x\<bar> / 2 powi unit_exponent x) * (of_nat d :: rat)"
proof -
  obtain p q where pq: "quotient_of \<bar>x\<bar> = (int p, int q)" "0 < p" "0 < q" "\<bar>x\<bar> = of_nat p / of_nat q"
    using quotient_nat [of "\<bar>x\<bar>"] assms by auto
  let ?e = "unit_exponent x"
  have "(2 :: rat) ^ nat (- ?e) = 2 ^ nat ?e / 2 powi ?e"
  proof (cases "0 \<le> ?e")
    case True
    then show ?thesis by (simp add: pow2_nat)
  next
    case False
    then have "nat ?e = 0" "(2 :: rat) ^ nat (- ?e) = 2 powi (- ?e)" by (simp_all add: pow2_nat)
    then show ?thesis by (simp add: power_int_minus divide_inverse)
  qed
  then have "of_nat (p * 2 ^ nat (- ?e)) = (\<bar>x\<bar> / 2 powi ?e) * (of_nat (q * 2 ^ nat ?e) :: rat)"
    using pq(3) by (simp add: pq(4))
  moreover have "rounded_units x = round_quot HalfEven (p * 2 ^ nat (- ?e)) (q * 2 ^ nat ?e)"
    by (simp add: rounded_units_def pq(1))
  moreover have "0 < q * 2 ^ nat ?e" using pq(3) by simp
  ultimately show ?thesis by blast
qed

lemma units_le: "x \<noteq> 0 \<Longrightarrow> rounded_units x \<le> 2 ^ 53"
proof -
  assume x: "x \<noteq> 0"
  then obtain c d where cd: "rounded_units x = round_quot HalfEven c d" "0 < d"
    "of_nat c = (\<bar>x\<bar> / 2 powi unit_exponent x) * (of_nat d :: rat)" using units_quotient by blast
  have "\<bar>x\<bar> < 2 powi (leading_exponent \<bar>x\<bar> + 1)" using leading_exponent_bounds [of "\<bar>x\<bar>"] x by simp
  also have "\<dots> \<le> 2 powi (53 + unit_exponent x)" by (simp add: unit_exponent_def)
  also have "\<dots> = 2 ^ 53 * 2 powi unit_exponent x" unfolding pow2_add by simp
  finally have "\<bar>x\<bar> / 2 powi unit_exponent x \<le> 2 ^ 53" by (simp add: pos_divide_le_eq)
  then have "of_nat c \<le> 2 ^ 53 * (of_nat d :: rat)" unfolding cd(3) by (rule mult_right_mono) simp
  then have "(of_nat c :: rat) \<le> of_nat (2 ^ 53 * d)" by simp
  then have "c \<le> 2 ^ 53 * d" by (simp only: of_nat_le_iff)
  then show ?thesis unfolding cd(1) using cd(2) by (rule round_quot_le)
qed

lemma round64_float64: "round64 x = Some v \<Longrightarrow> is_float64 v"
proof (cases "x = 0")
  case True
  assume "round64 x = Some v"
  with True show ?thesis by (auto simp: round64_units is_float64_def intro!: exI [of _ 0])
next
  case False
  assume "round64 x = Some v"
  with False have v: "v = sgn x * (of_nat (rounded_units x) * 2 powi unit_exponent x)"
    "of_nat (rounded_units x) * 2 powi unit_exponent x < (2 ^ 1024 :: rat)"
    by (auto simp: round64_units Let_def simp del: power_Suc split: if_splits)
  have s: "sgn x = of_int (sgn (if 0 < x then 1 else - 1))" using False by simp
  have "\<bar>v\<bar> = of_nat (rounded_units x) * 2 powi unit_exponent x" using False by (simp add: v(1) abs_mult abs_sgn_eq)
  then have "\<bar>v\<bar> < 2 ^ 1024" using v(2) by simp
  moreover have "v = of_int (sgn (if 0 < x then 1 else - 1) * int (rounded_units x)) * 2 powi unit_exponent x"
    unfolding v(1) s by simp
  moreover have "\<bar>sgn (if 0 < x then 1 else - 1) * int (rounded_units x)\<bar> \<le> 2 ^ 53"
    using units_le [OF False] by (simp add: abs_mult)
  moreover have "- 1074 \<le> unit_exponent x" by (simp add: unit_exponent_def)
  ultimately show ?thesis unfolding is_float64_def by blast
qed

lemma round64_id:
  assumes "is_float64 v"
  shows "round64 v = Some v"
proof (cases "v = 0")
  case False
  obtain m e where v: "v = of_int m * 2 powi e" "\<bar>m\<bar> \<le> 2 ^ 53" "- 1074 \<le> e" "\<bar>v\<bar> < 2 ^ 1024"
    using assms by (auto simp: is_float64_def)
  let ?u = "unit_exponent v"
  have "\<exists>k :: nat. \<bar>v\<bar> = of_nat k * 2 powi ?u"
  proof (cases "?u \<le> e")
    case True
    have "\<bar>v\<bar> = of_int \<bar>m\<bar> * (2 powi (e - ?u) * 2 powi ?u)" by (simp add: v(1) abs_mult flip: pow2_add)
    also have "2 powi (e - ?u) = (2 :: rat) ^ nat (e - ?u)" using True by (simp add: pow2_nat)
    finally have "\<bar>v\<bar> = of_nat (nat \<bar>m\<bar> * 2 ^ nat (e - ?u)) * 2 powi ?u" by simp
    then show ?thesis by blast
  next
    case False
    then have u: "?u = leading_exponent \<bar>v\<bar> - 52" using v(3) by (simp add: unit_exponent_def max_def split: if_splits)
    have "2 powi (?u + 52) \<le> \<bar>v\<bar>" using leading_exponent_bounds [of "\<bar>v\<bar>"] \<open>v \<noteq> 0\<close> by (simp add: u)
    also have "\<dots> \<le> 2 ^ 53 * 2 powi e"
      unfolding v(1) abs_mult using v(2) by (intro mult_mono) (simp_all flip: of_int_abs)
    finally have "(2 :: rat) powi (?u + 52) \<le> 2 powi (53 + e)" unfolding pow2_add by simp
    then have "?u \<le> e + 1" by simp
    with False have eu: "e + 1 = ?u" by simp
    have "2 powi (?u + 52) = (2 ^ 53 * 2 powi e :: rat)" unfolding eu [symmetric] pow2_add by simp
    with \<open>2 powi (?u + 52) \<le> \<bar>v\<bar>\<close> \<open>\<bar>v\<bar> \<le> 2 ^ 53 * 2 powi e\<close>
    have "\<bar>v\<bar> = 2 powi (?u + 52)" by simp
    also have "\<dots> = of_nat (2 ^ 52) * 2 powi ?u" unfolding pow2_add by simp
    finally show ?thesis by blast
  qed
  then obtain k where k: "\<bar>v\<bar> = of_nat k * 2 powi ?u" by blast
  obtain c d where cd: "rounded_units v = round_quot HalfEven c d" "0 < d"
    "of_nat c = (\<bar>v\<bar> / 2 powi ?u) * (of_nat d :: rat)" using units_quotient [OF False] by blast
  have "(of_nat c :: rat) = of_nat (k * d)" unfolding cd(3) k by simp
  then have "c = k * d" by (simp only: of_nat_eq_iff)
  then have "rounded_units v = k" by (simp add: cd(1) round_quot_exact cd(2))
  then have "of_nat (rounded_units v) * 2 powi ?u = \<bar>v\<bar>" by (simp only: k)
  then show ?thesis unfolding round64_units Let_def using False v(4) by (simp only: if_False not_le [symmetric] sgn_mult_abs)
qed (simp add: round64_units)
end
