(* ===== verification/Formula_Kernels.thy ===== *)
theory Formula_Kernels
  imports Float64
begin

text \<open>
  The values of a formula (\<open>formula/values.py\<close>) and the kernels of \<open>formula/runtime\<close>:
  \<open>elementwise.py\<close>, \<open>rolling.py\<close>, \<open>recursive.py\<close> and \<open>signals.py\<close>.

  A series is its \<open>to_optional_tuple\<close>: \<open>None\<close> where the validity mask is false (the value array holds
  zero or false there). Numbers are finite binary64 values. The arrays of one evaluation have one length, the
  number of rows, which \<open>EvaluationContext\<close> keeps below the row limit; the checks of array types, shapes and
  the row limit in the constructors have no branch.
\<close>

section \<open>Values\<close>

datatype scalar_value = NumberScalar rat | IntegerScalar int

datatype runtime_value = Scalar scalar_value | NumberSeries "rat option list" | BooleanSeries "bool option list"

definition mk_integer_scalar :: "int \<Rightarrow> scalar_value res" where
  "mk_integer_scalar i =
     (if 2 ^ 53 < \<bar>i\<bar> then Inl (ValueError ''integer scalar must be exactly representable by float64'')
      else Inr (IntegerScalar i))"

fun scalar_number :: "scalar_value \<Rightarrow> rat" where
  "scalar_number (NumberScalar v) = v"
| "scalar_number (IntegerScalar i) = of_int i"

definition broadcast :: "scalar_value \<Rightarrow> nat \<Rightarrow> rat option list" where
  "broadcast s rows = replicate rows (Some (scalar_number s))"

record runtime_issue =
  ri_code :: string
  ri_count :: nat
  ri_first_index :: nat

record kernel_result =
  kr_value :: runtime_value
  kr_issues :: "runtime_issue list"

definition issue_at :: "string \<Rightarrow> nat list \<Rightarrow> runtime_issue list" where
  "issue_at code indexes =
     (case indexes of [] \<Rightarrow> [] | i # _ \<Rightarrow> [\<lparr>ri_code = code, ri_count = length indexes, ri_first_index = i\<rparr>])"

text \<open>The indexes at which a mask is true (\<open>np.flatnonzero\<close>).\<close>

definition flatnonzero :: "bool list \<Rightarrow> nat list" where
  "flatnonzero flags = filter (\<lambda>i. flags ! i) [0..<length flags]"

section \<open>Elementwise kernels\<close>

fun number_series :: "runtime_value \<Rightarrow> nat \<Rightarrow> rat option list res" where
  "number_series (NumberSeries s) rows = Inr s"
| "number_series (Scalar v) rows = Inr (broadcast v rows)"
| "number_series (BooleanSeries _) rows = Inl (TypeError ''numeric kernel received a non-numeric value'')"

definition condition_series :: "runtime_value \<Rightarrow> nat \<Rightarrow> bool option list res" where
  "condition_series v rows =
     (case v of BooleanSeries s \<Rightarrow> Inr s
      | _ \<Rightarrow> bind_res (number_series v rows) (\<lambda>s. Inr (map (map_option (\<lambda>x. x \<noteq> 0)) s)))"

text \<open>
  A computed cell is \<open>None\<close> where an operand is null, and else the rounded result, \<open>Some None\<close> when
  that is not finite.
\<close>

definition sanitize_number :: "rat option option list \<Rightarrow> rat option list \<times> runtime_issue list" where
  "sanitize_number cells =
     (map (\<lambda>c. case c of Some (Some v) \<Rightarrow> Some v | _ \<Rightarrow> None) cells,
      issue_at ''numeric_overflow'' (flatnonzero (map (\<lambda>c. c = Some None) cells)))"

definition unary_number :: "string \<Rightarrow> runtime_value \<Rightarrow> nat \<Rightarrow> kernel_result res" where
  "unary_number operator v rows =
     bind_res (number_series v rows) (\<lambda>source.
     bind_res
       (if operator = ''+'' then Inr (\<lambda>x. x)
        else if operator = ''-'' then Inr (\<lambda>x. - x)
        else if operator = ''ABS'' then Inr (\<lambda>x. \<bar>x\<bar>)
        else Inl (ValueError ''unsupported numeric unary operator'')) (\<lambda>f.
       case sanitize_number (map (map_option (\<lambda>x. Some (f x))) source) of
         (series, issues) \<Rightarrow> Inr \<lparr>kr_value = NumberSeries series, kr_issues = issues\<rparr>))"

definition binary_operation :: "string \<Rightarrow> (rat \<Rightarrow> rat \<Rightarrow> rat option) res" where
  "binary_operation operator =
     (if operator = ''+'' then Inr f64_add
      else if operator = ''-'' then Inr f64_sub
      else if operator = ''*'' then Inr f64_mul
      else if operator = ''/'' then Inr f64_div
      else if operator = ''%'' then Inr f64_remainder
      else if operator = ''MAX'' then Inr (\<lambda>a b. Some (max a b))
      else if operator = ''MIN'' then Inr (\<lambda>a b. Some (min a b))
      else Inl (ValueError ''unsupported numeric binary operator''))"

definition binary_number :: "string \<Rightarrow> runtime_value \<Rightarrow> runtime_value \<Rightarrow> nat \<Rightarrow> kernel_result res" where
  "binary_number operator left right rows =
     bind_res (number_series left rows) (\<lambda>lhs.
     bind_res (number_series right rows) (\<lambda>rhs.
     bind_res (binary_operation operator) (\<lambda>f.
     let divides = (operator = ''/'' \<or> operator = ''%'');
         invalid_zero = map2 (\<lambda>a b. divides \<and> a \<noteq> None \<and> b = Some 0) lhs rhs;
         cells = map2 (\<lambda>a b. case (a, b) of
             (Some x, Some y) \<Rightarrow> if divides \<and> y = 0 then None else Some (f x y)
           | _ \<Rightarrow> None) lhs rhs
     in case sanitize_number cells of
       (series, overflow) \<Rightarrow> Inr \<lparr>kr_value = NumberSeries series,
         kr_issues = issue_at (if operator = ''/'' then ''division_by_zero'' else ''modulo_by_zero'')
           (flatnonzero invalid_zero) @ overflow\<rparr>)))"

definition comparison :: "string \<Rightarrow> (rat \<Rightarrow> rat \<Rightarrow> bool) res" where
  "comparison operator =
     (if operator = ''='' \<or> operator = ''=='' then Inr (=)
      else if operator = ''!='' \<or> operator = ''<>'' then Inr (\<noteq>)
      else if operator = ''>'' then Inr (>)
      else if operator = ''>='' then Inr (\<ge>)
      else if operator = ''<'' then Inr (<)
      else if operator = ''<='' then Inr (\<le>)
      else Inl (ValueError ''unsupported comparison operator''))"

definition both :: "('a \<Rightarrow> 'b \<Rightarrow> 'c) \<Rightarrow> 'a option \<Rightarrow> 'b option \<Rightarrow> 'c option" where
  "both f a b = (case (a, b) of (Some x, Some y) \<Rightarrow> Some (f x y) | _ \<Rightarrow> None)"

definition compare :: "string \<Rightarrow> runtime_value \<Rightarrow> runtime_value \<Rightarrow> nat \<Rightarrow> kernel_result res" where
  "compare operator left right rows =
     bind_res (number_series left rows) (\<lambda>lhs. bind_res (number_series right rows) (\<lambda>rhs.
     bind_res (comparison operator) (\<lambda>f.
       Inr \<lparr>kr_value = BooleanSeries (map2 (both f) lhs rhs), kr_issues = []\<rparr>)))"

definition negated :: "runtime_value \<Rightarrow> nat \<Rightarrow> kernel_result res" where
  "negated operand rows =
     bind_res (condition_series operand rows) (\<lambda>lhs.
       Inr \<lparr>kr_value = BooleanSeries (map (map_option Not) lhs), kr_issues = []\<rparr>)"

definition boolean :: "string \<Rightarrow> runtime_value \<Rightarrow> runtime_value \<Rightarrow> nat \<Rightarrow> kernel_result res" where
  "boolean operator left right rows =
     bind_res (condition_series left rows) (\<lambda>lhs. bind_res (condition_series right rows) (\<lambda>rhs.
       Inr \<lparr>kr_value = BooleanSeries (map2 (both (if operator = ''AND'' then (\<and>) else (\<or>))) lhs rhs), kr_issues = []\<rparr>))"

definition choose_cell :: "bool option \<Rightarrow> rat option \<Rightarrow> rat option \<Rightarrow> rat option option" where
  "choose_cell test left right =
     (case test of None \<Rightarrow> None | Some t \<Rightarrow> map_option Some (if t then left else right))"

definition choose_value :: "runtime_value \<Rightarrow> runtime_value \<Rightarrow> runtime_value \<Rightarrow> nat \<Rightarrow> kernel_result res" where
  "choose_value condition if_true if_false rows =
     bind_res (condition_series condition rows) (\<lambda>test. bind_res (number_series if_true rows) (\<lambda>left.
     bind_res (number_series if_false rows) (\<lambda>right.
       case sanitize_number (map2 (\<lambda>t (l, r). choose_cell t l r) test (zip left right)) of
         (series, issues) \<Rightarrow> Inr \<lparr>kr_value = NumberSeries series, kr_issues = issues\<rparr>)))"

section \<open>Windows\<close>

definition window_of :: "runtime_value \<Rightarrow> int res" where
  "window_of v = (case v of Scalar (IntegerScalar n) \<Rightarrow> Inr n | _ \<Rightarrow> Inl (TypeError ''window must be an integer scalar''))"

text \<open>
  Every binary64 value is a multiple of \<open>2 ^ -1074\<close>; sums over a window are kept as integers in that unit.
\<close>

definition float_scale :: int where "float_scale = 2 ^ 1074"

definition scaled_integers :: "rat option list \<Rightarrow> int list" where
  "scaled_integers source =
     map (\<lambda>v. case v of None \<Rightarrow> 0
            | Some x \<Rightarrow> (case quotient_of x of (numerator, denominator) \<Rightarrow> numerator * (float_scale div denominator))) source"

definition finite_float :: "int \<Rightarrow> int \<Rightarrow> rat option" where
  "finite_float numerator denominator = round64 (of_int numerator / of_int denominator)"

datatype window_operation = WindowSum | WindowMa | WindowStd

record window_state =
  ws_sum :: int
  ws_squares :: int
  ws_count :: nat
  ws_values :: "rat option list"
  ws_overflow :: "nat list"

definition window_init :: window_state where
  "window_init = \<lparr>ws_sum = 0, ws_squares = 0, ws_count = 0, ws_values = [], ws_overflow = []\<rparr>"

definition window_emit :: "window_operation \<Rightarrow> int \<Rightarrow> nat \<Rightarrow> window_state \<Rightarrow> window_state" where
  "window_emit operation n index st =
     (let (eligible, numerator, denominator) =
        (case operation of
           WindowSum \<Rightarrow> (0 < ws_count st, ws_sum st, float_scale)
         | WindowMa \<Rightarrow> (n - 1 \<le> int index \<and> int (ws_count st) = n, ws_sum st, float_scale * n)
         | WindowStd \<Rightarrow> (n - 1 \<le> int index \<and> int (ws_count st) = n,
             max (n * ws_squares st - ws_sum st * ws_sum st) 0, n * (n - 1) * float_scale * float_scale))
      in if \<not> eligible then st\<lparr>ws_values := ws_values st @ [None]\<rparr>
         else case finite_float numerator denominator of
             None \<Rightarrow> st\<lparr>ws_values := ws_values st @ [None], ws_overflow := ws_overflow st @ [index]\<rparr>
           | Some converted \<Rightarrow>
               st\<lparr>ws_values := ws_values st @ [Some (if operation = WindowStd then sqrt64 converted else converted)]\<rparr>)"

definition window_enter :: "rat option list \<Rightarrow> int list \<Rightarrow> nat \<Rightarrow> window_state \<Rightarrow> window_state" where
  "window_enter source scaled index st =
     (if source ! index \<noteq> None
      then st\<lparr>ws_sum := ws_sum st + scaled ! index, ws_squares := ws_squares st + scaled ! index * scaled ! index,
              ws_count := ws_count st + 1\<rparr>
      else st)"

definition window_expire :: "rat option list \<Rightarrow> int list \<Rightarrow> int \<Rightarrow> nat \<Rightarrow> window_state \<Rightarrow> window_state" where
  "window_expire source scaled n index st =
     (if 0 < n \<and> n \<le> int index \<and> source ! (index - nat n) \<noteq> None
      then st\<lparr>ws_sum := ws_sum st - scaled ! (index - nat n),
              ws_squares := ws_squares st - scaled ! (index - nat n) * scaled ! (index - nat n),
              ws_count := ws_count st - 1\<rparr>
      else st)"

definition exact_window :: "rat option list \<Rightarrow> int \<Rightarrow> window_operation \<Rightarrow> kernel_result" where
  "exact_window source n operation =
     (let scaled = scaled_integers source;
          st = foldl (\<lambda>st index. window_emit operation n index (window_expire source scaled n index
                 (window_enter source scaled index st))) window_init [0..<length source]
      in \<lparr>kr_value = NumberSeries (ws_values st), kr_issues = issue_at ''numeric_overflow'' (ws_overflow st)\<rparr>)"

text \<open>Argument tuples are read by position; the preflight of the dispatcher fixes their number.\<close>

definition argument :: "runtime_value list \<Rightarrow> nat \<Rightarrow> runtime_value res" where
  "argument args i = (if i < length args then Inr (args ! i) else Inl (RuntimeError ''tuple index out of range''))"

definition ref :: "runtime_value list \<Rightarrow> nat \<Rightarrow> kernel_result res" where
  "ref args rows =
     bind_res (argument args 0) (\<lambda>x. bind_res (number_series x rows) (\<lambda>source.
     bind_res (argument args 1) (\<lambda>w. bind_res (window_of w) (\<lambda>offset.
       Inr \<lparr>kr_value = NumberSeries
              (if offset < int rows then replicate (nat offset) None @ take (rows - nat offset) source
               else replicate rows None), kr_issues = []\<rparr>))))"

definition windowed :: "window_operation \<Rightarrow> runtime_value list \<Rightarrow> nat \<Rightarrow> kernel_result res" where
  "windowed operation args rows =
     bind_res (argument args 0) (\<lambda>x. bind_res (number_series x rows) (\<lambda>source.
     bind_res (argument args 1) (\<lambda>w. bind_res (window_of w) (\<lambda>n. Inr (exact_window source n operation)))))"

definition ma :: "runtime_value list \<Rightarrow> nat \<Rightarrow> kernel_result res" where "ma = windowed WindowMa"

definition total_of :: "runtime_value list \<Rightarrow> nat \<Rightarrow> kernel_result res" where "total_of = windowed WindowSum"

definition std :: "runtime_value list \<Rightarrow> nat \<Rightarrow> kernel_result res" where "std = windowed WindowStd"

text \<open>Prefix sums with a leading zero.\<close>

fun prefix_sums_from :: "nat \<Rightarrow> nat list \<Rightarrow> nat list" where
  "prefix_sums_from acc [] = [acc]"
| "prefix_sums_from acc (x # xs) = acc # prefix_sums_from (acc + x) xs"

definition prefix_sums :: "nat list \<Rightarrow> nat list" where "prefix_sums = prefix_sums_from 0"

definition count_of :: "runtime_value list \<Rightarrow> nat \<Rightarrow> kernel_result res" where
  "count_of args rows =
     bind_res (argument args 0) (\<lambda>x. bind_res (condition_series x rows) (\<lambda>condition.
     bind_res (argument args 1) (\<lambda>w. bind_res (window_of w) (\<lambda>n.
       let prefix = prefix_sums (map (\<lambda>c. if c = Some True then 1 else 0) condition);
           valid_prefix = prefix_sums (map (\<lambda>c. if c = None then 0 else 1) condition);
           cell = (\<lambda>index. let start = (if n = 0 then 0 else nat (max 0 (int index + 1 - n)))
                           in if valid_prefix ! (index + 1) - valid_prefix ! start \<noteq> 0
                              then Some (of_nat (prefix ! (index + 1) - prefix ! start)) else None)
       in Inr \<lparr>kr_value = NumberSeries (map cell [0..<rows]), kr_issues = []\<rparr>))))"

text \<open>
  The extreme of a window with a queue of indexes whose values descend (ascend): an index that leaves the
  window is dropped in front, the values that a new one dominates are dropped at the back.
\<close>

definition extreme_step ::
  "(rat \<Rightarrow> rat \<Rightarrow> bool) \<Rightarrow> rat option list \<Rightarrow> int \<Rightarrow> nat list \<times> rat option list \<Rightarrow> nat \<Rightarrow> nat list \<times> rat option list" where
  "extreme_step dominated source n = (\<lambda>(queue, values) index.
     let queue = (if n \<noteq> 0 \<and> queue \<noteq> [] \<and> int (hd queue) < int index + 1 - n then tl queue else queue);
         queue = (case source ! index of
            None \<Rightarrow> queue
          | Some v \<Rightarrow> rev (dropWhile (\<lambda>i. dominated (the (source ! i)) v) (rev queue)) @ [index])
     in (queue, values @ [if queue = [] then None else source ! hd queue]))"

definition extreme :: "(rat \<Rightarrow> rat \<Rightarrow> bool) \<Rightarrow> runtime_value list \<Rightarrow> nat \<Rightarrow> kernel_result res" where
  "extreme dominated args rows =
     bind_res (argument args 0) (\<lambda>x. bind_res (number_series x rows) (\<lambda>source.
     bind_res (argument args 1) (\<lambda>w. bind_res (window_of w) (\<lambda>n.
       Inr \<lparr>kr_value = NumberSeries (snd (foldl (extreme_step dominated source n) ([], []) [0..<rows])), kr_issues = []\<rparr>))))"

definition hhv :: "runtime_value list \<Rightarrow> nat \<Rightarrow> kernel_result res" where "hhv = extreme (\<le>)"

definition llv :: "runtime_value list \<Rightarrow> nat \<Rightarrow> kernel_result res" where "llv = extreme (\<ge>)"

section \<open>Smoothing\<close>

record smooth_state =
  ss_state :: "rat option"
  ss_values :: "rat option list"
  ss_overflow :: "nat list"

definition smooth_step :: "rat \<Rightarrow> rat option list \<Rightarrow> smooth_state \<Rightarrow> nat \<Rightarrow> smooth_state" where
  "smooth_step alpha source st index =
     (case source ! index of
        None \<Rightarrow> st\<lparr>ss_values := ss_values st @ [None]\<rparr>
      | Some current \<Rightarrow>
          (case ss_state st of
             None \<Rightarrow> st\<lparr>ss_state := Some current, ss_values := ss_values st @ [Some current]\<rparr>
           | Some state \<Rightarrow>
               (case Option.bind (f64_mul alpha current) (\<lambda>a. Option.bind (f64_sub 1 alpha) (\<lambda>beta.
                       Option.bind (f64_mul beta state) (\<lambda>b. f64_add a b))) of
                  None \<Rightarrow> st\<lparr>ss_values := ss_values st @ [None], ss_overflow := ss_overflow st @ [index]\<rparr>
                | Some candidate \<Rightarrow> st\<lparr>ss_state := Some candidate, ss_values := ss_values st @ [Some candidate]\<rparr>)))"

definition smooth_number :: "runtime_value \<Rightarrow> string \<Rightarrow> int res" where
  "smooth_number v message = (case v of Scalar (IntegerScalar n) \<Rightarrow> Inr n | _ \<Rightarrow> Inl (TypeError message))"

definition smooth :: "runtime_value list \<Rightarrow> nat \<Rightarrow> kernel_result res" where
  "smooth args rows =
     bind_res (argument args 0) (\<lambda>x. bind_res (number_series x rows) (\<lambda>source.
     bind_res (argument args 1) (\<lambda>w. bind_res (smooth_number w ''smoothing window must be an integer scalar'') (\<lambda>n.
     bind_res (argument args 2) (\<lambda>v. bind_res (smooth_number v ''smoothing numerator must be an integer scalar'') (\<lambda>m.
     if n = 0 then Inl (ZeroDivisionError ''division by zero'')
     else case round64 (of_int m / of_int n) of
         None \<Rightarrow> Inl DecimalOverflow
       | Some alpha \<Rightarrow>
           let st = foldl (smooth_step alpha source) \<lparr>ss_state = None, ss_values = [], ss_overflow = []\<rparr> [0..<rows]
           in Inr \<lparr>kr_value = NumberSeries (ss_values st), kr_issues = issue_at ''numeric_overflow'' (ss_overflow st)\<rparr>))))))"

definition ema :: "runtime_value list \<Rightarrow> nat \<Rightarrow> kernel_result res" where
  "ema args rows =
     bind_res (argument args 1) (\<lambda>w. bind_res (smooth_number w ''EMA window must be an integer scalar'') (\<lambda>n.
     bind_res (argument args 0) (\<lambda>x. bind_res (mk_integer_scalar (n + 1)) (\<lambda>n1. bind_res (mk_integer_scalar 2) (\<lambda>two.
       smooth [x, Scalar n1, Scalar two] rows)))))"

definition sma :: "runtime_value list \<Rightarrow> nat \<Rightarrow> kernel_result res" where "sma = smooth"

section \<open>Signals\<close>

definition cross_at :: "rat option list \<Rightarrow> rat option list \<Rightarrow> nat \<Rightarrow> bool" where
  "cross_at left right index =
     (0 < index \<and> both (>) (left ! index) (right ! index) = Some True
      \<and> both (\<le>) (left ! (index - 1)) (right ! (index - 1)) = Some True)"

definition cross :: "runtime_value list \<Rightarrow> nat \<Rightarrow> kernel_result res" where
  "cross args rows =
     bind_res (argument args 0) (\<lambda>x. bind_res (number_series x rows) (\<lambda>left.
     bind_res (argument args 1) (\<lambda>y. bind_res (number_series y rows) (\<lambda>right.
       Inr \<lparr>kr_value = BooleanSeries (map (\<lambda>i. Some (cross_at left right i)) [0..<rows]), kr_issues = []\<rparr>))))"

definition longcross :: "runtime_value list \<Rightarrow> nat \<Rightarrow> kernel_result res" where
  "longcross args rows =
     bind_res (argument args 0) (\<lambda>x. bind_res (number_series x rows) (\<lambda>left.
     bind_res (argument args 1) (\<lambda>y. bind_res (number_series y rows) (\<lambda>right.
     bind_res (argument args 2) (\<lambda>w. bind_res (smooth_number w ''LONGCROSS window must be an integer scalar'') (\<lambda>n.
       let prior = map2 (\<lambda>a b. if both (<) a b = Some True then 1 else 0) left right;
           prefix = prefix_sums prior;
           hit = (\<lambda>index. n \<le> int index \<and> prefix ! index - prefix ! (index - nat n) = nat n
                    \<and> both (>) (left ! index) (right ! index) = Some True)
       in Inr \<lparr>kr_value = BooleanSeries (map (\<lambda>i. Some (hit i)) [0..<rows]), kr_issues = []\<rparr>))))))"

definition barslast_step :: "bool option list \<Rightarrow> nat option \<times> rat option list \<Rightarrow> nat \<Rightarrow> nat option \<times> rat option list" where
  "barslast_step condition = (\<lambda>(last, values) index.
     let last = (if condition ! index = Some True then Some index else last)
     in (last, values @ [map_option (\<lambda>i. of_nat (index - i)) last]))"

definition barslast :: "runtime_value list \<Rightarrow> nat \<Rightarrow> kernel_result res" where
  "barslast args rows =
     bind_res (argument args 0) (\<lambda>x. bind_res (condition_series x rows) (\<lambda>condition.
       Inr \<lparr>kr_value = NumberSeries (snd (foldl (barslast_step condition) (None, []) [0..<rows])), kr_issues = []\<rparr>))"

definition filter_step :: "int \<Rightarrow> bool option list \<Rightarrow> int \<times> bool option list \<Rightarrow> nat \<Rightarrow> int \<times> bool option list" where
  "filter_step n condition = (\<lambda>(blocked_through, values) index.
     if blocked_through < int index \<and> condition ! index = Some True
     then (int index + n, values @ [Some True])
     else (blocked_through, values @ [Some False]))"

definition filter_hits :: "runtime_value list \<Rightarrow> nat \<Rightarrow> kernel_result res" where
  "filter_hits args rows =
     bind_res (argument args 0) (\<lambda>x. bind_res (condition_series x rows) (\<lambda>condition.
     bind_res (argument args 1) (\<lambda>w. bind_res (smooth_number w ''FILTER window must be an integer scalar'') (\<lambda>n.
       Inr \<lparr>kr_value = BooleanSeries (snd (foldl (filter_step n condition) (- 1, []) [0..<rows])), kr_issues = []\<rparr>))))"

section \<open>Windows against their definition\<close>

text \<open>
  The reference of a window: the rows of the window that ends at row \<open>i\<close> (all rows up to \<open>i\<close> when
  \<open>n\<close> is zero), the valid values of those rows, and from them the sum, the mean and the sample standard
  deviation. \<open>None\<close> is a null cell, \<open>Some None\<close> a cell whose value exceeds the binary64 range.
\<close>

definition window_start :: "nat \<Rightarrow> nat \<Rightarrow> nat" where
  "window_start n i = (if n = 0 then 0 else i + 1 - n)"

definition window_values :: "'a option list \<Rightarrow> nat \<Rightarrow> nat \<Rightarrow> 'a list" where
  "window_values source n i = List.map_filter (\<lambda>j. source ! j) [window_start n i..<i + 1]"

definition window_mean :: "rat list \<Rightarrow> rat" where
  "window_mean vs = sum_list vs / of_nat (length vs)"

definition sample_variance :: "rat list \<Rightarrow> rat" where
  "sample_variance vs = (\<Sum>v\<leftarrow>vs. (v - window_mean vs) ^ 2) / of_nat (length vs - 1)"

text \<open>Sum and mean are rounded once; the deviation is the rounded root of the rounded variance.\<close>

definition window_reference :: "window_operation \<Rightarrow> rat option list \<Rightarrow> nat \<Rightarrow> nat \<Rightarrow> rat option option" where
  "window_reference operation source n i =
     (let vs = window_values source n i in
      case operation of
        WindowSum \<Rightarrow> if vs = [] then None else Some (round64 (sum_list vs))
      | WindowMa \<Rightarrow> if length vs = n then Some (round64 (window_mean vs)) else None
      | WindowStd \<Rightarrow> if length vs = n then Some (map_option sqrt64 (round64 (sample_variance vs))) else None)"

text \<open>Binary64 values are multiples of the unit.\<close>

lemma float64_scaled_integer:
  assumes "is_float64 x"
  obtains N where "x * of_int float_scale = of_int N"
proof -
  obtain m e where x: "x = of_int m * 2 powi e" and e: "- 1074 \<le> e"
    using assms unfolding is_float64_def by blast
  have "(of_int float_scale :: rat) = 2 powi 1074"
    unfolding float_scale_def by simp
  hence "x * of_int float_scale = of_int m * (2 powi (e + 1074))"
    unfolding x by (simp add: power_int_add)
  also have "(2::rat) powi (e + 1074) = of_int (2 ^ nat (e + 1074))"
    using e by (simp add: power_int_def)
  finally have "x * of_int float_scale = of_int (m * 2 ^ nat (e + 1074))" by simp
  thus ?thesis using that by blast
qed

lemma float_scale_pos: "0 < float_scale"
  unfolding float_scale_def by simp

lemma float64_denominator:
  assumes "is_float64 x" "quotient_of x = (p, q)"
  shows "q dvd float_scale"
proof -
  obtain N where N: "x * of_int float_scale = of_int N" using assms(1) by (rule float64_scaled_integer)
  have q: "0 < q" using assms(2) by (rule quotient_of_denom_pos)
  have cop: "coprime p q" using assms(2) by (rule quotient_of_coprime)
  have "x = of_int p / of_int q" using assms(2) by (rule quotient_of_div)
  hence "of_int p = x * of_int q" using q by (simp add: field_simps)
  hence "(of_int p * of_int float_scale :: rat) = of_int N * of_int q"
    by (simp add: N [symmetric] ac_simps)
  hence "p * float_scale = N * q" by (metis of_int_eq_iff of_int_mult)
  hence "q dvd p * float_scale" by simp
  thus ?thesis using cop by (simp add: coprime_commute coprime_dvd_mult_right_iff)
qed

lemma scaled_integers_length [simp]: "length (scaled_integers source) = length source"
  unfolding scaled_integers_def by simp

lemma scaled_integers_nth:
  assumes "i < length source" "\<And>x. source ! i = Some x \<Longrightarrow> is_float64 x"
  shows "of_int (scaled_integers source ! i) = (case source ! i of None \<Rightarrow> 0 | Some x \<Rightarrow> x * of_int float_scale)"
proof (cases "source ! i")
  case None
  thus ?thesis using assms(1) by (simp add: scaled_integers_def)
next
  case (Some x)
  obtain p q where pq: "quotient_of x = (p, q)" by (cases "quotient_of x")
  have "q dvd float_scale" using float64_denominator [OF assms(2) [OF Some] pq] .
  hence "(of_int (float_scale div q) :: rat) = of_int float_scale / of_int q" by (simp add: of_int_div)
  moreover have "x = of_int p / of_int q" using pq by (rule quotient_of_div)
  ultimately show ?thesis using assms(1) Some pq by (simp add: scaled_integers_def)
qed


text \<open>The running totals are the totals of the window.\<close>

definition rolling_start :: "nat \<Rightarrow> nat \<Rightarrow> nat" where
  "rolling_start n k = (if n = 0 then 0 else k - n)"

lemma rolling_start_Suc: "rolling_start n (Suc k) = window_start n k"
  by (simp add: rolling_start_def window_start_def)

lemma rolling_shift:
  fixes F :: "nat \<Rightarrow> 'a::ab_group_add"
  shows "sum F {rolling_start n (Suc k)..<Suc k} =
         sum F {rolling_start n k..<k} + F k - (if 0 < n \<and> n \<le> k then F (k - n) else 0)"
proof (cases "0 < n \<and> n \<le> k")
  case True
  hence less: "k - n < k" by simp
  have starts: "rolling_start n k = k - n" "rolling_start n (Suc k) = Suc (k - n)"
    using True by (auto simp: rolling_start_def)
  have "sum F {Suc (k - n)..<Suc k} = sum F {Suc (k - n)..<k} + F k"
    using less by (intro sum.atLeastLessThan_Suc) simp
  thus ?thesis
    using True sum.atLeast_Suc_lessThan [OF less, of F] by (simp only: starts) simp
next
  case False
  hence "rolling_start n k = 0" "rolling_start n (Suc k) = 0" by (auto simp: rolling_start_def)
  thus ?thesis using False by auto
qed

definition present :: "'a option list \<Rightarrow> (nat \<Rightarrow> int) \<Rightarrow> nat \<Rightarrow> int" where
  "present source F j = (if source ! j = None then 0 else F j)"

definition totals_at :: "rat option list \<Rightarrow> int list \<Rightarrow> nat \<Rightarrow> nat \<Rightarrow> window_state \<Rightarrow> bool" where
  "totals_at source scaled n k st \<longleftrightarrow>
     ws_sum st = sum (present source (\<lambda>j. scaled ! j)) {rolling_start n k..<k} \<and>
     ws_squares st = sum (present source (\<lambda>j. scaled ! j * scaled ! j)) {rolling_start n k..<k} \<and>
     int (ws_count st) = sum (present source (\<lambda>j. 1)) {rolling_start n k..<k}"

lemma present_count_pos:
  assumes "0 < n" "n \<le> k" "source ! (k - n) \<noteq> None"
  shows "1 \<le> sum (present source (\<lambda>j. 1)) {rolling_start n k..<k}"
proof -
  have "k - n \<in> {rolling_start n k..<k}" using assms(1,2) by (auto simp: rolling_start_def)
  moreover have "present source (\<lambda>j. 1) (k - n) = 1" using assms(3) by (simp add: present_def)
  ultimately show ?thesis
    using member_le_sum [of "k - n" "{rolling_start n k..<k}" "present source (\<lambda>j. 1)"] by (auto simp: present_def)
qed

lemma window_roll:
  assumes st: "totals_at source scaled n k st"
  shows "totals_at source scaled n (Suc k) (window_expire source scaled (int n) k (window_enter source scaled k st))"
proof -
  let ?expired = "0 < n \<and> n \<le> k \<and> source ! (k - n) \<noteq> None"
  have count: "?expired \<Longrightarrow> 1 \<le> int (ws_count st)"
    using st present_count_pos unfolding totals_at_def by metis
  have guard: "(0 < int n \<and> int n \<le> int k \<and> source ! (k - nat (int n)) \<noteq> None) = ?expired" by auto
  have shift: "sum (present source F) {rolling_start n (Suc k)..<Suc k} =
      sum (present source F) {rolling_start n k..<k} + present source F k
        - (if ?expired then F (k - n) else 0)" for F
    unfolding rolling_shift [of "present source F" n k] by (auto simp: present_def)
  show ?thesis
    unfolding totals_at_def window_expire_def guard shift
    using st [unfolded totals_at_def] count
    by (auto simp: window_enter_def present_def)
qed


lemma sum_list_map_filter:
  "(\<Sum>j\<leftarrow>js. case g j of None \<Rightarrow> 0 | Some x \<Rightarrow> h x) = (\<Sum>x\<leftarrow>List.map_filter g js. h x)"
  for h :: "'a \<Rightarrow> 'b::comm_monoid_add"
  by (induction js) (auto simp: List.map_filter_simps split: option.splits)

lemma window_sum_values:
  fixes h :: "'a \<Rightarrow> 'b::comm_monoid_add"
  shows "(\<Sum>j = window_start n i..<Suc i. case source ! j of None \<Rightarrow> 0 | Some x \<Rightarrow> h x) =
         (\<Sum>x\<leftarrow>window_values source n i. h x)"
  unfolding window_values_def sum_list_map_filter [symmetric]
  by (simp add: interv_sum_list_conv_sum_set_nat del: upt_Suc)

lemma window_values_length: "length (window_values source n i) \<le> Suc i - window_start n i"
  unfolding window_values_def List.map_filter_def by (simp del: upt_Suc) (metis length_filter_le length_upt)

lemma window_values_in:
  assumes "x \<in> set (window_values source n i)" "i < length source"
  shows "Some x \<in> set source"
proof -
  have "\<exists>j < Suc i. source ! j = Some x"
    using assms(1) unfolding window_values_def List.map_filter_def by (force simp del: upt_Suc)
  then obtain j where "j < Suc i" "source ! j = Some x" by blast
  moreover from this have "j < length source" using assms(2) by simp
  ultimately show ?thesis by (metis nth_mem)
qed

definition all_float64 :: "rat option list \<Rightarrow> bool" where
  "all_float64 source \<longleftrightarrow> (\<forall>x. Some x \<in> set source \<longrightarrow> is_float64 x)"

lemma all_float64_nth: "all_float64 source \<Longrightarrow> i < length source \<Longrightarrow> source ! i = Some x \<Longrightarrow> is_float64 x"
  unfolding all_float64_def by (metis nth_mem)

lemma totals_values:
  assumes st: "totals_at source (scaled_integers source) n (Suc i) st"
    and source: "all_float64 source" and i: "i < length source"
  shows "of_int (ws_sum st) = (\<Sum>x\<leftarrow>window_values source n i. x) * of_int float_scale"
    and "of_int (ws_squares st) = (\<Sum>x\<leftarrow>window_values source n i. x * x) * of_int float_scale * of_int float_scale"
    and "ws_count st = length (window_values source n i)"
proof -
  let ?s = "scaled_integers source" and ?c = "of_int float_scale :: rat"
  have scaled: "of_int (?s ! j) = (case source ! j of None \<Rightarrow> 0 | Some x \<Rightarrow> x * ?c)" if "j < Suc i" for j
  proof (rule scaled_integers_nth)
    show "j < length source" using that i by simp
    thus "is_float64 x" if "source ! j = Some x" for x using all_float64_nth [OF source] that by blast
  qed
  have "of_int (ws_sum st) = (\<Sum>j = window_start n i..<Suc i. case source ! j of None \<Rightarrow> 0 | Some x \<Rightarrow> x * ?c)"
    using st unfolding totals_at_def rolling_start_Suc
    by (auto simp: present_def scaled intro!: sum.cong split: option.splits simp del: sum.op_ivl_Suc)
  thus "of_int (ws_sum st) = (\<Sum>x\<leftarrow>window_values source n i. x) * ?c"
    unfolding window_sum_values by (simp add: sum_list_mult_const)
  have "of_int (ws_squares st) =
      (\<Sum>j = window_start n i..<Suc i. case source ! j of None \<Rightarrow> 0 | Some x \<Rightarrow> x * x * (?c * ?c))"
    using st unfolding totals_at_def rolling_start_Suc
    by (auto simp: present_def scaled intro!: sum.cong split: option.splits simp del: sum.op_ivl_Suc)
  thus "of_int (ws_squares st) = (\<Sum>x\<leftarrow>window_values source n i. x * x) * ?c * ?c"
    unfolding window_sum_values by (simp add: sum_list_mult_const [symmetric] mult.assoc)
  have "int (ws_count st) = (\<Sum>j = window_start n i..<Suc i. case source ! j of None \<Rightarrow> 0 | Some x \<Rightarrow> 1)"
    using st unfolding totals_at_def rolling_start_Suc
    by (auto simp: present_def intro!: sum.cong split: option.splits simp del: sum.op_ivl_Suc)
  thus "ws_count st = length (window_values source n i)"
    unfolding window_sum_values by (simp add: sum_list_triv)
qed

text \<open>The sample variance from the sum and the sum of squares.\<close>

lemma sum_list_deviations:
  "(\<Sum>v\<leftarrow>vs. (v - m) ^ 2) = (\<Sum>v\<leftarrow>vs. v * v) - 2 * m * (\<Sum>v\<leftarrow>vs. v) + of_nat (length vs) * m ^ 2" for m :: rat
  by (induction vs) (auto simp: algebra_simps power2_eq_square)

lemma sample_variance_totals:
  assumes "2 \<le> length vs"
  shows "sample_variance vs =
    (of_nat (length vs) * (\<Sum>v\<leftarrow>vs. v * v) - (\<Sum>v\<leftarrow>vs. v) * (\<Sum>v\<leftarrow>vs. v)) / (of_nat (length vs) * of_nat (length vs - 1))"
proof -
  let ?n = "of_nat (length vs) :: rat"
  have n: "?n \<noteq> 0" "(of_nat (length vs - 1) :: rat) \<noteq> 0" using assms by auto
  show ?thesis
    unfolding sample_variance_def sum_list_deviations window_mean_def
    using n by (simp add: field_simps power2_eq_square)
qed

lemma sample_variance_nonneg: "0 \<le> sample_variance vs"
  unfolding sample_variance_def by (intro divide_nonneg_nonneg sum_list_nonneg) auto


text \<open>One row of the kernel.\<close>

lemma window_roll_other [simp]:
  "ws_values (window_expire source scaled n k st) = ws_values st"
  "ws_overflow (window_expire source scaled n k st) = ws_overflow st"
  "ws_values (window_enter source scaled k st) = ws_values st"
  "ws_overflow (window_enter source scaled k st) = ws_overflow st"
  by (simp_all add: window_expire_def window_enter_def)

lemma totals_emit [simp]: "totals_at source scaled n k (window_emit operation m i st) = totals_at source scaled n k st"
  by (simp add: totals_at_def window_emit_def Let_def split: prod.splits option.splits)

definition window_domain :: "window_operation \<Rightarrow> nat \<Rightarrow> bool" where
  "window_domain operation n = (case operation of WindowSum \<Rightarrow> True | WindowMa \<Rightarrow> 1 \<le> n | WindowStd \<Rightarrow> 2 \<le> n)"

lemma window_full: "1 \<le> n \<Longrightarrow> length (window_values source n i) = n \<Longrightarrow> n \<le> Suc i"
  using window_values_length [of source n i] by (auto simp: window_start_def split: if_splits)

lemma window_emit_reference:
  assumes st: "totals_at source (scaled_integers source) n (Suc i) st"
    and source: "all_float64 source" and i: "i < length source" and n: "window_domain operation n"
  shows "ws_values (window_emit operation (int n) i st)
           = ws_values st @ [Option.bind (window_reference operation source n i) (\<lambda>c. c)]"
    and "ws_overflow (window_emit operation (int n) i st)
           = ws_overflow st @ (if window_reference operation source n i = Some None then [i] else [])"
proof -
  let ?vs = "window_values source n i" and ?c = "of_int float_scale :: rat"
  have c: "?c \<noteq> 0" using float_scale_pos by simp
  note t = totals_values [OF st source i]
  have sum: "of_int (ws_sum st) / ?c = sum_list ?vs" using c by (simp add: t(1))
  have ma: "of_int (ws_sum st) / of_int (float_scale * int n) = window_mean ?vs" if "length ?vs = n"
    using c that by (simp add: t(1) window_mean_def)
  have std: "of_int (max (int n * ws_squares st - ws_sum st * ws_sum st) 0)
      / of_int (int n * (int n - 1) * float_scale * float_scale) = sample_variance ?vs" (is "?l = _")
    if len: "length ?vs = n" and n2: "2 \<le> n"
  proof -
    let ?d = "(of_nat n * (of_nat n - 1)) * (?c * ?c)"
    have v: "sample_variance ?vs =
      (of_nat n * (\<Sum>v\<leftarrow>?vs. v * v) - (\<Sum>v\<leftarrow>?vs. v) * (\<Sum>v\<leftarrow>?vs. v)) / (of_nat n * (of_nat n - 1))"
      using sample_variance_totals [of ?vs] len n2 by (simp add: of_nat_diff)
    have d: "0 < ?d" using n2 c by (intro mult_pos_pos) (auto simp: float_scale_pos)
    have num: "of_int (int n * ws_squares st - ws_sum st * ws_sum st) = sample_variance ?vs * ?d"
      unfolding v using n2 by (simp add: t field_simps)
    have "0 \<le> sample_variance ?vs * ?d" using d sample_variance_nonneg [of ?vs] by simp
    hence "(0 :: rat) \<le> of_int (int n * ws_squares st - ws_sum st * ws_sum st)" by (simp only: num)
    hence nonneg: "0 \<le> int n * ws_squares st - ws_sum st * ws_sum st" by (simp only: of_int_0_le_iff)
    have "?l = of_int (int n * ws_squares st - ws_sum st * ws_sum st) / ?d"
      using nonneg by (simp add: max_absorb1 mult.assoc)
    hence "?l = sample_variance ?vs * ?d / ?d" by (simp only: num)
    thus ?thesis using d by (metis less_irrefl nonzero_mult_div_cancel_right)
  qed
  have full: "int n - 1 \<le> int i \<and> int (ws_count st) = int n \<longleftrightarrow> length ?vs = n" if "1 \<le> n"
    using window_full [OF that, of source i] t(3) by auto
  show "ws_values (window_emit operation (int n) i st)
      = ws_values st @ [Option.bind (window_reference operation source n i) (\<lambda>c. c)]"
    "ws_overflow (window_emit operation (int n) i st)
      = ws_overflow st @ (if window_reference operation source n i = Some None then [i] else [])"
    using n full sum ma std t(3) unfolding window_emit_def window_reference_def window_domain_def finite_float_def
    by (cases operation; simp add: Let_def split: option.splits)+
qed


definition window_step :: "rat option list \<Rightarrow> nat \<Rightarrow> window_operation \<Rightarrow> window_state \<Rightarrow> nat \<Rightarrow> window_state" where
  "window_step source n operation st index =
     window_emit operation (int n) index (window_expire source (scaled_integers source) (int n) index
       (window_enter source (scaled_integers source) index st))"

lemma window_fold:
  assumes source: "all_float64 source" and n: "window_domain operation n" and k: "k \<le> length source"
  shows "totals_at source (scaled_integers source) n k (foldl (window_step source n operation) window_init [0..<k]) \<and>
    ws_values (foldl (window_step source n operation) window_init [0..<k])
      = map (\<lambda>i. Option.bind (window_reference operation source n i) (\<lambda>c. c)) [0..<k] \<and>
    ws_overflow (foldl (window_step source n operation) window_init [0..<k])
      = filter (\<lambda>i. window_reference operation source n i = Some None) [0..<k]"
  using k
proof (induction k)
  case 0
  show ?case by (simp add: totals_at_def window_init_def)
next
  case (Suc k)
  let ?st = "foldl (window_step source n operation) window_init [0..<k]"
  let ?rolled = "window_expire source (scaled_integers source) (int n) k (window_enter source (scaled_integers source) k ?st)"
  have IH: "totals_at source (scaled_integers source) n k ?st"
    "ws_values ?st = map (\<lambda>i. Option.bind (window_reference operation source n i) (\<lambda>c. c)) [0..<k]"
    "ws_overflow ?st = filter (\<lambda>i. window_reference operation source n i = Some None) [0..<k]"
    using Suc by auto
  have rolled: "totals_at source (scaled_integers source) n (Suc k) ?rolled" using IH(1) by (rule window_roll)
  have "k < length source" using Suc.prems by simp
  note emit = window_emit_reference [OF rolled source this n]
  have step: "foldl (window_step source n operation) window_init [0..<Suc k] = window_emit operation (int n) k ?rolled"
    by (simp add: window_step_def)
  show ?case
    unfolding step using rolled emit by (simp add: IH(2,3))
qed

lemma exact_window_reference:
  assumes "all_float64 source" "window_domain operation n"
  shows "exact_window source (int n) operation =
    \<lparr>kr_value = NumberSeries (map (\<lambda>i. Option.bind (window_reference operation source n i) (\<lambda>c. c)) [0..<length source]),
     kr_issues = issue_at ''numeric_overflow'' (filter (\<lambda>i. window_reference operation source n i = Some None) [0..<length source])\<rparr>"
  using window_fold [OF assms order_refl] unfolding exact_window_def window_step_def [abs_def] Let_def by simp


definition reference_result :: "window_operation \<Rightarrow> rat option list \<Rightarrow> nat \<Rightarrow> kernel_result" where
  "reference_result operation source n =
    \<lparr>kr_value = NumberSeries (map (\<lambda>i. Option.bind (window_reference operation source n i) (\<lambda>c. c)) [0..<length source]),
     kr_issues = issue_at ''numeric_overflow'' (filter (\<lambda>i. window_reference operation source n i = Some None) [0..<length source])\<rparr>"

lemma windowed_reference:
  assumes "all_float64 source" "window_domain operation n"
  shows "windowed operation [NumberSeries source, Scalar (IntegerScalar (int n))] rows = Inr (reference_result operation source n)"
  using exact_window_reference [OF assms]
  by (simp add: windowed_def argument_def window_of_def reference_result_def)

section \<open>The extreme of a window\<close>

text \<open>
  The queue of \<open>_extreme\<close> is proved once for an order in which a new value may dominate an older one,
  and used for the highest and the lowest value.
\<close>

lemma set_window_values:
  "set (window_values source n i) = {x. \<exists>j. window_start n i \<le> j \<and> j < Suc i \<and> source ! j = Some x}"
  unfolding window_values_def List.map_filter_def by (force simp del: upt_Suc)

lemma pop_back:
  obtains dropped where "queue = rev (dropWhile P (rev queue)) @ dropped" "\<forall>d \<in> set dropped. P d"
    "rev (dropWhile P (rev queue)) \<noteq> [] \<Longrightarrow> \<not> P (last (rev (dropWhile P (rev queue))))"
proof
  show "queue = rev (dropWhile P (rev queue)) @ rev (takeWhile P (rev queue))"
    by (metis rev_append rev_rev_ident takeWhile_dropWhile_id)
  show "\<forall>d \<in> set (rev (takeWhile P (rev queue))). P d" by (auto dest: set_takeWhileD)
  show "\<not> P (last (rev (dropWhile P (rev queue))))" if "rev (dropWhile P (rev queue)) \<noteq> []"
    using that hd_dropWhile [of P "rev queue"] by (simp add: last_rev)
qed

lemma sorted_wrt_last: "sorted_wrt R xs \<Longrightarrow> q \<in> set xs \<Longrightarrow> q \<noteq> last xs \<Longrightarrow> R q (last xs)"
  by (induction xs) (auto split: if_splits)

lemma in_not_empty: "q \<in> set xs \<Longrightarrow> xs \<noteq> []"
  by auto

locale extreme_order =
  fixes dominated :: "rat \<Rightarrow> rat \<Rightarrow> bool"
  assumes dominated_refl: "dominated a a"
    and dominated_trans: "dominated a b \<Longrightarrow> dominated b c \<Longrightarrow> dominated a c"
    and dominated_total: "dominated a b \<or> dominated b a"
begin

definition holds_window :: "rat option list \<Rightarrow> nat \<Rightarrow> nat \<Rightarrow> nat list \<Rightarrow> bool" where
  "holds_window source lo k queue \<longleftrightarrow>
     sorted_wrt (\<lambda>a b. a < b \<and> \<not> dominated (the (source ! a)) (the (source ! b))) queue \<and>
     (\<forall>q \<in> set queue. lo \<le> q \<and> q < k \<and> source ! q \<noteq> None) \<and>
     (\<forall>j. lo \<le> j \<longrightarrow> j < k \<longrightarrow> source ! j \<noteq> None \<longrightarrow>
        (\<exists>q \<in> set queue. j \<le> q \<and> dominated (the (source ! j)) (the (source ! q))))"

lemma holds_windowI:
  assumes "sorted_wrt (\<lambda>a b. a < b \<and> \<not> dominated (the (source ! a)) (the (source ! b))) queue"
    and "\<And>q. q \<in> set queue \<Longrightarrow> lo \<le> q \<and> q < k \<and> source ! q \<noteq> None"
    and "\<And>j. lo \<le> j \<Longrightarrow> j < k \<Longrightarrow> source ! j \<noteq> None \<Longrightarrow>
        \<exists>q \<in> set queue. j \<le> q \<and> dominated (the (source ! j)) (the (source ! q))"
  shows "holds_window source lo k queue"
  using assms unfolding holds_window_def by blast

lemma holds_windowD:
  assumes "holds_window source lo k queue"
  shows "sorted_wrt (\<lambda>a b. a < b \<and> \<not> dominated (the (source ! a)) (the (source ! b))) queue"
    and "q \<in> set queue \<Longrightarrow> lo \<le> q \<and> q < k \<and> source ! q \<noteq> None"
    and "lo \<le> j \<Longrightarrow> j < k \<Longrightarrow> source ! j \<noteq> None \<Longrightarrow>
        \<exists>q \<in> set queue. j \<le> q \<and> dominated (the (source ! j)) (the (source ! q))"
  using assms unfolding holds_window_def by blast+

lemma expire_front:
  assumes "holds_window source (rolling_start n k) k queue"
  shows "holds_window source (window_start n k) k
    (if n \<noteq> 0 \<and> queue \<noteq> [] \<and> hd queue < k + 1 - n then tl queue else queue)"
proof (cases "n \<noteq> 0 \<and> queue \<noteq> [] \<and> hd queue < k + 1 - n")
  case True
  then obtain h t where q: "queue = h # t" by (cases queue) auto
  note inv = holds_windowD [OF assms [unfolded q]]
  have h: "Suc h = window_start n k" using inv(2) [of h] True q by (auto simp: rolling_start_def window_start_def)
  have tail: "h < x" if "x \<in> set t" for x using inv(1) that by simp
  have "holds_window source (window_start n k) k t"
  proof (rule holds_windowI)
    show "sorted_wrt (\<lambda>a b. a < b \<and> \<not> dominated (the (source ! a)) (the (source ! b))) t" using inv(1) by simp
    show "window_start n k \<le> x \<and> x < k \<and> source ! x \<noteq> None" if "x \<in> set t" for x
      using inv(2) [of x] tail [OF that] that h by auto
    fix j assume j: "window_start n k \<le> j" "j < k" "source ! j \<noteq> None"
    moreover have "rolling_start n k \<le> j" using j(1) by (auto simp: rolling_start_def window_start_def)
    ultimately obtain x where x: "x \<in> set (h # t)" "j \<le> x" "dominated (the (source ! j)) (the (source ! x))"
      using inv(3) by blast
    moreover have "x \<noteq> h" using x(2) j(1) h by simp
    ultimately show "\<exists>x \<in> set t. j \<le> x \<and> dominated (the (source ! j)) (the (source ! x))" by auto
  qed
  thus ?thesis using True q by simp
next
  case False
  note inv = holds_windowD [OF assms]
  have later: "window_start n k \<le> q" if qin: "q \<in> set queue" for q
  proof (cases "n = 0")
    case True thus ?thesis by (simp add: window_start_def)
  next
    case nz: False
    obtain h t where hq: "queue = h # t" using qin by (cases queue) auto
    hence "h \<le> q" using inv(1) qin by auto
    moreover have "k + 1 - n \<le> h" using False nz hq by auto
    ultimately show ?thesis using nz by (simp add: window_start_def)
  qed
  have "holds_window source (window_start n k) k queue"
  proof (rule holds_windowI)
    show "sorted_wrt (\<lambda>a b. a < b \<and> \<not> dominated (the (source ! a)) (the (source ! b))) queue" by (rule inv(1))
    show "window_start n k \<le> x \<and> x < k \<and> source ! x \<noteq> None" if "x \<in> set queue" for x
      using inv(2) [OF that] later [OF that] by blast
    show "\<exists>x \<in> set queue. j \<le> x \<and> dominated (the (source ! j)) (the (source ! x))"
      if "window_start n k \<le> j" "j < k" "source ! j \<noteq> None" for j
      using inv(3) [of j] that by (auto simp: rolling_start_def window_start_def split: if_splits)
  qed
  thus ?thesis using False by (simp only: if_False)
qed

lemma push_back:
  assumes inv: "holds_window source lo k queue" and v: "source ! k = Some v" and lo: "lo \<le> k"
  shows "holds_window source lo (Suc k) (rev (dropWhile (\<lambda>i. dominated (the (source ! i)) v) (rev queue)) @ [k])"
proof -
  note i = holds_windowD [OF inv]
  define kept where "kept = rev (dropWhile (\<lambda>i. dominated (the (source ! i)) v) (rev queue))"
  obtain dropped where split: "queue = kept @ dropped"
    and dropped: "\<forall>d \<in> set dropped. dominated (the (source ! d)) v"
    and last: "kept \<noteq> [] \<Longrightarrow> \<not> dominated (the (source ! last kept)) v"
    unfolding kept_def by (rule pop_back [of queue "\<lambda>i. dominated (the (source ! i)) v"]) blast
  have sorted: "sorted_wrt (\<lambda>a b. a < b \<and> \<not> dominated (the (source ! a)) (the (source ! b))) kept"
    using i(1) unfolding split sorted_wrt_append by blast
  have above: "\<not> dominated (the (source ! q)) v" if q: "q \<in> set kept" for q
  proof (cases "q = last kept")
    case True thus ?thesis using last [OF in_not_empty [OF q]] by simp
  next
    case False
    hence "\<not> dominated (the (source ! q)) (the (source ! last kept))" using sorted_wrt_last [OF sorted q] by blast
    thus ?thesis using last [OF in_not_empty [OF q]] dominated_trans dominated_total by blast
  qed
  have kept: "q \<in> set queue" if "q \<in> set kept" for q using that split by simp
  show ?thesis
    unfolding kept_def [symmetric]
  proof (rule holds_windowI)
    show "sorted_wrt (\<lambda>a b. a < b \<and> \<not> dominated (the (source ! a)) (the (source ! b))) (kept @ [k])"
      using sorted above v i(2) [OF kept] by (auto simp: sorted_wrt_append)
    show "lo \<le> q \<and> q < Suc k \<and> source ! q \<noteq> None" if "q \<in> set (kept @ [k])" for q
      using that i(2) [OF kept] v lo by (auto simp: less_Suc_eq)
    fix j assume j: "lo \<le> j" "j < Suc k" "source ! j \<noteq> None"
    show "\<exists>q \<in> set (kept @ [k]). j \<le> q \<and> dominated (the (source ! j)) (the (source ! q))"
    proof (cases "j = k")
      case True thus ?thesis using dominated_refl by auto
    next
      case False
      then obtain q where q: "q \<in> set queue" "j \<le> q" "dominated (the (source ! j)) (the (source ! q))"
        using i(3) j by (metis less_antisym)
      show ?thesis
      proof (cases "q \<in> set kept")
        case True thus ?thesis using q by auto
      next
        case False
        hence "q \<in> set dropped" using q(1) split by simp
        hence "dominated (the (source ! j)) v" using dropped q(3) dominated_trans by blast
        thus ?thesis using v j(2) by auto
      qed
    qed
  qed
qed


definition best_in :: "rat list \<Rightarrow> rat option \<Rightarrow> bool" where
  "best_in vs cell = (case cell of None \<Rightarrow> vs = [] | Some v \<Rightarrow> v \<in> set vs \<and> (\<forall>w \<in> set vs. dominated w v))"

lemma front_is_best:
  assumes "holds_window source (window_start n i) (Suc i) queue"
  shows "best_in (window_values source n i) (if queue = [] then None else source ! hd queue)"
proof (cases queue)
  case Nil
  hence "set (window_values source n i) = {}"
    using holds_windowD(3) [OF assms] unfolding set_window_values by fastforce
  thus ?thesis using Nil by (simp add: best_in_def)
next
  case (Cons h t)
  note inv = holds_windowD [OF assms [unfolded Cons]]
  obtain v where v: "source ! h = Some v" using inv(2) [of h] by auto
  have "v \<in> set (window_values source n i)" using inv(2) [of h] v unfolding set_window_values by auto
  moreover have "dominated w v" if w: "w \<in> set (window_values source n i)" for w
  proof -
    obtain j where j: "window_start n i \<le> j" "j < Suc i" "source ! j = Some w"
      using w unfolding set_window_values by blast
    then obtain q where q: "q \<in> set (h # t)" "dominated w (the (source ! q))" using inv(3) [of j] by auto
    have "q = h \<or> \<not> dominated v (the (source ! q))" using inv(1) q(1) v by auto
    hence "dominated (the (source ! q)) v" using v dominated_refl dominated_total by (metis option.sel)
    thus ?thesis using q(2) dominated_trans by blast
  qed
  ultimately show ?thesis using Cons v by (simp add: best_in_def)
qed

lemma holds_window_skip:
  "holds_window source lo k queue \<Longrightarrow> source ! k = None \<Longrightarrow> holds_window source lo (Suc k) queue"
  unfolding holds_window_def by (metis less_Suc_eq)

lemma extreme_step_window:
  assumes "holds_window source (rolling_start n k) k queue"
  obtains queue' cell where
    "extreme_step dominated source (int n) (queue, values) k = (queue', values @ [cell])"
    "holds_window source (rolling_start n (Suc k)) (Suc k) queue'"
    "best_in (window_values source n k) cell"
proof -
  define front where "front = (if n \<noteq> 0 \<and> queue \<noteq> [] \<and> hd queue < k + 1 - n then tl queue else queue)"
  define queue' where "queue' = (case source ! k of None \<Rightarrow> front
      | Some v \<Rightarrow> rev (dropWhile (\<lambda>i. dominated (the (source ! i)) v) (rev front)) @ [k])"
  have front: "holds_window source (window_start n k) k front"
    unfolding front_def by (rule expire_front [OF assms])
  have "n = 0 \<or> int k + 1 - int n = int (k + 1 - n) \<or> k + 1 < n" by auto
  hence guard: "(int n \<noteq> 0 \<and> queue \<noteq> [] \<and> int (hd queue) < int k + 1 - int n)
      = (n \<noteq> 0 \<and> queue \<noteq> [] \<and> hd queue < k + 1 - n)" by auto
  have step: "extreme_step dominated source (int n) (queue, values) k
      = (queue', values @ [if queue' = [] then None else source ! hd queue'])"
    unfolding extreme_step_def Let_def case_prod_conv guard front_def [symmetric] queue'_def [symmetric] ..
  have after: "holds_window source (window_start n k) (Suc k) queue'"
    unfolding queue'_def using front holds_window_skip push_back
    by (cases "source ! k") (auto simp: window_start_def)
  show ?thesis
    by (rule that [OF step _ front_is_best [OF after]]) (use after in \<open>simp add: rolling_start_Suc\<close>)
qed

lemma extreme_fold:
  "\<exists>queue values. foldl (extreme_step dominated source (int n)) ([], []) [0..<k] = (queue, values) \<and>
     holds_window source (rolling_start n k) k queue \<and> length values = k \<and>
     (\<forall>i < k. best_in (window_values source n i) (values ! i))"
proof (induction k)
  case 0
  show ?case by (simp add: holds_window_def)
next
  case (Suc k)
  then obtain queue "values" where IH:
    "foldl (extreme_step dominated source (int n)) ([], []) [0..<k] = (queue, values)"
    "holds_window source (rolling_start n k) k queue" "length values = k"
    "\<forall>i < k. best_in (window_values source n i) (values ! i)"
    by blast
  obtain queue' cell where step:
    "extreme_step dominated source (int n) (queue, values) k = (queue', values @ [cell])"
    "holds_window source (rolling_start n (Suc k)) (Suc k) queue'"
    "best_in (window_values source n k) cell"
    using IH(2) by (rule extreme_step_window)
  show ?case using IH step by (auto simp: nth_append less_Suc_eq)
qed

lemma extreme_window:
  assumes best: "\<And>vs cell. best_in vs cell \<Longrightarrow> cell = choice vs"
  shows "extreme dominated [NumberSeries source, Scalar (IntegerScalar (int n))] rows =
    Inr \<lparr>kr_value = NumberSeries (map (\<lambda>i. choice (window_values source n i)) [0..<rows]), kr_issues = []\<rparr>"
proof -
  obtain queue "values" where fold:
    "foldl (extreme_step dominated source (int n)) ([], []) [0..<rows] = (queue, values)"
    "length values = rows" "\<forall>i < rows. best_in (window_values source n i) (values ! i)"
    using extreme_fold [of source n rows] by blast
  have "values = map (\<lambda>i. choice (window_values source n i)) [0..<rows]"
    using fold(2,3) best by (intro nth_equalityI) auto
  thus ?thesis using fold(1) by (simp add: extreme_def argument_def window_of_def)
qed

end

interpretation highest: extreme_order "(\<le>)"
  by unfold_locales auto

interpretation lowest: extreme_order "(\<ge>)"
  by unfold_locales auto

definition extreme_reference :: "(rat set \<Rightarrow> rat) \<Rightarrow> rat option list \<Rightarrow> nat \<Rightarrow> nat \<Rightarrow> rat option" where
  "extreme_reference pick source n i =
     (let vs = window_values source n i in if vs = [] then None else Some (pick (set vs)))"

lemma hhv_window:
  "hhv [NumberSeries source, Scalar (IntegerScalar (int n))] rows =
     Inr \<lparr>kr_value = NumberSeries (map (extreme_reference Max source n) [0..<rows]), kr_issues = []\<rparr>"
proof -
  have "cell = (if vs = [] then None else Some (Max (set vs)))" if "highest.best_in vs cell" for vs cell
    using that by (auto simp: highest.best_in_def split: option.splits intro!: Max_eqI [symmetric])
  thus ?thesis unfolding hhv_def extreme_reference_def Let_def by (rule highest.extreme_window)
qed

lemma llv_window:
  "llv [NumberSeries source, Scalar (IntegerScalar (int n))] rows =
     Inr \<lparr>kr_value = NumberSeries (map (extreme_reference Min source n) [0..<rows]), kr_issues = []\<rparr>"
proof -
  have "cell = (if vs = [] then None else Some (Min (set vs)))" if "lowest.best_in vs cell" for vs cell
    using that by (auto simp: lowest.best_in_def split: option.splits intro!: Min_eqI [symmetric])
  thus ?thesis unfolding llv_def extreme_reference_def Let_def by (rule lowest.extreme_window)
qed

section \<open>Counts and signals\<close>

lemma prefix_sums_from_nth: "i \<le> length xs \<Longrightarrow> prefix_sums_from acc xs ! i = acc + sum_list (take i xs)"
proof (induction xs arbitrary: acc i)
  case (Cons x xs)
  thus ?case by (cases i) auto
qed simp

lemma prefix_sums_nth: "i \<le> length xs \<Longrightarrow> prefix_sums xs ! i = sum_list (take i xs)"
  by (simp add: prefix_sums_def prefix_sums_from_nth)

lemma sum_list_take_map: "i \<le> length xs \<Longrightarrow> sum_list (take i (map g xs)) = (\<Sum>j<i. g (xs ! j))" for g :: "'a \<Rightarrow> nat"
proof (induction i)
  case (Suc i)
  thus ?case by (simp add: take_Suc_conv_app_nth)
qed simp

lemma prefix_sums_difference:
  fixes g :: "'a \<Rightarrow> nat"
  assumes "a \<le> b" "b \<le> length xs"
  shows "prefix_sums (map g xs) ! b - prefix_sums (map g xs) ! a = (\<Sum>j = a..<b. g (xs ! j))"
proof -
  have "(\<Sum>j<b. g (xs ! j)) = (\<Sum>j<a. g (xs ! j)) + (\<Sum>j = a..<b. g (xs ! j))"
    using assms(1) by (metis atLeast0LessThan sum.atLeastLessThan_concat zero_le)
  thus ?thesis using assms by (simp add: prefix_sums_nth sum_list_take_map)
qed

definition count_reference :: "bool option list \<Rightarrow> nat \<Rightarrow> nat \<Rightarrow> rat option" where
  "count_reference condition n i =
     (let vs = window_values condition n i in
      if vs = [] then None else Some (of_nat (length (filter (\<lambda>b. b) vs))))"

lemma window_start_int: "(if int n = 0 then 0 else nat (max 0 (int i + 1 - int n))) = window_start n i"
  by (auto simp: window_start_def)

lemma window_start_le: "window_start n i \<le> i + 1"
  by (auto simp: window_start_def)

lemma sum_list_hits: "(\<Sum>x\<leftarrow>vs. if x then 1 else 0) = length (filter (\<lambda>b. b) vs)"
  by (induction vs) auto

lemma argument_simps [simp]:
  "argument (x # xs) 0 = Inr x" "argument (x # y # xs) 1 = Inr y" "argument (x # y # z # xs) 2 = Inr z"
  by (simp_all add: argument_def)

lemma count_window:
  assumes rows: "length condition = rows"
  shows "count_of [BooleanSeries condition, Scalar (IntegerScalar (int n))] rows =
    Inr \<lparr>kr_value = NumberSeries (map (count_reference condition n) [0..<rows]), kr_issues = []\<rparr>"
proof -
  let ?hit = "\<lambda>c. if c = Some True then 1 else 0 :: nat" and ?valid = "\<lambda>c. if c = None then 0 else 1 :: nat"
  have cell: "(if prefix_sums (map ?valid condition) ! (i + 1) - prefix_sums (map ?valid condition) ! window_start n i \<noteq> 0
       then Some (of_nat (prefix_sums (map ?hit condition) ! (i + 1) - prefix_sums (map ?hit condition) ! window_start n i))
       else None) = count_reference condition n i" if "i < rows" for i
  proof -
    let ?vs = "window_values condition n i"
    have "prefix_sums (map ?valid condition) ! (i + 1) - prefix_sums (map ?valid condition) ! window_start n i
        = (\<Sum>j = window_start n i..<i + 1. ?valid (condition ! j))"
      using that rows by (intro prefix_sums_difference window_start_le) simp
    also have "\<dots> = (\<Sum>x\<leftarrow>?vs. 1)"
      unfolding window_sum_values [symmetric] by (auto intro!: sum.cong split: option.splits simp del: sum.op_ivl_Suc)
    finally have valid: "prefix_sums (map ?valid condition) ! (i + 1) - prefix_sums (map ?valid condition) ! window_start n i
        = length ?vs" by (simp add: sum_list_triv)
    have "prefix_sums (map ?hit condition) ! (i + 1) - prefix_sums (map ?hit condition) ! window_start n i
        = (\<Sum>j = window_start n i..<i + 1. ?hit (condition ! j))"
      using that rows by (intro prefix_sums_difference window_start_le) simp
    also have "\<dots> = (\<Sum>x\<leftarrow>?vs. if x then 1 else 0)"
      unfolding window_sum_values [symmetric] by (auto intro!: sum.cong split: option.splits simp del: sum.op_ivl_Suc)
    also have "\<dots> = length (filter (\<lambda>b. b) ?vs)" by (rule sum_list_hits)
    finally have hits: "prefix_sums (map ?hit condition) ! (i + 1) - prefix_sums (map ?hit condition) ! window_start n i
        = length (filter (\<lambda>b. b) ?vs)" .
    show ?thesis unfolding valid hits count_reference_def Let_def by simp
  qed
  have cells: "map (\<lambda>index. if prefix_sums (map ?valid condition) ! (index + 1)
        - prefix_sums (map ?valid condition) ! (if int n = 0 then 0 else nat (max 0 (int index + 1 - int n))) \<noteq> 0
      then Some (of_nat (prefix_sums (map ?hit condition) ! (index + 1)
        - prefix_sums (map ?hit condition) ! (if int n = 0 then 0 else nat (max 0 (int index + 1 - int n))))) else None) [0..<rows]
      = map (count_reference condition n) [0..<rows]"
    unfolding window_start_int by (intro map_cong refl cell) simp
  show ?thesis
    by (simp only: count_of_def argument_simps condition_series_def window_of_def bind_res_simps
        runtime_value.case scalar_value.case Let_def cells)
qed

definition below_at :: "rat option list \<Rightarrow> rat option list \<Rightarrow> nat \<Rightarrow> bool" where
  "below_at left right j \<longleftrightarrow> (\<exists>a b. left ! j = Some a \<and> right ! j = Some b \<and> a < b)"

lemma both_less: "(both (<) (left ! j) (right ! j) = Some True) = below_at left right j"
  by (auto simp: both_def below_at_def split: option.splits)

lemma both_greater: "(both (>) (left ! j) (right ! j) = Some True) = below_at right left j"
  by (auto simp: both_def below_at_def split: option.splits)

definition longcross_reference :: "rat option list \<Rightarrow> rat option list \<Rightarrow> nat \<Rightarrow> nat \<Rightarrow> bool" where
  "longcross_reference left right n i \<longleftrightarrow>
     n \<le> i \<and> (\<forall>j \<in> {i - n..<i}. below_at left right j) \<and> below_at right left i"

lemma sum_indicator_full: "((\<Sum>j = a..<b. if P j then 1 else 0) = b - a) = (\<forall>j \<in> {a..<b}. P j)" for a b :: nat
proof -
  have "(\<Sum>j = a..<b. if P j then 1 else 0) = card {j \<in> {a..<b}. P j}"
    by (simp add: sum.If_cases Int_def conj_commute)
  moreover have "(card {j \<in> {a..<b}. P j} = card {a..<b}) = ({j \<in> {a..<b}. P j} = {a..<b})"
    by (metis (no_types, lifting) card_subset_eq finite_atLeastLessThan mem_Collect_eq subsetI)
  ultimately show ?thesis by auto
qed

lemma longcross_window:
  assumes "length left = rows" "length right = rows"
  shows "longcross [NumberSeries left, NumberSeries right, Scalar (IntegerScalar (int n))] rows =
    Inr \<lparr>kr_value = BooleanSeries (map (\<lambda>i. Some (longcross_reference left right n i)) [0..<rows]), kr_issues = []\<rparr>"
proof -
  let ?prior = "map2 (\<lambda>a b. if both (<) a b = Some True then 1 else 0 :: nat) left right"
  have hit: "(int n \<le> int i \<and> prefix_sums ?prior ! i - prefix_sums ?prior ! (i - nat (int n)) = nat (int n)
      \<and> both (>) (left ! i) (right ! i) = Some True) = longcross_reference left right n i" if i: "i < rows" for i
  proof (cases "n \<le> i")
    case True
    have cell: "(case zip left right ! j of (a, b) \<Rightarrow> if both (<) a b = Some True then 1 else 0)
        = (if below_at left right j then 1 else 0 :: nat)" if "j < i" for j
      using that i assms by (simp add: both_less)
    have "prefix_sums ?prior ! i - prefix_sums ?prior ! (i - n)
        = (\<Sum>j = i - n..<i. case zip left right ! j of (a, b) \<Rightarrow> if both (<) a b = Some True then 1 else 0)"
      using i assms by (intro prefix_sums_difference) simp_all
    also have "\<dots> = (\<Sum>j = i - n..<i. if below_at left right j then 1 else 0)"
      by (intro sum.cong refl cell) simp
    finally have full: "(prefix_sums ?prior ! i - prefix_sums ?prior ! (i - n) = n) = (\<forall>j \<in> {i - n..<i}. below_at left right j)"
      using sum_indicator_full [of "below_at left right" "i - n" i] True by (simp only: diff_diff_cancel)
    show ?thesis
      using True unfolding longcross_reference_def both_greater nat_int full by simp
  next
    case False
    thus ?thesis by (simp add: longcross_reference_def)
  qed
  have cells: "map (\<lambda>i. Some (int n \<le> int i \<and> prefix_sums ?prior ! i - prefix_sums ?prior ! (i - nat (int n)) = nat (int n)
      \<and> both (>) (left ! i) (right ! i) = Some True)) [0..<rows]
      = map (\<lambda>i. Some (longcross_reference left right n i)) [0..<rows]"
  proof (intro map_cong refl)
    fix i assume "i \<in> set [0..<rows]"
    hence "i < rows" by simp
    thus "Some (int n \<le> int i \<and> prefix_sums ?prior ! i - prefix_sums ?prior ! (i - nat (int n)) = nat (int n)
      \<and> both (>) (left ! i) (right ! i) = Some True) = Some (longcross_reference left right n i)"
      by (simp only: hit)
  qed
  show ?thesis
    by (simp only: longcross_def argument_simps number_series.simps smooth_number_def bind_res_simps
        runtime_value.case scalar_value.case Let_def cells)
qed

definition barslast_reference :: "bool option list \<Rightarrow> nat \<Rightarrow> rat option" where
  "barslast_reference condition i =
     (let hits = {j. j \<le> i \<and> condition ! j = Some True} in
      if hits = {} then None else Some (of_nat (i - Max hits)))"

lemma barslast_fold:
  "foldl (barslast_step condition) (None, []) [0..<k] =
     ((let hits = {j. j < k \<and> condition ! j = Some True} in if hits = {} then None else Some (Max hits)),
      map (barslast_reference condition) [0..<k])"
proof (induction k)
  case (Suc k)
  have hits: "{j. j < Suc k \<and> condition ! j = Some True} =
      (if condition ! k = Some True then insert k {j. j < k \<and> condition ! j = Some True}
       else {j. j < k \<and> condition ! j = Some True})"
    by (auto simp: less_Suc_eq)
  have top: "Max (insert k {j. j < k \<and> condition ! j = Some True}) = k" by (intro Max_eqI) auto
  show ?case
    using Suc by (simp add: barslast_step_def barslast_reference_def hits top less_Suc_eq_le [symmetric] Let_def)
      (auto simp: less_Suc_eq)
qed simp

lemma barslast_window:
  "barslast [BooleanSeries condition] rows =
     Inr \<lparr>kr_value = NumberSeries (map (barslast_reference condition) [0..<rows]), kr_issues = []\<rparr>"
  by (simp add: barslast_def argument_def condition_series_def barslast_fold)

text \<open>A hit of \<open>FILTER\<close> is a true row with no hit among the \<open>n\<close> rows before it.\<close>

definition filtered :: "bool option list \<Rightarrow> nat \<Rightarrow> bool list \<Rightarrow> bool" where
  "filtered condition n hits \<longleftrightarrow>
     (\<forall>i < length hits. hits ! i = (condition ! i = Some True \<and> (\<forall>j < i. hits ! j \<longrightarrow> n < i - j)))"

lemma filter_fold:
  "\<exists>blocked hits. foldl (filter_step (int n) condition) (- 1, []) [0..<k] = (blocked, map Some hits) \<and>
     length hits = k \<and> filtered condition n hits \<and>
     (\<forall>i. blocked < int i \<longleftrightarrow> (\<forall>j < k. hits ! j \<longrightarrow> j + n < i))"
proof (induction k)
  case 0
  show ?case by (auto simp: filtered_def)
next
  case (Suc k)
  then obtain blocked hits where IH:
    "foldl (filter_step (int n) condition) (- 1, []) [0..<k] = (blocked, map Some hits)"
    "length hits = k" "filtered condition n hits" "\<And>i. blocked < int i \<longleftrightarrow> (\<forall>j < k. hits ! j \<longrightarrow> j + n < i)"
    by blast
  let ?hit = "blocked < int k \<and> condition ! k = Some True"
  have filtered: "filtered condition n (hits @ [?hit])"
    unfolding filtered_def
  proof (intro allI impI)
    fix i assume "i < length (hits @ [?hit])"
    then consider "i < k" | "i = k" using IH(2) by (auto simp: less_Suc_eq)
    thus "(hits @ [?hit]) ! i = (condition ! i = Some True \<and> (\<forall>j < i. (hits @ [?hit]) ! j \<longrightarrow> n < i - j))"
    proof cases
      case 1
      thus ?thesis using IH(2,3) unfolding filtered_def by (simp add: nth_append)
    next
      case 2
      thus ?thesis using IH(2) IH(4) [of k] by (auto simp: nth_append less_diff_conv add.commute)
    qed
  qed
  have blocked: "(if ?hit then int k + int n else blocked) < int i \<longleftrightarrow> (\<forall>j < Suc k. (hits @ [?hit]) ! j \<longrightarrow> j + n < i)" for i
    using IH(2) IH(4) [of i] IH(4) [of k] by (auto simp: nth_append less_Suc_eq)
  have "foldl (filter_step (int n) condition) (- 1, []) [0..<Suc k]
      = (if ?hit then int k + int n else blocked, map Some (hits @ [?hit]))"
    using IH(1) by (simp add: filter_step_def)
  thus ?case using IH(2) filtered blocked by (metis length_append_singleton)
qed

lemma filter_window:
  obtains hits where
    "filter_hits [BooleanSeries condition, Scalar (IntegerScalar (int n))] rows =
       Inr \<lparr>kr_value = BooleanSeries (map Some hits), kr_issues = []\<rparr>"
    "length hits = rows" "filtered condition n hits"
  using filter_fold [of n condition rows] that
  by (auto simp: filter_hits_def argument_def condition_series_def smooth_number_def)


section \<open>Properties of the kernels\<close>

lemma float64_of_int: "\<bar>m\<bar> \<le> 2 ^ 53 \<Longrightarrow> is_float64 (of_int m)"
proof -
  assume m: "\<bar>m\<bar> \<le> 2 ^ 53"
  have "\<bar>of_int m :: rat\<bar> = of_int \<bar>m\<bar>" by simp
  also have "\<dots> \<le> of_int (2 ^ 53)" using m by (simp only: of_int_le_iff)
  also have "\<dots> < (2 :: rat) ^ 1024" by simp
  finally have "\<bar>of_int m :: rat\<bar> < 2 ^ 1024" .
  thus ?thesis using m unfolding is_float64_def by (intro exI [of _ m] exI [of _ 0]) simp
qed

text \<open>
  C32. The running sums of \<open>SUM\<close>, \<open>MA\<close> and \<open>STD\<close> are exact. On binary64 input the incremental kernels give,
  row by row and issue by issue, a direct computation on the window: the sum of the valid values of the last
  \<open>n\<close> rows (of all rows when \<open>n\<close> is zero) and the mean of a window whose \<open>n\<close> rows are all valid, each rounded
  once; and the binary64 square root of the exact sample variance of such a window rounded to binary64. The
  deviation is so rounded twice and need not be the binary64 value nearest to the exact one. A row whose sum,
  mean or, for \<open>STD\<close>, variance exceeds the binary64 range when rounded is null and is counted in the overflow
  issue, for \<open>STD\<close> also where the deviation itself would be representable.
\<close>

theorem windows_match_reference:
  assumes "all_float64 source"
  shows "total_of [NumberSeries source, Scalar (IntegerScalar (int n))] rows = Inr (reference_result WindowSum source n)
    \<and> (1 \<le> n \<longrightarrow> ma [NumberSeries source, Scalar (IntegerScalar (int n))] rows = Inr (reference_result WindowMa source n))
    \<and> (2 \<le> n \<longrightarrow> std [NumberSeries source, Scalar (IntegerScalar (int n))] rows = Inr (reference_result WindowStd source n))"
  using windowed_reference [OF assms]
  by (simp add: total_of_def ma_def std_def window_domain_def)

theorem windows_match_reference_witness:
  "all_float64 [Some 1, None, Some 2, Some 4] \<and>
   ma [NumberSeries [Some 1, None, Some 2, Some 4], Scalar (IntegerScalar (int 2))] 4
     = Inr (reference_result WindowMa [Some 1, None, Some 2, Some 4] 2) \<and>
   window_values [Some 1, None, Some 2, Some (4 :: rat)] 2 3 = [2, 4] \<and>
   window_values [Some 1, None, Some 2, Some (4 :: rat)] 2 2 = [2] \<and>
   std [NumberSeries [Some 1, None, Some 2, Some 4], Scalar (IntegerScalar (int 2))] 4
     = Inr (reference_result WindowStd [Some 1, None, Some 2, Some 4] 2) \<and>
   window_reference WindowStd [Some 1, None, Some 2, Some 4] 2 3 = Some (map_option sqrt64 (round64 2))"
proof -
  have "is_float64 1" "is_float64 2" "is_float64 4"
    using float64_of_int [of 1] float64_of_int [of 2] float64_of_int [of 4] by simp_all
  hence f: "all_float64 [Some 1, None, Some 2, Some 4]" by (auto simp: all_float64_def)
  have v: "window_values [Some 1, None, Some 2, Some (4 :: rat)] 2 3 = [2, 4]"
    "window_values [Some 1, None, Some 2, Some (4 :: rat)] 2 2 = [2]"
    by (simp_all add: window_values_def window_start_def List.map_filter_simps upt_rec)
  have "window_reference WindowStd [Some 1, None, Some 2, Some 4] 2 3 = Some (map_option sqrt64 (round64 2))"
    by (simp add: window_reference_def v sample_variance_def window_mean_def)
  with v show ?thesis using f windows_match_reference [OF f, of 2 4] by simp
qed

text \<open>
  C33. The monotonic queue of \<open>HHV\<close> and \<open>LLV\<close> is correct: each row is the greatest (least) valid value of the last
  \<open>n\<close> rows, or of all rows so far when \<open>n\<close> is zero, and null only when the window has no valid value.
\<close>

theorem extremes_match_reference:
  "hhv [NumberSeries source, Scalar (IntegerScalar (int n))] rows =
     Inr \<lparr>kr_value = NumberSeries (map (extreme_reference Max source n) [0..<rows]), kr_issues = []\<rparr>
   \<and> llv [NumberSeries source, Scalar (IntegerScalar (int n))] rows =
     Inr \<lparr>kr_value = NumberSeries (map (extreme_reference Min source n) [0..<rows]), kr_issues = []\<rparr>"
  by (simp only: hhv_window llv_window)

text \<open>
  C34. The prefix sums of \<open>COUNT\<close> and \<open>LONGCROSS\<close> count what they should: \<open>COUNT\<close> gives the number of true rows
  among the valid rows of its window and is null when there are none, \<open>LONGCROSS\<close> is true exactly where the
  \<open>n\<close> rows before are all strictly below and the row itself is strictly above.
\<close>

theorem counted_signals_match_reference:
  assumes "length condition = rows" "length left = rows" "length right = rows"
  shows "count_of [BooleanSeries condition, Scalar (IntegerScalar (int n))] rows =
      Inr \<lparr>kr_value = NumberSeries (map (count_reference condition n) [0..<rows]), kr_issues = []\<rparr>
    \<and> longcross [NumberSeries left, NumberSeries right, Scalar (IntegerScalar (int n))] rows =
      Inr \<lparr>kr_value = BooleanSeries (map (\<lambda>i. Some (longcross_reference left right n i)) [0..<rows]), kr_issues = []\<rparr>"
  using assms by (simp only: count_window longcross_window)

theorem counted_signals_match_reference_witness:
  "count_of [BooleanSeries [Some True, None, Some False], Scalar (IntegerScalar (int 2))] 3 =
      Inr \<lparr>kr_value = NumberSeries (map (count_reference [Some True, None, Some False] 2) [0..<3]), kr_issues = []\<rparr>
    \<and> longcross [NumberSeries [Some 1, Some 1, Some 5], NumberSeries [Some 2, Some 2, Some 2], Scalar (IntegerScalar (int 2))] 3 =
      Inr \<lparr>kr_value = BooleanSeries (map (\<lambda>i. Some (longcross_reference [Some 1, Some 1, Some 5] [Some 2, Some 2, Some 2] 2 i)) [0..<3]),
        kr_issues = []\<rparr>
    \<and> longcross_reference [Some 1, Some 1, Some 5] [Some 2, Some 2, Some 2] 2 2"
proof -
  have "longcross_reference [Some 1, Some 1, Some 5] [Some 2, Some 2, Some 2] 2 2"
    by (auto simp: longcross_reference_def below_at_def less_Suc_eq numeral_2_eq_2)
  thus ?thesis
    using counted_signals_match_reference [of "[Some True, None, Some False]" 3
        "[Some 1, Some 1, Some 5]" "[Some 2, Some 2, Some 2]" 2] by simp
qed

text \<open>
  C35. The stateful signals have their documented meaning: \<open>BARSLAST\<close> is the distance to the last true row and null
  before the first one; \<open>FILTER\<close> has one value per row, true exactly on the true rows with no hit among
  the \<open>n\<close> rows before, a null condition never being a hit.
\<close>

theorem stateful_signals_match_reference:
  "barslast [BooleanSeries condition] rows =
      Inr \<lparr>kr_value = NumberSeries (map (barslast_reference condition) [0..<rows]), kr_issues = []\<rparr>
    \<and> (\<exists>hits. filter_hits [BooleanSeries condition, Scalar (IntegerScalar (int n))] rows =
            Inr \<lparr>kr_value = BooleanSeries (map Some hits), kr_issues = []\<rparr>
          \<and> length hits = rows \<and> filtered condition n hits)"
  using filter_window [of condition n rows] barslast_window by metis

end
