(* ===== verification/Formula_Registry.thy ===== *)
theory Formula_Registry
  imports Formula_Kernels "HOL-Library.Product_Lexorder" "HOL-Library.List_Lexorder" "HOL-Library.Char_ord"
begin

text \<open>
  The compatibility registry of the formula language (\<open>formula/functions\<close>), the syntax tree it validates
  (\<open>formula/ast.py\<close>) and the dispatcher that guards the kernels by the registry's metadata
  (\<open>formula/runtime/dispatch.py\<close>). The Chinese documentation texts of the specs and of the diagnostics carry
  no behaviour and are left out.
\<close>

section \<open>Identifiers\<close>

definition max_identifier_chars :: nat where "max_identifier_chars = 64"

definition upper_char :: "char \<Rightarrow> bool" where "upper_char c \<longleftrightarrow> CHR ''A'' \<le> c \<and> c \<le> CHR ''Z''"

definition identifier_pattern :: "string \<Rightarrow> bool" where
  "identifier_pattern s \<longleftrightarrow>
     (case s of [] \<Rightarrow> False
      | c # rest \<Rightarrow> upper_char c \<and> length rest \<le> max_identifier_chars - 1
          \<and> list_all (\<lambda>d. upper_char d \<or> (CHR ''0'' \<le> d \<and> d \<le> CHR ''9'') \<or> d = CHR ''_'') rest)"

definition upper_ascii :: "string \<Rightarrow> string" where
  "upper_ascii s = map (\<lambda>c. if CHR ''a'' \<le> c \<and> c \<le> CHR ''z'' then char_of ((of_char c :: nat) - 32) else c) s"

section \<open>Function and field specifications\<close>

datatype value_kind = ScalarKind | IntegerKind | NumberKind | BooleanKind

text \<open>\<open>VALUE_KIND_HIERARCHY\<close>: an integer scalar is a scalar.\<close>

definition accepts_value_kind :: "value_kind list \<Rightarrow> value_kind \<Rightarrow> bool" where
  "accepts_value_kind accepted actual \<longleftrightarrow>
     actual \<in> set accepted \<or> (actual = IntegerKind \<and> ScalarKind \<in> set accepted)"

datatype future_behavior = CurrentOnly | PastOnly | Future | Repainting

record parameter_spec =
  pm_name :: string
  pm_accepted :: "value_kind list"
  pm_required :: bool
  pm_constant :: bool
  pm_minimum :: "int option"
  pm_maximum :: "int option"

record relation_spec =
  rl_left :: string
  rl_operator :: string
  rl_right :: string

record function_spec =
  fn_name :: string
  fn_category :: string
  fn_future :: future_behavior
  fn_parameters :: "parameter_spec list"
  fn_result :: value_kind
  fn_dispatch :: string
  fn_relations :: "relation_spec list"

record field_spec =
  fd_name :: string
  fd_canonical :: string
  fd_value_type :: value_kind
  fd_source :: string
  fd_unit :: string
  fd_numerator :: int
  fd_denominator :: int

definition require_identifier :: "string \<Rightarrow> string \<Rightarrow> unit res" where
  "require_identifier s label =
     (if identifier_pattern s then Inr () else Inl (ValueError (label @ '' must match the canonical identifier grammar'')))"

definition check_parameter_spec :: "parameter_spec \<Rightarrow> unit res" where
  "check_parameter_spec p =
     then_res (require_identifier (pm_name p) ''parameter identifier'')
       (if pm_accepted p = [] \<or> \<not> distinct (pm_accepted p)
        then Inl (ValueError ''parameter accepted value kinds must be unique and non-empty'')
        else case (pm_minimum p, pm_maximum p) of
            (Some lo, Some hi) \<Rightarrow> if hi < lo then Inl (ValueError ''parameter bounds are inconsistent'') else Inr ()
          | _ \<Rightarrow> Inr ())"

definition check_relation_spec :: "relation_spec \<Rightarrow> unit res" where
  "check_relation_spec r =
     then_res (require_identifier (rl_left r) ''relation left identifier'')
       (require_identifier (rl_right r) ''relation right identifier'')"

definition dispatch_pattern :: "string \<Rightarrow> bool" where
  "dispatch_pattern s \<longleftrightarrow>
     (let lower = (\<lambda>c. CHR ''a'' \<le> c \<and> c \<le> CHR ''z'') in
      case s of [] \<Rightarrow> False
      | c # rest \<Rightarrow> lower c
          \<and> list_all (\<lambda>d. lower d \<or> (CHR ''0'' \<le> d \<and> d \<le> CHR ''9'') \<or> d = CHR ''_'' \<or> d = CHR ''.'') rest)"

fun check_parameter_order :: "bool \<Rightarrow> string list \<Rightarrow> parameter_spec list \<Rightarrow> string list res" where
  "check_parameter_order optional_seen names [] = Inr names"
| "check_parameter_order optional_seen names (p # ps) =
     (let optional_seen = optional_seen \<or> \<not> pm_required p in
      if optional_seen \<and> pm_required p then Inl (ValueError ''required parameters cannot follow optional parameters'')
      else if pm_name p \<in> set names then Inl (ValueError ''parameter identifiers must be unique'')
      else check_parameter_order optional_seen (pm_name p # names) ps)"

definition check_function_spec :: "function_spec \<Rightarrow> unit res" where
  "check_function_spec f =
     then_res (require_identifier (fn_name f) ''function identifier'')
     (if \<not> dispatch_pattern (fn_dispatch f) then Inl (ValueError ''dispatch key is invalid'')
      else bind_res (check_parameter_order False [] (fn_parameters f)) (\<lambda>names.
        if list_ex (\<lambda>r. rl_left r \<notin> set names \<or> rl_right r \<notin> set names) (fn_relations f)
        then Inl (ValueError ''relations must reference declared parameters'') else Inr ()))"

definition check_field_spec :: "field_spec \<Rightarrow> unit res" where
  "check_field_spec f =
     then_res (require_identifier (fd_name f) ''field identifier'')
     (then_res (require_identifier (fd_canonical f) ''canonical field identifier'')
     (then_res (require_identifier (fd_source f) ''source field identifier'')
       (if fd_numerator f \<le> 0 \<or> fd_denominator f \<le> 0 then Inl (ValueError ''field scale must be positive'') else Inr ())))"

definition min_args :: "function_spec \<Rightarrow> nat" where
  "min_args f = length (filter pm_required (fn_parameters f))"

definition max_args :: "function_spec \<Rightarrow> nat" where
  "max_args f = length (fn_parameters f)"

section \<open>The registry\<close>

record registry =
  rg_version :: string
  rg_functions :: "function_spec list"
  rg_fields :: "field_spec list"

definition make_registry :: "string \<Rightarrow> function_spec list \<Rightarrow> field_spec list \<Rightarrow> registry res" where
  "make_registry version function_specs field_specs =
     (if list_all py_space version then Inl (ValueError ''compatibility registry version is required'')
      else if function_specs = [] \<or> field_specs = [] then Inl (ValueError ''compatibility registry cannot be empty'')
      else if \<not> distinct (map fn_name function_specs) then Inl (ValueError ''function names must be unique'')
      else if \<not> distinct (map fd_name field_specs) then Inl (ValueError ''field names must be unique'')
      else if \<not> distinct (map fn_dispatch function_specs) then Inl (ValueError ''function dispatch keys must be unique'')
      else Inr \<lparr>rg_version = version, rg_functions = function_specs, rg_fields = field_specs\<rparr>)"

definition function_named :: "registry \<Rightarrow> string \<Rightarrow> function_spec option" where
  "function_named registry name = List.find (\<lambda>f. fn_name f = name) (rg_functions registry)"

text \<open>\<open>None\<close> is the \<open>KeyError\<close> that the callers catch.\<close>

definition function_of :: "registry \<Rightarrow> string \<Rightarrow> function_spec option" where
  "function_of registry name = function_named registry (upper_ascii name)"

definition field_of :: "registry \<Rightarrow> string \<Rightarrow> field_spec option" where
  "field_of registry name = List.find (\<lambda>f. fd_name f = upper_ascii name) (rg_fields registry)"

definition field_names :: "registry \<Rightarrow> string list" where
  "field_names registry = sort (map fd_name (rg_fields registry))"

section \<open>The functions of tdx-v1\<close>

definition param :: "string \<Rightarrow> value_kind list \<Rightarrow> bool \<Rightarrow> int option \<Rightarrow> parameter_spec" where
  "param name kinds constant minimum =
     \<lparr>pm_name = name, pm_accepted = kinds, pm_required = True, pm_constant = constant, pm_minimum = minimum, pm_maximum = None\<rparr>"

definition series_kinds :: "value_kind list" where "series_kinds = [ScalarKind, NumberKind]"

definition condition_kinds :: "value_kind list" where "condition_kinds = [ScalarKind, BooleanKind, NumberKind]"

definition x_param :: parameter_spec where "x_param = param ''X'' series_kinds False None"

definition window_param :: "bool \<Rightarrow> int \<Rightarrow> parameter_spec" where
  "window_param zero_means_all minimum = param ''N'' [IntegerKind] False (Some (if zero_means_all then 0 else minimum))"

definition make_spec :: "string \<Rightarrow> string \<Rightarrow> future_behavior \<Rightarrow> parameter_spec list \<Rightarrow> value_kind \<Rightarrow> string \<Rightarrow> function_spec" where
  "make_spec name category future parameters result dispatch =
     \<lparr>fn_name = name, fn_category = category, fn_future = future, fn_parameters = parameters, fn_result = result,
      fn_dispatch = dispatch, fn_relations = []\<rparr>"

definition series_functions :: "function_spec list" where
  "series_functions =
    [make_spec ''REF'' ''series'' PastOnly [x_param, param ''N'' [IntegerKind] False (Some 0)] NumberKind ''series.ref'',
     make_spec ''MA'' ''series'' PastOnly [x_param, window_param False 1] NumberKind ''series.ma'',
     make_spec ''EMA'' ''series'' PastOnly [x_param, window_param False 1] NumberKind ''series.ema'',
     (make_spec ''SMA'' ''series'' PastOnly [x_param, window_param False 1, param ''M'' [IntegerKind] False (Some 1)] NumberKind ''series.sma'')
       \<lparr>fn_relations := [\<lparr>rl_left = ''M'', rl_operator = ''<='', rl_right = ''N''\<rparr>]\<rparr>,
     make_spec ''HHV'' ''series'' PastOnly [x_param, window_param True 1] NumberKind ''series.hhv'',
     make_spec ''LLV'' ''series'' PastOnly [x_param, window_param True 1] NumberKind ''series.llv'',
     make_spec ''SUM'' ''series'' PastOnly [x_param, window_param True 1] NumberKind ''series.sum'',
     make_spec ''COUNT'' ''series'' PastOnly [param ''X'' condition_kinds False None, window_param True 1] NumberKind ''series.count'']"

definition statistics_functions :: "function_spec list" where
  "statistics_functions =
    [make_spec ''ABS'' ''math'' CurrentOnly [x_param] NumberKind ''math.abs'',
     make_spec ''MAX'' ''math'' CurrentOnly [x_param, param ''Y'' series_kinds False None] NumberKind ''math.max'',
     make_spec ''MIN'' ''math'' CurrentOnly [x_param, param ''Y'' series_kinds False None] NumberKind ''math.min'',
     make_spec ''STD'' ''statistics'' PastOnly [x_param, param ''N'' [IntegerKind] False (Some 2)] NumberKind ''statistics.std'',
     make_spec ''IF'' ''logic'' CurrentOnly
       [param ''CONDITION'' condition_kinds False None, param ''A'' series_kinds False None, param ''B'' series_kinds False None]
       NumberKind ''logic.if'']"

definition signal_functions :: "function_spec list" where
  "signal_functions =
    [make_spec ''CROSS'' ''signal'' PastOnly [x_param, param ''Y'' series_kinds False None] BooleanKind ''signal.cross'',
     make_spec ''LONGCROSS'' ''signal'' PastOnly
       [x_param, param ''Y'' series_kinds False None, param ''N'' [IntegerKind] True (Some 1)] BooleanKind ''signal.longcross'',
     make_spec ''BARSLAST'' ''signal'' PastOnly [param ''X'' condition_kinds False None] NumberKind ''signal.barslast'',
     make_spec ''FILTER'' ''signal'' PastOnly
       [param ''X'' condition_kinds False None, param ''N'' [IntegerKind] True (Some 1)] BooleanKind ''signal.filter'']"

definition make_field :: "string \<Rightarrow> string \<Rightarrow> string \<Rightarrow> int \<Rightarrow> field_spec" where
  "make_field name canonical unit denominator =
     \<lparr>fd_name = name, fd_canonical = canonical, fd_value_type = NumberKind, fd_source = canonical, fd_unit = unit,
      fd_numerator = 1, fd_denominator = denominator\<rparr>"

definition registry_fields :: "field_spec list" where
  "registry_fields =
    [make_field ''OPEN'' ''OPEN'' ''price'' 1, make_field ''O'' ''OPEN'' ''price'' 1,
     make_field ''HIGH'' ''HIGH'' ''price'' 1, make_field ''H'' ''HIGH'' ''price'' 1,
     make_field ''LOW'' ''LOW'' ''price'' 1, make_field ''L'' ''LOW'' ''price'' 1,
     make_field ''CLOSE'' ''CLOSE'' ''price'' 1, make_field ''C'' ''CLOSE'' ''price'' 1,
     make_field ''VOLUME'' ''VOLUME'' ''shares'' 1, make_field ''VOL'' ''VOLUME'' ''hands'' 100,
     make_field ''V'' ''VOLUME'' ''hands'' 100]"

definition compatibility_version :: string where "compatibility_version = ''tdx-v1''"

definition v1_registry :: registry where
  "v1_registry = \<lparr>rg_version = compatibility_version,
     rg_functions = series_functions @ statistics_functions @ signal_functions, rg_fields = registry_fields\<rparr>"


section \<open>The syntax tree\<close>

record source_span =
  sp_line :: nat
  sp_column :: nat
  sp_end_line :: nat
  sp_end_column :: nat

text \<open>A numeric literal is the exact value of its \<open>Decimal\<close>.\<close>

datatype expression =
    Number rat source_span
  | String string source_span
  | Name string source_span
  | Unary string expression source_span
  | Binary expression string expression source_span
  | Call string "expression list" source_span

fun expression_span :: "expression \<Rightarrow> source_span" where
  "expression_span (Number _ loc) = loc"
| "expression_span (String _ loc) = loc"
| "expression_span (Name _ loc) = loc"
| "expression_span (Unary _ _ loc) = loc"
| "expression_span (Binary _ _ _ loc) = loc"
| "expression_span (Call _ _ loc) = loc"

record statement =
  sm_name :: string
  sm_expression :: expression
  sm_visible :: bool
  sm_span :: source_span

record program =
  pg_statements :: "statement list"
  pg_span :: source_span

section \<open>Validation of a program\<close>

text \<open>The traversal of \<open>_expressions\<close>: \<open>pending\<close> is its stack, the next expression first.\<close>

fun children :: "expression \<Rightarrow> expression list" where
  "children (Call _ arguments _) = arguments"
| "children (Binary left _ right _) = [left, right]"
| "children (Unary _ operand _) = [operand]"
| "children _ = []"

lemma children_size: "(\<Sum>c\<leftarrow>children e. Suc (2 * size c)) < Suc (2 * size e)"
proof -
  have le: "(\<Sum>c\<leftarrow>es. Suc (2 * size c)) \<le> Suc (2 * size_list size es)" for es :: "expression list"
    by (induction es) auto
  show ?thesis
  proof (cases e)
    case (Call name arguments loc)
    thus ?thesis using le [of arguments] by simp
  qed simp_all
qed

function expressions :: "expression list \<Rightarrow> expression list" where
  "expressions [] = []"
| "expressions (e # pending) = e # expressions (children e @ pending)"
  by pat_completeness auto

termination expressions
proof (relation "measure (\<lambda>pending. \<Sum>c\<leftarrow>pending. Suc (2 * size c))")
  show "(children e @ pending, e # pending) \<in> measure (\<lambda>pending. \<Sum>c\<leftarrow>pending. Suc (2 * size c))"
    for e pending using children_size [of e] by simp
qed simp

record formula_diagnostic =
  dg_code :: string
  dg_name :: string
  dg_function :: "string option"
  dg_identifier :: "string option"
  dg_span :: source_span

definition call_diagnostic :: "string \<Rightarrow> source_span \<Rightarrow> string \<Rightarrow> formula_diagnostic" where
  "call_diagnostic function loc code =
     \<lparr>dg_code = code, dg_name = function, dg_function = Some function, dg_identifier = None, dg_span = loc\<rparr>"

definition identifier_diagnostic :: "string \<Rightarrow> source_span \<Rightarrow> string \<Rightarrow> formula_diagnostic" where
  "identifier_diagnostic name loc code =
     \<lparr>dg_code = code, dg_name = name, dg_function = None, dg_identifier = Some name, dg_span = loc\<rparr>"

definition expression_diagnostics :: "registry \<Rightarrow> string set \<Rightarrow> expression \<Rightarrow> formula_diagnostic list" where
  "expression_diagnostics registry known e =
     (case e of
        Call function arguments loc \<Rightarrow>
          (case function_named registry function of
             None \<Rightarrow> [call_diagnostic function loc ''unsupported_function'']
           | Some spec \<Rightarrow>
               if \<not> (min_args spec \<le> length arguments \<and> length arguments \<le> max_args spec)
               then [call_diagnostic function loc ''invalid_argument_count''] else [])
      | Name identifier loc \<Rightarrow>
          if identifier \<notin> known then [identifier_diagnostic identifier loc ''unknown_identifier''] else []
      | _ \<Rightarrow> [])"

fun statement_diagnostics ::
  "registry \<Rightarrow> string set \<Rightarrow> string list \<Rightarrow> statement list \<Rightarrow> formula_diagnostic list" where
  "statement_diagnostics registry parameters declared [] = []"
| "statement_diagnostics registry parameters declared (s # ss) =
     (let known = set (field_names registry) \<union> set declared \<union> parameters;
          nested = concat (map (expression_diagnostics registry known) (expressions [sm_expression s]));
          name = sm_name s
      in nested @
        (if name \<in> set declared
         then identifier_diagnostic name (sm_span s) ''duplicate_declaration''
           # statement_diagnostics registry parameters declared ss
         else if name \<in> set (field_names registry) \<or> name \<in> parameters
         then identifier_diagnostic name (sm_span s) ''identifier_conflict''
           # statement_diagnostics registry parameters declared ss
         else statement_diagnostics registry parameters (name # declared) ss))"

definition validate_program :: "registry \<Rightarrow> program \<Rightarrow> string list \<Rightarrow> formula_diagnostic list res" where
  "validate_program registry program parameter_names =
     (let parameters = map upper_ascii parameter_names in
      if list_ex (\<lambda>n. \<not> identifier_pattern n) parameters
      then Inl (ValueError ''parameter names must match the canonical identifier grammar'')
      else Inr (sort_key (\<lambda>d. (sp_line (dg_span d), sp_column (dg_span d), dg_code d, dg_name d))
             (statement_diagnostics registry (set parameters) [] (pg_statements program))))"

section \<open>Dispatch\<close>

definition max_lookback :: int where "max_lookback = 100000"

definition max_bar_series_rows :: nat where "max_bar_series_rows = 100000"

definition kernel_abs :: "runtime_value list \<Rightarrow> nat \<Rightarrow> kernel_result res" where
  "kernel_abs args rows = bind_res (argument args 0) (\<lambda>x. unary_number ''ABS'' x rows)"

definition kernel_max :: "runtime_value list \<Rightarrow> nat \<Rightarrow> kernel_result res" where
  "kernel_max args rows =
     bind_res (argument args 0) (\<lambda>x. bind_res (argument args 1) (\<lambda>y. binary_number ''MAX'' x y rows))"

definition kernel_min :: "runtime_value list \<Rightarrow> nat \<Rightarrow> kernel_result res" where
  "kernel_min args rows =
     bind_res (argument args 0) (\<lambda>x. bind_res (argument args 1) (\<lambda>y. binary_number ''MIN'' x y rows))"

definition kernel_if :: "runtime_value list \<Rightarrow> nat \<Rightarrow> kernel_result res" where
  "kernel_if args rows =
     bind_res (argument args 0) (\<lambda>c. bind_res (argument args 1) (\<lambda>x. bind_res (argument args 2) (\<lambda>y.
       choose_value c x y rows)))"

definition kernels :: "(string \<times> (runtime_value list \<Rightarrow> nat \<Rightarrow> kernel_result res)) list" where
  "kernels =
    [(''math.abs'', kernel_abs), (''math.max'', kernel_max), (''math.min'', kernel_min), (''logic.if'', kernel_if),
     (''series.ref'', ref), (''series.ma'', ma), (''series.ema'', ema), (''series.sma'', sma), (''series.hhv'', hhv),
     (''series.llv'', llv), (''series.sum'', total_of), (''series.count'', count_of), (''statistics.std'', std),
     (''signal.cross'', cross), (''signal.longcross'', longcross), (''signal.barslast'', barslast),
     (''signal.filter'', filter_hits)]"

definition spec_for :: "string \<Rightarrow> function_spec option" where
  "spec_for key = List.find (\<lambda>f. fn_dispatch f = key) (rg_functions v1_registry)"

fun kind_of :: "runtime_value \<Rightarrow> value_kind" where
  "kind_of (Scalar (IntegerScalar _)) = IntegerKind"
| "kind_of (Scalar (NumberScalar _)) = ScalarKind"
| "kind_of (NumberSeries _) = NumberKind"
| "kind_of (BooleanSeries _) = BooleanKind"

fun series_length :: "runtime_value \<Rightarrow> nat option" where
  "series_length (Scalar _) = None"
| "series_length (NumberSeries s) = Some (length s)"
| "series_length (BooleanSeries s) = Some (length s)"

definition check_scalar :: "parameter_spec \<Rightarrow> rat \<Rightarrow> unit res" where
  "check_scalar p v =
     (if (case pm_minimum p of Some lo \<Rightarrow> v < of_int lo | None \<Rightarrow> False)
      then Inl (KernelInputError ''kernel scalar is below its minimum'')
      else if (case pm_maximum p of Some hi \<Rightarrow> of_int hi < v | None \<Rightarrow> False)
      then Inl (KernelInputError ''kernel scalar exceeds its maximum'')
      else if pm_name p = ''N'' \<and> of_int max_lookback < v
      then Inl (KernelInputError ''kernel lookback exceeds its maximum'')
      else Inr ())"

definition check_argument ::
  "parameter_spec \<Rightarrow> runtime_value \<Rightarrow> nat \<Rightarrow> (string \<rightharpoonup> rat) \<Rightarrow> (string \<rightharpoonup> rat) res" where
  "check_argument p a rows scalars =
     (if \<not> accepts_value_kind (pm_accepted p) (kind_of a) then Inl (KernelInputError ''kernel argument kind is invalid'')
      else case a of
        Scalar v \<Rightarrow> then_res (check_scalar p (scalar_number v)) (Inr (scalars(pm_name p \<mapsto> scalar_number v)))
      | _ \<Rightarrow>
          if series_length a \<noteq> Some rows then Inl (KernelInputError ''kernel series length does not match row count'')
          else if pm_constant p then Inl (KernelInputError ''kernel constant argument must be scalar'')
          else Inr scalars)"

fun check_arguments ::
  "parameter_spec list \<Rightarrow> runtime_value list \<Rightarrow> nat \<Rightarrow> (string \<rightharpoonup> rat) \<Rightarrow> (string \<rightharpoonup> rat) res" where
  "check_arguments [] [] rows scalars = Inr scalars"
| "check_arguments (p # ps) (a # as) rows scalars =
     bind_res (check_argument p a rows scalars) (\<lambda>scalars. check_arguments ps as rows scalars)"
| "check_arguments _ _ rows scalars = Inl (ValueError ''zip() arguments differ in length'')"

definition relation_holds :: "string \<Rightarrow> rat \<Rightarrow> rat \<Rightarrow> bool" where
  "relation_holds operator l r =
     (if operator = ''<='' then l \<le> r else if operator = ''<'' then l < r
      else if operator = ''>='' then l \<ge> r else if operator = ''>'' then l > r else l = r)"

definition check_relation :: "(string \<rightharpoonup> rat) \<Rightarrow> relation_spec \<Rightarrow> unit res" where
  "check_relation scalars r =
     (case (scalars (rl_left r), scalars (rl_right r)) of
        (Some a, Some b) \<Rightarrow>
          if relation_holds (rl_operator r) a b then Inr () else Inl (KernelInputError ''kernel scalar relation is invalid'')
      | _ \<Rightarrow> Inl (KernelInputError ''kernel relation requires scalar arguments''))"

definition preflight :: "string \<Rightarrow> runtime_value list \<Rightarrow> nat \<Rightarrow> unit res" where
  "preflight key args rows =
     (if max_bar_series_rows < rows then Inl (KernelInputError ''kernel row count is outside the public limit'')
      else case spec_for key of
        None \<Rightarrow> Inl (KernelInputError ''formula dispatch key is not registered'')
      | Some spec \<Rightarrow>
          if \<not> (min_args spec \<le> length args \<and> length args \<le> max_args spec)
          then Inl (KernelInputError ''kernel argument count is invalid'')
          else bind_res (check_arguments (fn_parameters spec) args rows Map.empty) (\<lambda>scalars.
            each (check_relation scalars) (fn_relations spec)))"

definition postflight :: "string \<Rightarrow> kernel_result \<Rightarrow> nat \<Rightarrow> unit res" where
  "postflight key result rows =
     (case spec_for key of
        None \<Rightarrow> Inl (RuntimeError ''KeyError'')
      | Some spec \<Rightarrow>
          if kind_of (kr_value result) \<noteq> fn_result spec
          then Inl (KernelInputError ''kernel result kind does not match metadata'')
          else if series_length (kr_value result) \<noteq> Some rows
          then Inl (KernelInputError ''kernel result length does not match row count'')
          else if list_ex (\<lambda>i. \<not> (0 < ri_count i \<and> ri_count i \<le> rows \<and> ri_first_index i < rows)) (kr_issues result)
          then Inl (KernelInputError ''kernel issue is outside the input rows'')
          else Inr ())"

definition execute_kernel :: "string \<Rightarrow> runtime_value list \<Rightarrow> nat \<Rightarrow> kernel_result res" where
  "execute_kernel key args rows =
     then_res (preflight key args rows)
       (case map_of kernels key of
          None \<Rightarrow> Inl (RuntimeError ''KeyError'')
        | Some run \<Rightarrow>
            bind_res (run args rows) (\<lambda>result. then_res (postflight key result rows) (Inr result)))"

end
