(* ===== verification/Formula_Compiler.thy ===== *)
theory Formula_Compiler
  imports Formula_Registry
begin

text \<open>
  The compiler of the formula language (\<open>formula/compiler.py\<close>): syntax tree and bound parameters to the typed
  expressions that the evaluator and the temporal analysis walk. The grammar is parsed by a third-party library,
  so the parsed program is what compilation starts from; a source text is its UTF-8 encoding.
\<close>

section \<open>Compiled expressions\<close>

datatype reference_source = FieldSource | ParameterSource | DeclarationSource

datatype compiled =
    LiteralExpression scalar_value value_kind source_span
  | ReferenceExpression string reference_source value_kind source_span
  | UnaryExpression string compiled value_kind source_span
  | BinaryExpression string compiled compiled value_kind source_span
  | CallExpression string string "compiled list" value_kind source_span

fun compiled_kind :: "compiled \<Rightarrow> value_kind" where
  "compiled_kind (LiteralExpression _ k _) = k"
| "compiled_kind (ReferenceExpression _ _ k _) = k"
| "compiled_kind (UnaryExpression _ _ k _) = k"
| "compiled_kind (BinaryExpression _ _ _ k _) = k"
| "compiled_kind (CallExpression _ _ _ k _) = k"

fun compiled_span :: "compiled \<Rightarrow> source_span" where
  "compiled_span (LiteralExpression _ _ loc) = loc"
| "compiled_span (ReferenceExpression _ _ _ loc) = loc"
| "compiled_span (UnaryExpression _ _ _ loc) = loc"
| "compiled_span (BinaryExpression _ _ _ _ loc) = loc"
| "compiled_span (CallExpression _ _ _ _ loc) = loc"

record compiled_statement =
  cs_name :: string
  cs_expression :: compiled
  cs_kind :: value_kind
  cs_visible :: bool
  cs_span :: source_span

text \<open>A bound parameter: its kind is the constructor of its value.\<close>

type_synonym bindings = "(string \<times> scalar_value) list"

record compiled_formula =
  cf_checksum :: string
  cf_compatibility_version :: string
  cf_engine_version :: string
  cf_statements :: "compiled_statement list"
  cf_numeric_outputs :: "string list"
  cf_signal_outputs :: "string list"
  cf_bindings :: bindings

text \<open>
  What leaves a compilation: a diagnostic with its place (the Chinese message of a registry diagnostic is left
  out), an exceeded limit, or an exception of the Python code.
\<close>

datatype compile_error =
    CompileError string string source_span "string option"
  | LimitError string nat
  | SyntaxError string source_span
  | PyError exn

type_synonym 'a compile_res = "compile_error + 'a"

fun of_res :: "'a res \<Rightarrow> 'a compile_res" where
  "of_res (Inl e) = Inl (PyError e)"
| "of_res (Inr x) = Inr x"

fun scalar_kind :: "scalar_value \<Rightarrow> value_kind" where
  "scalar_kind (IntegerScalar _) = IntegerKind"
| "scalar_kind (NumberScalar _) = ScalarKind"

section \<open>Expressions\<close>

definition max_integer :: int where "max_integer = 2 ^ 53"

text \<open>
  \<open>number\<close> is the exact value of the \<open>Decimal\<close>. The compiler also calls it with \<open>Decimal(str(raw))\<close> of a
  number that is already bound: the text of a binary64 value reads back as that value and is integral exactly
  when the value is, so it is called here with the value.
\<close>

definition literal :: "rat \<Rightarrow> source_span \<Rightarrow> compiled compile_res" where
  "literal number loc =
     (case round64 number of
        None \<Rightarrow> Inl (CompileError ''invalid_number'' ''numeric literal is not finite float64'' loc None)
      | Some v \<Rightarrow>
          if number = of_int \<lfloor>number\<rfloor> \<and> \<bar>number\<bar> \<le> of_int max_integer
          then Inr (LiteralExpression (IntegerScalar \<lfloor>number\<rfloor>) IntegerKind loc)
          else Inr (LiteralExpression (NumberScalar v) ScalarKind loc))"

fun constant_of :: "compiled \<Rightarrow> scalar_value option" where
  "constant_of (LiteralExpression v _ _) = Some v"
| "constant_of _ = None"

fun negate_scalar :: "scalar_value \<Rightarrow> scalar_value" where
  "negate_scalar (IntegerScalar i) = IntegerScalar (- i)"
| "negate_scalar (NumberScalar v) = NumberScalar (- v)"

definition signed_scalar :: "string \<Rightarrow> scalar_value \<Rightarrow> scalar_value" where
  "signed_scalar operator v = (if operator = ''+'' then v else negate_scalar v)"

text \<open>A parameter reference is compiled only for a bound parameter.\<close>

fun constraint_value :: "compiled \<Rightarrow> bindings \<Rightarrow> scalar_value option" where
  "constraint_value (LiteralExpression v _ _) parameters = Some v"
| "constraint_value (ReferenceExpression name source _ _) parameters =
     (if source = ParameterSource then map_of parameters name else None)"
| "constraint_value (UnaryExpression operator operand _ _) parameters =
     (if operator \<in> {''+'', ''-''} then map_option (signed_scalar operator) (constraint_value operand parameters) else None)"
| "constraint_value _ parameters = None"

definition maximum_of :: "parameter_spec \<Rightarrow> int option" where
  "maximum_of p =
     (case pm_maximum p of Some hi \<Rightarrow> Some (min hi max_lookback)
      | None \<Rightarrow> if pm_name p = ''N'' then Some max_lookback else None)"

definition below_minimum :: "parameter_spec \<Rightarrow> rat \<Rightarrow> bool" where
  "below_minimum p v = (case pm_minimum p of Some lo \<Rightarrow> v < of_int lo | None \<Rightarrow> False)"

definition above_maximum :: "parameter_spec \<Rightarrow> rat \<Rightarrow> bool" where
  "above_maximum p v = (case maximum_of p of Some hi \<Rightarrow> of_int hi < v | None \<Rightarrow> False)"

definition validate_argument ::
  "function_spec \<Rightarrow> bindings \<Rightarrow> parameter_spec \<Rightarrow> compiled \<Rightarrow> (string \<rightharpoonup> rat) \<Rightarrow> (string \<rightharpoonup> rat) compile_res" where
  "validate_argument f parameters p a constants =
     (let fail = (\<lambda>code message. Inl (CompileError code (''argument '' @ pm_name p @ message) (compiled_span a) (Some (fn_name f))))
      in if \<not> accepts_value_kind (pm_accepted p) (compiled_kind a) then fail ''invalid_type'' '' has an invalid type''
         else case constraint_value a parameters of
           None \<Rightarrow> if pm_constant p then fail ''constant_required'' '' must be constant'' else Inr constants
         | Some v \<Rightarrow>
             if below_minimum p (scalar_number v)
             then fail (if fn_name f = ''REF'' \<and> pm_name p = ''N'' then ''future_data'' else ''argument_out_of_range'')
                    '' is below its minimum''
             else if above_maximum p (scalar_number v) then fail ''argument_out_of_range'' '' exceeds its maximum''
             else Inr (constants(pm_name p \<mapsto> scalar_number v)))"

fun validate_each ::
  "function_spec \<Rightarrow> bindings \<Rightarrow> parameter_spec list \<Rightarrow> compiled list \<Rightarrow> (string \<rightharpoonup> rat) \<Rightarrow> (string \<rightharpoonup> rat) compile_res" where
  "validate_each f parameters [] [] constants = Inr constants"
| "validate_each f parameters (p # ps) (a # as) constants =
     bind_res (validate_argument f parameters p a constants) (\<lambda>constants. validate_each f parameters ps as constants)"
| "validate_each f parameters _ _ constants = Inl (PyError (ValueError ''zip() arguments differ in length''))"

definition relation_violated :: "(string \<rightharpoonup> rat) \<Rightarrow> relation_spec \<Rightarrow> bool" where
  "relation_violated constants r =
     (case (constants (rl_left r), constants (rl_right r)) of
        (Some a, Some b) \<Rightarrow> \<not> relation_holds (rl_operator r) a b
      | _ \<Rightarrow> False)"

definition validate_arguments :: "function_spec \<Rightarrow> bindings \<Rightarrow> compiled list \<Rightarrow> source_span \<Rightarrow> unit compile_res" where
  "validate_arguments f parameters arguments loc =
     bind_res (validate_each f parameters (fn_parameters f) arguments Map.empty) (\<lambda>constants.
       if list_ex (relation_violated constants) (fn_relations f)
       then Inl (CompileError ''invalid_argument_relation'' ''function argument relation is invalid'' loc (Some (fn_name f)))
       else Inr ())"

definition numeric_kinds :: "value_kind set" where "numeric_kinds = {ScalarKind, IntegerKind, NumberKind}"

definition comparison_operators :: "string set" where
  "comparison_operators = {''='', ''=='', ''<>'', ''!='', ''<'', ''<='', ''>'', ''>=''}"

definition compile_name ::
  "registry \<Rightarrow> bindings \<Rightarrow> (string \<rightharpoonup> value_kind) \<Rightarrow> string \<Rightarrow> source_span \<Rightarrow> compiled compile_res" where
  "compile_name registry parameters env name loc =
     (if name \<in> set (field_names registry) then Inr (ReferenceExpression name FieldSource NumberKind loc)
      else case map_of parameters name of
        Some v \<Rightarrow> Inr (ReferenceExpression name ParameterSource (scalar_kind v) loc)
      | None \<Rightarrow>
          (case env name of
             Some k \<Rightarrow> Inr (ReferenceExpression name DeclarationSource k loc)
           | None \<Rightarrow> Inl (CompileError ''unknown_identifier'' ''identifier is not available in source order'' loc None)))"

definition compile_unary :: "string \<Rightarrow> compiled \<Rightarrow> source_span \<Rightarrow> compiled compile_res" where
  "compile_unary operator operand loc =
     (if operator \<in> {''+'', ''-''} then
        if compiled_kind operand \<notin> numeric_kinds
        then Inl (CompileError ''invalid_type'' ''numeric unary operator requires a number'' loc None)
        else case constant_of operand of
            Some v \<Rightarrow> literal (scalar_number (signed_scalar operator v)) loc
          | None \<Rightarrow> Inr (UnaryExpression operator operand (compiled_kind operand) loc)
      else Inr (UnaryExpression ''NOT'' operand BooleanKind loc))"

definition compile_binary :: "string \<Rightarrow> compiled \<Rightarrow> compiled \<Rightarrow> source_span \<Rightarrow> compiled compile_res" where
  "compile_binary operator left right loc =
     (if operator \<in> {''AND'', ''OR''} then Inr (BinaryExpression operator left right BooleanKind loc)
      else if compiled_kind left \<notin> numeric_kinds \<or> compiled_kind right \<notin> numeric_kinds
      then Inl (CompileError ''invalid_type'' ''operator requires numeric operands'' loc None)
      else if operator \<in> comparison_operators then Inr (BinaryExpression operator left right BooleanKind loc)
      else Inr (BinaryExpression operator left right NumberKind loc))"

fun compile_expression ::
  "registry \<Rightarrow> bindings \<Rightarrow> (string \<rightharpoonup> value_kind) \<Rightarrow> expression \<Rightarrow> compiled compile_res"
and compile_all ::
  "registry \<Rightarrow> bindings \<Rightarrow> (string \<rightharpoonup> value_kind) \<Rightarrow> expression list \<Rightarrow> compiled list compile_res" where
  "compile_expression registry parameters env (Number value loc) = literal value loc"
| "compile_expression registry parameters env (String _ loc) =
     Inl (CompileError ''invalid_type'' ''string literals are data only and cannot be evaluated'' loc None)"
| "compile_expression registry parameters env (Name name loc) = compile_name registry parameters env name loc"
| "compile_expression registry parameters env (Unary operator operand loc) =
     bind_res (compile_expression registry parameters env operand) (\<lambda>operand. compile_unary operator operand loc)"
| "compile_expression registry parameters env (Binary left operator right loc) =
     bind_res (compile_expression registry parameters env left) (\<lambda>left.
     bind_res (compile_expression registry parameters env right) (\<lambda>right. compile_binary operator left right loc))"
| "compile_expression registry parameters env (Call name arguments loc) =
     (case function_of registry name of
        None \<Rightarrow> Inl (CompileError ''unsupported_function'' ''function is not in the compatibility registry'' loc (Some name))
      | Some f \<Rightarrow>
          bind_res (compile_all registry parameters env arguments) (\<lambda>arguments.
          if \<not> (min_args f \<le> length arguments \<and> length arguments \<le> max_args f)
          then Inl (CompileError ''invalid_argument_count'' ''function argument count is invalid'' loc None)
          else then_res (validate_arguments f parameters arguments loc)
                 (Inr (CallExpression (fn_name f) (fn_dispatch f) arguments (fn_result f) loc))))"
| "compile_all registry parameters env [] = Inr []"
| "compile_all registry parameters env (e # es) =
     bind_res (compile_expression registry parameters env e) (\<lambda>c.
     bind_res (compile_all registry parameters env es) (\<lambda>cs. Inr (c # cs)))"

section \<open>Programs\<close>

definition max_parameters :: nat where "max_parameters = 64"

definition max_source_bytes :: nat where "max_source_bytes = 64000"

definition max_public_outputs :: nat where "max_public_outputs = 32"

definition engine_version :: string where "engine_version = ''formula-engine-v1''"

definition formula_source_checksum :: "(string \<Rightarrow> string) \<Rightarrow> string \<Rightarrow> string res" where
  "formula_source_checksum sha256 source =
     (if max_source_bytes < length source then Inl (ValueError ''formula source exceeds source byte limit'')
      else Inr (''sha256:'' @ sha256 source))"

definition canonical_parameter_name :: "registry \<Rightarrow> string \<Rightarrow> bool" where
  "canonical_parameter_name registry name \<longleftrightarrow>
     identifier_pattern name \<and> name = upper_ascii name \<and> name \<notin> set (field_names registry)"

text \<open>\<open>parameters\<close> are the items of a mapping, so the names are distinct.\<close>

definition canonical_parameters :: "bindings \<Rightarrow> registry \<Rightarrow> bindings compile_res" where
  "canonical_parameters parameters registry =
     (if max_parameters < length parameters then Inl (LimitError ''parameters'' max_parameters)
      else if list_ex (\<lambda>(name, _). \<not> canonical_parameter_name registry name) parameters
      then Inl (PyError (ValueError ''formula parameter name is not canonical''))
      else Inr (sort_key fst parameters))"

record compile_state =
  co_env :: "string \<rightharpoonup> value_kind"
  co_statements :: "compiled_statement list"
  co_numeric :: "string list"
  co_signals :: "string list"

definition compile_output :: "statement \<Rightarrow> compiled \<Rightarrow> compile_state \<Rightarrow> compile_state compile_res" where
  "compile_output s e st =
     (if sm_name s \<in> {''BUY'', ''SELL''} then
        if \<not> sm_visible s \<or> compiled_kind e \<noteq> BooleanKind
        then Inl (CompileError ''invalid_signal_output'' ''BUY and SELL must be visible boolean outputs'' (sm_span s) None)
        else Inr (st\<lparr>co_signals := co_signals st @ [sm_name s]\<rparr>)
      else if sm_visible s then
        if compiled_kind e = BooleanKind
        then Inl (CompileError ''invalid_output_type'' ''public non-signal outputs must be numeric'' (sm_span s) None)
        else if max_public_outputs < length (co_numeric st) + 1
        then Inl (CompileError ''output_limit_exceeded'' ''public numeric output limit exceeded'' (sm_span s) None)
        else Inr (st\<lparr>co_numeric := co_numeric st @ [sm_name s]\<rparr>)
      else Inr st)"

definition compile_statement :: "registry \<Rightarrow> bindings \<Rightarrow> compile_state \<Rightarrow> statement \<Rightarrow> compile_state compile_res" where
  "compile_statement registry parameters st s =
     bind_res (compile_expression registry parameters (co_env st) (sm_expression s)) (\<lambda>e.
     bind_res (compile_output s e st) (\<lambda>st.
       Inr (st\<lparr>co_statements := co_statements st
                 @ [\<lparr>cs_name = sm_name s, cs_expression = e, cs_kind = compiled_kind e, cs_visible = sm_visible s, cs_span = sm_span s\<rparr>],
               co_env := (co_env st)(sm_name s \<mapsto> compiled_kind e)\<rparr>)))"

definition compile_start :: compile_state where
  "compile_start = \<lparr>co_env = Map.empty, co_statements = [], co_numeric = [], co_signals = []\<rparr>"

definition compile_program ::
  "registry \<Rightarrow> bindings \<Rightarrow> program \<Rightarrow> string compile_res \<Rightarrow> compiled_formula compile_res" where
  "compile_program registry parameters program checksum =
     (case List.find (\<lambda>s. \<not> identifier_pattern (sm_name s)) (pg_statements program) of
        Some s \<Rightarrow> Inl (CompileError ''invalid_identifier'' ''formula declaration identifier is not canonical'' (sm_span s) None)
      | None \<Rightarrow>
          bind_res (of_res (validate_program registry program (map fst parameters))) (\<lambda>diagnostics.
          case diagnostics of
            d # _ \<Rightarrow> Inl (CompileError (dg_code d) [] (dg_span d) (dg_function d))
          | [] \<Rightarrow>
              bind_res (run_res (compile_statement registry parameters) compile_start (pg_statements program)) (\<lambda>st.
              if co_signals st \<noteq> [] \<and> set (co_signals st) \<noteq> {''BUY'', ''SELL''}
              then Inl (CompileError ''incomplete_signal_pair'' ''trading formulas require both visible BUY and SELL outputs''
                     (pg_span program) None)
              else bind_res checksum (\<lambda>checksum. Inr \<lparr>cf_checksum = checksum, cf_compatibility_version = rg_version registry,
                cf_engine_version = engine_version, cf_statements = co_statements st,
                cf_numeric_outputs = co_numeric st,
                cf_signal_outputs = (if co_signals st \<noteq> [] then [''BUY'', ''SELL''] else []),
                cf_bindings = parameters\<rparr>))))"

definition compile_formula ::
  "(string \<Rightarrow> program compile_res) \<Rightarrow> (string \<Rightarrow> string) \<Rightarrow> registry \<Rightarrow> bindings \<Rightarrow> string \<Rightarrow> compiled_formula compile_res" where
  "compile_formula parse sha256 registry parameters source =
     bind_res (canonical_parameters parameters registry) (\<lambda>canonical.
     bind_res (parse source) (\<lambda>program.
       compile_program registry canonical program (of_res (formula_source_checksum sha256 source))))"

end
