(* ===== verification/Formula_Analysis.thy ===== *)
theory Formula_Analysis
  imports Formula_Compiler
begin

text \<open>
  The temporal analysis of a compiled formula (\<open>formula/analysis.py\<close>): which rows a statement can read, relative to
  the row it computes, the structural inspection of a compiled formula, and the resource budget of
  \<open>formula/validator.py\<close>. The three \<open>blocks\<close> flags of a temporal diagnostic are always true and are left out.
\<close>

section \<open>Dependencies\<close>

text \<open>\<open>td_min = None\<close> is an unbounded past.\<close>

record temporal_dependency =
  td_min :: "int option"
  td_max :: int
  td_data :: bool

definition current_row :: temporal_dependency where
  "current_row = \<lparr>td_min = Some 0, td_max = 0, td_data = True\<rparr>"

definition configuration :: temporal_dependency where
  "configuration = \<lparr>td_min = Some 0, td_max = 0, td_data = False\<rparr>"

record temporal_diagnostic =
  tg_code :: string
  tg_function :: "string option"
  tg_span :: source_span
  tg_explanation :: string

datatype temporal_rule =
  CurrentRule | RefRule | BoundedWindow | ZeroUnboundedWindow | UnboundedRecursive | CrossRule | LongcrossRule

definition temporal_rules :: "(string \<times> temporal_rule) list" where
  "temporal_rules =
    [(''math.abs'', CurrentRule), (''math.max'', CurrentRule), (''math.min'', CurrentRule), (''logic.if'', CurrentRule),
     (''series.ref'', RefRule), (''series.ma'', BoundedWindow), (''statistics.std'', BoundedWindow),
     (''series.hhv'', ZeroUnboundedWindow), (''series.llv'', ZeroUnboundedWindow), (''series.sum'', ZeroUnboundedWindow),
     (''series.count'', ZeroUnboundedWindow), (''series.ema'', UnboundedRecursive), (''series.sma'', UnboundedRecursive),
     (''signal.barslast'', UnboundedRecursive), (''signal.filter'', UnboundedRecursive), (''signal.cross'', CrossRule),
     (''signal.longcross'', LongcrossRule)]"

definition dispatch_work_weight :: "string \<Rightarrow> nat" where
  "dispatch_work_weight key =
     (if map_of temporal_rules key = None then 32
      else if key \<in> {''series.ma'', ''series.sum'', ''statistics.std''} then 32
      else if key \<in> {''series.ema'', ''series.sma'', ''series.hhv'', ''series.llv'', ''series.count''} then 8
      else if take 7 key = ''signal.'' then 4 else 2)"

definition combine :: "temporal_dependency list \<Rightarrow> temporal_dependency" where
  "combine values =
     (let data = filter td_data values in
      if data = [] then configuration
      else \<lparr>td_min = (if list_ex (\<lambda>d. td_min d = None) data then None else Some (Min (set (map (the \<circ> td_min) data)))),
            td_max = Max (set (map td_max data)), td_data = True\<rparr>)"

definition shift_by :: "temporal_dependency \<Rightarrow> int \<Rightarrow> temporal_dependency" where
  "shift_by d amount =
     (if \<not> td_data d then d
      else \<lparr>td_min = map_option (\<lambda>m. m + amount) (td_min d), td_max = td_max d + amount, td_data = True\<rparr>)"

definition extend_past :: "temporal_dependency \<Rightarrow> int option \<Rightarrow> temporal_dependency" where
  "extend_past d bars =
     (if \<not> td_data d then d
      else \<lparr>td_min = (case (bars, td_min d) of (Some b, Some m) \<Rightarrow> Some (m - b) | _ \<Rightarrow> None), td_max = td_max d, td_data = True\<rparr>)"

text \<open>Python's \<open>int\<close> truncates towards zero.\<close>

definition truncated :: "rat \<Rightarrow> int" where
  "truncated v = (if 0 \<le> v then \<lfloor>v\<rfloor> else \<lceil>v\<rceil>)"

fun scalar_value_of :: "compiled \<Rightarrow> (string \<rightharpoonup> rat) \<Rightarrow> rat option" where
  "scalar_value_of (LiteralExpression v _ _) bound = Some (scalar_number v)"
| "scalar_value_of (ReferenceExpression name source _ _) bound = (if source = ParameterSource then bound name else None)"
| "scalar_value_of (UnaryExpression operator operand _ _) bound =
     (if operator \<in> {''+'', ''-''}
      then map_option (\<lambda>v. if operator = ''+'' then v else - v) (scalar_value_of operand bound) else None)"
| "scalar_value_of _ bound = None"

definition bound_scalars :: "bindings \<Rightarrow> string \<rightharpoonup> rat" where
  "bound_scalars bs = map_option scalar_number \<circ> map_of bs"

text \<open>
  The arguments of a call are read by position; \<open>inspect_compiled_structure\<close> has rejected calls with
  another number of arguments before the analysis walks them.
\<close>

definition call_dependency ::
  "string \<Rightarrow> compiled list \<Rightarrow> temporal_dependency list \<Rightarrow> (string \<rightharpoonup> rat) \<Rightarrow> temporal_dependency" where
  "call_dependency key operands arguments bound =
     (let value = (\<lambda>i. scalar_value_of (operands ! i) bound) in
      case map_of temporal_rules key of
        Some CurrentRule \<Rightarrow> combine arguments
      | Some RefRule \<Rightarrow>
          (case value 1 of Some n \<Rightarrow> shift_by (arguments ! 0) (- truncated n) | None \<Rightarrow> arguments ! 0)
      | Some BoundedWindow \<Rightarrow>
          extend_past (arguments ! 0) (map_option (\<lambda>n. truncated n - 1) (value 1))
      | Some ZeroUnboundedWindow \<Rightarrow>
          extend_past (arguments ! 0)
            (case value 1 of Some n \<Rightarrow> if truncated n = 0 then None else Some (truncated n - 1) | None \<Rightarrow> None)
      | Some CrossRule \<Rightarrow> extend_past (combine (take 2 arguments)) (Some 1)
      | Some LongcrossRule \<Rightarrow> extend_past (combine (take 2 arguments)) (map_option truncated (value 2))
      | Some UnboundedRecursive \<Rightarrow> extend_past (arguments ! 0) None
      | None \<Rightarrow> combine arguments)"

definition unsafe :: "string \<Rightarrow> string option \<Rightarrow> source_span \<Rightarrow> string \<Rightarrow> temporal_diagnostic" where
  "unsafe code name loc explanation =
     \<lparr>tg_code = code, tg_function = name, tg_span = loc, tg_explanation = explanation\<rparr>"

text \<open>What a call adds to the diagnostics of its arguments, given the metadata of its function.\<close>

definition call_diagnosis ::
  "function_spec \<Rightarrow> string \<Rightarrow> string \<Rightarrow> source_span \<Rightarrow> temporal_dependency \<Rightarrow> temporal_diagnostic list
    \<Rightarrow> temporal_dependency \<times> temporal_diagnostic list" where
  "call_diagnosis f name key loc dependency diagnostics =
     (let (dependency, diagnostics) =
        (if map_of temporal_rules key = None
         then (dependency, diagnostics @ [unsafe ''unknown_temporal_rule'' (Some name) loc
                 ''Function has no reviewed dependency propagation rule.''])
         else case fn_future f of
             Future \<Rightarrow>
               (\<lparr>td_min = (if td_data dependency then td_min dependency else Some 0), td_max = max 1 (td_max dependency), td_data = True\<rparr>,
                diagnostics @ [unsafe ''future_data'' (Some name) loc ''Function metadata declares a future data dependency.''])
           | Repainting \<Rightarrow>
               (dependency, diagnostics @ [unsafe ''repainting'' (Some name) loc ''Function metadata allows historical values to repaint.''])
           | _ \<Rightarrow> (dependency, diagnostics))
      in (dependency,
          if 0 < td_max dependency \<and> \<not> list_ex (\<lambda>d. tg_code d = ''future_data'' \<and> tg_function d = Some name) diagnostics
          then diagnostics @ [unsafe ''future_data'' (Some name) loc ''Function dependency reaches a future bar.'']
          else diagnostics))"

fun expression_dependency ::
  "registry \<Rightarrow> (string \<rightharpoonup> rat) \<Rightarrow> (string \<rightharpoonup> temporal_dependency) \<Rightarrow> compiled
    \<Rightarrow> temporal_dependency \<times> temporal_diagnostic list"
and expression_dependencies ::
  "registry \<Rightarrow> (string \<rightharpoonup> rat) \<Rightarrow> (string \<rightharpoonup> temporal_dependency) \<Rightarrow> compiled list
    \<Rightarrow> temporal_dependency list \<times> temporal_diagnostic list" where
  "expression_dependency registry bound declared (LiteralExpression _ _ _) = (configuration, [])"
| "expression_dependency registry bound declared (ReferenceExpression name source _ _) =
     (case source of
        DeclarationSource \<Rightarrow> (the (declared name), [])
      | ParameterSource \<Rightarrow> (configuration, [])
      | FieldSource \<Rightarrow> (current_row, []))"
| "expression_dependency registry bound declared (UnaryExpression _ operand _ _) =
     expression_dependency registry bound declared operand"
| "expression_dependency registry bound declared (BinaryExpression _ left right _ _) =
     (let (l, l_diagnostics) = expression_dependency registry bound declared left;
          (r, r_diagnostics) = expression_dependency registry bound declared right
      in (combine [l, r], l_diagnostics @ r_diagnostics))"
| "expression_dependency registry bound declared (CallExpression name key arguments _ loc) =
     (let (dependencies, diagnostics) = expression_dependencies registry bound declared arguments in
      case function_of registry name of
        None \<Rightarrow> (combine dependencies, diagnostics @ [unsafe ''unknown_temporal_rule'' (Some name) loc
                  ''Function is absent from the selected analysis registry.''])
      | Some f \<Rightarrow> call_diagnosis f name key loc (call_dependency key arguments dependencies bound) diagnostics)"
| "expression_dependencies registry bound declared [] = ([], [])"
| "expression_dependencies registry bound declared (e # es) =
     (let (d, diagnostics) = expression_dependency registry bound declared e;
          (ds, rest) = expression_dependencies registry bound declared es
      in (d # ds, diagnostics @ rest))"

section \<open>Structure\<close>

definition invalid_ir :: "string option \<Rightarrow> source_span \<Rightarrow> string \<Rightarrow> temporal_diagnostic" where
  "invalid_ir name loc explanation = unsafe ''invalid_compiled_ir'' name loc explanation"

definition flagged :: "bool \<Rightarrow> 'a \<Rightarrow> 'a list" where "flagged b x = (if b then [x] else [])"

definition literal_kind :: "scalar_value \<Rightarrow> value_kind" where "literal_kind = scalar_kind"

definition reference_kind ::
  "registry \<Rightarrow> bindings \<Rightarrow> (string \<rightharpoonup> value_kind) \<Rightarrow> string \<Rightarrow> reference_source \<Rightarrow> value_kind option" where
  "reference_kind registry bs env name source =
     (case source of
        FieldSource \<Rightarrow> map_option fd_value_type (field_of registry name)
      | ParameterSource \<Rightarrow> map_option scalar_kind (map_of bs name)
      | DeclarationSource \<Rightarrow> env name)"

definition binary_kind :: "string \<Rightarrow> value_kind option" where
  "binary_kind operator =
     (if operator \<in> {''AND'', ''OR''} \<union> comparison_operators then Some BooleanKind
      else if operator \<in> {''+'', ''-'', ''*'', ''/'', ''%''} then Some NumberKind else None)"

fun inspect_arguments ::
  "string \<Rightarrow> (string \<rightharpoonup> rat) \<Rightarrow> parameter_spec list \<Rightarrow> compiled list \<Rightarrow> (string \<rightharpoonup> rat)
    \<Rightarrow> (string \<rightharpoonup> rat) \<times> temporal_diagnostic list" where
  "inspect_arguments name bound (p # ps) (a # as) constants =
     (let scalar = scalar_value_of a bound; loc = compiled_span a;
          found = flagged (\<not> accepts_value_kind (pm_accepted p) (compiled_kind a)) (invalid_ir (Some name) loc ''Call argument kind is invalid.'')
            @ flagged (pm_constant p \<and> scalar = None) (invalid_ir (Some name) loc ''Call constant argument is not bound.'')
            @ (case scalar of None \<Rightarrow> []
               | Some v \<Rightarrow> flagged (below_minimum p v \<or> above_maximum p v) (invalid_ir (Some name) loc ''Call scalar constraint is invalid.''));
          (constants, rest) = inspect_arguments name bound ps as
             (case scalar of None \<Rightarrow> constants | Some v \<Rightarrow> constants(pm_name p \<mapsto> v))
      in (constants, found @ rest))"
| "inspect_arguments name bound _ _ constants = (constants, [])"

definition inspect_relation :: "string \<Rightarrow> source_span \<Rightarrow> (string \<rightharpoonup> rat) \<Rightarrow> relation_spec \<Rightarrow> temporal_diagnostic list" where
  "inspect_relation name loc constants r =
     flagged (case (constants (rl_left r), constants (rl_right r)) of
             (Some a, Some b) \<Rightarrow> \<not> relation_holds (rl_operator r) a b | _ \<Rightarrow> True)
       (invalid_ir (Some name) loc ''Call scalar relation is invalid.'')"

definition inspect_call ::
  "registry \<Rightarrow> (string \<rightharpoonup> rat) \<Rightarrow> string \<Rightarrow> string \<Rightarrow> compiled list \<Rightarrow> value_kind \<Rightarrow> source_span \<Rightarrow> temporal_diagnostic list" where
  "inspect_call registry bound name key arguments kind loc =
     (case function_of registry name of
        None \<Rightarrow> [invalid_ir (Some name) loc ''Call function is absent from the registry.'']
      | Some f \<Rightarrow>
          flagged (\<not> (fn_dispatch f = key \<and> fn_result f = kind \<and> min_args f \<le> length arguments \<and> length arguments \<le> max_args f))
            (invalid_ir (Some name) loc ''Call function, dispatch, result, or arity identity is invalid.'')
          @ (if length arguments = length (fn_parameters f)
             then case inspect_arguments name bound (fn_parameters f) arguments Map.empty of
                 (constants, found) \<Rightarrow> found @ concat (map (inspect_relation name loc constants) (fn_relations f))
             else []))"

fun inspect_expression ::
  "registry \<Rightarrow> bindings \<Rightarrow> (string \<rightharpoonup> value_kind) \<Rightarrow> compiled \<Rightarrow> nat \<times> temporal_diagnostic list"
and inspect_expressions ::
  "registry \<Rightarrow> bindings \<Rightarrow> (string \<rightharpoonup> value_kind) \<Rightarrow> compiled list \<Rightarrow> nat \<times> temporal_diagnostic list" where
  "inspect_expression registry bs env (LiteralExpression v kind loc) =
     (1, flagged (kind \<noteq> literal_kind v) (invalid_ir None loc ''Literal kind is invalid.''))"
| "inspect_expression registry bs env (ReferenceExpression name source kind loc) =
     (1, flagged (reference_kind registry bs env name source \<noteq> Some kind)
           (invalid_ir None loc ''Reference identity or kind is invalid.''))"
| "inspect_expression registry bs env (UnaryExpression operator operand kind loc) =
     (let (n, found) = inspect_expression registry bs env operand;
          expected = (if operator = ''NOT'' then Some BooleanKind
                      else if operator \<in> {''+'', ''-''} then Some (compiled_kind operand) else None)
      in (1 + n, found @ flagged (expected \<noteq> Some kind) (invalid_ir None loc ''Unary operator IR is invalid.'')))"
| "inspect_expression registry bs env (BinaryExpression operator left right kind loc) =
     (let (n, l) = inspect_expression registry bs env left; (m, r) = inspect_expression registry bs env right
      in (1 + n + m, l @ r @ flagged (binary_kind operator \<noteq> Some kind) (invalid_ir None loc ''Binary operator IR is invalid.'')))"
| "inspect_expression registry bs env (CallExpression name key arguments kind loc) =
     (let (n, found) = inspect_expressions registry bs env arguments
      in (1 + n, found @ inspect_call registry (bound_scalars bs) name key arguments kind loc))"
| "inspect_expressions registry bs env [] = (0, [])"
| "inspect_expressions registry bs env (e # es) =
     (let (n, found) = inspect_expression registry bs env e; (m, rest) = inspect_expressions registry bs env es
      in (n + m, found @ rest))"

fun weighted_work :: "compiled \<Rightarrow> nat" where
  "weighted_work (LiteralExpression _ _ _) = 1"
| "weighted_work (ReferenceExpression _ _ _ _) = 1"
| "weighted_work (UnaryExpression _ operand _ _) = 1 + weighted_work operand"
| "weighted_work (BinaryExpression _ left right _ _) = 1 + weighted_work left + weighted_work right"
| "weighted_work (CallExpression _ key arguments _ _) =
     dispatch_work_weight key + sum_list (map weighted_work arguments)"


record compiled_structure =
  st_numeric_outputs :: "string list"
  st_signal_outputs :: "string list"
  st_expression_count :: nat
  st_work_units :: nat
  st_diagnostics :: "temporal_diagnostic list"

definition origin_span :: source_span where
  "origin_span = \<lparr>sp_line = 1, sp_column = 1, sp_end_line = 1, sp_end_column = 1\<rparr>"

definition max_ast_nodes :: nat where "max_ast_nodes = 256"

definition max_statements :: nat where "max_statements = 128"

text \<open>A number scalar is finite by its type; an integer must be exact in binary64.\<close>

fun valid_binding_value :: "scalar_value \<Rightarrow> bool" where
  "valid_binding_value (IntegerScalar i) \<longleftrightarrow> \<bar>i\<bar> \<le> max_integer"
| "valid_binding_value (NumberScalar _) \<longleftrightarrow> True"

fun inspect_bindings :: "registry \<Rightarrow> bindings \<Rightarrow> bindings \<Rightarrow> bindings \<times> temporal_diagnostic list" where
  "inspect_bindings registry kept [] = (kept, [])"
| "inspect_bindings registry kept ((name, v) # bs) =
     (if \<not> identifier_pattern name \<or> name \<in> set (map fst kept) \<or> name \<in> set (field_names registry) \<or> \<not> valid_binding_value v
      then case inspect_bindings registry kept bs of
          (kept, found) \<Rightarrow> (kept, invalid_ir None origin_span ''Compiled binding is invalid.'' # found)
      else inspect_bindings registry (kept @ [(name, v)]) bs)"

record inspection =
  in_env :: "string \<rightharpoonup> value_kind"
  in_numeric :: "string list"
  in_signals :: "string list"
  in_count :: nat
  in_diagnostics :: "temporal_diagnostic list"

definition inspect_statement :: "registry \<Rightarrow> bindings \<Rightarrow> inspection \<Rightarrow> compiled_statement \<Rightarrow> inspection" where
  "inspect_statement registry bs st s =
     (let (n, nested) = inspect_expression registry bs (in_env st) (cs_expression s);
          signal = (cs_name s \<in> {''BUY'', ''SELL''})
      in st\<lparr>in_env := (in_env st)(cs_name s \<mapsto> cs_kind s),
            in_numeric := in_numeric st @ flagged (\<not> signal \<and> cs_visible s) (cs_name s),
            in_signals := in_signals st @ flagged signal (cs_name s),
            in_count := in_count st + n,
            in_diagnostics := in_diagnostics st @ nested
              @ flagged (in_env st (cs_name s) \<noteq> None \<or> cs_kind s \<noteq> compiled_kind (cs_expression s))
                  (invalid_ir None (cs_span s) ''Statement identity or kind is invalid.'')
              @ (if signal
                 then flagged (\<not> cs_visible s \<or> cs_kind s \<noteq> BooleanKind) (invalid_ir None (cs_span s) ''Signal statement IR is invalid.'')
                 else flagged (cs_visible s \<and> cs_kind s = BooleanKind)
                   (invalid_ir None (cs_span s) ''Visible numeric output kind is invalid.''))\<rparr>)"

definition inspection_start :: inspection where
  "inspection_start = \<lparr>in_env = Map.empty, in_numeric = [], in_signals = [], in_count = 0, in_diagnostics = []\<rparr>"

definition diagnostic_key :: "temporal_diagnostic \<Rightarrow> nat \<times> nat \<times> string \<times> string" where
  "diagnostic_key d = (sp_line (tg_span d), sp_column (tg_span d), tg_code d, (case tg_function d of Some f \<Rightarrow> f | None \<Rightarrow> []))"

definition first_span :: "compiled_formula \<Rightarrow> source_span" where
  "first_span cf = (case cf_statements cf of [] \<Rightarrow> origin_span | s # _ \<Rightarrow> cs_span s)"

text \<open>The checks of the whole formula, after the walk over its statements.\<close>

definition inspect_totals :: "compiled_formula \<Rightarrow> bindings \<Rightarrow> inspection \<Rightarrow> temporal_diagnostic list" where
  "inspect_totals cf bs st =
     (let normalized = (if in_signals st \<noteq> [] then [''BUY'', ''SELL''] else []) in
      flagged (in_signals st \<noteq> [] \<and> set (in_signals st) \<noteq> {''BUY'', ''SELL''})
        (invalid_ir None (cs_span (last (cf_statements cf))) ''Compiled signal outputs are not a complete pair.'')
      @ flagged (in_numeric st \<noteq> cf_numeric_outputs cf \<or> normalized \<noteq> cf_signal_outputs cf)
        (invalid_ir None (first_span cf) ''Compiled output summaries do not match visible statements.'')
      @ flagged (max_statements < length (cf_statements cf)) (invalid_ir None origin_span ''Compiled statement limit is exceeded.'')
      @ flagged (max_ast_nodes < in_count st) (invalid_ir None origin_span ''Compiled node limit is exceeded.'')
      @ flagged (max_public_outputs < length (in_numeric st)) (invalid_ir None origin_span ''Compiled output limit is exceeded.'')
      @ flagged (max_parameters < length bs) (invalid_ir None origin_span ''Compiled parameter limit is exceeded.''))"

definition inspect_compiled_structure :: "compiled_formula \<Rightarrow> registry \<Rightarrow> compiled_structure" where
  "inspect_compiled_structure cf registry =
     (let (bs, rejected) = inspect_bindings registry [] (cf_bindings cf);
          unsorted = flagged (map fst bs \<noteq> sort (map fst bs)) (invalid_ir None origin_span ''Compiled bindings are not sorted.'');
          st = foldl (inspect_statement registry bs) inspection_start (cf_statements cf)
      in \<lparr>st_numeric_outputs = in_numeric st,
          st_signal_outputs = (if in_signals st \<noteq> [] then [''BUY'', ''SELL''] else []),
          st_expression_count = in_count st,
          st_work_units = (\<Sum>s\<leftarrow>cf_statements cf. weighted_work (cs_expression s)),
          st_diagnostics = sort_key (\<lambda>d. (diagnostic_key d, tg_explanation d))
            (rejected @ unsorted @ in_diagnostics st @ inspect_totals cf bs st)\<rparr>)"

section \<open>Analysis\<close>

record statement_dependency =
  sd_name :: string
  sd_dependency :: temporal_dependency
  sd_span :: source_span

record temporal_analysis =
  ta_checksum :: string
  ta_bindings :: bindings
  ta_compatibility_version :: string
  ta_engine_version :: string
  ta_statements :: "statement_dependency list"
  ta_diagnostics :: "temporal_diagnostic list"
  ta_append_only_stable :: bool

record analysis_state =
  as_declared :: "string \<rightharpoonup> temporal_dependency"
  as_statements :: "statement_dependency list"
  as_diagnostics :: "temporal_diagnostic list"

definition analyze_statement :: "registry \<Rightarrow> (string \<rightharpoonup> rat) \<Rightarrow> analysis_state \<Rightarrow> compiled_statement \<Rightarrow> analysis_state" where
  "analyze_statement registry bound st s =
     (let (d, nested) = expression_dependency registry bound (as_declared st) (cs_expression s)
      in st\<lparr>as_declared := (as_declared st)(cs_name s \<mapsto> d),
            as_statements := as_statements st @ [\<lparr>sd_name = cs_name s, sd_dependency = d, sd_span = cs_span s\<rparr>],
            as_diagnostics := as_diagnostics st @ nested
              @ flagged (case td_min d of Some m \<Rightarrow> m < - max_lookback | None \<Rightarrow> False)
                  (unsafe ''lookback_limit_exceeded'' None (cs_span s) ''Cumulative bounded lookback exceeds the public limit.'')\<rparr>)"

definition analysis_start :: analysis_state where
  "analysis_start = \<lparr>as_declared = Map.empty, as_statements = [], as_diagnostics = []\<rparr>"

definition analyze_statements :: "registry \<Rightarrow> compiled_formula \<Rightarrow> analysis_state" where
  "analyze_statements registry cf =
     foldl (analyze_statement registry (bound_scalars (cf_bindings cf))) analysis_start (cf_statements cf)"

definition version_diagnostics :: "compiled_formula \<Rightarrow> registry \<Rightarrow> temporal_diagnostic list" where
  "version_diagnostics cf registry =
     flagged (cf_compatibility_version cf \<noteq> rg_version registry)
       (unsafe ''registry_version_mismatch'' None (first_span cf) ''Compiled compatibility version does not match the analysis registry.'')
     @ flagged (cf_engine_version cf \<noteq> engine_version)
       (unsafe ''engine_version_mismatch'' None (first_span cf) ''Compiled engine version does not match the analysis engine.'')"

definition analysis_result ::
  "compiled_formula \<Rightarrow> statement_dependency list \<Rightarrow> temporal_diagnostic list \<Rightarrow> bool \<Rightarrow> temporal_analysis" where
  "analysis_result cf statements diagnostics append_only =
     \<lparr>ta_checksum = cf_checksum cf, ta_bindings = cf_bindings cf, ta_compatibility_version = cf_compatibility_version cf,
      ta_engine_version = cf_engine_version cf, ta_statements = statements, ta_diagnostics = diagnostics,
      ta_append_only_stable = append_only\<rparr>"

text \<open>A dict keyed by the whole diagnostic keeps the first of equal ones.\<close>

definition first_occurrences :: "'a list \<Rightarrow> 'a list" where
  "first_occurrences xs = rev (remdups (rev xs))"

definition analyze_compiled_formula :: "compiled_formula \<Rightarrow> registry \<Rightarrow> temporal_analysis" where
  "analyze_compiled_formula cf registry =
     (if version_diagnostics cf registry \<noteq> [] then analysis_result cf [] (version_diagnostics cf registry) False
      else if st_diagnostics (inspect_compiled_structure cf registry) \<noteq> []
      then analysis_result cf [] (st_diagnostics (inspect_compiled_structure cf registry)) False
      else
        let st = analyze_statements registry cf;
            canonical = sort_key diagnostic_key (first_occurrences (as_diagnostics st))
        in analysis_result cf (as_statements st) canonical
             (canonical = [] \<and> list_all (\<lambda>s. td_max (sd_dependency s) \<le> 0) (as_statements st)))"

section \<open>The resource budget\<close>

definition max_output_cells :: nat where "max_output_cells = 3200000"

definition max_signal_series_bytes :: nat where "max_signal_series_bytes = 128 * 1024 * 1024"

definition max_work_cells :: nat where "max_work_cells = 10000000"

text \<open>\<open>value_text\<close> is \<open>str\<close> of a number; the names are ASCII.\<close>

definition estimate_response_bytes ::
  "(scalar_value \<Rightarrow> string) \<Rightarrow> compiled_formula \<Rightarrow> nat \<Rightarrow> string list \<Rightarrow> string list \<Rightarrow> nat" where
  "estimate_response_bytes value_text cf rows numeric signals =
     4096 + rows * 40 + rows * (length numeric + 2) * 32
     + (\<Sum>name\<leftarrow>numeric @ signals. length name)
     + (\<Sum>(name, v)\<leftarrow>cf_bindings cf. length name + length (value_text v) + 16)"

definition validate_execution_budget ::
  "(scalar_value \<Rightarrow> string) \<Rightarrow> registry \<Rightarrow> compiled_formula \<Rightarrow> nat \<Rightarrow> temporal_diagnostic list" where
  "validate_execution_budget value_text registry cf rows =
     (let structure = inspect_compiled_structure cf registry in
      if st_diagnostics structure \<noteq> [] then st_diagnostics structure
      else if 0 < rows \<and> rows \<le> max_bar_series_rows
          \<and> rows * (length (st_numeric_outputs structure) + 2) \<le> max_output_cells
          \<and> rows * st_work_units structure \<le> max_work_cells
          \<and> estimate_response_bytes value_text cf rows (st_numeric_outputs structure) (st_signal_outputs structure)
              \<le> max_signal_series_bytes
      then []
      else [unsafe ''resource_limit_exceeded'' None (first_span cf)
              ''Execution request exceeds a deterministic formula resource budget.''])"

section \<open>The lookback of a backtest\<close>

text \<open>
  \<open>FormulaService.preflight_backtest\<close> after the compilation: the number of bars that the trading signals need before
  the first scored bar; \<open>None\<close> when a signal depends on the whole history.
\<close>

definition signal_dependencies :: "temporal_analysis \<Rightarrow> temporal_dependency list" where
  "signal_dependencies analysis =
     map sd_dependency (filter (\<lambda>s. sd_name s \<in> {''BUY'', ''SELL''}) (ta_statements analysis))"

definition backtest_lookback :: "compiled_formula \<Rightarrow> nat option res" where
  "backtest_lookback cf =
     (let analysis = analyze_compiled_formula cf v1_registry; dependencies = signal_dependencies analysis in
      if ta_diagnostics analysis \<noteq> [] \<or> cf_signal_outputs cf \<noteq> [''BUY'', ''SELL'']
      then Inl (ValueError ''formula blocks backtesting'')
      else if length dependencies \<noteq> 2 then Inl (ValueError ''formula signals are invalid'')
      else if list_ex (\<lambda>d. td_min d = None) dependencies then Inr None
      else Inr (Some (nat (max 0 (- Min (set (map (the \<circ> td_min) dependencies)))))))"

text \<open>
  \<open>_has_obvious_warmup_capacity\<close> of \<open>backtest/service.py\<close>, and the first row of the pinned series that
  \<open>_run_symbol\<close> of \<open>backtest/pool_runner.py\<close> uses for a scoring range that begins at row \<open>first_index\<close>.
\<close>

definition has_obvious_warmup_capacity :: "int \<Rightarrow> nat \<Rightarrow> int \<Rightarrow> nat option \<Rightarrow> bool" where
  "has_obvious_warmup_capacity query_start prefix_row_count scoring_start lookback \<longleftrightarrow>
     (if lookback = Some 0 then True
      else if scoring_start \<le> query_start then False
      else case lookback of None \<Rightarrow> 0 < prefix_row_count | Some bars \<Rightarrow> bars \<le> prefix_row_count)"

definition warmup_row :: "nat option \<Rightarrow> nat \<Rightarrow> nat res" where
  "warmup_row lookback first_index =
     (case lookback of
        None \<Rightarrow> if first_index = 0 then Inl (ValueError ''unbounded formula lacks pinned warm-up history'') else Inr 0
      | Some bars \<Rightarrow>
          if first_index < bars then Inl (ValueError ''bounded formula lacks required warm-up history'')
          else Inr (first_index - bars))"

end
