(* ===== verification/Formula_Evaluator.thy ===== *)
theory Formula_Evaluator
  imports Formula_Analysis Execution_Status
begin

text \<open>
  The evaluation of a compiled formula (\<open>formula/evaluator.py\<close>) over the fields and parameters of an
  \<open>EvaluationContext\<close> (\<open>formula/context.py\<close>). The provenance of a context (symbol, digests, timestamps) is
  checked by its constructor and not kept: the evaluation reads the number of rows, the fields and the parameters.
\<close>

section \<open>Contexts\<close>

record eval_context =
  ec_rows :: nat
  ec_fields :: "(string \<times> rat option list) list"
  ec_parameters :: bindings

definition field_scale :: "field_spec \<Rightarrow> rat option" where
  "field_scale f = round64 (of_int (fd_numerator f) / of_int (fd_denominator f))"

text \<open>One cell of \<open>_scaled_values\<close>; \<open>None\<close> is not finite.\<close>

definition scaled_value :: "field_spec \<Rightarrow> rat \<Rightarrow> rat option" where
  "scaled_value f v = Option.bind (field_scale f) (f64_mul v)"

definition field_matches_spec :: "(string \<times> rat option list) list \<Rightarrow> field_spec \<Rightarrow> bool" where
  "field_matches_spec columns f =
     (case (map_of columns (fd_source f), map_of columns (fd_name f)) of
        (Some source, Some candidate) \<Rightarrow>
          list_all2 (\<lambda>s c. case s of None \<Rightarrow> c = None | Some v \<Rightarrow> scaled_value f v \<noteq> None \<and> c = scaled_value f v) source candidate
      | _ \<Rightarrow> False)"

text \<open>
  \<open>is_canonical_bucket_start\<close> of \<open>market/types.py\<close>: the local clock of a bar shows the start of its bucket.
\<close>

definition min60_bucket_starts :: "(int \<times> int) list" where
  "min60_bucket_starts = [(9, 30), (10, 30), (13, 0), (14, 0)]"

definition is_canonical_bucket_start :: "zone \<Rightarrow> period \<Rightarrow> pytime \<Rightarrow> bool" where
  "is_canonical_bucket_start z period t =
     (let in_day = local_us z t mod day_us; minutes = in_day div 60000000; clock = (minutes div 60, minutes mod 60) in
      if in_day mod 60000000 \<noteq> 0 then False
      else case period of
          DAY \<Rightarrow> clock = (0, 0)
        | WEEK \<Rightarrow> weekday (local_date z t) = 0 \<and> clock = (0, 0)
        | MIN60 \<Rightarrow> clock \<in> set min60_bucket_starts)"

definition decimal_digit :: "char \<Rightarrow> bool" where
  "decimal_digit c \<longleftrightarrow> CHR ''0'' \<le> c \<and> c \<le> CHR ''9''"

definition symbol_pattern :: "string \<Rightarrow> bool" where
  "symbol_pattern s \<longleftrightarrow>
     length s = 9 \<and> list_all decimal_digit (take 6 s) \<and> drop 6 s \<in> {''.SH'', ''.SZ'', ''.BJ''}"

definition digest_pattern :: "string \<Rightarrow> bool" where
  "digest_pattern s \<longleftrightarrow>
     take 7 s = ''sha256:'' \<and> length s = 71
     \<and> list_all (\<lambda>c. decimal_digit c \<or> (CHR ''a'' \<le> c \<and> c \<le> CHR ''f'')) (drop 7 s)"

record context_provenance =
  cp_symbol :: string
  cp_period :: period
  cp_digests :: "(string \<times> string) list"
  cp_cutoff :: pytime
  cp_start :: pytime
  cp_end :: pytime
  cp_timestamps :: "pytime list"

text \<open>
  The digests are the dataset version, the route version and the manifest record id, under these labels. An
  exact UTC datetime is its instant.
\<close>

definition check_provenance :: "zone \<Rightarrow> context_provenance \<Rightarrow> unit res" where
  "check_provenance z p =
     (let ts = map instant (cp_timestamps p) in
      if \<not> symbol_pattern (cp_symbol p) then Inl (ValueError ''context symbol is invalid'')
      else case List.find (\<lambda>(_, digest). \<not> digest_pattern digest) (cp_digests p) of
        Some (label, _) \<Rightarrow> Inl (ValueError (''context '' @ label @ '' must be a sha256 digest''))
      | None \<Rightarrow>
          if instant (cp_end p) \<le> instant (cp_start p) then Inl (ValueError ''context query range must be nonempty'')
          else if ts = [] then Inl (ValueError ''context timestamps must be a nonempty tuple'')
          else if max_bar_series_rows < length ts then Inl (ValueError ''context timestamps exceed the public row limit'')
          else if \<not> sorted_wrt (<) ts then Inl (ValueError ''context timestamps must be strictly increasing'')
          else if list_ex (\<lambda>t. \<not> (instant (cp_start p) \<le> t \<and> t < instant (cp_end p))) ts
          then Inl (ValueError ''context timestamps must remain inside the query range'')
          else if instant (cp_cutoff p) < last ts then Inl (ValueError ''context data cutoff must include the final timestamp'')
          else if list_ex (\<lambda>t. \<not> is_canonical_bucket_start z (cp_period p) t) (cp_timestamps p)
          then Inl (ValueError ''context timestamp is not a canonical period bucket'')
          else Inr ())"

text \<open>The checks of the constructor on fields and parameters; the names of a mapping are distinct.\<close>

definition make_context ::
  "registry \<Rightarrow> zone \<Rightarrow> context_provenance \<Rightarrow> (string \<times> rat option list) list \<Rightarrow> bindings \<Rightarrow> eval_context res" where
  "make_context registry z provenance columns parameters =
     then_res (check_provenance z provenance)
     (let names = map fst parameters; rows = length (cp_timestamps provenance) in
      if set (map fst columns) \<noteq> set (field_names registry)
      then Inl (ValueError ''context fields must exactly match the registry fields'')
      else if list_ex (\<lambda>(_, s). length s \<noteq> rows) columns then Inl (ValueError ''context field length must match timestamps'')
      else if list_ex (\<lambda>f. \<not> field_matches_spec columns f) (rg_fields registry)
      then Inl (ValueError ''context field aliases must match source values, scale, and validity'')
      else if max_parameters < length names then Inl (ValueError ''context parameter limit exceeded'')
      else if names \<noteq> sort names then Inl (ValueError ''context parameters must be sorted by name'')
      else if list_ex (\<lambda>n. \<not> identifier_pattern n \<or> n \<in> set (field_names registry)) names
      then Inl (ValueError ''context parameter names must be canonical and unreserved'')
      else Inr \<lparr>ec_rows = rows, ec_fields = columns, ec_parameters = parameters\<rparr>)"

text \<open>The fields that \<open>from_routed\<close> computes from the columns of the bars.\<close>

definition routed_field :: "(string \<Rightarrow> rat list) \<Rightarrow> field_spec \<Rightarrow> (string \<times> rat option list) res" where
  "routed_field column f =
     (let data = map (scaled_value f) (column (fd_source f)) in
      if list_ex (\<lambda>v. v = None) data then Inl (ValueError ''number series values must be finite'')
      else Inr (fd_name f, data))"

definition context_field :: "eval_context \<Rightarrow> string \<Rightarrow> runtime_value res" where
  "context_field ctx name =
     (case map_of (ec_fields ctx) (upper_ascii name) of
        Some s \<Rightarrow> Inr (NumberSeries s) | None \<Rightarrow> Inl (RuntimeError ''KeyError''))"

definition context_parameter :: "eval_context \<Rightarrow> string \<Rightarrow> runtime_value res" where
  "context_parameter ctx name =
     (case map_of (ec_parameters ctx) (upper_ascii name) of
        Some v \<Rightarrow> Inr (Scalar v) | None \<Rightarrow> Inl (RuntimeError ''KeyError''))"

section \<open>Expressions\<close>

type_synonym located_issue = "runtime_issue \<times> source_span"

type_synonym evaluated = "runtime_value \<times> located_issue list"

definition located :: "source_span \<Rightarrow> located_issue list \<Rightarrow> kernel_result \<Rightarrow> evaluated" where
  "located loc nested result = (kr_value result, nested @ map (\<lambda>i. (i, loc)) (kr_issues result))"

definition evaluate_unary :: "nat \<Rightarrow> string \<Rightarrow> source_span \<Rightarrow> evaluated \<Rightarrow> evaluated res" where
  "evaluate_unary rows operator loc = (\<lambda>(operand, nested).
     case operand of
       Scalar v \<Rightarrow>
         if operator \<in> {''+'', ''-''} then Inr (Scalar (signed_scalar operator v), nested)
         else bind_res (if operator = ''NOT'' then negated operand rows else unary_number operator operand rows)
                (\<lambda>result. Inr (located loc nested result))
     | _ \<Rightarrow>
         bind_res (if operator = ''NOT'' then negated operand rows else unary_number operator operand rows)
           (\<lambda>result. Inr (located loc nested result)))"

definition binary_kernel :: "nat \<Rightarrow> string \<Rightarrow> runtime_value \<Rightarrow> runtime_value \<Rightarrow> kernel_result res" where
  "binary_kernel rows operator left right =
     (if operator \<in> {''AND'', ''OR''} then boolean operator left right rows
      else if operator \<in> comparison_operators then compare operator left right rows
      else binary_number operator left right rows)"

fun evaluate_expression :: "eval_context \<Rightarrow> (string \<rightharpoonup> runtime_value) \<Rightarrow> compiled \<Rightarrow> evaluated res"
and evaluate_arguments ::
  "eval_context \<Rightarrow> (string \<rightharpoonup> runtime_value) \<Rightarrow> compiled list \<Rightarrow> (runtime_value list \<times> located_issue list) res" where
  "evaluate_expression ctx declared (LiteralExpression v _ _) = Inr (Scalar v, [])"
| "evaluate_expression ctx declared (ReferenceExpression name source _ _) =
     (case source of
        FieldSource \<Rightarrow> bind_res (context_field ctx name) (\<lambda>v. Inr (v, []))
      | ParameterSource \<Rightarrow> bind_res (context_parameter ctx name) (\<lambda>v. Inr (v, []))
      | DeclarationSource \<Rightarrow>
          (case declared name of Some v \<Rightarrow> Inr (v, []) | None \<Rightarrow> Inl (RuntimeError ''KeyError'')))"
| "evaluate_expression ctx declared (UnaryExpression operator operand _ loc) =
     bind_res (evaluate_expression ctx declared operand) (evaluate_unary (ec_rows ctx) operator loc)"
| "evaluate_expression ctx declared (BinaryExpression operator left right _ loc) =
     bind_res (evaluate_expression ctx declared left) (\<lambda>(l, l_issues).
     bind_res (evaluate_expression ctx declared right) (\<lambda>(r, r_issues).
     bind_res (binary_kernel (ec_rows ctx) operator l r) (\<lambda>result.
       Inr (located loc (l_issues @ r_issues) result))))"
| "evaluate_expression ctx declared (CallExpression _ key arguments _ loc) =
     bind_res (evaluate_arguments ctx declared arguments) (\<lambda>(vs, issues).
     bind_res (execute_kernel key vs (ec_rows ctx)) (\<lambda>result. Inr (located loc issues result)))"
| "evaluate_arguments ctx declared [] = Inr ([], [])"
| "evaluate_arguments ctx declared (e # es) =
     bind_res (evaluate_expression ctx declared e) (\<lambda>(v, issues).
     bind_res (evaluate_arguments ctx declared es) (\<lambda>(vs, rest). Inr (v # vs, issues @ rest)))"

section \<open>Outputs and diagnostics\<close>

fun warmup :: "'a option list \<Rightarrow> nat" where
  "warmup [] = 0"
| "warmup (None # xs) = Suc (warmup xs)"
| "warmup (Some _ # xs) = 0"

record runtime_diagnostic =
  rd_code :: string
  rd_span :: source_span
  rd_output :: "string option"
  rd_count :: nat
  rd_first_index :: nat

text \<open>The dict of aggregated issues, in the order of insertion.\<close>

fun aggregate_issue ::
  "((string \<times> source_span \<times> string option) \<times> runtime_issue) list \<Rightarrow> located_issue \<times> string option
    \<Rightarrow> ((string \<times> source_span \<times> string option) \<times> runtime_issue) list" where
  "aggregate_issue [] ((issue, loc), output) = [((ri_code issue, loc, output), issue)]"
| "aggregate_issue ((key, current) # rest) ((issue, loc), output) =
     (if key = (ri_code issue, loc, output)
      then (key, \<lparr>ri_code = ri_code current, ri_count = ri_count current + ri_count issue,
              ri_first_index = min (ri_first_index current) (ri_first_index issue)\<rparr>) # rest
      else (key, current) # aggregate_issue rest ((issue, loc), output))"

definition max_runtime_diagnostics :: nat where "max_runtime_diagnostics = 32"

definition diagnostics_of :: "(located_issue \<times> string option) list \<Rightarrow> runtime_diagnostic list" where
  "diagnostics_of issues =
     take max_runtime_diagnostics
       (sort_key (\<lambda>d. (rd_code d, (case rd_output d of Some o' \<Rightarrow> o' | None \<Rightarrow> []), sp_line (rd_span d), sp_column (rd_span d)))
         (map (\<lambda>((code, loc, output), issue).
             \<lparr>rd_code = code, rd_span = loc, rd_output = output, rd_count = ri_count issue, rd_first_index = ri_first_index issue\<rparr>)
           (foldl aggregate_issue [] issues)))"

record numeric_output =
  no_name :: string
  no_values :: "rat option list"
  no_warmup :: nat

record boolean_signal =
  bs_name :: string
  bs_values :: "bool option list"
  bs_warmup :: nat

record evaluation =
  ev_declared :: "string \<rightharpoonup> runtime_value"
  ev_numeric :: "numeric_output list"
  ev_signals :: "string \<rightharpoonup> bool option list"
  ev_issues :: "(located_issue \<times> string option) list"

definition evaluation_start :: evaluation where
  "evaluation_start = \<lparr>ev_declared = Map.empty, ev_numeric = [], ev_signals = Map.empty, ev_issues = []\<rparr>"

definition evaluate_output :: "nat \<Rightarrow> compiled_statement \<Rightarrow> runtime_value \<Rightarrow> evaluation \<Rightarrow> evaluation res" where
  "evaluate_output rows s v st =
     (if cs_name s \<in> {''BUY'', ''SELL''} then
        case v of
          BooleanSeries b \<Rightarrow> Inr (st\<lparr>ev_signals := (ev_signals st)(cs_name s \<mapsto> b)\<rparr>)
        | _ \<Rightarrow> Inl (TypeError ''compiled signal output is not boolean'')
      else if cs_visible s then
        bind_res (number_series v rows) (\<lambda>series.
          Inr (st\<lparr>ev_numeric := ev_numeric st @ [\<lparr>no_name = cs_name s, no_values = series, no_warmup = warmup series\<rparr>]\<rparr>))
      else Inr st)"

definition evaluate_statement :: "eval_context \<Rightarrow> evaluation \<Rightarrow> compiled_statement \<Rightarrow> evaluation res" where
  "evaluate_statement ctx st s =
     bind_res (evaluate_expression ctx (ev_declared st) (cs_expression s)) (\<lambda>(v, found).
       evaluate_output (ec_rows ctx) s v
         (st\<lparr>ev_declared := (ev_declared st)(cs_name s \<mapsto> v),
             ev_issues := ev_issues st @ map (\<lambda>i. (i, if cs_visible s then Some (cs_name s) else None)) found\<rparr>))"

definition evaluate_statements :: "eval_context \<Rightarrow> compiled_statement list \<Rightarrow> evaluation res" where
  "evaluate_statements ctx statements = run_res (evaluate_statement ctx) evaluation_start statements"

definition signal_output :: "nat \<Rightarrow> (string \<rightharpoonup> bool option list) \<Rightarrow> string \<Rightarrow> boolean_signal" where
  "signal_output rows signals name =
     (let series = (case signals name of Some b \<Rightarrow> b | None \<Rightarrow> replicate rows (Some False))
      in \<lparr>bs_name = name, bs_values = series, bs_warmup = warmup series\<rparr>)"

record signal_result =
  sr_numeric :: "numeric_output list"
  sr_signals :: "boolean_signal list"
  sr_diagnostics :: "runtime_diagnostic list"

definition evaluation_result :: "nat \<Rightarrow> evaluation \<Rightarrow> signal_result" where
  "evaluation_result rows st =
     \<lparr>sr_numeric = ev_numeric st, sr_signals = map (signal_output rows (ev_signals st)) [''BUY'', ''SELL''],
      sr_diagnostics = diagnostics_of (ev_issues st)\<rparr>"

text \<open>The checks of \<open>evaluate_compiled\<close> before the statements are walked, in their order.\<close>

definition evaluation_guard ::
  "(scalar_value \<Rightarrow> string) \<Rightarrow> compiled_formula \<Rightarrow> eval_context \<Rightarrow> string \<Rightarrow> unit res" where
  "evaluation_guard value_text cf ctx checksum =
     (if checksum \<noteq> cf_checksum cf then Inl (ValueError ''formula checksum does not match compiled source'')
      else if cf_compatibility_version cf \<noteq> compatibility_version \<or> cf_engine_version cf \<noteq> engine_version
      then Inl (ValueError ''compiled formula version is incompatible'')
      else if ec_parameters ctx \<noteq> cf_bindings cf
      then Inl (ValueError ''context parameter binding does not match compiled formula'')
      else if max_output_cells < ec_rows ctx * (length (cf_numeric_outputs cf) + 2)
      then Inl (ValueError ''formula public output cell limit exceeded'')
      else case validate_execution_budget value_text v1_registry cf (ec_rows ctx) of
          d # _ \<Rightarrow> Inl (ValueError (''formula resource validation failed: '' @ tg_code d))
        | [] \<Rightarrow>
            (case ta_diagnostics (analyze_compiled_formula cf v1_registry) of
               d # _ \<Rightarrow> Inl (ValueError (''formula temporal validation failed: '' @ tg_code d))
             | [] \<Rightarrow> Inr ()))"

definition evaluate_compiled ::
  "(scalar_value \<Rightarrow> string) \<Rightarrow> compiled_formula \<Rightarrow> eval_context \<Rightarrow> string \<Rightarrow> signal_result res" where
  "evaluate_compiled value_text cf ctx checksum =
     then_res (evaluation_guard value_text cf ctx checksum)
       (bind_res (evaluate_statements ctx (cf_statements cf)) (\<lambda>st. Inr (evaluation_result (ec_rows ctx) st)))"

end
