(* ===== verification/Formula_Cells.thy ===== *)
theory Formula_Cells
  imports Formula_Registry
begin

text \<open>
  What the dispatcher guarantees of a kernel call: arguments that pass the metadata preflight make every
  kernel return, with a series of the declared kind, one cell per row and issues inside the rows; and each cell
  is determined by the cells of the arguments in the rows that its function reads.
\<close>

section \<open>Cells of a value\<close>

fun num_cell :: "runtime_value \<Rightarrow> nat \<Rightarrow> rat option" where
  "num_cell (Scalar v) i = Some (scalar_number v)"
| "num_cell (NumberSeries s) i = s ! i"
| "num_cell (BooleanSeries b) i = None"

fun cond_cell :: "runtime_value \<Rightarrow> nat \<Rightarrow> bool option" where
  "cond_cell (BooleanSeries b) i = b ! i"
| "cond_cell v i = map_option (\<lambda>x. x \<noteq> 0) (num_cell v i)"

text \<open>A value of \<open>rows\<close> rows: a scalar, or a series of that length.\<close>

definition fits_rows :: "nat \<Rightarrow> runtime_value \<Rightarrow> bool" where
  "fits_rows rows v \<longleftrightarrow> series_length v = None \<or> series_length v = Some rows"

lemma fits_rows_simps [simp]:
  "fits_rows rows (Scalar v)" "fits_rows rows (NumberSeries s) = (length s = rows)" "fits_rows rows (BooleanSeries b) = (length b = rows)"
  by (simp_all add: fits_rows_def)

lemma kind_cases:
  "kind_of v = NumberKind \<longleftrightarrow> (\<exists>s. v = NumberSeries s)"
  "kind_of v = BooleanKind \<longleftrightarrow> (\<exists>s. v = BooleanSeries s)"
  "kind_of v = IntegerKind \<longleftrightarrow> (\<exists>n. v = Scalar (IntegerScalar n))"
  "kind_of v = ScalarKind \<longleftrightarrow> (\<exists>x. v = Scalar (NumberScalar x))"
  by (cases v rule: kind_of.cases; simp)+

lemma number_series_cells:
  assumes "fits_rows rows v" "kind_of v \<noteq> BooleanKind"
  shows "number_series v rows = Inr (map (num_cell v) [0..<rows])"
proof (cases v)
  case (NumberSeries s)
  have "map ((!) s) [0..<length s] = s" by (rule map_nth)
  moreover have "num_cell (NumberSeries s) = (!) s" by auto
  ultimately show ?thesis using assms NumberSeries by auto
next
  case (Scalar v)
  have "num_cell (Scalar v) = (\<lambda>_. Some (scalar_number v))" by auto
  thus ?thesis by (simp add: Scalar broadcast_def map_replicate_const)
qed (use assms in simp)

lemma condition_series_cells:
  assumes "fits_rows rows v"
  shows "condition_series v rows = Inr (map (cond_cell v) [0..<rows])"
proof (cases v)
  case (BooleanSeries b)
  have "map ((!) b) [0..<length b] = b" by (rule map_nth)
  moreover have "cond_cell (BooleanSeries b) = (!) b" by auto
  ultimately show ?thesis using assms BooleanSeries by (auto simp: condition_series_def)
next
  case (NumberSeries s)
  hence "length s = rows" using assms by simp
  hence "map (map_option (\<lambda>x. x \<noteq> 0)) s = map (\<lambda>i. map_option (\<lambda>x. x \<noteq> 0) (s ! i)) [0..<rows]"
    by (intro nth_equalityI) simp_all
  thus ?thesis by (simp add: NumberSeries condition_series_def)
next
  case (Scalar s)
  have "replicate rows (Some (scalar_number s \<noteq> 0)) = map (\<lambda>i. Some (scalar_number s \<noteq> 0)) [0..<rows]"
    by (simp add: map_replicate_const)
  thus ?thesis by (simp add: Scalar condition_series_def broadcast_def)
qed

section \<open>Issues inside the rows\<close>

definition issues_inside :: "nat \<Rightarrow> runtime_issue list \<Rightarrow> bool" where
  "issues_inside rows issues \<longleftrightarrow>
     list_all (\<lambda>i. 0 < ri_count i \<and> ri_count i \<le> rows \<and> ri_first_index i < rows) issues"

definition rows_of :: "nat \<Rightarrow> nat list \<Rightarrow> bool" where
  "rows_of rows indexes \<longleftrightarrow> distinct indexes \<and> set indexes \<subseteq> {..<rows}"

lemma issues_inside_simps [simp]:
  "issues_inside rows []"
  "issues_inside rows (xs @ ys) = (issues_inside rows xs \<and> issues_inside rows ys)"
  by (simp_all add: issues_inside_def)

lemma issue_at_inside: "rows_of rows indexes \<Longrightarrow> issues_inside rows (issue_at code indexes)"
proof (cases indexes)
  case (Cons i rest)
  assume "rows_of rows indexes"
  hence "length indexes \<le> rows" "i < rows"
    using card_mono [of "{..<rows}" "set indexes"] Cons by (auto simp: rows_of_def distinct_card)
  thus ?thesis using Cons by (simp add: issue_at_def issues_inside_def)
qed (simp add: issue_at_def)

lemma rows_of_simps [simp]:
  "rows_of rows []"
  "rows_of rows (filter P [0..<rows])"
  by (auto simp: rows_of_def)

lemma rows_of_snoc: "rows_of k indexes \<Longrightarrow> rows_of (Suc k) (indexes @ [k])"
  by (auto simp: rows_of_def less_Suc_eq)

lemma rows_of_Suc: "rows_of k indexes \<Longrightarrow> rows_of (Suc k) indexes"
  by (auto simp: rows_of_def less_Suc_eq)

lemma flatnonzero_rows: "length flags = rows \<Longrightarrow> rows_of rows (flatnonzero flags)"
  by (auto simp: flatnonzero_def)

section \<open>Row by row\<close>

text \<open>A kernel that walks the rows and appends one cell for each.\<close>

lemma fold_rows:
  assumes step: "\<And>st i. \<exists>x. vals (f st i) = vals st @ [x]" and start: "vals s = []"
  shows "length (vals (foldl f s [0..<k])) = k"
    and "k \<le> m \<Longrightarrow> take k (vals (foldl f s [0..<m])) = vals (foldl f s [0..<k])"
proof -
  show len: "length (vals (foldl f s [0..<k])) = k" for k
  proof (induction k)
    case (Suc k)
    obtain x where "vals (f (foldl f s [0..<k]) k) = vals (foldl f s [0..<k]) @ [x]" using step by blast
    thus ?case using Suc by simp
  qed (simp add: start)
  show "k \<le> m \<Longrightarrow> take k (vals (foldl f s [0..<m])) = vals (foldl f s [0..<k])"
  proof (induction m)
    case (Suc m)
    obtain x where x: "vals (f (foldl f s [0..<m]) m) = vals (foldl f s [0..<m]) @ [x]" using step by blast
    show ?case
    proof (cases "k = Suc m")
      case True
      thus ?thesis using len [of "Suc m"] by (metis order_refl take_all)
    next
      case False
      thus ?thesis using Suc x len [of m] by simp
    qed
  qed (simp add: start)
qed

lemma foldl_rows_cong: "(\<And>st i. i < k \<Longrightarrow> f st i = g st i) \<Longrightarrow> foldl f s [0..<k] = foldl g s [0..<k]"
  by (intro foldl_cong) auto

lemma fold_rows_local:
  assumes f: "\<And>st i. \<exists>x. vals (f st i) = vals st @ [x]" and g: "\<And>st i. \<exists>x. vals (g st i) = vals st @ [x]"
    and start: "vals s = []" and same: "\<And>st i. i \<le> t \<Longrightarrow> f st i = g st i" and t: "t < m" "t < m'"
  shows "vals (foldl f s [0..<m]) ! t = vals (foldl g s [0..<m']) ! t"
proof -
  have "vals (foldl f s [0..<m]) ! t = vals (foldl f s [0..<Suc t]) ! t"
    using fold_rows(2) [of vals f s "Suc t" m, OF f start] t(1) by (metis Suc_leI lessI nth_take)
  also have "foldl f s [0..<Suc t] = foldl g s [0..<Suc t]" by (rule foldl_rows_cong) (simp add: same)
  also have "vals (foldl g s [0..<Suc t]) ! t = vals (foldl g s [0..<m']) ! t"
    using fold_rows(2) [of vals g s "Suc t" m', OF g start] t(2) by (metis Suc_leI lessI nth_take)
  finally show ?thesis .
qed

text \<open>The cells of the window that ends at a row.\<close>

definition window_cells :: "(nat \<Rightarrow> 'a option) \<Rightarrow> nat \<Rightarrow> nat \<Rightarrow> 'a option list" where
  "window_cells g n i = map g [window_start n i..<Suc i]"

lemma window_values_cells:
  assumes "i < rows"
  shows "window_values (map g [0..<rows]) n i = List.map_filter (\<lambda>c. c) (window_cells g n i)"
proof -
  have "window_values (map g [0..<rows]) n i = List.map_filter g [window_start n i..<Suc i]"
    unfolding window_values_def List.map_filter_def using assms
    by (intro map_cong filter_cong arg_cong2 [where f = map]) (auto simp del: upt_Suc)
  also have "\<dots> = List.map_filter (\<lambda>c. c) (window_cells g n i)"
    by (simp add: List.map_filter_def window_cells_def filter_map comp_def del: upt_Suc)
  finally show ?thesis .
qed

text \<open>Two places see the same rows: the same row with the same past, or a past of \<open>K\<close> bars that agrees.\<close>

definition same_past :: "nat set option \<Rightarrow> (nat \<Rightarrow> nat \<Rightarrow> bool) \<Rightarrow> nat \<Rightarrow> nat \<Rightarrow> bool" where
  "same_past reach same t t' \<longleftrightarrow>
     (t = t' \<and> (\<forall>j \<le> t. same j j)) \<or>
     (\<exists>K. reach = Some K \<and> (\<forall>k \<in> K. k \<le> t \<and> k \<le> t' \<and> same (t - k) (t' - k)))"

definition window_reach :: "nat \<Rightarrow> nat set option" where
  "window_reach n = (if n = 0 then None else Some {..<n})"

lemma window_cells_local:
  assumes "same_past (window_reach n) (\<lambda>j j'. g j = g' j') t t'"
  shows "window_cells g n t = window_cells g' n t'"
  using assms unfolding same_past_def
proof (elim disjE exE conjE)
  assume "t = t'" "\<forall>j \<le> t. g j = g' j"
  thus ?thesis by (auto simp: window_cells_def)
next
  fix K assume reach: "window_reach n = Some K" and same: "\<forall>k \<in> K. k \<le> t \<and> k \<le> t' \<and> g (t - k) = g' (t' - k)"
  from reach have n: "0 < n" "K = {..<n}" by (auto simp: window_reach_def split: if_splits)
  hence "n - 1 \<le> t \<and> n - 1 \<le> t'" using bspec [OF same, of "n - 1"] by simp
  hence le: "n \<le> Suc t" "n \<le> Suc t'" by arith+
  show ?thesis
  proof (rule nth_equalityI)
    show "length (window_cells g n t) = length (window_cells g' n t')"
      using n le by (simp add: window_cells_def window_start_def del: upt_Suc)
    fix i assume "i < length (window_cells g n t)"
    hence i: "i < n" using n le by (simp add: window_cells_def window_start_def del: upt_Suc)
    have "t - (n - 1 - i) = Suc t - n + i" "t' - (n - 1 - i) = Suc t' - n + i" using i le by auto
    moreover have "g (t - (n - 1 - i)) = g' (t' - (n - 1 - i))" using bspec [OF same, of "n - 1 - i"] n i by simp
    ultimately show "window_cells g n t ! i = window_cells g' n t' ! i"
      using n i le by (simp add: window_cells_def window_start_def del: upt_Suc)
  qed
qed

section \<open>The kernels cell by cell\<close>

lemma argument_second [simp]: "argument (x # y # xs) (Suc 0) = Inr y"
  by (simp add: argument_def)

definition yields :: "nat \<Rightarrow> kernel_result res \<Rightarrow> (nat \<Rightarrow> rat option) \<Rightarrow> bool" where
  "yields rows r g \<longleftrightarrow>
     (\<exists>issues. r = Inr \<lparr>kr_value = NumberSeries (map g [0..<rows]), kr_issues = issues\<rparr> \<and> issues_inside rows issues)"

definition signals :: "nat \<Rightarrow> kernel_result res \<Rightarrow> (nat \<Rightarrow> bool option) \<Rightarrow> bool" where
  "signals rows r g \<longleftrightarrow>
     (\<exists>issues. r = Inr \<lparr>kr_value = BooleanSeries (map g [0..<rows]), kr_issues = issues\<rparr> \<and> issues_inside rows issues)"

lemma yieldsI: "r = Inr \<lparr>kr_value = NumberSeries (map g [0..<rows]), kr_issues = issues\<rparr> \<Longrightarrow> issues_inside rows issues \<Longrightarrow> yields rows r g"
  unfolding yields_def by blast

lemma signalsI: "r = Inr \<lparr>kr_value = BooleanSeries (map g [0..<rows]), kr_issues = issues\<rparr> \<Longrightarrow> issues_inside rows issues \<Longrightarrow> signals rows r g"
  unfolding signals_def by blast

lemma map2_rows: "map2 f (map g [0..<rows]) (map h [0..<rows]) = map (\<lambda>i. f (g i) (h i)) [0..<rows]"
  by (rule nth_equalityI) simp_all

definition clean :: "rat option option \<Rightarrow> rat option" where
  "clean c = Option.bind c (\<lambda>v. v)"

lemma sanitize_cells:
  "sanitize_number (map c [0..<rows]) =
     (map (\<lambda>i. clean (c i)) [0..<rows], issue_at ''numeric_overflow'' (flatnonzero (map (\<lambda>i. c i = Some None) [0..<rows])))"
  by (auto simp: sanitize_number_def clean_def comp_def split: option.splits)

lemma unary_cells:
  assumes x: "number_series x rows = Inr (map g [0..<rows])"
    and f: "operator \<in> {''+'', ''-'', ''ABS''}"
    and F: "F = (if operator = ''+'' then (\<lambda>x. x) else if operator = ''-'' then uminus else abs)"
  shows "yields rows (unary_number operator x rows) (\<lambda>i. map_option F (g i))"
proof -
  have "clean (map_option (\<lambda>x. Some (F x)) (g i)) = map_option F (g i)" for i
    by (cases "g i") (simp_all add: clean_def)
  thus ?thesis
    using f x sanitize_cells [of "\<lambda>i. map_option (\<lambda>x. Some (F x)) (g i)" rows]
    by (intro yieldsI [where issues = "issue_at ''numeric_overflow''
          (flatnonzero (map (\<lambda>i. map_option (\<lambda>x. Some (F x)) (g i) = Some None) [0..<rows]))"])
       (auto simp: unary_number_def F comp_def intro!: issue_at_inside flatnonzero_rows)
qed

definition binary_cell :: "string \<Rightarrow> (rat \<Rightarrow> rat \<Rightarrow> rat option) \<Rightarrow> rat option \<Rightarrow> rat option \<Rightarrow> rat option" where
  "binary_cell operator f a b =
     (case (a, b) of
        (Some x, Some y) \<Rightarrow> if (operator = ''/'' \<or> operator = ''%'') \<and> y = 0 then None else f x y
      | _ \<Rightarrow> None)"

lemma binary_cells:
  assumes x: "number_series x rows = Inr (map g [0..<rows])" and y: "number_series y rows = Inr (map h [0..<rows])"
    and f: "binary_operation operator = Inr f"
  shows "yields rows (binary_number operator x y rows) (\<lambda>i. binary_cell operator f (g i) (h i))"
proof -
  let ?c = "\<lambda>a b. case (a, b) of
      (Some x, Some y) \<Rightarrow> if (operator = ''/'' \<or> operator = ''%'') \<and> y = 0 then None else Some (f x y) | _ \<Rightarrow> None"
  have "clean (?c a b) = binary_cell operator f a b" for a b
    by (simp add: clean_def binary_cell_def split: option.splits)
  moreover have "sanitize_number (map2 ?c (map g [0..<rows]) (map h [0..<rows])) =
      (map (\<lambda>i. clean (?c (g i) (h i))) [0..<rows],
       issue_at ''numeric_overflow'' (flatnonzero (map (\<lambda>i. ?c (g i) (h i) = Some None) [0..<rows])))"
    unfolding map2_rows sanitize_cells ..
  ultimately show ?thesis
    unfolding binary_number_def x y f bind_res_simps Let_def
    by (intro yieldsI) (auto intro!: issue_at_inside flatnonzero_rows simp del: map_map)
qed

lemma compare_cells:
  assumes x: "number_series x rows = Inr (map g [0..<rows])" and y: "number_series y rows = Inr (map h [0..<rows])"
    and f: "comparison operator = Inr f"
  shows "signals rows (compare operator x y rows) (\<lambda>i. both f (g i) (h i))"
  unfolding compare_def x y f bind_res_simps map2_rows by (intro signalsI [OF refl]) simp

lemma negated_cells:
  assumes x: "condition_series x rows = Inr (map g [0..<rows])"
  shows "signals rows (negated x rows) (\<lambda>i. map_option Not (g i))"
  unfolding negated_def x bind_res_simps by (intro signalsI [where issues = "[]"]) (simp_all add: comp_def)

lemma boolean_cells:
  assumes x: "condition_series x rows = Inr (map g [0..<rows])" and y: "condition_series y rows = Inr (map h [0..<rows])"
  shows "signals rows (boolean operator x y rows) (\<lambda>i. both (if operator = ''AND'' then (\<and>) else (\<or>)) (g i) (h i))"
  unfolding boolean_def x y bind_res_simps map2_rows by (intro signalsI [OF refl]) simp

lemma choose_cells:
  assumes c: "condition_series c rows = Inr (map p [0..<rows])"
    and x: "number_series x rows = Inr (map g [0..<rows])" and y: "number_series y rows = Inr (map h [0..<rows])"
  shows "yields rows (choose_value c x y rows) (\<lambda>i. Option.bind (p i) (\<lambda>b. if b then g i else h i))"
proof -
  have cells: "map2 (\<lambda>t (l, r). choose_cell t l r) (map p [0..<rows]) (zip (map g [0..<rows]) (map h [0..<rows]))
      = map (\<lambda>i. choose_cell (p i) (g i) (h i)) [0..<rows]"
    by (rule nth_equalityI) simp_all
  have "clean (choose_cell t l r) = Option.bind t (\<lambda>b. if b then l else r)" for t l r
    by (cases l; cases r) (auto simp: clean_def choose_cell_def split: option.splits)
  thus ?thesis
    unfolding choose_value_def c x y bind_res_simps cells sanitize_cells
    by (intro yieldsI) (auto intro!: issue_at_inside flatnonzero_rows)
qed

lemma ref_cells:
  assumes x: "number_series x rows = Inr (map g [0..<rows])"
  shows "yields rows (ref [x, Scalar (IntegerScalar (int n))] rows) (\<lambda>i. if n \<le> i then g (i - n) else None)"
proof -
  have "(if int n < int rows then replicate (nat (int n)) None @ take (rows - nat (int n)) (map g [0..<rows]) else replicate rows None)
      = map (\<lambda>i. if n \<le> i then g (i - n) else None) [0..<rows]"
    by (rule nth_equalityI) (auto simp: nth_append)
  thus ?thesis
    by (intro yieldsI [where issues = "[]"]) (simp_all add: ref_def x window_of_def)
qed

text \<open>One row of \<open>_exact_window\<close> from the cells of its window.\<close>

definition scaled_integer :: "rat option \<Rightarrow> int" where
  "scaled_integer c = (case c of None \<Rightarrow> 0
     | Some x \<Rightarrow> (case quotient_of x of (numerator, denominator) \<Rightarrow> numerator * (float_scale div denominator)))"

lemma scaled_integers_cells: "scaled_integers source = map scaled_integer source"
  by (simp add: scaled_integers_def scaled_integer_def [abs_def])

definition cells_totals :: "rat option list \<Rightarrow> int \<times> int \<times> nat" where
  "cells_totals cs = ((\<Sum>c\<leftarrow>cs. scaled_integer c), (\<Sum>c\<leftarrow>cs. scaled_integer c * scaled_integer c), length (filter (\<lambda>c. c \<noteq> None) cs))"

definition window_cell :: "window_operation \<Rightarrow> nat \<Rightarrow> rat option list \<Rightarrow> rat option" where
  "window_cell operation n cs =
     (case cells_totals cs of (s, q, m) \<Rightarrow>
        last (ws_values (window_emit operation (int n) (n - 1)
          \<lparr>ws_sum = s, ws_squares = q, ws_count = m, ws_values = [], ws_overflow = []\<rparr>)))"

lemma present_sum: "(\<Sum>j = a..<b. present (map g [0..<rows]) F j) = (\<Sum>c\<leftarrow>map g [a..<b]. G c)"
  if "b \<le> rows" "\<And>j. j < rows \<Longrightarrow> (if g j = None then 0 else F j) = G (g j)"
proof -
  have "(\<Sum>j = a..<b. present (map g [0..<rows]) F j) = (\<Sum>j = a..<b. G (g j))"
    using that by (intro sum.cong) (auto simp: present_def)
  thus ?thesis by (simp add: interv_sum_list_conv_sum_set_nat comp_def)
qed

lemma totals_cells:
  assumes st: "totals_at (map g [0..<rows]) (scaled_integers (map g [0..<rows])) n (Suc i) st" and i: "i < rows"
  shows "cells_totals (window_cells g n i) = (ws_sum st, ws_squares st, ws_count st)"
proof -
  have none: "scaled_integer None = 0" by (simp add: scaled_integer_def)
  have count: "(\<Sum>c\<leftarrow>cs. if c = None then 0 else 1) = int (length (filter (\<lambda>c. c \<noteq> None) cs))" for cs :: "rat option list"
    by (induction cs) auto
  have "ws_sum st = (\<Sum>c\<leftarrow>window_cells g n i. scaled_integer c)"
    using st i unfolding totals_at_def rolling_start_Suc window_cells_def scaled_integers_cells
    by (elim conjE) (simp only:, intro present_sum; simp add: none)
  moreover have "ws_squares st = (\<Sum>c\<leftarrow>window_cells g n i. scaled_integer c * scaled_integer c)"
    using st i unfolding totals_at_def rolling_start_Suc window_cells_def scaled_integers_cells
    by (elim conjE) (simp only:, intro present_sum; simp add: none)
  moreover have "int (ws_count st) = (\<Sum>c\<leftarrow>window_cells g n i. if c = None then 0 else 1)"
    using st i unfolding totals_at_def rolling_start_Suc window_cells_def
    by (elim conjE) (simp only:, intro present_sum; simp)
  ultimately show ?thesis by (simp add: cells_totals_def count)
qed


lemma emit_cell:
  assumes st: "totals_at (map g [0..<rows]) (scaled_integers (map g [0..<rows])) n (Suc i) st"
    and i: "i < rows" and n: "window_domain operation n"
  shows "ws_values (window_emit operation (int n) i st) = ws_values st @ [window_cell operation n (window_cells g n i)]"
    and "ws_overflow (window_emit operation (int n) i st) \<in> {ws_overflow st, ws_overflow st @ [i]}"
proof -
  let ?st = "\<lparr>ws_sum = ws_sum st, ws_squares = ws_squares st, ws_count = ws_count st, ws_values = [], ws_overflow = []\<rparr>"
  have "ws_count st = length (filter (\<lambda>c. c \<noteq> None) (window_cells g n i))"
    using totals_cells [OF st i] by (simp only: cells_totals_def prod.inject)
  hence size: "ws_count st \<le> length (window_cells g n i)" by (simp only: length_filter_le)
  have full: "int n - 1 \<le> int i" if "ws_count st = n" "operation \<noteq> WindowSum"
  proof -
    have "1 \<le> n" using n that(2) by (cases operation) (simp_all add: window_domain_def)
    moreover have "length (window_cells g n i) \<le> Suc i" by (simp add: window_cells_def del: upt_Suc)
    ultimately show ?thesis using size that(1) by simp
  qed
  have "ws_values (window_emit operation (int n) i st) = ws_values st @ [last (ws_values (window_emit operation (int n) (n - 1) ?st))]"
    using full by (cases operation; simp add: window_emit_def Let_def split: option.splits)
  thus "ws_values (window_emit operation (int n) i st) = ws_values st @ [window_cell operation n (window_cells g n i)]"
    by (simp add: window_cell_def totals_cells [OF st i])
  show "ws_overflow (window_emit operation (int n) i st) \<in> {ws_overflow st, ws_overflow st @ [i]}"
    by (simp add: window_emit_def Let_def split: prod.splits option.splits)
qed

lemma exact_window_fold:
  assumes n: "window_domain operation n" and k: "k \<le> rows"
  shows "totals_at (map g [0..<rows]) (scaled_integers (map g [0..<rows])) n k
       (foldl (window_step (map g [0..<rows]) n operation) window_init [0..<k]) \<and>
    ws_values (foldl (window_step (map g [0..<rows]) n operation) window_init [0..<k])
      = map (\<lambda>i. window_cell operation n (window_cells g n i)) [0..<k] \<and>
    rows_of k (ws_overflow (foldl (window_step (map g [0..<rows]) n operation) window_init [0..<k]))"
  using k
proof (induction k)
  case 0
  show ?case by (simp add: totals_at_def window_init_def)
next
  case (Suc k)
  let ?source = "map g [0..<rows]"
  let ?st = "foldl (window_step ?source n operation) window_init [0..<k]"
  let ?rolled = "window_expire ?source (scaled_integers ?source) (int n) k (window_enter ?source (scaled_integers ?source) k ?st)"
  have IH: "totals_at ?source (scaled_integers ?source) n k ?st"
    "ws_values ?st = map (\<lambda>i. window_cell operation n (window_cells g n i)) [0..<k]" "rows_of k (ws_overflow ?st)"
    using Suc by auto
  have rolled: "totals_at ?source (scaled_integers ?source) n (Suc k) ?rolled" using IH(1) by (rule window_roll)
  have k: "k < rows" using Suc.prems by simp
  have step: "foldl (window_step ?source n operation) window_init [0..<Suc k] = window_emit operation (int n) k ?rolled"
    by (simp add: window_step_def)
  note emit = emit_cell [OF rolled k n]
  have "rows_of (Suc k) (ws_overflow (window_emit operation (int n) k ?rolled))"
    using emit(2) IH(3) rows_of_snoc rows_of_Suc by auto
  thus ?case unfolding step using rolled emit(1) by (simp add: IH(2))
qed

lemma windowed_cells:
  assumes x: "number_series x rows = Inr (map g [0..<rows])" and n: "window_domain operation n"
  shows "yields rows (windowed operation [x, Scalar (IntegerScalar (int n))] rows)
    (\<lambda>i. window_cell operation n (window_cells g n i))"
proof -
  let ?st = "foldl (window_step (map g [0..<rows]) n operation) window_init [0..<rows]"
  have e: "exact_window (map g [0..<rows]) (int n) operation =
      \<lparr>kr_value = NumberSeries (ws_values ?st), kr_issues = issue_at ''numeric_overflow'' (ws_overflow ?st)\<rparr>"
    unfolding exact_window_def window_step_def [abs_def] Let_def by simp
  show ?thesis
    using exact_window_fold [OF n order_refl, of g rows]
    by (intro yieldsI [where issues = "issue_at ''numeric_overflow'' (ws_overflow ?st)"])
       (simp_all add: windowed_def x window_of_def e issue_at_inside)
qed

lemma map_upt_cong: "(\<And>i. i < rows \<Longrightarrow> f i = h i) \<Longrightarrow> map f [0..<rows] = map h [0..<rows]"
  by simp

definition extreme_cell :: "(rat set \<Rightarrow> rat) \<Rightarrow> rat option list \<Rightarrow> rat option" where
  "extreme_cell pick cs =
     (let vs = List.map_filter (\<lambda>c. c) cs in if vs = [] then None else Some (pick (set vs)))"

lemma hhv_cells:
  assumes x: "number_series x rows = Inr (map g [0..<rows])"
  shows "yields rows (hhv [x, Scalar (IntegerScalar (int n))] rows) (\<lambda>i. extreme_cell Max (window_cells g n i))"
proof -
  have "hhv [x, Scalar (IntegerScalar (int n))] rows = hhv [NumberSeries (map g [0..<rows]), Scalar (IntegerScalar (int n))] rows"
    by (simp add: hhv_def extreme_def x)
  moreover have "map (extreme_reference Max (map g [0..<rows]) n) [0..<rows] = map (\<lambda>i. extreme_cell Max (window_cells g n i)) [0..<rows]"
    by (rule map_upt_cong) (simp add: extreme_reference_def extreme_cell_def window_values_cells)
  ultimately show ?thesis by (intro yieldsI [where issues = "[]"]) (simp_all only: hhv_window issues_inside_simps)
qed

lemma llv_cells:
  assumes x: "number_series x rows = Inr (map g [0..<rows])"
  shows "yields rows (llv [x, Scalar (IntegerScalar (int n))] rows) (\<lambda>i. extreme_cell Min (window_cells g n i))"
proof -
  have "llv [x, Scalar (IntegerScalar (int n))] rows = llv [NumberSeries (map g [0..<rows]), Scalar (IntegerScalar (int n))] rows"
    by (simp add: llv_def extreme_def x)
  moreover have "map (extreme_reference Min (map g [0..<rows]) n) [0..<rows] = map (\<lambda>i. extreme_cell Min (window_cells g n i)) [0..<rows]"
    by (rule map_upt_cong) (simp add: extreme_reference_def extreme_cell_def window_values_cells)
  ultimately show ?thesis by (intro yieldsI [where issues = "[]"]) (simp_all only: llv_window issues_inside_simps)
qed

definition count_cell :: "bool option list \<Rightarrow> rat option" where
  "count_cell cs =
     (let vs = List.map_filter (\<lambda>c. c) cs in if vs = [] then None else Some (of_nat (length (filter (\<lambda>b. b) vs))))"

lemma count_cells:
  assumes x: "condition_series x rows = Inr (map g [0..<rows])"
  shows "yields rows (count_of [x, Scalar (IntegerScalar (int n))] rows) (\<lambda>i. count_cell (window_cells g n i))"
proof -
  have b: "condition_series (BooleanSeries (map g [0..<rows])) rows = Inr (map g [0..<rows])" by (simp add: condition_series_def)
  have "count_of [x, Scalar (IntegerScalar (int n))] rows = count_of [BooleanSeries (map g [0..<rows]), Scalar (IntegerScalar (int n))] rows"
    unfolding count_of_def by (simp only: argument_simps x b bind_res_simps)
  moreover have "map (count_reference (map g [0..<rows]) n) [0..<rows] = map (\<lambda>i. count_cell (window_cells g n i)) [0..<rows]"
    by (rule map_upt_cong) (simp add: count_reference_def count_cell_def window_values_cells)
  ultimately show ?thesis
    using count_window [of "map g [0..<rows]" rows n] by (intro yieldsI [where issues = "[]"]) simp_all
qed


definition cross_cell :: "(nat \<Rightarrow> rat option) \<Rightarrow> (nat \<Rightarrow> rat option) \<Rightarrow> nat \<Rightarrow> bool option" where
  "cross_cell g h i =
     Some (0 < i \<and> both (>) (g i) (h i) = Some True \<and> both (\<le>) (g (i - 1)) (h (i - 1)) = Some True)"

lemma cross_cells:
  assumes x: "number_series x rows = Inr (map g [0..<rows])" and y: "number_series y rows = Inr (map h [0..<rows])"
  shows "signals rows (cross [x, y] rows) (cross_cell g h)"
proof -
  have "map (\<lambda>i. Some (cross_at (map g [0..<rows]) (map h [0..<rows]) i)) [0..<rows] = map (cross_cell g h) [0..<rows]"
    by (rule map_upt_cong) (auto simp: cross_at_def cross_cell_def)
  thus ?thesis by (intro signalsI [where issues = "[]"]) (simp_all add: cross_def x y)
qed

definition longcross_cell :: "(nat \<Rightarrow> rat option) \<Rightarrow> (nat \<Rightarrow> rat option) \<Rightarrow> nat \<Rightarrow> nat \<Rightarrow> bool option" where
  "longcross_cell g h n i =
     Some (n \<le> i \<and> (\<forall>k \<in> {1..n}. both (<) (g (i - k)) (h (i - k)) = Some True) \<and> both (>) (g i) (h i) = Some True)"

lemma longcross_cells:
  assumes x: "number_series x rows = Inr (map g [0..<rows])" and y: "number_series y rows = Inr (map h [0..<rows])"
  shows "signals rows (longcross [x, y, Scalar (IntegerScalar (int n))] rows) (longcross_cell g h n)"
proof -
  let ?g = "map g [0..<rows]" and ?h = "map h [0..<rows]"
  have eq: "longcross [x, y, Scalar (IntegerScalar (int n))] rows
      = longcross [NumberSeries ?g, NumberSeries ?h, Scalar (IntegerScalar (int n))] rows"
    unfolding longcross_def by (simp only: argument_simps x y number_series.simps bind_res_simps)
  have "map (\<lambda>i. Some (longcross_reference ?g ?h n i)) [0..<rows] = map (longcross_cell g h n) [0..<rows]"
  proof (rule map_upt_cong)
    fix i assume i: "i < rows"
    have shift: "(\<forall>j \<in> {i - n..<i}. P j) = (\<forall>k \<in> {1..n}. P (i - k))" if "n \<le> i" for P
    proof
      assume "\<forall>j \<in> {i - n..<i}. P j"
      thus "\<forall>k \<in> {1..n}. P (i - k)" using that by auto
    next
      assume a: "\<forall>k \<in> {1..n}. P (i - k)"
      show "\<forall>j \<in> {i - n..<i}. P j"
      proof
        fix j assume "j \<in> {i - n..<i}"
        hence "i - j \<in> {1..n}" "i - (i - j) = j" using that by auto
        thus "P j" using a by metis
      qed
    qed
    show "Some (longcross_reference ?g ?h n i) = longcross_cell g h n i"
    proof (cases "n \<le> i")
      case True
      have "(\<forall>j \<in> {i - n..<i}. below_at ?g ?h j) = (\<forall>j \<in> {i - n..<i}. both (<) (g j) (h j) = Some True)"
        using i by (auto simp: both_less [symmetric])
      thus ?thesis
        using i True shift [of "\<lambda>j. both (<) (g j) (h j) = Some True"]
        by (simp add: longcross_reference_def longcross_cell_def both_greater [symmetric])
    next
      case False
      thus ?thesis by (simp add: longcross_reference_def longcross_cell_def)
    qed
  qed
  thus ?thesis
    unfolding eq using longcross_window [of ?g rows ?h n]
    by (intro signalsI [where issues = "[]"]) simp_all
qed

definition barslast_cell :: "(nat \<Rightarrow> bool option) \<Rightarrow> nat \<Rightarrow> rat option" where
  "barslast_cell g i =
     (let hits = {j. j \<le> i \<and> g j = Some True} in if hits = {} then None else Some (of_nat (i - Max hits)))"

lemma barslast_cells:
  assumes x: "condition_series x rows = Inr (map g [0..<rows])"
  shows "yields rows (barslast [x] rows) (barslast_cell g)"
proof -
  have eq: "barslast [x] rows = barslast [BooleanSeries (map g [0..<rows])] rows"
    by (simp add: barslast_def x) (simp add: condition_series_def)
  have "map (barslast_reference (map g [0..<rows])) [0..<rows] = map (barslast_cell g) [0..<rows]"
  proof (rule map_upt_cong)
    fix i assume "i < rows"
    hence "{j. j \<le> i \<and> map g [0..<rows] ! j = Some True} = {j. j \<le> i \<and> g j = Some True}" by auto
    thus "barslast_reference (map g [0..<rows]) i = barslast_cell g i"
      unfolding barslast_reference_def barslast_cell_def by (simp only:)
  qed
  thus ?thesis unfolding eq by (intro yieldsI [where issues = "[]"]) (simp_all add: barslast_window)
qed

definition filter_cell :: "nat \<Rightarrow> (nat \<Rightarrow> bool option) \<Rightarrow> nat \<Rightarrow> bool option" where
  "filter_cell n g i = snd (foldl (filter_step (int n) (map g [0..<Suc i])) (- 1, []) [0..<Suc i]) ! i"

lemma filter_step_appends: "\<exists>x. snd (filter_step n c st i) = snd st @ [x]"
  by (simp add: filter_step_def split: prod.splits)

lemma filter_cells:
  assumes x: "condition_series x rows = Inr (map g [0..<rows])"
  shows "signals rows (filter_hits [x, Scalar (IntegerScalar (int n))] rows) (filter_cell n g)"
proof -
  let ?fold = "foldl (filter_step (int n) (map g [0..<rows])) (- 1, []) [0..<rows]"
  have "snd ?fold = map (filter_cell n g) [0..<rows]"
  proof (rule nth_equalityI)
    show "length (snd ?fold) = length (map (filter_cell n g) [0..<rows])"
      using fold_rows(1) [of snd "filter_step (int n) (map g [0..<rows])" "(- 1, [])", OF filter_step_appends] by simp
    fix i assume "i < length (snd ?fold)"
    hence i: "i < rows"
      using fold_rows(1) [of snd "filter_step (int n) (map g [0..<rows])" "(- 1, [])", OF filter_step_appends] by simp
    have "snd ?fold ! i = filter_cell n g i"
      unfolding filter_cell_def
      by (rule fold_rows_local [where t = i])
         (use i filter_step_appends in \<open>auto simp: filter_step_def nth_append simp del: upt_Suc split: prod.splits\<close>)
    thus "snd ?fold ! i = map (filter_cell n g) [0..<rows] ! i" using i by simp
  qed
  thus ?thesis
    by (intro signalsI [where issues = "[]"]) (simp_all add: filter_hits_def x smooth_number_def)
qed

definition smooth_start :: smooth_state where
  "smooth_start = \<lparr>ss_state = None, ss_values = [], ss_overflow = []\<rparr>"

definition smooth_cell :: "rat \<Rightarrow> (nat \<Rightarrow> rat option) \<Rightarrow> nat \<Rightarrow> rat option" where
  "smooth_cell alpha g i = ss_values (foldl (smooth_step alpha (map g [0..<Suc i])) smooth_start [0..<Suc i]) ! i"

lemma smooth_step_appends: "\<exists>x. ss_values (smooth_step alpha source st i) = ss_values st @ [x]"
  by (simp add: smooth_step_def split: option.splits)

lemma smooth_overflow: "rows_of k (ss_overflow (foldl (smooth_step alpha source) smooth_start [0..<k]))"
proof (induction k)
  case (Suc k)
  have "ss_overflow (smooth_step alpha source st k) \<in> {ss_overflow st, ss_overflow st @ [k]}" for st
    by (simp add: smooth_step_def split: option.splits)
  hence "ss_overflow (foldl (smooth_step alpha source) smooth_start [0..<Suc k])
      \<in> {ss_overflow (foldl (smooth_step alpha source) smooth_start [0..<k]),
         ss_overflow (foldl (smooth_step alpha source) smooth_start [0..<k]) @ [k]}" by simp
  thus ?case using rows_of_snoc [OF Suc] rows_of_Suc [OF Suc] by (elim insertE emptyE) simp_all
qed (simp add: smooth_start_def)

lemma smooth_cells:
  assumes x: "number_series x rows = Inr (map g [0..<rows])" and n: "n \<noteq> 0" and alpha: "round64 (of_int m / of_int n) = Some alpha"
  shows "yields rows (smooth [x, Scalar (IntegerScalar n), Scalar (IntegerScalar m)] rows) (smooth_cell alpha g)"
proof -
  let ?fold = "foldl (smooth_step alpha (map g [0..<rows])) smooth_start [0..<rows]"
  have start: "ss_values smooth_start = []" by (simp add: smooth_start_def)
  note len = fold_rows(1) [of ss_values "smooth_step alpha (map g [0..<rows])" smooth_start rows, OF smooth_step_appends start]
  have vals: "ss_values ?fold = map (smooth_cell alpha g) [0..<rows]"
  proof (rule nth_equalityI)
    show "length (ss_values ?fold) = length (map (smooth_cell alpha g) [0..<rows])" by (simp add: len)
    fix i assume "i < length (ss_values ?fold)"
    hence i: "i < rows" by (simp add: len)
    have same: "smooth_step alpha (map g [0..<rows]) st j = smooth_step alpha (map g [0..<Suc i]) st j" if "j \<le> i" for st j
    proof -
      have "map g [0..<rows] ! j = map g [0..<Suc i] ! j" using that i by (simp del: upt_Suc)
      thus ?thesis by (simp only: smooth_step_def)
    qed
    have "ss_values ?fold ! i = smooth_cell alpha g i"
      unfolding smooth_cell_def
      by (rule fold_rows_local [where t = i, OF smooth_step_appends smooth_step_appends start same i]) simp_all
    thus "ss_values ?fold ! i = map (smooth_cell alpha g) [0..<rows] ! i" using i by simp
  qed
  show ?thesis
    using n vals smooth_overflow [of rows alpha "map g [0..<rows]"]
    by (intro yieldsI [where issues = "issue_at ''numeric_overflow'' (ss_overflow ?fold)"])
       (simp_all add: smooth_def x smooth_number_def alpha Let_def smooth_start_def issue_at_inside)
qed

section \<open>Calls that pass the preflight\<close>

definition numeric :: "nat \<Rightarrow> runtime_value \<Rightarrow> bool" where
  "numeric rows v \<longleftrightarrow> fits_rows rows v \<and> kind_of v \<noteq> BooleanKind"

text \<open>The shapes of the calls, one rule per function of the registry.\<close>

inductive ready :: "nat \<Rightarrow> string \<Rightarrow> runtime_value list \<Rightarrow> bool" for rows :: nat where
  abs: "numeric rows x \<Longrightarrow> ready rows ''math.abs'' [x]"
| max: "numeric rows x \<Longrightarrow> numeric rows y \<Longrightarrow> ready rows ''math.max'' [x, y]"
| min: "numeric rows x \<Longrightarrow> numeric rows y \<Longrightarrow> ready rows ''math.min'' [x, y]"
| if': "fits_rows rows c \<Longrightarrow> numeric rows x \<Longrightarrow> numeric rows y \<Longrightarrow> ready rows ''logic.if'' [c, x, y]"
| ref: "numeric rows x \<Longrightarrow> ready rows ''series.ref'' [x, Scalar (IntegerScalar (int n))]"
| ma: "numeric rows x \<Longrightarrow> 1 \<le> n \<Longrightarrow> ready rows ''series.ma'' [x, Scalar (IntegerScalar (int n))]"
| std: "numeric rows x \<Longrightarrow> 2 \<le> n \<Longrightarrow> ready rows ''statistics.std'' [x, Scalar (IntegerScalar (int n))]"
| hhv: "numeric rows x \<Longrightarrow> ready rows ''series.hhv'' [x, Scalar (IntegerScalar (int n))]"
| llv: "numeric rows x \<Longrightarrow> ready rows ''series.llv'' [x, Scalar (IntegerScalar (int n))]"
| sum: "numeric rows x \<Longrightarrow> ready rows ''series.sum'' [x, Scalar (IntegerScalar (int n))]"
| count: "fits_rows rows x \<Longrightarrow> ready rows ''series.count'' [x, Scalar (IntegerScalar (int n))]"
| ema: "numeric rows x \<Longrightarrow> 1 \<le> n \<Longrightarrow> int n \<le> max_lookback \<Longrightarrow> ready rows ''series.ema'' [x, Scalar (IntegerScalar (int n))]"
| sma: "numeric rows x \<Longrightarrow> 1 \<le> m \<Longrightarrow> m \<le> n \<Longrightarrow>
    ready rows ''series.sma'' [x, Scalar (IntegerScalar (int n)), Scalar (IntegerScalar (int m))]"
| cross: "numeric rows x \<Longrightarrow> numeric rows y \<Longrightarrow> ready rows ''signal.cross'' [x, y]"
| longcross: "numeric rows x \<Longrightarrow> numeric rows y \<Longrightarrow>
    ready rows ''signal.longcross'' [x, y, Scalar (IntegerScalar (int n))]"
| barslast: "fits_rows rows x \<Longrightarrow> ready rows ''signal.barslast'' [x]"
| filter: "fits_rows rows x \<Longrightarrow> ready rows ''signal.filter'' [x, Scalar (IntegerScalar (int n))]"

lemma check_arguments_Nil_iff: "check_arguments [] args rows sc = Inr sc' \<longleftrightarrow> args = [] \<and> sc' = sc"
  by (cases args) auto

lemma check_arguments_Cons_iff:
  "check_arguments (p # ps) args rows sc = Inr sc' \<longleftrightarrow>
     (\<exists>a rest s. args = a # rest \<and> check_argument p a rows sc = Inr s \<and> check_arguments ps rest rows s = Inr sc')"
  by (cases args) (auto simp: res_simps)

lemmas check_arguments_iff = check_arguments_Nil_iff check_arguments_Cons_iff

lemma check_argument_fits:
  "check_argument p a rows sc = Inr sc' \<Longrightarrow> fits_rows rows a \<and> accepts_value_kind (pm_accepted p) (kind_of a)"
  by (auto simp: check_argument_def fits_rows_def split: if_splits runtime_value.splits)

lemma check_argument_series:
  "check_argument (param name series_kinds c m) a rows sc = Inr sc' \<Longrightarrow> numeric rows a"
  using check_argument_fits [of "param name series_kinds c m" a rows sc sc']
  by (auto simp: numeric_def param_def series_kinds_def accepts_value_kind_def)

lemma check_argument_condition:
  "check_argument (param name condition_kinds c m) a rows sc = Inr sc' \<Longrightarrow> fits_rows rows a"
  using check_argument_fits by blast

lemma check_argument_integer:
  assumes "check_argument (param name [IntegerKind] c (Some lo)) a rows sc = Inr sc'" "0 \<le> lo"
  obtains n where "a = Scalar (IntegerScalar (int n))" "lo \<le> int n" "name = ''N'' \<longrightarrow> int n \<le> max_lookback"
    "sc' = sc(name \<mapsto> of_nat n)"
proof -
  have "kind_of a = IntegerKind"
    using check_argument_fits [OF assms(1)] by (auto simp: param_def accepts_value_kind_def)
  then obtain k where a: "a = Scalar (IntegerScalar k)" by (auto simp: kind_cases)
  have ok: "\<not> (of_int k :: rat) < of_int lo" "name = ''N'' \<longrightarrow> \<not> (of_int max_lookback :: rat) < of_int k"
    "sc' = sc(name \<mapsto> of_int k)"
    using assms(1) unfolding a
    by (auto simp: check_argument_def check_scalar_def param_def accepts_value_kind_def res_simps split: if_splits)
  hence "lo \<le> k" "name = ''N'' \<longrightarrow> k \<le> max_lookback" by (simp_all only: of_int_less_iff not_less)
  thus ?thesis using that [of "nat k"] a ok(3) assms(2) by simp
qed

lemma spec_for_cases:
  assumes "spec_for key = Some f"
  shows "f \<in> set (rg_functions v1_registry) \<and> fn_dispatch f = key"
  using assms unfolding spec_for_def by (auto simp: find_Some_iff)

lemma preflight_Inr:
  assumes "preflight key args rows = Inr u"
  obtains f sc where "f \<in> set (rg_functions v1_registry)" "fn_dispatch f = key" "spec_for key = Some f"
    "check_arguments (fn_parameters f) args rows Map.empty = Inr sc"
    "\<forall>r \<in> set (fn_relations f). check_relation sc r = Inr ()" "rows \<le> max_bar_series_rows"
proof -
  obtain f where f: "spec_for key = Some f" and rows: "rows \<le> max_bar_series_rows"
    using assms by (cases "spec_for key") (auto simp: preflight_def split: if_splits)
  obtain sc where sc: "check_arguments (fn_parameters f) args rows Map.empty = Inr sc"
    "each (check_relation sc) (fn_relations f) = Inr u"
    using assms f by (auto simp: preflight_def res_simps split: if_splits)
  have "check_relation sc r = Inr ()" if "r \<in> set (fn_relations f)" for r
    using sc(2) that by (auto simp: each_Inr_iff)
  thus ?thesis using that [of f sc] spec_for_cases [OF f] f rows sc(1) by blast
qed


lemma dispatch_keys:
  assumes "f \<in> set (rg_functions v1_registry)"
  obtains
    "f = make_spec ''REF'' ''series'' PastOnly [x_param, param ''N'' [IntegerKind] False (Some 0)] NumberKind ''series.ref''"
  | "f = make_spec ''MA'' ''series'' PastOnly [x_param, window_param False 1] NumberKind ''series.ma''"
  | "f = make_spec ''EMA'' ''series'' PastOnly [x_param, window_param False 1] NumberKind ''series.ema''"
  | "f = (make_spec ''SMA'' ''series'' PastOnly [x_param, window_param False 1, param ''M'' [IntegerKind] False (Some 1)] NumberKind ''series.sma'')
       \<lparr>fn_relations := [\<lparr>rl_left = ''M'', rl_operator = ''<='', rl_right = ''N''\<rparr>]\<rparr>"
  | "f = make_spec ''HHV'' ''series'' PastOnly [x_param, window_param True 1] NumberKind ''series.hhv''"
  | "f = make_spec ''LLV'' ''series'' PastOnly [x_param, window_param True 1] NumberKind ''series.llv''"
  | "f = make_spec ''SUM'' ''series'' PastOnly [x_param, window_param True 1] NumberKind ''series.sum''"
  | "f = make_spec ''COUNT'' ''series'' PastOnly [param ''X'' condition_kinds False None, window_param True 1] NumberKind ''series.count''"
  | "f = make_spec ''ABS'' ''math'' CurrentOnly [x_param] NumberKind ''math.abs''"
  | "f = make_spec ''MAX'' ''math'' CurrentOnly [x_param, param ''Y'' series_kinds False None] NumberKind ''math.max''"
  | "f = make_spec ''MIN'' ''math'' CurrentOnly [x_param, param ''Y'' series_kinds False None] NumberKind ''math.min''"
  | "f = make_spec ''STD'' ''statistics'' PastOnly [x_param, param ''N'' [IntegerKind] False (Some 2)] NumberKind ''statistics.std''"
  | "f = make_spec ''IF'' ''logic'' CurrentOnly
       [param ''CONDITION'' condition_kinds False None, param ''A'' series_kinds False None, param ''B'' series_kinds False None]
       NumberKind ''logic.if''"
  | "f = make_spec ''CROSS'' ''signal'' PastOnly [x_param, param ''Y'' series_kinds False None] BooleanKind ''signal.cross''"
  | "f = make_spec ''LONGCROSS'' ''signal'' PastOnly
       [x_param, param ''Y'' series_kinds False None, param ''N'' [IntegerKind] True (Some 1)] BooleanKind ''signal.longcross''"
  | "f = make_spec ''BARSLAST'' ''signal'' PastOnly [param ''X'' condition_kinds False None] NumberKind ''signal.barslast''"
  | "f = make_spec ''FILTER'' ''signal'' PastOnly
       [param ''X'' condition_kinds False None, param ''N'' [IntegerKind] True (Some 1)] BooleanKind ''signal.filter''"
  using assms unfolding v1_registry_def series_functions_def statistics_functions_def signal_functions_def
  by (simp only: registry.select_convs set_append list.set Un_iff insert_iff empty_iff simp_thms) blast

lemma series_argument:
  "check_argument x_param a rows sc = Inr sc' \<Longrightarrow> numeric rows a"
  "check_argument (param ''Y'' series_kinds False None) a rows sc = Inr sc' \<Longrightarrow> numeric rows a"
  "check_argument (param ''A'' series_kinds False None) a rows sc = Inr sc' \<Longrightarrow> numeric rows a"
  "check_argument (param ''B'' series_kinds False None) a rows sc = Inr sc' \<Longrightarrow> numeric rows a"
  unfolding x_param_def by (erule check_argument_series)+

definition is_series_param :: "parameter_spec \<Rightarrow> bool" where
  "is_series_param p \<longleftrightarrow> (\<exists>name c m. p = param name series_kinds c m)"

definition is_condition_param :: "parameter_spec \<Rightarrow> bool" where
  "is_condition_param p \<longleftrightarrow> (\<exists>name c m. p = param name condition_kinds c m)"

lemma param_shapes [simp]:
  "is_series_param x_param" "is_series_param (param name series_kinds c m)"
  "is_condition_param (param name condition_kinds c m)"
  by (auto simp: is_series_param_def is_condition_param_def x_param_def)

lemma shape_series: "is_series_param p \<Longrightarrow> check_argument p a rows sc = Inr sc' \<Longrightarrow> numeric rows a"
  by (auto simp: is_series_param_def intro: check_argument_series)

lemma shape_condition: "is_condition_param p \<Longrightarrow> check_argument p a rows sc = Inr sc' \<Longrightarrow> fits_rows rows a"
  by (auto simp: is_condition_param_def intro: check_argument_condition)

lemma shape_integer:
  "check_argument (param name [IntegerKind] c (Some lo)) a rows sc = Inr sc' \<Longrightarrow> 0 \<le> lo \<Longrightarrow>
   \<exists>n. a = Scalar (IntegerScalar (int n)) \<and> lo \<le> int n \<and> (name = ''N'' \<longrightarrow> int n \<le> max_lookback) \<and> sc' = sc(name \<mapsto> of_nat n)"
  by (erule (1) check_argument_integer) blast

lemma args_series:
  "check_arguments [p] args rows sc = Inr sc' \<Longrightarrow> is_series_param p \<Longrightarrow> \<exists>x. args = [x] \<and> numeric rows x"
  unfolding check_arguments_iff using shape_series by blast

lemma args_condition:
  "check_arguments [p] args rows sc = Inr sc' \<Longrightarrow> is_condition_param p \<Longrightarrow> \<exists>x. args = [x] \<and> fits_rows rows x"
  unfolding check_arguments_iff using shape_condition by blast

lemma args_series_series:
  "check_arguments [p, q] args rows sc = Inr sc' \<Longrightarrow> is_series_param p \<Longrightarrow> is_series_param q \<Longrightarrow>
   \<exists>x y. args = [x, y] \<and> numeric rows x \<and> numeric rows y"
  unfolding check_arguments_iff using shape_series by blast

lemma args_condition_series_series:
  "check_arguments [p, q, r] args rows sc = Inr sc' \<Longrightarrow> is_condition_param p \<Longrightarrow> is_series_param q \<Longrightarrow> is_series_param r \<Longrightarrow>
   \<exists>c x y. args = [c, x, y] \<and> fits_rows rows c \<and> numeric rows x \<and> numeric rows y"
  unfolding check_arguments_iff using shape_series shape_condition by blast

lemma args_series_integer:
  "check_arguments [p, param name [IntegerKind] c (Some lo)] args rows sc = Inr sc' \<Longrightarrow> is_series_param p \<Longrightarrow> 0 \<le> lo \<Longrightarrow>
   \<exists>x n. args = [x, Scalar (IntegerScalar (int n))] \<and> numeric rows x \<and> lo \<le> int n \<and> (name = ''N'' \<longrightarrow> int n \<le> max_lookback)"
  unfolding check_arguments_iff using shape_series shape_integer by blast

lemma args_condition_integer:
  "check_arguments [p, param name [IntegerKind] c (Some lo)] args rows sc = Inr sc' \<Longrightarrow> is_condition_param p \<Longrightarrow> 0 \<le> lo \<Longrightarrow>
   \<exists>x n. args = [x, Scalar (IntegerScalar (int n))] \<and> fits_rows rows x \<and> lo \<le> int n"
  unfolding check_arguments_iff using shape_condition shape_integer by blast

lemma args_series_series_integer:
  assumes "check_arguments [p, q, param name [IntegerKind] c (Some lo)] args rows sc = Inr sc'"
    and "is_series_param p" "is_series_param q" "0 \<le> lo"
  shows "\<exists>x y n. args = [x, y, Scalar (IntegerScalar (int n))] \<and> numeric rows x \<and> numeric rows y \<and> lo \<le> int n"
proof -
  obtain x y z s1 s2 where args: "args = [x, y, z]" and x: "check_argument p x rows sc = Inr s1"
    and y: "check_argument q y rows s1 = Inr s2" and z: "check_argument (param name [IntegerKind] c (Some lo)) z rows s2 = Inr sc'"
    using assms(1) unfolding check_arguments_iff by blast
  show ?thesis using args shape_series [OF assms(2) x] shape_series [OF assms(3) y] shape_integer [OF z assms(4)] by blast
qed

lemma args_sma:
  assumes "check_arguments [x_param, param ''N'' [IntegerKind] False (Some 1), param ''M'' [IntegerKind] False (Some 1)] args rows sc = Inr sc'"
    and "check_relation sc' \<lparr>rl_left = ''M'', rl_operator = ''<='', rl_right = ''N''\<rparr> = Inr u"
  shows "\<exists>x n m. args = [x, Scalar (IntegerScalar (int n)), Scalar (IntegerScalar (int m))] \<and> numeric rows x \<and> 1 \<le> m \<and> m \<le> n"
proof -
  from assms(1) obtain x b c s1 s2 where args: "args = [x, b, c]" and x: "check_argument x_param x rows sc = Inr s1"
    and b: "check_argument (param ''N'' [IntegerKind] False (Some 1)) b rows s1 = Inr s2"
    and c: "check_argument (param ''M'' [IntegerKind] False (Some 1)) c rows s2 = Inr sc'"
    unfolding check_arguments_iff by blast
  obtain n where n: "b = Scalar (IntegerScalar (int n))" "s2 = s1(''N'' \<mapsto> of_nat n)" using shape_integer [OF b] by auto
  obtain m where m: "c = Scalar (IntegerScalar (int m))" "1 \<le> int m" "sc' = s2(''M'' \<mapsto> of_nat m)" using shape_integer [OF c] by auto
  have "(of_nat m :: rat) \<le> of_nat n"
    using assms(2) by (simp add: check_relation_def relation_holds_def n m(3) split: if_splits)
  hence "m \<le> n" by simp
  thus ?thesis using args shape_series [OF _ x] n(1) m(1,2) by auto
qed

lemma preflight_ready:
  assumes "preflight key args rows = Inr u"
  shows "ready rows key args"
proof -
  obtain f sc where f: "f \<in> set (rg_functions v1_registry)" "fn_dispatch f = key"
    and sc: "check_arguments (fn_parameters f) args rows Map.empty = Inr sc"
    and rel: "\<forall>r \<in> set (fn_relations f). check_relation sc r = Inr ()"
    by (rule preflight_Inr [OF assms])
  have w: "window_param z lo = param ''N'' [IntegerKind] False (Some (if z then 0 else lo))" for z lo
    by (simp add: window_param_def)
  from f(1) show ?thesis
  proof (cases rule: dispatch_keys)
    case 1 thus ?thesis using f(2) args_series_integer [of x_param] sc by (fastforce simp: make_spec_def intro: ready.ref)
  next
    case 2 thus ?thesis using f(2) args_series_integer [of x_param] sc by (fastforce simp: make_spec_def w intro: ready.ma)
  next
    case 3 thus ?thesis using f(2) args_series_integer [of x_param] sc by (fastforce simp: make_spec_def w intro: ready.ema)
  next
    case 4 thus ?thesis using f(2) args_sma sc rel by (fastforce simp: make_spec_def w intro: ready.sma)
  next
    case 5 thus ?thesis using f(2) args_series_integer [of x_param] sc by (fastforce simp: make_spec_def w intro: ready.hhv)
  next
    case 6 thus ?thesis using f(2) args_series_integer [of x_param] sc by (fastforce simp: make_spec_def w intro: ready.llv)
  next
    case 7 thus ?thesis using f(2) args_series_integer [of x_param] sc by (fastforce simp: make_spec_def w intro: ready.sum)
  next
    case 8 thus ?thesis using f(2) args_condition_integer sc by (fastforce simp: make_spec_def w intro: ready.count)
  next
    case 9 thus ?thesis using f(2) args_series sc by (fastforce simp: make_spec_def intro: ready.abs)
  next
    case 10 thus ?thesis using f(2) args_series_series sc by (fastforce simp: make_spec_def intro: ready.max)
  next
    case 11 thus ?thesis using f(2) args_series_series sc by (fastforce simp: make_spec_def intro: ready.min)
  next
    case 12 thus ?thesis using f(2) args_series_integer [of x_param] sc by (fastforce simp: make_spec_def intro: ready.std)
  next
    case 13 thus ?thesis using f(2) args_condition_series_series sc by (fastforce simp: make_spec_def intro: ready.if')
  next
    case 14 thus ?thesis using f(2) args_series_series sc by (fastforce simp: make_spec_def intro: ready.cross)
  next
    case 15 thus ?thesis using f(2) args_series_series_integer sc by (fastforce simp: make_spec_def intro: ready.longcross)
  next
    case 16 thus ?thesis using f(2) args_condition sc by (fastforce simp: make_spec_def intro: ready.barslast)
  next
    case 17 thus ?thesis using f(2) args_condition_integer sc by (fastforce simp: make_spec_def intro: ready.filter)
  qed
qed

section \<open>The cell of a call\<close>

datatype cell = NumberCell "rat option" | BooleanCell "bool option"

fun cell_of :: "runtime_value \<Rightarrow> nat \<Rightarrow> cell" where
  "cell_of (Scalar v) i = NumberCell (Some (scalar_number v))"
| "cell_of (NumberSeries s) i = NumberCell (s ! i)"
| "cell_of (BooleanSeries b) i = BooleanCell (b ! i)"

fun window_argument :: "runtime_value \<Rightarrow> nat" where
  "window_argument (Scalar (IntegerScalar n)) = nat n"
| "window_argument _ = 0"

definition alpha_of :: "nat \<Rightarrow> nat \<Rightarrow> rat" where
  "alpha_of m n = the (round64 (of_int (int m) / of_int (int n)))"

definition kernel_cell :: "string \<Rightarrow> runtime_value list \<Rightarrow> nat \<Rightarrow> cell" where
  "kernel_cell key args i =
     (let g = num_cell (args ! 0); h = num_cell (args ! 1); c = cond_cell (args ! 0); n = window_argument (args ! 1) in
      if key = ''math.abs'' then NumberCell (map_option abs (g i))
      else if key = ''math.max'' then NumberCell (binary_cell ''MAX'' (\<lambda>a b. Some (max a b)) (g i) (h i))
      else if key = ''math.min'' then NumberCell (binary_cell ''MIN'' (\<lambda>a b. Some (min a b)) (g i) (h i))
      else if key = ''logic.if'' then NumberCell (Option.bind (c i) (\<lambda>b. if b then h i else num_cell (args ! 2) i))
      else if key = ''series.ref'' then NumberCell (if n \<le> i then g (i - n) else None)
      else if key = ''series.ma'' then NumberCell (window_cell WindowMa n (window_cells g n i))
      else if key = ''statistics.std'' then NumberCell (window_cell WindowStd n (window_cells g n i))
      else if key = ''series.hhv'' then NumberCell (extreme_cell Max (window_cells g n i))
      else if key = ''series.llv'' then NumberCell (extreme_cell Min (window_cells g n i))
      else if key = ''series.sum'' then NumberCell (window_cell WindowSum n (window_cells g n i))
      else if key = ''series.count'' then NumberCell (count_cell (window_cells c n i))
      else if key = ''series.ema'' then NumberCell (smooth_cell (alpha_of 2 (n + 1)) g i)
      else if key = ''series.sma'' then NumberCell (smooth_cell (alpha_of (window_argument (args ! 2)) n) g i)
      else if key = ''signal.cross'' then BooleanCell (cross_cell g h i)
      else if key = ''signal.longcross'' then BooleanCell (longcross_cell g h (window_argument (args ! 2)) i)
      else if key = ''signal.barslast'' then NumberCell (barslast_cell c i)
      else BooleanCell (filter_cell n c i))"

text \<open>A smoothing weight is at most one, so it is a binary64 value.\<close>

lemma round64_small:
  assumes "\<bar>x\<bar> \<le> 1"
  shows "\<exists>v. round64 x = Some v"
proof (cases "x = 0")
  case False
  have "2 powi leading_exponent \<bar>x\<bar> \<le> \<bar>x\<bar>" using leading_exponent_bounds [of "\<bar>x\<bar>"] False by simp
  hence one: "(2 :: rat) powi leading_exponent \<bar>x\<bar> \<le> 1" using assms by simp
  have "leading_exponent \<bar>x\<bar> \<le> 0"
  proof (rule ccontr)
    assume "\<not> leading_exponent \<bar>x\<bar> \<le> 0"
    hence "(2 :: rat) powi 1 \<le> 2 powi leading_exponent \<bar>x\<bar>" by (intro power_int_increasing) simp_all
    thus False using one by simp
  qed
  hence e: "unit_exponent x \<le> - 52" by (simp add: unit_exponent_def)
  have "of_nat (rounded_units x) * 2 powi unit_exponent x \<le> (2 ^ 53 * 2 powi (- 52) :: rat)"
  proof (rule mult_mono)
    have "(of_nat (rounded_units x) :: rat) \<le> of_nat (2 ^ 53)" using units_le [OF False] by (simp only: of_nat_le_iff)
    thus "(of_nat (rounded_units x) :: rat) \<le> 2 ^ 53" by simp
    show "(2 :: rat) powi unit_exponent x \<le> 2 powi (- 52)" using e by (intro power_int_increasing) simp_all
  qed simp_all
  also have "(2 ^ 53 * 2 powi (- 52) :: rat) = 2" by (simp add: power_int_minus)
  finally have le: "of_nat (rounded_units x) * 2 powi unit_exponent x \<le> (2 :: rat)" .
  have "(2 :: rat) < 2 ^ 1024" by simp
  hence "\<not> 2 ^ 1024 \<le> of_nat (rounded_units x) * (2 :: rat) powi unit_exponent x" using le by linarith
  thus ?thesis using False by (simp only: round64_units Let_def if_False) simp
qed (simp add: round64_def)

lemma alpha_of_round: "m \<le> n \<Longrightarrow> 1 \<le> n \<Longrightarrow> round64 (of_int (int m) / of_int (int n)) = Some (alpha_of m n)"
  using round64_small [of "of_int (int m) / of_int (int n)"] by (auto simp: alpha_of_def)

lemma sma_cells:
  assumes "number_series x rows = Inr (map g [0..<rows])" "m \<le> n" "1 \<le> n"
  shows "yields rows (sma [x, Scalar (IntegerScalar (int n)), Scalar (IntegerScalar (int m))] rows) (smooth_cell (alpha_of m n) g)"
  unfolding sma_def using assms smooth_cells [OF assms(1), of "int n" "int m" "alpha_of m n"] alpha_of_round [of m n] by simp

lemma ema_cells:
  assumes x: "number_series x rows = Inr (map g [0..<rows])" and n: "1 \<le> n" "int n \<le> max_lookback"
  shows "yields rows (ema [x, Scalar (IntegerScalar (int n))] rows) (smooth_cell (alpha_of 2 (n + 1)) g)"
proof -
  have "mk_integer_scalar (int n + 1) = Inr (IntegerScalar (int n + 1))" "mk_integer_scalar 2 = Inr (IntegerScalar 2)"
    using n by (simp_all add: mk_integer_scalar_def max_lookback_def)
  hence "ema [x, Scalar (IntegerScalar (int n))] rows = smooth [x, Scalar (IntegerScalar (int n + 1)), Scalar (IntegerScalar 2)] rows"
    by (simp add: ema_def smooth_number_def)
  thus ?thesis
    using smooth_cells [OF x, of "int (n + 1)" "int 2" "alpha_of 2 (n + 1)"] alpha_of_round [of 2 "n + 1"] n(1) by (simp add: add.commute)
qed

definition gives :: "nat \<Rightarrow> kernel_result res \<Rightarrow> (nat \<Rightarrow> cell) \<Rightarrow> value_kind \<Rightarrow> bool" where
  "gives rows r c k \<longleftrightarrow>
     (\<exists>v issues. r = Inr \<lparr>kr_value = v, kr_issues = issues\<rparr> \<and> kind_of v = k \<and> series_length v = Some rows
        \<and> issues_inside rows issues \<and> (\<forall>i < rows. cell_of v i = c i))"

lemma yields_gives: "yields rows r g \<Longrightarrow> (\<And>i. c i = NumberCell (g i)) \<Longrightarrow> gives rows r c NumberKind"
  unfolding yields_def gives_def by auto

lemma signals_gives: "signals rows r g \<Longrightarrow> (\<And>i. c i = BooleanCell (g i)) \<Longrightarrow> gives rows r c BooleanKind"
  unfolding signals_def gives_def by auto

lemma numeric_cells: "numeric rows x \<Longrightarrow> number_series x rows = Inr (map (num_cell x) [0..<rows])"
  unfolding numeric_def by (rule number_series_cells) simp_all

lemma kernel_table:
  "map_of kernels ''math.abs'' = Some kernel_abs"
  "map_of kernels ''math.max'' = Some kernel_max"
  "map_of kernels ''math.min'' = Some kernel_min"
  "map_of kernels ''logic.if'' = Some kernel_if"
  "map_of kernels ''series.ref'' = Some ref"
  "map_of kernels ''series.ma'' = Some ma"
  "map_of kernels ''series.ema'' = Some ema"
  "map_of kernels ''series.sma'' = Some sma"
  "map_of kernels ''series.hhv'' = Some hhv"
  "map_of kernels ''series.llv'' = Some llv"
  "map_of kernels ''series.sum'' = Some total_of"
  "map_of kernels ''series.count'' = Some count_of"
  "map_of kernels ''statistics.std'' = Some std"
  "map_of kernels ''signal.cross'' = Some cross"
  "map_of kernels ''signal.longcross'' = Some longcross"
  "map_of kernels ''signal.barslast'' = Some barslast"
  "map_of kernels ''signal.filter'' = Some filter_hits"
  by (simp_all add: kernels_def)

lemma spec_table:
  "map_option fn_result (spec_for ''math.abs'') = Some NumberKind"
  "map_option fn_result (spec_for ''math.max'') = Some NumberKind"
  "map_option fn_result (spec_for ''math.min'') = Some NumberKind"
  "map_option fn_result (spec_for ''logic.if'') = Some NumberKind"
  "map_option fn_result (spec_for ''series.ref'') = Some NumberKind"
  "map_option fn_result (spec_for ''series.ma'') = Some NumberKind"
  "map_option fn_result (spec_for ''series.ema'') = Some NumberKind"
  "map_option fn_result (spec_for ''series.sma'') = Some NumberKind"
  "map_option fn_result (spec_for ''series.hhv'') = Some NumberKind"
  "map_option fn_result (spec_for ''series.llv'') = Some NumberKind"
  "map_option fn_result (spec_for ''series.sum'') = Some NumberKind"
  "map_option fn_result (spec_for ''series.count'') = Some NumberKind"
  "map_option fn_result (spec_for ''statistics.std'') = Some NumberKind"
  "map_option fn_result (spec_for ''signal.cross'') = Some BooleanKind"
  "map_option fn_result (spec_for ''signal.longcross'') = Some BooleanKind"
  "map_option fn_result (spec_for ''signal.barslast'') = Some NumberKind"
  "map_option fn_result (spec_for ''signal.filter'') = Some BooleanKind"
  by (simp_all add: spec_for_def v1_registry_def series_functions_def statistics_functions_def signal_functions_def make_spec_def)

definition runs :: "nat \<Rightarrow> string \<Rightarrow> runtime_value list \<Rightarrow> bool" where
  "runs rows key args \<longleftrightarrow>
     (\<exists>run k. map_of kernels key = Some run \<and> map_option fn_result (spec_for key) = Some k
        \<and> gives rows (run args rows) (kernel_cell key args) k)"

lemma runs_number:
  assumes "map_of kernels key = Some run" "map_option fn_result (spec_for key) = Some NumberKind"
    and "yields rows (run args rows) g" "\<And>i. kernel_cell key args i = NumberCell (g i)"
  shows "runs rows key args"
  unfolding runs_def using assms(1,2) yields_gives [OF assms(3,4)] by blast

lemma runs_boolean:
  assumes "map_of kernels key = Some run" "map_option fn_result (spec_for key) = Some BooleanKind"
    and "signals rows (run args rows) g" "\<And>i. kernel_cell key args i = BooleanCell (g i)"
  shows "runs rows key args"
  unfolding runs_def using assms(1,2) signals_gives [OF assms(3,4)] by blast

lemma kernel_abs_cells: "numeric rows x \<Longrightarrow> yields rows (kernel_abs [x] rows) (\<lambda>i. map_option abs (num_cell x i))"
  unfolding kernel_abs_def argument_simps bind_res_simps by (rule unary_cells [OF numeric_cells]) simp_all

lemma kernel_max_cells:
  "numeric rows x \<Longrightarrow> numeric rows y \<Longrightarrow>
   yields rows (kernel_max [x, y] rows) (\<lambda>i. binary_cell ''MAX'' (\<lambda>a b. Some (max a b)) (num_cell x i) (num_cell y i))"
  unfolding kernel_max_def argument_simps bind_res_simps
  by (rule binary_cells [OF numeric_cells numeric_cells]) (simp_all add: binary_operation_def)

lemma kernel_min_cells:
  "numeric rows x \<Longrightarrow> numeric rows y \<Longrightarrow>
   yields rows (kernel_min [x, y] rows) (\<lambda>i. binary_cell ''MIN'' (\<lambda>a b. Some (min a b)) (num_cell x i) (num_cell y i))"
  unfolding kernel_min_def argument_simps bind_res_simps
  by (rule binary_cells [OF numeric_cells numeric_cells]) (simp_all add: binary_operation_def)

lemma kernel_if_cells:
  "fits_rows rows c \<Longrightarrow> numeric rows x \<Longrightarrow> numeric rows y \<Longrightarrow>
   yields rows (kernel_if [c, x, y] rows) (\<lambda>i. Option.bind (cond_cell c i) (\<lambda>b. if b then num_cell x i else num_cell y i))"
  unfolding kernel_if_def argument_simps bind_res_simps
  by (rule choose_cells [OF condition_series_cells numeric_cells numeric_cells])

lemma ready_runs: "ready rows key args \<Longrightarrow> runs rows key args"
proof (induction rule: ready.induct)
  case (abs x)
  show ?case
    by (rule runs_number [OF kernel_table(1) spec_table(1) kernel_abs_cells [OF abs]]) (simp add: kernel_cell_def)
next
  case (max x y)
  show ?case
    by (rule runs_number [OF kernel_table(2) spec_table(2) kernel_max_cells [OF max]]) (simp add: kernel_cell_def)
next
  case (min x y)
  show ?case
    by (rule runs_number [OF kernel_table(3) spec_table(3) kernel_min_cells [OF min]]) (simp add: kernel_cell_def)
next
  case (if' c x y)
  show ?case
    by (rule runs_number [OF kernel_table(4) spec_table(4) kernel_if_cells [OF if']]) (simp add: kernel_cell_def cong: if_cong)
next
  case (ref x n)
  show ?case
    by (rule runs_number [OF kernel_table(5) spec_table(5) ref_cells [OF numeric_cells [OF ref]]]) (simp add: kernel_cell_def)
next
  case (ma x n)
  have "window_domain WindowMa n" using ma by (simp add: window_domain_def)
  thus ?case
    by (rule runs_number [OF kernel_table(6) spec_table(6) windowed_cells [OF numeric_cells [OF ma(1)], of WindowMa, folded ma_def]]) (simp add: kernel_cell_def)
next
  case (std x n)
  have "window_domain WindowStd n" using std by (simp add: window_domain_def)
  thus ?case
    by (rule runs_number [OF kernel_table(13) spec_table(13) windowed_cells [OF numeric_cells [OF std(1)], of WindowStd, folded std_def]]) (simp add: kernel_cell_def)
next
  case (hhv x n)
  show ?case
    by (rule runs_number [OF kernel_table(9) spec_table(9) hhv_cells [OF numeric_cells [OF hhv]]]) (simp add: kernel_cell_def)
next
  case (llv x n)
  show ?case
    by (rule runs_number [OF kernel_table(10) spec_table(10) llv_cells [OF numeric_cells [OF llv]]]) (simp add: kernel_cell_def)
next
  case (sum x n)
  have "window_domain WindowSum n" using sum by (simp add: window_domain_def)
  thus ?case
    by (rule runs_number [OF kernel_table(11) spec_table(11) windowed_cells [OF numeric_cells [OF sum], of WindowSum, folded total_of_def]]) (simp add: kernel_cell_def)
next
  case (count x n)
  show ?case
    by (rule runs_number [OF kernel_table(12) spec_table(12) count_cells [OF condition_series_cells [OF count]]]) (simp add: kernel_cell_def)
next
  case (ema x n)
  show ?case
    by (rule runs_number [OF kernel_table(7) spec_table(7) ema_cells [OF numeric_cells [OF ema(1)] ema(2,3)]]) (simp add: kernel_cell_def)
next
  case (sma x m n)
  show ?case
    by (rule runs_number [OF kernel_table(8) spec_table(8) sma_cells [OF numeric_cells [OF sma(1)] sma(3) order_trans [OF sma(2,3)]]]) (simp add: kernel_cell_def)
next
  case (cross x y)
  show ?case
    by (rule runs_boolean [OF kernel_table(14) spec_table(14) cross_cells [OF numeric_cells [OF cross(1)] numeric_cells [OF cross(2)]]]) (simp add: kernel_cell_def)
next
  case (longcross x y n)
  show ?case
    by (rule runs_boolean [OF kernel_table(15) spec_table(15) longcross_cells [OF numeric_cells [OF longcross(1)] numeric_cells [OF longcross(2)]]]) (simp add: kernel_cell_def)
next
  case (barslast x)
  show ?case
    by (rule runs_number [OF kernel_table(16) spec_table(16) barslast_cells [OF condition_series_cells [OF barslast]]]) (simp add: kernel_cell_def)
next
  case (filter x n)
  show ?case
    by (rule runs_boolean [OF kernel_table(17) spec_table(17) filter_cells [OF condition_series_cells [OF filter]]]) (simp add: kernel_cell_def)
qed

text \<open>Every call that passes the preflight returns, and passes the postflight.\<close>

lemma postflight_runs:
  assumes "map_option fn_result (spec_for key) = Some k"
    and "kind_of (kr_value r) = k" "series_length (kr_value r) = Some rows" "issues_inside rows (kr_issues r)"
  shows "postflight key r rows = Inr ()"
proof -
  obtain f where f: "spec_for key = Some f" "fn_result f = k" using assms(1) by auto
  have "\<not> list_ex (\<lambda>i. \<not> (0 < ri_count i \<and> ri_count i \<le> rows \<and> ri_first_index i < rows)) (kr_issues r)"
    using assms(4) by (auto simp: issues_inside_def list_all_iff list_ex_iff)
  thus ?thesis using f assms(2,3) by (simp add: postflight_def)
qed

lemma execute_runs:
  assumes "preflight key args rows = Inr u"
  obtains r where "execute_kernel key args rows = Inr r" "map_option fn_result (spec_for key) = Some (kind_of (kr_value r))"
    "series_length (kr_value r) = Some rows" "\<And>i. i < rows \<Longrightarrow> cell_of (kr_value r) i = kernel_cell key args i"
proof -
  obtain run k v issues where run: "map_of kernels key = Some run" and k: "map_option fn_result (spec_for key) = Some k"
    and v: "run args rows = Inr \<lparr>kr_value = v, kr_issues = issues\<rparr>" "kind_of v = k" "series_length v = Some rows"
      "issues_inside rows issues" "\<forall>i < rows. cell_of v i = kernel_cell key args i"
    using ready_runs [OF preflight_ready [OF assms]] unfolding runs_def gives_def by blast
  have "postflight key \<lparr>kr_value = v, kr_issues = issues\<rparr> rows = Inr ()"
    by (rule postflight_runs [OF k]) (simp_all add: v)
  hence "execute_kernel key args rows = Inr \<lparr>kr_value = v, kr_issues = issues\<rparr>"
    using assms by (cases u) (simp add: execute_kernel_def run v(1))
  thus ?thesis using that [of "\<lparr>kr_value = v, kr_issues = issues\<rparr>"] k v by simp
qed

lemma execute_Inr:
  assumes "execute_kernel key args rows = Inr r"
  shows "preflight key args rows = Inr ()"
  using assms by (auto simp: execute_kernel_def res_simps)

text \<open>The preflight looks at kinds, scalars and lengths only.\<close>

definition alike :: "runtime_value \<Rightarrow> runtime_value \<Rightarrow> bool" where
  "alike v w \<longleftrightarrow> kind_of v = kind_of w \<and> (\<forall>s. v = Scalar s \<longrightarrow> w = v)"

lemma alike_simps [simp]:
  "alike (Scalar s) w \<longleftrightarrow> w = Scalar s"
  "alike (NumberSeries a) w \<longleftrightarrow> (\<exists>b. w = NumberSeries b)"
  "alike (BooleanSeries p) w \<longleftrightarrow> (\<exists>q. w = BooleanSeries q)"
  by (auto simp: alike_def kind_cases; (metis kind_cases(1,2))?)+

lemma check_argument_alike:
  assumes "check_argument p a rows sc = Inr sc'" "alike a b" "fits_rows rows' b"
  shows "check_argument p b rows' sc = Inr sc'"
  using assms by (cases a) (auto simp: check_argument_def split: if_splits)

lemma check_arguments_alike:
  "check_arguments ps args rows sc = Inr sc' \<Longrightarrow> list_all2 (\<lambda>a b. alike a b \<and> fits_rows rows' b) args args' \<Longrightarrow>
   check_arguments ps args' rows' sc = Inr sc'"
proof (induction ps args rows sc arbitrary: args' rule: check_arguments.induct)
  case (2 p ps a rest rows sc)
  obtain s where s: "check_argument p a rows sc = Inr s" "check_arguments ps rest rows s = Inr sc'"
    using 2(2) by (auto simp: res_simps)
  obtain b bs where b: "args' = b # bs" "alike a b" "fits_rows rows' b" "list_all2 (\<lambda>a b. alike a b \<and> fits_rows rows' b) rest bs"
    using 2(3) by (auto simp: list_all2_Cons1)
  show ?case using b(1) check_argument_alike [OF s(1) b(2,3)] 2(1) [OF s(1) s(2) b(4)] by simp
qed auto

lemma preflight_alike:
  assumes "preflight key args rows = Inr u" "list_all2 (\<lambda>a b. alike a b \<and> fits_rows rows' b) args args'" "rows' \<le> max_bar_series_rows"
  shows "preflight key args' rows' = Inr ()"
proof -
  obtain f where f: "spec_for key = Some f" and n: "min_args f \<le> length args" "length args \<le> max_args f"
    using assms(1) by (cases "spec_for key") (auto simp: preflight_def split: if_splits)
  obtain sc where sc: "check_arguments (fn_parameters f) args rows Map.empty = Inr sc"
    "each (check_relation sc) (fn_relations f) = Inr u"
    using assms(1) f by (auto simp: preflight_def res_simps split: if_splits)
  have "length args' = length args" using assms(2) by (simp add: list_all2_lengthD)
  thus ?thesis
    using f n sc check_arguments_alike [OF sc(1) assms(2)] assms(3) by (cases u) (simp add: preflight_def)
qed

section \<open>The rows a call reads\<close>

definition call_reach :: "string \<Rightarrow> runtime_value list \<Rightarrow> nat set option" where
  "call_reach key args =
     (let n = window_argument (args ! 1) in
      if key \<in> {''math.abs'', ''math.max'', ''math.min'', ''logic.if''} then Some {0}
      else if key = ''series.ref'' then Some {n}
      else if key \<in> {''series.ma'', ''statistics.std'', ''series.hhv'', ''series.llv'', ''series.sum'', ''series.count''}
      then window_reach n
      else if key = ''signal.cross'' then Some {0, 1}
      else if key = ''signal.longcross'' then Some {0..window_argument (args ! 2)}
      else None)"

definition same_at :: "nat \<Rightarrow> runtime_value \<Rightarrow> nat \<Rightarrow> runtime_value \<Rightarrow> bool" where
  "same_at i v j w \<longleftrightarrow> alike v w \<and> cell_of v i = cell_of w j"

lemma same_at_cases:
  assumes "same_at i v j w"
  obtains s where "v = Scalar s" "w = Scalar s"
  | a b where "v = NumberSeries a" "w = NumberSeries b" "a ! i = b ! j"
  | p q where "v = BooleanSeries p" "w = BooleanSeries q" "p ! i = q ! j"
  using assms unfolding same_at_def by (cases v) auto

lemma same_at_cells:
  assumes "same_at i v j w"
  shows "num_cell v i = num_cell w j" "cond_cell v i = cond_cell w j" "window_argument v = window_argument w"
proof -
  show "num_cell v i = num_cell w j" using assms by (rule same_at_cases) simp_all
  show "cond_cell v i = cond_cell w j" using assms by (rule same_at_cases) simp_all
  show "window_argument v = window_argument w" using assms by (rule same_at_cases) simp_all
qed

lemma same_past_mono:
  "same_past reach P t t' \<Longrightarrow> (\<And>i j. P i j \<Longrightarrow> Q i j) \<Longrightarrow> same_past reach Q t t'"
  unfolding same_past_def by blast

lemma same_past_now: "same_past (Some K) P t t' \<Longrightarrow> 0 \<in> K \<Longrightarrow> P t t'"
  unfolding same_past_def by force

lemma same_past_back: "same_past (Some K) P t t' \<Longrightarrow> k \<in> K \<Longrightarrow> (k \<le> t \<and> k \<le> t' \<and> P (t - k) (t' - k)) \<or> (t = t' \<and> (k \<le> t \<longrightarrow> P (t - k) (t - k)))"
  unfolding same_past_def by auto

lemma same_past_None: "same_past None P t t' \<Longrightarrow> t = t' \<and> (\<forall>j \<le> t. P j j)"
  unfolding same_past_def by simp

lemma cross_cell_local:
  assumes "same_past (Some {0, 1}) (\<lambda>i j. g i = g' j \<and> h i = h' j) t t'"
  shows "cross_cell g h t = cross_cell g' h' t'"
  using same_past_now [OF assms] same_past_back [OF assms, of 1] by (auto simp: cross_cell_def)

lemma longcross_cell_local:
  assumes "same_past (Some {0..n}) (\<lambda>i j. g i = g' j \<and> h i = h' j) t t'"
  shows "longcross_cell g h n t = longcross_cell g' h' n t'"
proof -
  note earlier = same_past_back [OF assms]
  have now: "g t = g' t' \<and> h t = h' t'" using same_past_now [OF assms] by simp
  have n: "n \<le> t \<longleftrightarrow> n \<le> t'" using earlier [of n] by auto
  have past: "g (t - k) = g' (t' - k)" "h (t - k) = h' (t' - k)" if "n \<le> t" "k \<in> {1..n}" for k
    using earlier [of k] that by auto
  have all: "(\<forall>k \<in> {1..n}. both (<) (g (t - k)) (h (t - k)) = Some True) = (\<forall>k \<in> {1..n}. both (<) (g' (t' - k)) (h' (t' - k)) = Some True)"
    if "n \<le> t" using past [OF that] by (intro ball_cong refl) (simp only:)
  show ?thesis
  proof (cases "n \<le> t")
    case True
    thus ?thesis unfolding longcross_cell_def using now n all [OF True] by (simp only:)
  next
    case False
    thus ?thesis unfolding longcross_cell_def using n by simp
  qed
qed

lemma barslast_cell_local: "(\<And>j. j \<le> t \<Longrightarrow> g j = g' j) \<Longrightarrow> barslast_cell g t = barslast_cell g' t"
proof -
  assume "\<And>j. j \<le> t \<Longrightarrow> g j = g' j"
  hence "{j. j \<le> t \<and> g j = Some True} = {j. j \<le> t \<and> g' j = Some True}" by auto
  thus ?thesis unfolding barslast_cell_def by (simp only:)
qed

lemma prefix_map_cong: "(\<And>j. j \<le> t \<Longrightarrow> g j = g' j) \<Longrightarrow> map g [0..<Suc t] = map g' [0..<Suc t]"
  by (auto simp del: upt_Suc)

lemma kernel_cell_local:
  assumes len: "length ws = length vs" and ready: "ready rows key vs"
    and past: "same_past (call_reach key vs) (\<lambda>i j. \<forall>a < length vs. same_at i (vs ! a) j (ws ! a)) t t'"
    and alike: "\<forall>a < length vs. alike (vs ! a) (ws ! a)"
  shows "kernel_cell key vs t = kernel_cell key ws t'"
proof -
  have past0: "same_past (call_reach key vs) (\<lambda>i j. num_cell (vs ! a) i = num_cell (ws ! a) j \<and> cond_cell (vs ! a) i = cond_cell (ws ! a) j) t t'"
    if "a < length vs" for a
    using past by (rule same_past_mono) (use that same_at_cells in blast)
  have past2: "same_past (call_reach key vs) (\<lambda>i j. num_cell (vs ! 0) i = num_cell (ws ! 0) j \<and> num_cell (vs ! 1) i = num_cell (ws ! 1) j) t t'"
    if "1 < length vs"
    using past by (rule same_past_mono) (use that same_at_cells in \<open>metis Suc_lessD One_nat_def\<close>)
  have win: "window_argument (ws ! a) = window_argument (vs ! a)" if "a < length vs" for a
  proof -
    have "alike (vs ! a) (ws ! a)" using alike that by blast
    thus ?thesis by (cases "vs ! a") auto
  qed
  have num: "same_past (call_reach key vs) (\<lambda>i j. num_cell (vs ! a) i = num_cell (ws ! a) j) t t'" if "a < length vs" for a
    using past0 [OF that] by (rule same_past_mono) simp
  have cond: "same_past (call_reach key vs) (\<lambda>i j. cond_cell (vs ! a) i = cond_cell (ws ! a) j) t t'" if "a < length vs" for a
    using past0 [OF that] by (rule same_past_mono) simp
  show ?thesis
    using ready
  proof (cases rule: ready.cases)
  case (abs x)
  have reach: "call_reach key vs = Some {0}" by (simp add: call_reach_def abs)
  have n0: "num_cell (vs ! 0) t = num_cell (ws ! 0) t'"
    using same_past_now [OF num [of 0, unfolded reach]] abs by simp
  show ?thesis by (simp only: kernel_cell_def abs(1) Let_def n0) simp
  next
  case (max x y)
  have reach: "call_reach key vs = Some {0}" by (simp add: call_reach_def max)
  have n0: "num_cell (vs ! 0) t = num_cell (ws ! 0) t'"
    using same_past_now [OF num [of 0, unfolded reach]] max by simp
  have n1: "num_cell (vs ! 1) t = num_cell (ws ! 1) t'"
    using same_past_now [OF num [of 1, unfolded reach]] max by simp
  show ?thesis by (simp only: kernel_cell_def max(1) Let_def n0 n1) simp
  next
  case (min x y)
  have reach: "call_reach key vs = Some {0}" by (simp add: call_reach_def min)
  have n0: "num_cell (vs ! 0) t = num_cell (ws ! 0) t'"
    using same_past_now [OF num [of 0, unfolded reach]] min by simp
  have n1: "num_cell (vs ! 1) t = num_cell (ws ! 1) t'"
    using same_past_now [OF num [of 1, unfolded reach]] min by simp
  show ?thesis by (simp only: kernel_cell_def min(1) Let_def n0 n1) simp
  next
  case (if' c x y)
  have reach: "call_reach key vs = Some {0}" by (simp add: call_reach_def if')
  have c0: "cond_cell (vs ! 0) t = cond_cell (ws ! 0) t'"
    using same_past_now [OF cond [of 0, unfolded reach]] if' by simp
  have n1: "num_cell (vs ! 1) t = num_cell (ws ! 1) t'"
    using same_past_now [OF num [of 1, unfolded reach]] if' by simp
  have n2: "num_cell (vs ! 2) t = num_cell (ws ! 2) t'"
    using same_past_now [OF num [of 2, unfolded reach]] if' by simp
  show ?thesis by (simp only: kernel_cell_def if'(1) Let_def c0 n1 n2) simp
  next
  case (ref x n)
  have reach: "call_reach key vs = Some {n}" by (simp add: call_reach_def ref)
  have wa: "window_argument (vs ! 1) = n" "window_argument (ws ! 1) = n" using win [of 1] ref by simp_all
  have "(if n \<le> t then num_cell (vs ! 0) (t - n) else None) = (if n \<le> t' then num_cell (ws ! 0) (t' - n) else None)"
    using same_past_back [OF num [of 0, unfolded reach]] ref by auto
  thus ?thesis by (simp only: kernel_cell_def ref(1) Let_def wa) simp
  next
  case (ma x n)
  have reach: "call_reach key vs = window_reach n" by (simp add: call_reach_def ma)
  have wa: "window_argument (vs ! 1) = n" "window_argument (ws ! 1) = n" using win [of 1] ma by simp_all
  have w: "window_cells (num_cell (vs ! 0)) n t = window_cells (num_cell (ws ! 0)) n t'"
    using window_cells_local [OF num [of 0, unfolded reach]] ma by simp
  show ?thesis by (simp only: kernel_cell_def ma(1) Let_def wa w) simp
  next
  case (std x n)
  have reach: "call_reach key vs = window_reach n" by (simp add: call_reach_def std)
  have wa: "window_argument (vs ! 1) = n" "window_argument (ws ! 1) = n" using win [of 1] std by simp_all
  have w: "window_cells (num_cell (vs ! 0)) n t = window_cells (num_cell (ws ! 0)) n t'"
    using window_cells_local [OF num [of 0, unfolded reach]] std by simp
  show ?thesis by (simp only: kernel_cell_def std(1) Let_def wa w) simp
  next
  case (hhv x n)
  have reach: "call_reach key vs = window_reach n" by (simp add: call_reach_def hhv)
  have wa: "window_argument (vs ! 1) = n" "window_argument (ws ! 1) = n" using win [of 1] hhv by simp_all
  have w: "window_cells (num_cell (vs ! 0)) n t = window_cells (num_cell (ws ! 0)) n t'"
    using window_cells_local [OF num [of 0, unfolded reach]] hhv by simp
  show ?thesis by (simp only: kernel_cell_def hhv(1) Let_def wa w) simp
  next
  case (llv x n)
  have reach: "call_reach key vs = window_reach n" by (simp add: call_reach_def llv)
  have wa: "window_argument (vs ! 1) = n" "window_argument (ws ! 1) = n" using win [of 1] llv by simp_all
  have w: "window_cells (num_cell (vs ! 0)) n t = window_cells (num_cell (ws ! 0)) n t'"
    using window_cells_local [OF num [of 0, unfolded reach]] llv by simp
  show ?thesis by (simp only: kernel_cell_def llv(1) Let_def wa w) simp
  next
  case (sum x n)
  have reach: "call_reach key vs = window_reach n" by (simp add: call_reach_def sum)
  have wa: "window_argument (vs ! 1) = n" "window_argument (ws ! 1) = n" using win [of 1] sum by simp_all
  have w: "window_cells (num_cell (vs ! 0)) n t = window_cells (num_cell (ws ! 0)) n t'"
    using window_cells_local [OF num [of 0, unfolded reach]] sum by simp
  show ?thesis by (simp only: kernel_cell_def sum(1) Let_def wa w) simp
  next
  case (count x n)
  have reach: "call_reach key vs = window_reach n" by (simp add: call_reach_def count)
  have wa: "window_argument (vs ! 1) = n" "window_argument (ws ! 1) = n" using win [of 1] count by simp_all
  have w: "window_cells (cond_cell (vs ! 0)) n t = window_cells (cond_cell (ws ! 0)) n t'"
    using window_cells_local [OF cond [of 0, unfolded reach]] count by simp
  show ?thesis by (simp only: kernel_cell_def count(1) Let_def wa w) simp
  next
  case (ema x n)
  have reach: "call_reach key vs = None" by (simp add: call_reach_def ema)
  have wa: "window_argument (vs ! 1) = n" "window_argument (ws ! 1) = n" using win [of 1] ema by simp_all
  have tt: "t' = t" using same_past_None [OF num [of 0, unfolded reach]] ema by simp
  have p: "map (num_cell (vs ! 0)) [0..<Suc t] = map (num_cell (ws ! 0)) [0..<Suc t]"
    using same_past_None [OF num [of 0, unfolded reach]] ema by (intro prefix_map_cong) simp
  show ?thesis by (simp only: kernel_cell_def ema(1) Let_def wa tt smooth_cell_def p) simp
  next
  case (sma x m n)
  have reach: "call_reach key vs = None" by (simp add: call_reach_def sma)
  have wa: "window_argument (vs ! 1) = n" "window_argument (ws ! 1) = n" "window_argument (vs ! 2) = m" "window_argument (ws ! 2) = m"
    using win [of 1] win [of 2] sma by simp_all
  have tt: "t' = t" using same_past_None [OF num [of 0, unfolded reach]] sma by simp
  have p: "map (num_cell (vs ! 0)) [0..<Suc t] = map (num_cell (ws ! 0)) [0..<Suc t]"
    using same_past_None [OF num [of 0, unfolded reach]] sma by (intro prefix_map_cong) simp
  show ?thesis by (simp only: kernel_cell_def sma(1) Let_def wa tt smooth_cell_def p) simp
  next
  case (cross x y)
  have reach: "call_reach key vs = Some {0, 1}" by (simp add: call_reach_def cross)
  have "cross_cell (num_cell (vs ! 0)) (num_cell (vs ! 1)) t = cross_cell (num_cell (ws ! 0)) (num_cell (ws ! 1)) t'"
    by (rule cross_cell_local [OF past2 [unfolded reach]]) (simp add: cross)
  thus ?thesis by (simp only: kernel_cell_def cross(1) Let_def) simp
  next
  case (longcross x y n)
  have reach: "call_reach key vs = Some {0..n}" by (simp add: call_reach_def longcross)
  have wa: "window_argument (vs ! 2) = n" "window_argument (ws ! 2) = n" using win [of 2] longcross by simp_all
  have "longcross_cell (num_cell (vs ! 0)) (num_cell (vs ! 1)) n t = longcross_cell (num_cell (ws ! 0)) (num_cell (ws ! 1)) n t'"
    by (rule longcross_cell_local [OF past2 [unfolded reach]]) (simp add: longcross)
  thus ?thesis by (simp only: kernel_cell_def longcross(1) Let_def wa) simp
  next
  case (barslast x)
  have reach: "call_reach key vs = None" by (simp add: call_reach_def barslast)
  have "t' = t" "barslast_cell (cond_cell (vs ! 0)) t = barslast_cell (cond_cell (ws ! 0)) t"
    using same_past_None [OF cond [of 0, unfolded reach]] barslast by (auto intro: barslast_cell_local)
  thus ?thesis by (simp only: kernel_cell_def barslast(1) Let_def) simp
  next
  case (filter x n)
  have reach: "call_reach key vs = None" by (simp add: call_reach_def filter)
  have wa: "window_argument (vs ! 1) = n" "window_argument (ws ! 1) = n" using win [of 1] filter by simp_all
  have tt: "t' = t" using same_past_None [OF cond [of 0, unfolded reach]] filter by simp
  have p: "map (cond_cell (vs ! 0)) [0..<Suc t] = map (cond_cell (ws ! 0)) [0..<Suc t]"
    using same_past_None [OF cond [of 0, unfolded reach]] filter by (intro prefix_map_cong) simp
  show ?thesis by (simp only: kernel_cell_def filter(1) Let_def wa tt filter_cell_def p) simp
  qed
qed

end
