(* ===== verification/Formula_Typing.thy ===== *)
theory Formula_Typing
  imports Formula_Evaluator Formula_Cells
begin

text \<open>
  What compilation promises to evaluation: the compiled expressions are well typed, and a well typed expression
  evaluates, on any context of the right shape, to a value of its kind; only a scalar that the compiler
  could not see, a declared one, can make a kernel refuse its arguments.
\<close>

section \<open>The typing of compiled expressions\<close>

definition arithmetic_operators :: "string set" where
  "arithmetic_operators = {''+'', ''-'', ''*'', ''/'', ''%''}"

text \<open>The operators the parser produces.\<close>

fun parsed_operators :: "expression \<Rightarrow> bool" where
  "parsed_operators (Unary operator operand _) \<longleftrightarrow> operator \<in> {''+'', ''-'', ''NOT''} \<and> parsed_operators operand"
| "parsed_operators (Binary left operator right _) \<longleftrightarrow>
     operator \<in> {''AND'', ''OR''} \<union> comparison_operators \<union> arithmetic_operators
     \<and> parsed_operators left \<and> parsed_operators right"
| "parsed_operators (Call _ arguments _) \<longleftrightarrow> list_all parsed_operators arguments"
| "parsed_operators _ \<longleftrightarrow> True"

text \<open>An argument that the compiler can evaluate is inside the bounds of its parameter.\<close>

definition within_bounds :: "bindings \<Rightarrow> parameter_spec \<Rightarrow> compiled \<Rightarrow> bool" where
  "within_bounds bs p a \<longleftrightarrow>
     (case constraint_value a bs of None \<Rightarrow> True
      | Some v \<Rightarrow> \<not> below_minimum p (scalar_number v) \<and> \<not> above_maximum p (scalar_number v))"

fun known_constants :: "bindings \<Rightarrow> parameter_spec list \<Rightarrow> compiled list \<Rightarrow> (string \<rightharpoonup> rat) \<Rightarrow> (string \<rightharpoonup> rat)" where
  "known_constants bs (p # ps) (a # as) constants =
     known_constants bs ps as
       (case constraint_value a bs of None \<Rightarrow> constants | Some v \<Rightarrow> constants(pm_name p \<mapsto> scalar_number v))"
| "known_constants bs _ _ constants = constants"

fun well_typed :: "bindings \<Rightarrow> (string \<rightharpoonup> value_kind) \<Rightarrow> compiled \<Rightarrow> bool" where
  "well_typed bs env (LiteralExpression v k _) \<longleftrightarrow> k = scalar_kind v"
| "well_typed bs env (ReferenceExpression name source k _) \<longleftrightarrow>
     (case source of
        FieldSource \<Rightarrow> name \<in> set (field_names v1_registry) \<and> k = NumberKind
      | ParameterSource \<Rightarrow> \<exists>v. map_of bs name = Some v \<and> k = scalar_kind v
      | DeclarationSource \<Rightarrow> env name = Some k)"
| "well_typed bs env (UnaryExpression operator operand k _) \<longleftrightarrow>
     well_typed bs env operand \<and>
     (if operator \<in> {''+'', ''-''} then compiled_kind operand \<in> numeric_kinds \<and> k = compiled_kind operand
      else operator = ''NOT'' \<and> k = BooleanKind)"
| "well_typed bs env (BinaryExpression operator left right k _) \<longleftrightarrow>
     well_typed bs env left \<and> well_typed bs env right \<and>
     (if operator \<in> {''AND'', ''OR''} then k = BooleanKind
      else compiled_kind left \<in> numeric_kinds \<and> compiled_kind right \<in> numeric_kinds
        \<and> (if operator \<in> comparison_operators then k = BooleanKind else operator \<in> arithmetic_operators \<and> k = NumberKind))"
| "well_typed bs env (CallExpression name key arguments k _) \<longleftrightarrow>
     list_all (well_typed bs env) arguments \<and>
     (\<exists>f. function_of v1_registry name = Some f \<and> fn_dispatch f = key \<and> fn_result f = k
        \<and> list_all2 (\<lambda>p a. accepts_value_kind (pm_accepted p) (compiled_kind a) \<and> within_bounds bs p a) (fn_parameters f) arguments
        \<and> list_all (\<lambda>r. \<not> relation_violated (known_constants bs (fn_parameters f) arguments Map.empty) r) (fn_relations f))"

section \<open>The compiler's output is well typed\<close>

lemma function_named_v1: "f \<in> set (rg_functions v1_registry) \<Longrightarrow> function_of v1_registry (fn_name f) = Some f"
proof -
  have "\<forall>f \<in> set (rg_functions v1_registry). function_of v1_registry (fn_name f) = Some f" by code_simp
  thus "f \<in> set (rg_functions v1_registry) \<Longrightarrow> function_of v1_registry (fn_name f) = Some f" by blast
qed

lemma spec_for_v1: "f \<in> set (rg_functions v1_registry) \<Longrightarrow> spec_for (fn_dispatch f) = Some f"
proof -
  have "\<forall>f \<in> set (rg_functions v1_registry). spec_for (fn_dispatch f) = Some f" by code_simp
  thus "f \<in> set (rg_functions v1_registry) \<Longrightarrow> spec_for (fn_dispatch f) = Some f" by blast
qed

lemma function_of_mem: "function_of v1_registry name = Some f \<Longrightarrow> f \<in> set (rg_functions v1_registry)"
  by (auto simp: function_of_def function_named_def find_Some_iff)

lemma field_names_v1: "set (field_names v1_registry) = fd_name ` set registry_fields"
  by (simp add: field_names_def v1_registry_def)

lemma compile_name_typed:
  "compile_name v1_registry bs env name loc = Inr c \<Longrightarrow> well_typed bs env c"
  by (auto simp: compile_name_def split: if_splits option.splits)

lemma literal_typed: "literal x loc = Inr c \<Longrightarrow> well_typed bs env c"
  by (auto simp: literal_def split: option.splits if_splits)

lemma compile_unary_typed:
  "well_typed bs env operand \<Longrightarrow> operator \<in> {''+'', ''-'', ''NOT''} \<Longrightarrow> compile_unary operator operand loc = Inr c \<Longrightarrow>
   well_typed bs env c"
  unfolding compile_unary_def
  by (auto split: if_splits option.splits intro: literal_typed)

lemma compile_binary_typed:
  "well_typed bs env l \<Longrightarrow> well_typed bs env r \<Longrightarrow>
   operator \<in> {''AND'', ''OR''} \<union> comparison_operators \<union> arithmetic_operators \<Longrightarrow>
   compile_binary operator l r loc = Inr c \<Longrightarrow> well_typed bs env c"
  unfolding compile_binary_def by (auto split: if_splits)

lemma validate_argument_Inr:
  assumes "validate_argument f bs p a constants = Inr constants'"
  shows "accepts_value_kind (pm_accepted p) (compiled_kind a)" "within_bounds bs p a"
    "constants' = (case constraint_value a bs of None \<Rightarrow> constants | Some v \<Rightarrow> constants(pm_name p \<mapsto> scalar_number v))"
  using assms by (auto simp: validate_argument_def within_bounds_def Let_def split: if_splits option.splits)

lemma validate_each_Inr:
  "validate_each f bs ps as constants = Inr constants' \<Longrightarrow>
   list_all2 (\<lambda>p a. accepts_value_kind (pm_accepted p) (compiled_kind a) \<and> within_bounds bs p a) ps as
   \<and> constants' = known_constants bs ps as constants"
proof (induction f bs ps as constants rule: validate_each.induct)
  case (2 f bs p ps a rest constants)
  obtain c where c: "validate_argument f bs p a constants = Inr c" "validate_each f bs ps rest c = Inr constants'"
    using 2(2) by (auto simp: res_simps)
  show ?case using 2(1) [OF c] validate_argument_Inr [OF c(1)] by simp
qed auto

lemma compile_typed:
  "compile_expression v1_registry bs env e = Inr c \<Longrightarrow> parsed_operators e \<Longrightarrow> well_typed bs env c"
  "compile_all v1_registry bs env es = Inr cs \<Longrightarrow> list_all parsed_operators es \<Longrightarrow> list_all (well_typed bs env) cs"
proof (induction v1_registry bs env e and v1_registry bs env es arbitrary: c and cs
    rule: compile_expression_compile_all.induct)
  case (6 bs env name arguments loc)
  obtain f where f: "function_of v1_registry name = Some f"
    using 6(2) by (cases "function_of v1_registry name") auto
  obtain args u where args: "compile_all v1_registry bs env arguments = Inr args"
    "validate_arguments f bs args loc = Inr u" "c = CallExpression (fn_name f) (fn_dispatch f) args (fn_result f) loc"
    using 6(2) f by (auto simp: res_simps split: if_splits)
  have typed: "list_all (well_typed bs env) args" using 6(1) [OF f args(1)] 6(3) by simp
  obtain constants where constants: "validate_each f bs (fn_parameters f) args Map.empty = Inr constants"
    "\<not> list_ex (relation_violated constants) (fn_relations f)"
    using args(2) by (auto simp: validate_arguments_def res_simps split: if_splits)
  note each = validate_each_Inr [OF constants(1)]
  have upper: "function_of v1_registry (fn_name f) = Some f"
    by (rule function_named_v1 [OF function_of_mem [OF f]])
  show ?case using typed each constants(2) upper unfolding args(3) by (auto simp: list_all_iff list_ex_iff)
qed (auto simp: res_simps intro: literal_typed compile_name_typed compile_unary_typed compile_binary_typed)

section \<open>Evaluation of well typed expressions\<close>

definition context_wf :: "eval_context \<Rightarrow> bool" where
  "context_wf ctx \<longleftrightarrow>
     ec_rows ctx \<le> max_bar_series_rows \<and>
     (\<forall>name \<in> set (field_names v1_registry). \<exists>s. map_of (ec_fields ctx) name = Some s \<and> length s = ec_rows ctx) \<and>
     (\<forall>name \<in> set (map fst (ec_parameters ctx)). upper_ascii name = name)"

definition declared_wf :: "nat \<Rightarrow> (string \<rightharpoonup> value_kind) \<Rightarrow> (string \<rightharpoonup> runtime_value) \<Rightarrow> bool" where
  "declared_wf rows env declared \<longleftrightarrow>
     (\<forall>name k. env name = Some k \<longrightarrow> (\<exists>v. declared name = Some v \<and> kind_of v = k \<and> fits_rows rows v))"

lemma identifier_upper: "identifier_pattern s \<Longrightarrow> upper_ascii s = s"
proof -
  assume "identifier_pattern s"
  hence "\<forall>c \<in> set s. upper_char c \<or> (CHR ''0'' \<le> c \<and> c \<le> CHR ''9'') \<or> c = CHR ''_''"
    by (auto simp: identifier_pattern_def list_all_iff split: list.splits)
  hence "\<forall>c \<in> set s. c < CHR ''a''"
    by (fastforce simp: upper_char_def less_char_def less_eq_char_def)
  hence "\<forall>c \<in> set s. \<not> (CHR ''a'' \<le> c \<and> c \<le> CHR ''z'')" by auto
  thus ?thesis unfolding upper_ascii_def by (intro map_idI) (simp only: if_False)
qed

lemma field_names_upper: "name \<in> set (field_names v1_registry) \<Longrightarrow> upper_ascii name = name"
proof -
  have "\<forall>f \<in> set registry_fields. identifier_pattern (fd_name f)" by code_simp
  thus "name \<in> set (field_names v1_registry) \<Longrightarrow> upper_ascii name = name"
    unfolding field_names_v1 using identifier_upper by blast
qed

lemma make_context_wf:
  assumes "make_context v1_registry z provenance columns parameters = Inr ctx"
  shows "context_wf ctx" "ec_parameters ctx = parameters" "ec_rows ctx = length (cp_timestamps provenance)" "ec_fields ctx = columns"
proof -
  let ?rows = "length (cp_timestamps provenance)"
  have ctx: "ctx = \<lparr>ec_rows = ?rows, ec_fields = columns, ec_parameters = parameters\<rparr>"
    using assms by (auto simp: make_context_def Let_def res_simps split: if_splits)
  have names: "set (map fst columns) = set (field_names v1_registry)"
    and len: "\<not> list_ex (\<lambda>(_, s). length s \<noteq> ?rows) columns"
    and params: "\<not> list_ex (\<lambda>n. \<not> identifier_pattern n \<or> n \<in> set (field_names v1_registry)) (map fst parameters)"
    using assms by (auto simp: make_context_def Let_def res_simps split: if_splits)
  have "check_provenance z provenance = Inr ()"
    using assms by (auto simp: make_context_def res_simps)
  hence rows: "?rows \<le> max_bar_series_rows"
    by (auto simp: check_provenance_def Let_def split: if_splits option.splits)
  have "\<exists>s. map_of columns name = Some s \<and> length s = ?rows" if "name \<in> set (field_names v1_registry)" for name
  proof -
    have "name \<in> fst ` set columns" using that names by simp
    then obtain s where s: "map_of columns name = Some s" by (metis domD dom_map_of_conv_image_fst)
    thus ?thesis using len map_of_SomeD [OF s] by (auto simp: list_ex_iff)
  qed
  moreover have "upper_ascii n = n" if "n \<in> set (map fst parameters)" for n
    using params that identifier_upper by (auto simp: list_ex_iff)
  ultimately show "context_wf ctx" using rows by (simp add: context_wf_def ctx)
  show "ec_parameters ctx = parameters" "ec_rows ctx = ?rows" "ec_fields ctx = columns" by (simp_all add: ctx)
qed

definition has_kind :: "nat \<Rightarrow> value_kind \<Rightarrow> runtime_value \<Rightarrow> bool" where
  "has_kind rows k v \<longleftrightarrow> kind_of v = k \<and> fits_rows rows v"

lemma scalar_kind_of [simp]: "kind_of (Scalar v) = scalar_kind v"
  by (cases v) simp_all

lemma negate_kind [simp]: "scalar_kind (signed_scalar operator v) = scalar_kind v"
  by (cases v) (simp_all add: signed_scalar_def)

lemma has_kind_numeric: "has_kind rows k v \<Longrightarrow> k \<in> numeric_kinds \<Longrightarrow> numeric rows v"
  by (auto simp: has_kind_def numeric_def numeric_kinds_def)

lemma yields_kind: "yields rows r g \<Longrightarrow> \<exists>result. r = Inr result \<and> has_kind rows NumberKind (kr_value result)"
  by (auto simp: yields_def has_kind_def)

lemma signals_kind: "signals rows r g \<Longrightarrow> \<exists>result. r = Inr result \<and> has_kind rows BooleanKind (kr_value result)"
  by (auto simp: signals_def has_kind_def)

text \<open>The operators, cell by cell.\<close>

lemma evaluate_not:
  assumes "fits_rows rows v"
  obtains result where "evaluate_unary rows ''NOT'' loc (v, nested) = Inr (located loc nested result)"
    "has_kind rows BooleanKind (kr_value result)" "\<forall>i < rows. cell_of (kr_value result) i = BooleanCell (map_option Not (cond_cell v i))"
proof -
  have s: "signals rows (negated v rows) (\<lambda>i. map_option Not (cond_cell v i))"
    by (rule negated_cells [OF condition_series_cells [OF assms]])
  then obtain result where r: "negated v rows = Inr result" "has_kind rows BooleanKind (kr_value result)"
    "\<forall>i < rows. cell_of (kr_value result) i = BooleanCell (map_option Not (cond_cell v i))"
    by (auto simp: signals_def has_kind_def)
  have "evaluate_unary rows ''NOT'' loc (v, nested) = Inr (located loc nested result)"
    using r(1) by (cases v) (simp_all add: evaluate_unary_def)
  thus ?thesis using that r by blast
qed

lemma evaluate_sign_scalar:
  "operator \<in> {''+'', ''-''} \<Longrightarrow> evaluate_unary rows operator loc (Scalar s, nested) = Inr (Scalar (signed_scalar operator s), nested)"
  by (auto simp: evaluate_unary_def)

lemma evaluate_sign_series:
  assumes op: "operator \<in> {''+'', ''-''}" and len: "length s = rows"
  obtains result where "evaluate_unary rows operator loc (NumberSeries s, nested) = Inr (located loc nested result)"
    "has_kind rows NumberKind (kr_value result)"
    "\<forall>i < rows. cell_of (kr_value result) i = NumberCell (map_option (\<lambda>x. if operator = ''+'' then x else - x) (s ! i))"
proof -
  have x: "number_series (NumberSeries s) rows = Inr (map (num_cell (NumberSeries s)) [0..<rows])"
    using len by (intro number_series_cells) simp_all
  have "yields rows (unary_number operator (NumberSeries s) rows)
      (\<lambda>i. map_option (if operator = ''+'' then (\<lambda>x. x) else if operator = ''-'' then uminus else abs) (num_cell (NumberSeries s) i))"
    using op by (intro unary_cells [OF x]) auto
  then obtain result where r: "unary_number operator (NumberSeries s) rows = Inr result" "has_kind rows NumberKind (kr_value result)"
    "\<forall>i < rows. cell_of (kr_value result) i = NumberCell (map_option (if operator = ''+'' then (\<lambda>x. x) else if operator = ''-'' then uminus else abs) (s ! i))"
    by (auto simp: yields_def has_kind_def)
  have "evaluate_unary rows operator loc (NumberSeries s, nested) = Inr (located loc nested result)"
    using op r(1) by (auto simp: evaluate_unary_def)
  moreover have "(if operator = ''+'' then (\<lambda>x. x) else if operator = ''-'' then uminus else abs) = (\<lambda>x. if operator = ''+'' then x else - x :: rat)"
    using op by auto
  ultimately show ?thesis using that r(2,3) by simp
qed

definition binary_output :: "string \<Rightarrow> runtime_value \<Rightarrow> runtime_value \<Rightarrow> nat \<Rightarrow> cell" where
  "binary_output operator l r i =
     (if operator \<in> {''AND'', ''OR''}
      then BooleanCell (both (if operator = ''AND'' then (\<and>) else (\<or>)) (cond_cell l i) (cond_cell r i))
      else if operator \<in> comparison_operators
      then BooleanCell (both (case comparison operator of Inr f \<Rightarrow> f | Inl _ \<Rightarrow> (\<lambda>_ _. False)) (num_cell l i) (num_cell r i))
      else NumberCell (binary_cell operator (case binary_operation operator of Inr f \<Rightarrow> f | Inl _ \<Rightarrow> (\<lambda>_ _. None)) (num_cell l i) (num_cell r i)))"

lemma comparison_defined: "operator \<in> comparison_operators \<Longrightarrow> \<exists>f. comparison operator = Inr f"
  by (auto simp: comparison_operators_def comparison_def)

lemma arithmetic_defined: "operator \<in> arithmetic_operators \<Longrightarrow> \<exists>f. binary_operation operator = Inr f"
  by (auto simp: arithmetic_operators_def binary_operation_def)

lemma operators_disjoint:
  "operator \<in> comparison_operators \<Longrightarrow> operator \<notin> {''AND'', ''OR''}"
  "operator \<in> arithmetic_operators \<Longrightarrow> operator \<notin> {''AND'', ''OR''} \<and> operator \<notin> comparison_operators"
  by (auto simp: arithmetic_operators_def comparison_operators_def)

definition binary_typed :: "string \<Rightarrow> value_kind \<Rightarrow> value_kind \<Rightarrow> value_kind \<Rightarrow> bool" where
  "binary_typed operator kl kr k \<longleftrightarrow>
     (if operator \<in> {''AND'', ''OR''} then k = BooleanKind
      else kl \<in> numeric_kinds \<and> kr \<in> numeric_kinds
        \<and> (if operator \<in> comparison_operators then k = BooleanKind else operator \<in> arithmetic_operators \<and> k = NumberKind))"

lemma binary_kernel_cells:
  assumes l: "has_kind rows kl l" and r: "has_kind rows kr r" and typed: "binary_typed operator kl kr k"
  obtains result where "binary_kernel rows operator l r = Inr result" "has_kind rows k (kr_value result)"
    "\<forall>i < rows. cell_of (kr_value result) i = binary_output operator l r i"
proof -
  have fits_rows: "fits_rows rows l" "fits_rows rows r" using l r by (simp_all add: has_kind_def)
  have num: "kl \<in> numeric_kinds \<Longrightarrow> kr \<in> numeric_kinds \<Longrightarrow> numeric rows l \<and> numeric rows r"
    using l r has_kind_numeric by blast
  consider (bool) "operator \<in> {''AND'', ''OR''}" | (cmp) "operator \<notin> {''AND'', ''OR''}" "operator \<in> comparison_operators"
    | (num) "operator \<notin> {''AND'', ''OR''}" "operator \<notin> comparison_operators" by blast
  thus ?thesis
  proof cases
    case bool
    have "signals rows (boolean operator l r rows)
        (\<lambda>i. both (if operator = ''AND'' then (\<and>) else (\<or>)) (cond_cell l i) (cond_cell r i))"
      by (rule boolean_cells [OF condition_series_cells [OF fits_rows(1)] condition_series_cells [OF fits_rows(2)]])
    then obtain result where "binary_kernel rows operator l r = Inr result" "has_kind rows BooleanKind (kr_value result)"
      "\<forall>i < rows. cell_of (kr_value result) i = binary_output operator l r i"
      using bool by (auto simp: signals_def has_kind_def binary_kernel_def binary_output_def)
    thus ?thesis using that bool typed by (auto simp: binary_typed_def)
  next
    case cmp
    obtain f where f: "comparison operator = Inr f" using comparison_defined [OF cmp(2)] by blast
    have "numeric rows l" "numeric rows r" using num typed cmp by (auto simp: binary_typed_def)
    hence "signals rows (compare operator l r rows) (\<lambda>i. both f (num_cell l i) (num_cell r i))"
      by (intro compare_cells [OF numeric_cells numeric_cells f])
    then obtain result where "binary_kernel rows operator l r = Inr result" "has_kind rows BooleanKind (kr_value result)"
      "\<forall>i < rows. cell_of (kr_value result) i = binary_output operator l r i"
      using cmp f by (auto simp: signals_def has_kind_def binary_kernel_def binary_output_def)
    thus ?thesis using that cmp typed by (auto simp: binary_typed_def)
  next
    case num
    obtain f where f: "binary_operation operator = Inr f" and n: "numeric rows l" "numeric rows r" and k: "k = NumberKind"
      using num typed \<open>kl \<in> numeric_kinds \<Longrightarrow> kr \<in> numeric_kinds \<Longrightarrow> numeric rows l \<and> numeric rows r\<close> arithmetic_defined
      by (auto simp: binary_typed_def)
    have "yields rows (binary_number operator l r rows) (\<lambda>i. binary_cell operator f (num_cell l i) (num_cell r i))"
      by (rule binary_cells [OF numeric_cells [OF n(1)] numeric_cells [OF n(2)] f])
    then obtain result where "binary_kernel rows operator l r = Inr result" "has_kind rows NumberKind (kr_value result)"
      "\<forall>i < rows. cell_of (kr_value result) i = binary_output operator l r i"
      using num f by (auto simp: yields_def has_kind_def binary_kernel_def binary_output_def)
    thus ?thesis using that k by blast
  qed
qed

text \<open>A scalar the compiler can see evaluates to itself.\<close>

lemma constraint_value_evaluates:
  "constraint_value e (ec_parameters ctx) = Some s \<Longrightarrow> context_wf ctx \<Longrightarrow>
   evaluate_expression ctx declared e = Inr (Scalar s, [])"
proof (induction e arbitrary: s)
  case (ReferenceExpression name source k loc)
  hence "source = ParameterSource" "map_of (ec_parameters ctx) name = Some s" by (auto split: if_splits)
  moreover from this have "upper_ascii name = name"
    using ReferenceExpression(2) by (force simp: context_wf_def dest: map_of_SomeD)
  ultimately show ?case by (simp add: context_parameter_def)
next
  case (UnaryExpression operator operand k loc)
  then obtain s' where s': "constraint_value operand (ec_parameters ctx) = Some s'" "s = signed_scalar operator s'"
    "operator \<in> {''+'', ''-''}" by (auto split: if_splits)
  show ?case using UnaryExpression.IH [OF s'(1) UnaryExpression.prems(2)] s'(2,3) evaluate_sign_scalar by simp
qed simp_all

text \<open>
  The refusals that depend on the value of a scalar, as opposed to the kind, the number or the length of the
  arguments.
\<close>

definition bounds_messages :: "string set" where
  "bounds_messages = {''kernel scalar is below its minimum'', ''kernel scalar exceeds its maximum'',
     ''kernel lookback exceeds its maximum'', ''kernel scalar relation is invalid''}"

definition bounds_refusal :: "exn \<Rightarrow> bool" where
  "bounds_refusal e \<longleftrightarrow> (\<exists>m \<in> bounds_messages. e = KernelInputError m)"

text \<open>An argument that only its value can make a kernel refuse.\<close>

definition argument_fits :: "nat \<Rightarrow> parameter_spec \<Rightarrow> runtime_value \<Rightarrow> bool" where
  "argument_fits rows p a \<longleftrightarrow>
     accepts_value_kind (pm_accepted p) (kind_of a) \<and> fits_rows rows a \<and> (pm_accepted p = [IntegerKind] \<or> \<not> pm_constant p)"

lemma integer_fits_scalar: "argument_fits rows p a \<Longrightarrow> pm_accepted p = [IntegerKind] \<Longrightarrow> \<exists>v. a = Scalar v"
  by (cases a) (auto simp: argument_fits_def accepts_value_kind_def)

lemma check_scalar_refuses: "check_scalar p v = Inl e \<Longrightarrow> bounds_refusal e"
  by (auto simp: check_scalar_def bounds_refusal_def bounds_messages_def split: if_splits option.splits)

lemma check_argument_refuses:
  assumes "argument_fits rows p a"
  shows "check_argument p a rows sc = Inl e \<Longrightarrow> bounds_refusal e"
    and "check_argument p a rows sc = Inr sc' \<Longrightarrow> sc' = sc \<or> (\<exists>v. sc' = sc(pm_name p \<mapsto> v))"
    and "check_argument p a rows sc = Inr sc' \<Longrightarrow> pm_accepted p = [IntegerKind] \<Longrightarrow> sc' (pm_name p) \<noteq> None"
proof -
  show "bounds_refusal e" if r: "check_argument p a rows sc = Inl e"
  proof (cases a)
    case (Scalar v)
    with r assms show ?thesis
      by (cases "check_scalar p (scalar_number v)") (auto simp: check_argument_def argument_fits_def then_res_def dest: check_scalar_refuses)
  next
    case (NumberSeries s)
    with r assms integer_fits_scalar [OF assms] show ?thesis by (auto simp: check_argument_def argument_fits_def)
  next
    case (BooleanSeries s)
    with r assms integer_fits_scalar [OF assms] show ?thesis by (auto simp: check_argument_def argument_fits_def)
  qed
  show "check_argument p a rows sc = Inr sc' \<Longrightarrow> sc' = sc \<or> (\<exists>v. sc' = sc(pm_name p \<mapsto> v))"
    by (cases a) (auto simp: check_argument_def res_simps split: if_splits)
  show "check_argument p a rows sc = Inr sc' \<Longrightarrow> pm_accepted p = [IntegerKind] \<Longrightarrow> sc' (pm_name p) \<noteq> None"
    using integer_fits_scalar [OF assms] by (auto simp: check_argument_def res_simps split: if_splits)
qed

lemma check_arguments_refuses:
  "list_all2 (argument_fits rows) ps args \<Longrightarrow> check_arguments ps args rows sc = Inl e \<Longrightarrow> bounds_refusal e"
proof (induction arbitrary: sc rule: list_all2_induct)
  case (Cons p ps a as)
  show ?case
  proof (cases "check_argument p a rows sc")
    case (Inl x)
    thus ?thesis using Cons check_argument_refuses(1) [OF Cons.hyps(1)] by auto
  next
    case (Inr x)
    thus ?thesis using Cons by auto
  qed
qed simp

text \<open>Every integer argument ends up among the collected scalars.\<close>

lemma check_arguments_collects:
  "list_all2 (argument_fits rows) ps args \<Longrightarrow> check_arguments ps args rows sc = Inr sc' \<Longrightarrow>
   dom sc \<subseteq> dom sc' \<and> (\<forall>p \<in> set ps. pm_accepted p = [IntegerKind] \<longrightarrow> pm_name p \<in> dom sc')"
proof (induction arbitrary: sc rule: list_all2_induct)
  case (Cons p ps a as)
  then obtain u where u: "check_argument p a rows sc = Inr u" "check_arguments ps as rows u = Inr sc'"
    by (auto simp: res_simps)
  have "dom sc \<subseteq> dom u" "pm_accepted p = [IntegerKind] \<Longrightarrow> pm_name p \<in> dom u"
    using check_argument_refuses(2,3) [OF Cons.hyps(1) u(1)] by auto
  thus ?case using Cons.IH [OF u(2)] by (metis set_ConsD subset_iff)
qed simp

lemma check_relation_refuses:
  "check_relation sc r = Inl e \<Longrightarrow> rl_left r \<in> dom sc \<Longrightarrow> rl_right r \<in> dom sc \<Longrightarrow> bounds_refusal e"
  by (auto simp: check_relation_def bounds_refusal_def bounds_messages_def split: if_splits)

text \<open>The registry declares only integer windows constant, and relates only integer parameters.\<close>

lemma registry_parameters:
  assumes "f \<in> set (rg_functions v1_registry)"
  shows "\<forall>p \<in> set (fn_parameters f). pm_accepted p = [IntegerKind] \<or> \<not> pm_constant p"
    and "\<forall>r \<in> set (fn_relations f). \<forall>n \<in> {rl_left r, rl_right r}.
      \<exists>p \<in> set (fn_parameters f). pm_name p = n \<and> pm_accepted p = [IntegerKind]"
proof -
  note specs = v1_registry_def series_functions_def statistics_functions_def signal_functions_def make_spec_def
    x_param_def window_param_def param_def series_kinds_def condition_kinds_def
  have "\<forall>f \<in> set (rg_functions v1_registry). \<forall>p \<in> set (fn_parameters f). pm_accepted p = [IntegerKind] \<or> \<not> pm_constant p"
    by (simp add: specs)
  thus "\<forall>p \<in> set (fn_parameters f). pm_accepted p = [IntegerKind] \<or> \<not> pm_constant p" using assms by blast
  have "\<forall>f \<in> set (rg_functions v1_registry). \<forall>r \<in> set (fn_relations f). \<forall>n \<in> {rl_left r, rl_right r}.
      \<exists>p \<in> set (fn_parameters f). pm_name p = n \<and> pm_accepted p = [IntegerKind]"
    by (simp add: specs)
  thus "\<forall>r \<in> set (fn_relations f). \<forall>n \<in> {rl_left r, rl_right r}.
      \<exists>p \<in> set (fn_parameters f). pm_name p = n \<and> pm_accepted p = [IntegerKind]" using assms by blast
qed

lemma each_Inl: "each f xs = Inl e \<Longrightarrow> \<exists>x \<in> set xs. f x = Inl e"
proof (induction xs)
  case (Cons x xs)
  thus ?case by (cases "f x") auto
qed simp

lemma preflight_opened:
  assumes "spec_for key = Some f"
  shows "preflight key args rows =
    (if max_bar_series_rows < rows then Inl (KernelInputError ''kernel row count is outside the public limit'')
     else if \<not> (min_args f \<le> length args \<and> length args \<le> max_args f) then Inl (KernelInputError ''kernel argument count is invalid'')
     else bind_res (check_arguments (fn_parameters f) args rows Map.empty) (\<lambda>sc. each (check_relation sc) (fn_relations f)))"
  using assms by (simp only: preflight_def option.case)

lemma preflight_refuses:
  assumes f: "f \<in> set (rg_functions v1_registry)" and rows: "rows \<le> max_bar_series_rows"
    and args: "list_all2 (argument_fits rows) (fn_parameters f) args"
    and bad: "preflight (fn_dispatch f) args rows = Inl e"
  shows "bounds_refusal e"
proof -
  have "min_args f \<le> length args \<and> length args \<le> max_args f"
    using list_all2_lengthD [OF args] length_filter_le [of pm_required "fn_parameters f"] by (simp add: min_args_def max_args_def)
  hence run: "bind_res (check_arguments (fn_parameters f) args rows Map.empty) (\<lambda>sc. each (check_relation sc) (fn_relations f)) = Inl e"
    using bad rows unfolding preflight_opened [OF spec_for_v1 [OF f]] by simp
  show ?thesis
  proof (cases "check_arguments (fn_parameters f) args rows Map.empty")
    case (Inl e')
    thus ?thesis using run check_arguments_refuses [OF args Inl] by simp
  next
    case (Inr sc)
    hence "each (check_relation sc) (fn_relations f) = Inl e" using run by simp
    then obtain r where r: "r \<in> set (fn_relations f)" "check_relation sc r = Inl e" by (rule each_Inl [THEN bexE])
    have "rl_left r \<in> dom sc" "rl_right r \<in> dom sc"
      using registry_parameters(2) [OF f] r(1) check_arguments_collects [OF args Inr] by fastforce+
    thus ?thesis by (rule check_relation_refuses [OF r(2)])
  qed
qed

lemma execute_typed:
  assumes f: "f \<in> set (rg_functions v1_registry)" and rows: "rows \<le> max_bar_series_rows"
    and args: "list_all2 (argument_fits rows) (fn_parameters f) args"
  shows "(\<exists>e. execute_kernel (fn_dispatch f) args rows = Inl e \<and> bounds_refusal e) \<or>
    (\<exists>r. execute_kernel (fn_dispatch f) args rows = Inr r \<and> has_kind rows (fn_result f) (kr_value r))"
proof (cases "preflight (fn_dispatch f) args rows")
  case (Inl e)
  thus ?thesis using preflight_refuses [OF f rows args Inl] by (simp add: execute_kernel_def)
next
  case (Inr u)
  obtain r where "execute_kernel (fn_dispatch f) args rows = Inr r"
    "map_option fn_result (spec_for (fn_dispatch f)) = Some (kind_of (kr_value r))"
    "series_length (kr_value r) = Some rows" by (rule execute_runs [OF Inr])
  thus ?thesis using spec_for_v1 [OF f] by (auto simp: has_kind_def fits_rows_def)
qed

text \<open>Compiled arguments that have their kinds fit the parameters that accept those kinds.\<close>

lemma typed_arguments_fit:
  assumes f: "f \<in> set (rg_functions v1_registry)"
    and all: "list_all2 (\<lambda>p a. accepts_value_kind (pm_accepted p) (compiled_kind a) \<and> within_bounds bs p a) (fn_parameters f) arguments"
    and vs: "list_all2 (has_kind rows) (map compiled_kind arguments) vs"
  shows "list_all2 (argument_fits rows) (fn_parameters f) vs"
proof (rule list_all2_all_nthI)
  show len: "length (fn_parameters f) = length vs"
    using list_all2_lengthD [OF all] list_all2_lengthD [OF vs] by simp
  fix i assume i: "i < length (fn_parameters f)"
  have "has_kind rows (compiled_kind (arguments ! i)) (vs ! i)"
    using list_all2_nthD [OF vs, of i] i list_all2_lengthD [OF all] by simp
  moreover have "fn_parameters f ! i \<in> set (fn_parameters f)" using i by simp
  ultimately show "argument_fits rows (fn_parameters f ! i) (vs ! i)"
    using list_all2_nthD [OF all i] registry_parameters(1) [OF f] by (auto simp: argument_fits_def has_kind_def)
qed

definition sound_value :: "nat \<Rightarrow> value_kind \<Rightarrow> evaluated res \<Rightarrow> bool" where
  "sound_value rows k r \<longleftrightarrow>
     (\<exists>e. r = Inl e \<and> bounds_refusal e) \<or> (\<exists>v issues. r = Inr (v, issues) \<and> has_kind rows k v)"

definition sound_values :: "nat \<Rightarrow> value_kind list \<Rightarrow> (runtime_value list \<times> located_issue list) res \<Rightarrow> bool" where
  "sound_values rows ks r \<longleftrightarrow>
     (\<exists>e. r = Inl e \<and> bounds_refusal e) \<or> (\<exists>vs issues. r = Inr (vs, issues) \<and> list_all2 (has_kind rows) ks vs)"

lemma evaluate_reference_sound:
  assumes typed: "well_typed bs env (ReferenceExpression name source k loc)" and ctx: "context_wf ctx" "ec_parameters ctx = bs"
    and declared: "declared_wf (ec_rows ctx) env declared"
  shows "\<exists>v. evaluate_expression ctx declared (ReferenceExpression name source k loc) = Inr (v, []) \<and> has_kind (ec_rows ctx) k v"
proof (cases source)
  case FieldSource
  hence "name \<in> set (field_names v1_registry)" "k = NumberKind" using typed by auto
  thus ?thesis
    using FieldSource ctx(1) field_names_upper [of name] by (auto simp: context_field_def has_kind_def context_wf_def)
next
  case ParameterSource
  then obtain v where v: "map_of (ec_parameters ctx) name = Some v" "k = scalar_kind v" using typed ctx(2) by auto
  hence "upper_ascii name = name" using ctx(1) by (force simp: context_wf_def dest: map_of_SomeD)
  thus ?thesis using ParameterSource v by (auto simp: context_parameter_def has_kind_def)
next
  case DeclarationSource
  hence "env name = Some k" using typed by simp
  then obtain v where "declared name = Some v" "kind_of v = k" "fits_rows (ec_rows ctx) v"
    using declared unfolding declared_wf_def by blast
  thus ?thesis using DeclarationSource by (simp add: has_kind_def)
qed

lemma sign_kind_sound:
  assumes "operator \<in> {''+'', ''-''}" "has_kind rows k v" "k \<in> numeric_kinds"
  shows "\<exists>w issues. evaluate_unary rows operator loc (v, nested) = Inr (w, issues) \<and> has_kind rows k w"
proof (cases v)
  case (Scalar s)
  thus ?thesis using assms evaluate_sign_scalar [OF assms(1)] by (simp add: has_kind_def)
next
  case (NumberSeries s)
  hence "length s = rows" "k = NumberKind" using assms(2) by (auto simp: has_kind_def)
  thus ?thesis using evaluate_sign_series [OF assms(1), of s rows loc nested] NumberSeries by (metis located_def)
next
  case (BooleanSeries b)
  thus ?thesis using assms by (auto simp: has_kind_def numeric_kinds_def)
qed

lemma evaluate_sound:
  "well_typed bs env c \<Longrightarrow> context_wf ctx \<Longrightarrow> ec_parameters ctx = bs \<Longrightarrow> declared_wf (ec_rows ctx) env declared \<Longrightarrow>
   sound_value (ec_rows ctx) (compiled_kind c) (evaluate_expression ctx declared c)"
  "list_all (well_typed bs env) cs \<Longrightarrow> context_wf ctx \<Longrightarrow> ec_parameters ctx = bs \<Longrightarrow> declared_wf (ec_rows ctx) env declared \<Longrightarrow>
   sound_values (ec_rows ctx) (map compiled_kind cs) (evaluate_arguments ctx declared cs)"
proof (induction ctx declared c and ctx declared cs rule: evaluate_expression_evaluate_arguments.induct)
  case (1 ctx declared v k loc)
  thus ?case by (auto simp: sound_value_def has_kind_def)
next
  case (2 ctx declared name source k loc)
  thus ?case using evaluate_reference_sound [OF 2] by (auto simp: sound_value_def simp del: well_typed.simps evaluate_expression.simps)
next
  case (3 ctx declared operator operand k loc)
  let ?rows = "ec_rows ctx"
  have IH: "sound_value ?rows (compiled_kind operand) (evaluate_expression ctx declared operand)"
    using 3 by (simp split: if_splits)
  show ?case
  proof (cases "evaluate_expression ctx declared operand")
    case (Inl e)
    thus ?thesis using IH by (auto simp: sound_value_def)
  next
    case (Inr r)
    obtain v nested where r: "r = (v, nested)" by (cases r)
    have v: "has_kind ?rows (compiled_kind operand) v" using IH Inr r by (auto simp: sound_value_def)
    show ?thesis
    proof (cases "operator \<in> {''+'', ''-''}")
      case True
      hence "compiled_kind operand \<in> numeric_kinds" "k = compiled_kind operand" using 3 by (simp_all split: if_splits)
      thus ?thesis using Inr r sign_kind_sound [OF True v, of loc nested] by (auto simp: sound_value_def)
    next
      case False
      hence op: "operator = ''NOT''" "k = BooleanKind" using 3 by (simp_all split: if_splits)
      obtain result where "evaluate_unary ?rows ''NOT'' loc (v, nested) = Inr (located loc nested result)"
        "has_kind ?rows BooleanKind (kr_value result)"
        using v evaluate_not [of ?rows v loc nested] by (auto simp: has_kind_def)
      thus ?thesis using Inr r op by (auto simp: sound_value_def located_def)
    qed
  qed
next
  case (4 ctx declared operator left right k loc)
  let ?rows = "ec_rows ctx"
  have typed: "well_typed bs env left" "well_typed bs env right" "binary_typed operator (compiled_kind left) (compiled_kind right) k"
    using 4(3) by (simp_all add: binary_typed_def)
  have l: "sound_value ?rows (compiled_kind left) (evaluate_expression ctx declared left)" using 4(1) typed 4(4-6) by simp
  show ?case
  proof (cases "evaluate_expression ctx declared left")
    case (Inl e)
    thus ?thesis using l by (auto simp: sound_value_def)
  next
    case left: (Inr rl)
    obtain lv li where rl: "rl = (lv, li)" by (cases rl)
    have r: "sound_value ?rows (compiled_kind right) (evaluate_expression ctx declared right)"
      using 4(2) [OF left] rl typed 4(4-6) by simp
    show ?thesis
    proof (cases "evaluate_expression ctx declared right")
      case (Inl e)
      thus ?thesis using left rl r by (auto simp: sound_value_def)
    next
      case right: (Inr rr)
      obtain rv ri where rr: "rr = (rv, ri)" by (cases rr)
      have "has_kind ?rows (compiled_kind left) lv" "has_kind ?rows (compiled_kind right) rv"
        using l r left right rl rr by (auto simp: sound_value_def)
      then obtain result where "binary_kernel ?rows operator lv rv = Inr result" "has_kind ?rows k (kr_value result)"
        by (rule binary_kernel_cells [OF _ _ typed(3)])
      thus ?thesis using left right rl rr by (auto simp: sound_value_def located_def)
    qed
  qed
next
  case (5 ctx declared name key arguments k loc)
  let ?rows = "ec_rows ctx"
  obtain f where f: "function_of v1_registry name = Some f" "fn_dispatch f = key" "fn_result f = k"
    and all: "list_all2 (\<lambda>p a. accepts_value_kind (pm_accepted p) (compiled_kind a) \<and> within_bounds bs p a) (fn_parameters f) arguments"
    and typed: "list_all (well_typed bs env) arguments" using 5(2) by auto
  note mem = function_of_mem [OF f(1)]
  have rows: "?rows \<le> max_bar_series_rows" using 5(3) by (simp add: context_wf_def)
  have args: "sound_values ?rows (map compiled_kind arguments) (evaluate_arguments ctx declared arguments)"
    using 5(1) typed 5(3-5) by simp
  show ?case
  proof (cases "evaluate_arguments ctx declared arguments")
    case (Inl e)
    thus ?thesis using args by (auto simp: sound_value_def sound_values_def)
  next
    case (Inr r)
    obtain vs issues where r: "r = (vs, issues)" by (cases r)
    have "list_all2 (has_kind ?rows) (map compiled_kind arguments) vs" using args Inr r by (auto simp: sound_values_def)
    hence "list_all2 (argument_fits ?rows) (fn_parameters f) vs" by (rule typed_arguments_fit [OF mem all])
    from execute_typed [OF mem rows this] show ?thesis
      using Inr r f(2,3) by (auto simp: sound_value_def located_def)
  qed
next
  case (6 ctx declared)
  show ?case by (simp add: sound_values_def)
next
  case (7 ctx declared e es)
  have e: "sound_value (ec_rows ctx) (compiled_kind e) (evaluate_expression ctx declared e)" using 7 by simp
  show ?case
  proof (cases "evaluate_expression ctx declared e")
    case (Inl x)
    thus ?thesis using e by (auto simp: sound_value_def sound_values_def)
  next
    case (Inr r)
    obtain v issues where r: "r = (v, issues)" by (cases r)
    have "sound_values (ec_rows ctx) (map compiled_kind es) (evaluate_arguments ctx declared es)"
      using 7(2) [OF Inr] r 7(3-6) by simp
    thus ?thesis using e Inr r by (auto simp: sound_value_def sound_values_def)
  qed
qed

section \<open>Compiled programs\<close>

definition env_after :: "(string \<rightharpoonup> value_kind) \<Rightarrow> compiled_statement list \<Rightarrow> string \<rightharpoonup> value_kind" where
  "env_after env ss = foldl (\<lambda>env s. env(cs_name s \<mapsto> cs_kind s)) env ss"

definition is_signal :: "compiled_statement \<Rightarrow> bool" where
  "is_signal s \<longleftrightarrow> cs_name s \<in> {''BUY'', ''SELL''}"

definition statement_typed :: "bindings \<Rightarrow> (string \<rightharpoonup> value_kind) \<Rightarrow> compiled_statement \<Rightarrow> bool" where
  "statement_typed bs env s \<longleftrightarrow>
     well_typed bs env (cs_expression s) \<and> cs_kind s = compiled_kind (cs_expression s)
     \<and> (if is_signal s then cs_visible s \<and> cs_kind s = BooleanKind else cs_visible s \<longrightarrow> cs_kind s \<noteq> BooleanKind)"

fun statements_typed :: "bindings \<Rightarrow> (string \<rightharpoonup> value_kind) \<Rightarrow> compiled_statement list \<Rightarrow> bool" where
  "statements_typed bs env [] \<longleftrightarrow> True"
| "statements_typed bs env (s # ss) \<longleftrightarrow> statement_typed bs env s \<and> statements_typed bs (env(cs_name s \<mapsto> cs_kind s)) ss"

lemma statements_typed_snoc:
  "statements_typed bs env (ss @ [s]) \<longleftrightarrow> statements_typed bs env ss \<and> statement_typed bs (env_after env ss) s"
  by (induction ss arbitrary: env) (auto simp: env_after_def)

definition numeric_names :: "compiled_statement list \<Rightarrow> string list" where
  "numeric_names ss = map cs_name (filter (\<lambda>s. \<not> is_signal s \<and> cs_visible s) ss)"

definition signal_names :: "compiled_statement list \<Rightarrow> string list" where
  "signal_names ss = map cs_name (filter is_signal ss)"

lemma output_names_simps [simp]:
  "numeric_names [] = []" "signal_names [] = []"
  "numeric_names (ss @ [s]) = numeric_names ss @ (if \<not> is_signal s \<and> cs_visible s then [cs_name s] else [])"
  "signal_names (ss @ [s]) = signal_names ss @ (if is_signal s then [cs_name s] else [])"
  by (simp_all add: numeric_names_def signal_names_def)

definition compiling :: "bindings \<Rightarrow> compile_state \<Rightarrow> bool" where
  "compiling bs st \<longleftrightarrow>
     statements_typed bs Map.empty (co_statements st) \<and> co_env st = env_after Map.empty (co_statements st)
     \<and> co_numeric st = numeric_names (co_statements st) \<and> co_signals st = signal_names (co_statements st)"

lemma compile_output_Inr:
  assumes "compile_output s e st = Inr st'"
  shows "co_statements st' = co_statements st" "co_env st' = co_env st"
    "co_numeric st' = co_numeric st @ (if sm_name s \<notin> {''BUY'', ''SELL''} \<and> sm_visible s then [sm_name s] else [])"
    "co_signals st' = co_signals st @ (if sm_name s \<in> {''BUY'', ''SELL''} then [sm_name s] else [])"
    "if sm_name s \<in> {''BUY'', ''SELL''} then sm_visible s \<and> compiled_kind e = BooleanKind
     else sm_visible s \<longrightarrow> compiled_kind e \<noteq> BooleanKind"
  using assms by (auto simp: compile_output_def split: if_splits)

lemma compile_statement_step:
  assumes inv: "compiling bs st" and parsed: "parsed_operators (sm_expression s)"
    and step: "compile_statement v1_registry bs st s = Inr st'"
  shows "compiling bs st'"
proof -
  obtain e u where e: "compile_expression v1_registry bs (co_env st) (sm_expression s) = Inr e"
    and u: "compile_output s e st = Inr u"
    and st': "st' = u\<lparr>co_statements := co_statements u
                 @ [\<lparr>cs_name = sm_name s, cs_expression = e, cs_kind = compiled_kind e, cs_visible = sm_visible s, cs_span = sm_span s\<rparr>],
               co_env := (co_env u)(sm_name s \<mapsto> compiled_kind e)\<rparr>"
    using step by (auto simp: compile_statement_def res_simps)
  note out = compile_output_Inr [OF u]
  have typed: "well_typed bs (co_env st) e" by (rule compile_typed(1) [OF e parsed])
  have inv': "statements_typed bs Map.empty (co_statements st)" "co_env st = env_after Map.empty (co_statements st)"
    "co_numeric st = numeric_names (co_statements st)" "co_signals st = signal_names (co_statements st)"
    using inv by (simp_all add: compiling_def)
  show ?thesis
    unfolding compiling_def st' using typed inv' out
    by (simp add: statements_typed_snoc statement_typed_def env_after_def is_signal_def split: if_splits)
qed

text \<open>The compiler walks the statements as a fallible machine.\<close>

interpretation compiler: fallible_machine "compile_statement v1_registry bs" "compiling bs" "\<lambda>s. parsed_operators (sm_expression s)" for bs
  by unfold_locales (rule compile_statement_step)

lemma compile_program_opened:
  assumes "compile_program v1_registry bs program checksum = Inr cf"
  obtains st c where "run_res (compile_statement v1_registry bs) compile_start (pg_statements program) = Inr st"
    "co_signals st = [] \<or> set (co_signals st) = {''BUY'', ''SELL''}"
    "cf = \<lparr>cf_checksum = c, cf_compatibility_version = rg_version v1_registry,
                cf_engine_version = engine_version, cf_statements = co_statements st,
                cf_numeric_outputs = co_numeric st,
                cf_signal_outputs = (if co_signals st \<noteq> [] then [''BUY'', ''SELL''] else []),
                cf_bindings = bs\<rparr>"
proof -
  let ?run = "run_res (compile_statement v1_registry bs) compile_start (pg_statements program)"
  let ?cf = "\<lambda>st c. \<lparr>cf_checksum = c, cf_compatibility_version = rg_version v1_registry,
                cf_engine_version = engine_version, cf_statements = co_statements st,
                cf_numeric_outputs = co_numeric st,
                cf_signal_outputs = (if co_signals st \<noteq> [] then [''BUY'', ''SELL''] else []),
                cf_bindings = bs\<rparr>"
  note opened = assms [unfolded compile_program_def]
  have valid: "List.find (\<lambda>s. \<not> identifier_pattern (sm_name s)) (pg_statements program) = None"
    using opened by (cases "List.find (\<lambda>s. \<not> identifier_pattern (sm_name s)) (pg_statements program)") (simp_all only: option.case sum.distinct)
  note opened = opened [unfolded valid option.case bind_res_Inr_iff]
  obtain ds :: "formula_diagnostic list" where ds: "(case ds of d # _ \<Rightarrow> Inl (CompileError (dg_code d) [] (dg_span d) (dg_function d))
          | [] \<Rightarrow> bind_res ?run (\<lambda>st.
              if co_signals st \<noteq> [] \<and> set (co_signals st) \<noteq> {''BUY'', ''SELL''}
              then Inl (CompileError ''incomplete_signal_pair'' ''trading formulas require both visible BUY and SELL outputs''
                     (pg_span program) None)
              else bind_res checksum (\<lambda>c. Inr (?cf st c)))) = Inr cf"
    using opened by (elim exE conjE) (rule that, assumption)
  hence "ds = []" by (cases ds) simp_all
  note ds = ds [unfolded this list.case bind_res_Inr_iff]
  obtain st :: compile_state where run: "?run = Inr st" and rest: "(if co_signals st \<noteq> [] \<and> set (co_signals st) \<noteq> {''BUY'', ''SELL''}
              then Inl (CompileError ''incomplete_signal_pair'' ''trading formulas require both visible BUY and SELL outputs''
                     (pg_span program) None)
              else bind_res checksum (\<lambda>c. Inr (?cf st c))) = Inr cf"
    using ds by (elim exE conjE) (rule that, assumption, assumption)
  have pair: "\<not> (co_signals st \<noteq> [] \<and> set (co_signals st) \<noteq> {''BUY'', ''SELL''})"
  proof
    assume "co_signals st \<noteq> [] \<and> set (co_signals st) \<noteq> {''BUY'', ''SELL''}"
    with rest show False by (simp only: if_True simp_thms sum.distinct)
  qed
  note rest = rest [unfolded if_not_P [OF pair] bind_res_Inr_iff]
  obtain c where c: "?cf st c = cf" using rest by (elim exE conjE) (rule that, simp only: sum.inject)
  show thesis by (rule that [OF run _ c [symmetric]]) (use pair in \<open>simp only: de_Morgan_conj not_not\<close>)
qed

lemma compile_program_Inr:
  assumes compile: "compile_program v1_registry bs program checksum = Inr cf"
    and parsed: "\<forall>s \<in> set (pg_statements program). parsed_operators (sm_expression s)"
  shows "statements_typed bs Map.empty (cf_statements cf)" "cf_bindings cf = bs"
    "cf_numeric_outputs cf = numeric_names (cf_statements cf)"
    "set (cf_signal_outputs cf) = set (signal_names (cf_statements cf))"
proof -
  obtain st :: compile_state and c where run: "run_res (compile_statement v1_registry bs) compile_start (pg_statements program) = Inr st"
    and pair: "co_signals st = [] \<or> set (co_signals st) = {''BUY'', ''SELL''}"
    and cf: "cf = \<lparr>cf_checksum = c, cf_compatibility_version = rg_version v1_registry,
                cf_engine_version = engine_version, cf_statements = co_statements st,
                cf_numeric_outputs = co_numeric st,
                cf_signal_outputs = (if co_signals st \<noteq> [] then [''BUY'', ''SELL''] else []),
                cf_bindings = bs\<rparr>"
    by (rule compile_program_opened [OF compile])
  have start: "compiling bs compile_start" by (simp add: compiling_def compile_start_def env_after_def)
  have st: "compiling bs st" by (rule compiler.run_inv [OF start run]) (use parsed in simp)
  show "statements_typed bs Map.empty (cf_statements cf)" "cf_bindings cf = bs"
    "cf_numeric_outputs cf = numeric_names (cf_statements cf)"
    using st unfolding compiling_def cf by simp_all
  have names: "co_signals st = signal_names (cf_statements cf)" using st unfolding compiling_def cf by simp
  have "set (cf_signal_outputs cf) = set (co_signals st)" using pair unfolding cf by (cases "co_signals st") simp_all
  thus "set (cf_signal_outputs cf) = set (signal_names (cf_statements cf))" by (simp only: names)
qed

section \<open>Evaluated programs\<close>

definition evaluating :: "nat \<Rightarrow> (string \<rightharpoonup> value_kind) \<Rightarrow> evaluation \<Rightarrow> bool" where
  "evaluating rows env st \<longleftrightarrow>
     declared_wf rows env (ev_declared st)
     \<and> (\<forall>out \<in> set (ev_numeric st). length (no_values out) = rows)
     \<and> (\<forall>b \<in> ran (ev_signals st). length b = rows)"

lemma declared_wf_insert:
  "declared_wf rows env declared \<Longrightarrow> has_kind rows k v \<Longrightarrow> declared_wf rows (env(name \<mapsto> k)) (declared(name \<mapsto> v))"
  by (auto simp: declared_wf_def has_kind_def)

lemma evaluate_output_typed:
  assumes v: "has_kind rows (cs_kind s) v" and typed: "statement_typed bs env s"
    and st: "\<forall>out \<in> set (ev_numeric st). length (no_values out) = rows" "\<forall>b \<in> ran (ev_signals st). length b = rows"
  obtains st' where "evaluate_output rows s v st = Inr st'" "ev_declared st' = ev_declared st"
    "map no_name (ev_numeric st') = map no_name (ev_numeric st) @ (if \<not> is_signal s \<and> cs_visible s then [cs_name s] else [])"
    "dom (ev_signals st') = dom (ev_signals st) \<union> (if is_signal s then {cs_name s} else {})"
    "\<forall>out \<in> set (ev_numeric st'). length (no_values out) = rows" "\<forall>b \<in> ran (ev_signals st'). length b = rows"
proof (cases "is_signal s")
  case True
  then obtain b where b: "v = BooleanSeries b" "length b = rows"
    using v typed by (auto simp: statement_typed_def has_kind_def kind_cases)
  show ?thesis
    by (rule that [of "st\<lparr>ev_signals := (ev_signals st)(cs_name s \<mapsto> b)\<rparr>"])
       (use True b st in \<open>auto simp: evaluate_output_def is_signal_def ran_def\<close>)
next
  case False
  show ?thesis
  proof (cases "cs_visible s")
    case True
    hence "cs_kind s \<noteq> BooleanKind" using typed False unfolding statement_typed_def by (metis (full_types))
    hence series: "number_series v rows = Inr (map (num_cell v) [0..<rows])"
      using v by (intro number_series_cells) (simp_all add: has_kind_def)
    let ?out = "\<lparr>no_name = cs_name s, no_values = map (num_cell v) [0..<rows], no_warmup = warmup (map (num_cell v) [0..<rows])\<rparr>"
    show ?thesis
      by (rule that [of "st\<lparr>ev_numeric := ev_numeric st @ [?out]\<rparr>"])
         (use True False series st in \<open>auto simp: evaluate_output_def is_signal_def\<close>)
  next
    case hidden: False
    show ?thesis
      by (rule that [of st]) (use False hidden st in \<open>auto simp: evaluate_output_def is_signal_def\<close>)
  qed
qed

lemma evaluate_statement_sound:
  assumes st: "evaluating (ec_rows ctx) env st" and typed: "statement_typed (ec_parameters ctx) env s" and ctx: "context_wf ctx"
  shows "(\<exists>e. evaluate_statement ctx st s = Inl e \<and> bounds_refusal e) \<or>
    (\<exists>st'. evaluate_statement ctx st s = Inr st' \<and> evaluating (ec_rows ctx) (env(cs_name s \<mapsto> cs_kind s)) st'
      \<and> map no_name (ev_numeric st') = map no_name (ev_numeric st) @ (if \<not> is_signal s \<and> cs_visible s then [cs_name s] else [])
      \<and> dom (ev_signals st') = dom (ev_signals st) \<union> (if is_signal s then {cs_name s} else {}))"
proof -
  have wf: "declared_wf (ec_rows ctx) env (ev_declared st)" using st by (simp add: evaluating_def)
  have "well_typed (ec_parameters ctx) env (cs_expression s)" and k: "cs_kind s = compiled_kind (cs_expression s)"
    using typed by (simp_all add: statement_typed_def)
  hence "sound_value (ec_rows ctx) (cs_kind s) (evaluate_expression ctx (ev_declared st) (cs_expression s))"
    using evaluate_sound(1) [OF _ ctx refl wf] by simp
  thus ?thesis
    unfolding sound_value_def
  proof (elim disjE exE conjE)
    fix e assume "evaluate_expression ctx (ev_declared st) (cs_expression s) = Inl e" "bounds_refusal e"
    thus ?thesis by (simp add: evaluate_statement_def)
  next
    fix v found assume v: "evaluate_expression ctx (ev_declared st) (cs_expression s) = Inr (v, found)" "has_kind (ec_rows ctx) (cs_kind s) v"
    let ?st = "st\<lparr>ev_declared := (ev_declared st)(cs_name s \<mapsto> v),
             ev_issues := ev_issues st @ map (\<lambda>i. (i, if cs_visible s then Some (cs_name s) else None)) found\<rparr>"
    have lens: "\<forall>out \<in> set (ev_numeric ?st). length (no_values out) = ec_rows ctx" "\<forall>b \<in> ran (ev_signals ?st). length b = ec_rows ctx"
      using st by (simp_all add: evaluating_def)
    obtain st' where st': "evaluate_output (ec_rows ctx) s v ?st = Inr st'" "ev_declared st' = ev_declared ?st"
      "map no_name (ev_numeric st') = map no_name (ev_numeric ?st) @ (if \<not> is_signal s \<and> cs_visible s then [cs_name s] else [])"
      "dom (ev_signals st') = dom (ev_signals ?st) \<union> (if is_signal s then {cs_name s} else {})"
      "\<forall>out \<in> set (ev_numeric st'). length (no_values out) = ec_rows ctx" "\<forall>b \<in> ran (ev_signals st'). length b = ec_rows ctx"
      by (rule evaluate_output_typed [OF v(2) typed lens])
    have "evaluate_statement ctx st s = Inr st'" using v(1) st'(1) by (simp add: evaluate_statement_def)
    moreover have "evaluating (ec_rows ctx) (env(cs_name s \<mapsto> cs_kind s)) st'"
      unfolding evaluating_def using st'(2,5,6) declared_wf_insert [OF wf v(2)] by simp
    ultimately show ?thesis using st'(3,4) by auto
  qed
qed

lemma evaluate_statements_sound:
  "evaluating (ec_rows ctx) env st \<Longrightarrow> statements_typed (ec_parameters ctx) env ss \<Longrightarrow> context_wf ctx \<Longrightarrow>
   (\<exists>e. run_res (evaluate_statement ctx) st ss = Inl e \<and> bounds_refusal e) \<or>
   (\<exists>st'. run_res (evaluate_statement ctx) st ss = Inr st' \<and> evaluating (ec_rows ctx) (env_after env ss) st'
      \<and> map no_name (ev_numeric st') = map no_name (ev_numeric st) @ numeric_names ss
      \<and> dom (ev_signals st') = dom (ev_signals st) \<union> set (signal_names ss))"
proof (induction ss arbitrary: env st)
  case Nil
  thus ?case by (simp add: env_after_def)
next
  case (Cons s ss)
  have typed: "statement_typed (ec_parameters ctx) env s" "statements_typed (ec_parameters ctx) (env(cs_name s \<mapsto> cs_kind s)) ss"
    using Cons.prems(2) by simp_all
  show ?case
    using evaluate_statement_sound [OF Cons.prems(1) typed(1) Cons.prems(3)]
  proof (elim disjE exE conjE)
    fix e assume "evaluate_statement ctx st s = Inl e" "bounds_refusal e"
    thus ?thesis by simp
  next
    fix u assume u: "evaluate_statement ctx st s = Inr u" "evaluating (ec_rows ctx) (env(cs_name s \<mapsto> cs_kind s)) u"
      "map no_name (ev_numeric u) = map no_name (ev_numeric st) @ (if \<not> is_signal s \<and> cs_visible s then [cs_name s] else [])"
      "dom (ev_signals u) = dom (ev_signals st) \<union> (if is_signal s then {cs_name s} else {})"
    have names: "numeric_names (s # ss) = (if \<not> is_signal s \<and> cs_visible s then [cs_name s] else []) @ numeric_names ss"
      "set (signal_names (s # ss)) = (if is_signal s then {cs_name s} else {}) \<union> set (signal_names ss)"
      by (simp_all add: numeric_names_def signal_names_def)
    have after: "env_after env (s # ss) = env_after (env(cs_name s \<mapsto> cs_kind s)) ss" by (simp add: env_after_def)
    have step: "run_res (evaluate_statement ctx) st (s # ss) = run_res (evaluate_statement ctx) u ss" by (simp add: u(1))
    show ?thesis
      using Cons.IH [OF u(2) typed(2) Cons.prems(3)] unfolding step names after u(3) u(4) append_assoc Un_assoc .
  qed
qed

end
