(* ===== verification/Formula_Soundness.thy ===== *)
theory Formula_Soundness
  imports Formula_Typing
begin

text \<open>
  The evaluation of a compiled formula as a whole (\<open>formula/compiler.py\<close>, \<open>context.py\<close>, \<open>evaluator.py\<close>):
  what \<open>compile_formula\<close> announces is what \<open>evaluate_compiled\<close> returns. The formula and the context
  named \<open>demo\<close> are the inputs on which the theorems are exercised.
\<close>

section \<open>Soundness of a compiled formula\<close>

definition result_shape :: "compiled_formula \<Rightarrow> nat \<Rightarrow> signal_result \<Rightarrow> bool" where
  "result_shape cf rows r \<longleftrightarrow>
     map no_name (sr_numeric r) = cf_numeric_outputs cf
     \<and> list_all (\<lambda>out. length (no_values out) = rows) (sr_numeric r)
     \<and> map bs_name (sr_signals r) = [''BUY'', ''SELL'']
     \<and> list_all (\<lambda>out. length (bs_values out) = rows) (sr_signals r)"

lemma evaluation_result_shape:
  assumes "evaluating rows env st" "map no_name (ev_numeric st) = cf_numeric_outputs cf"
  shows "result_shape cf rows (evaluation_result rows st)"
proof -
  have "length (bs_values (signal_output rows (ev_signals st) name)) = rows" for name
    using assms(1) by (auto simp: signal_output_def evaluating_def ran_def Let_def split: option.splits)
  thus ?thesis
    using assms by (simp add: result_shape_def evaluation_result_def evaluating_def list_all_iff signal_output_def Let_def)
qed

lemma evaluating_start: "evaluating rows Map.empty evaluation_start"
  by (simp add: evaluating_def evaluation_start_def declared_wf_def)

lemma evaluated_program:
  assumes compile: "compile_program v1_registry bs program checksum = Inr cf"
    and parsed: "\<forall>s \<in> set (pg_statements program). parsed_operators (sm_expression s)"
    and ctx: "make_context v1_registry z provenance columns bs = Inr ctx"
  shows "(\<exists>e. evaluate_statements ctx (cf_statements cf) = Inl e \<and> bounds_refusal e) \<or>
    (\<exists>st. evaluate_statements ctx (cf_statements cf) = Inr st
      \<and> evaluating (ec_rows ctx) (env_after Map.empty (cf_statements cf)) st
      \<and> map no_name (ev_numeric st) = cf_numeric_outputs cf
      \<and> dom (ev_signals st) = set (cf_signal_outputs cf))"
proof -
  note cf = compile_program_Inr [OF compile parsed]
  note wf = make_context_wf(1,2) [OF ctx]
  have typed: "statements_typed (ec_parameters ctx) Map.empty (cf_statements cf)" using cf(1) wf(2) by simp
  have start: "map no_name (ev_numeric evaluation_start) = []" "dom (ev_signals evaluation_start) = {}"
    by (simp_all add: evaluation_start_def)
  show ?thesis
    using evaluate_statements_sound [OF evaluating_start typed wf(1)]
    unfolding start append_Nil Un_empty_left cf(3) [symmetric] cf(4) [symmetric] evaluate_statements_def .
qed

definition demo_span :: "nat \<Rightarrow> source_span" where
  "demo_span line = \<lparr>sp_line = line, sp_column = 1, sp_end_line = line, sp_end_column = 20\<rparr>"

text \<open>\<open>M:MA(C,2); BUY:CROSS(C,M); SELL:C<M;\<close>\<close>

definition demo_program :: program where
  "demo_program =
    \<lparr>pg_statements =
       [\<lparr>sm_name = ''M'', sm_expression = Call ''MA'' [Name ''C'' (demo_span 1), Number 2 (demo_span 1)] (demo_span 1),
         sm_visible = True, sm_span = demo_span 1\<rparr>,
        \<lparr>sm_name = ''BUY'', sm_expression = Call ''CROSS'' [Name ''C'' (demo_span 2), Name ''M'' (demo_span 2)] (demo_span 2),
         sm_visible = True, sm_span = demo_span 2\<rparr>,
        \<lparr>sm_name = ''SELL'', sm_expression = Binary (Name ''C'' (demo_span 3)) ''<'' (Name ''M'' (demo_span 3)) (demo_span 3),
         sm_visible = True, sm_span = demo_span 3\<rparr>],
     pg_span = demo_span 1\<rparr>"

text \<open>Two trading days whose closes are 10 and 12; the other fields are null.\<close>

definition demo_columns :: "(string \<times> rat option list) list" where
  "demo_columns = map (\<lambda>f. (fd_name f, if fd_canonical f = ''CLOSE'' then [Some 10, Some 12] else [None, None])) registry_fields"

definition demo_digest :: string where "demo_digest = ''sha256:'' @ replicate 64 CHR ''0''"

definition demo_provenance :: context_provenance where
  "demo_provenance = \<lparr>cp_symbol = ''600000.SH'', cp_period = DAY, cp_digests = [(''dataset_version'', demo_digest)],
     cp_cutoff = Aware 200000000000, cp_start = Aware 0, cp_end = Aware 200000000000,
     cp_timestamps = [Aware 0, Aware 86400000000]\<rparr>"

definition demo_context :: eval_context where
  "demo_context = \<lparr>ec_rows = 2, ec_fields = demo_columns, ec_parameters = []\<rparr>"

lemma field_names_list:
  "field_names v1_registry = [''C'', ''CLOSE'', ''H'', ''HIGH'', ''L'', ''LOW'', ''O'', ''OPEN'', ''V'', ''VOL'', ''VOLUME'']"
  by (simp add: field_names_def v1_registry_def registry_fields_def make_field_def)

lemma demo_functions:
  "function_of v1_registry ''MA'' = Some (make_spec ''MA'' ''series'' PastOnly [x_param, window_param False 1] NumberKind ''series.ma'')"
  "function_of v1_registry ''CROSS'' = Some (make_spec ''CROSS'' ''signal'' PastOnly [x_param, param ''Y'' series_kinds False None] BooleanKind ''signal.cross'')"
  by (simp_all add: function_of_def function_named_def v1_registry_def series_functions_def statistics_functions_def signal_functions_def
      make_spec_def upper_ascii_def x_param_def window_param_def)

lemma round64_demo: "round64 1 = Some 1" "round64 10 = Some 10" "round64 12 = Some 12" "round64 2 = Some 2"
  using round64_id [OF float64_of_int, of 1] round64_id [OF float64_of_int, of 10] round64_id [OF float64_of_int, of 12] round64_id [OF float64_of_int, of 2]
  by simp_all

lemma demo_scale: "fd_numerator f = 1 \<Longrightarrow> fd_denominator f = 1 \<Longrightarrow> field_scale f = Some 1"
  by (simp add: field_scale_def round64_demo)

lemma demo_scaled: "f64_mul 10 1 = Some 10" "f64_mul 12 1 = Some 12"
  by (simp_all add: f64_mul_def round64_demo)

lemma demo_fields_match: "\<not> list_ex (\<lambda>f. \<not> field_matches_spec demo_columns f) registry_fields"
  by (simp add: registry_fields_def demo_columns_def make_field_def field_matches_spec_def scaled_value_def demo_scale demo_scaled)

lemma demo_bucket_starts: 
  "is_canonical_bucket_start (\<lambda>_. 0) DAY (Aware 0)" "is_canonical_bucket_start (\<lambda>_. 0) DAY (Aware 86400000000)"
  by (simp_all add: is_canonical_bucket_start_def Let_def local_us_def day_us_def)

lemma demo_provenance_valid: "check_provenance (\<lambda>_. 0) demo_provenance = Inr ()"
  by (simp add: check_provenance_def demo_provenance_def demo_bucket_starts symbol_pattern_def digest_pattern_def demo_digest_def decimal_digit_def list_all_iff max_bar_series_rows_def)

lemma demo_columns_named: "set (map fst demo_columns) = set (field_names v1_registry)"
  by (simp add: demo_columns_def field_names_v1 comp_def)

lemma demo_context_made: "make_context v1_registry (\<lambda>_. 0) demo_provenance demo_columns [] = Inr demo_context"
proof -
  have "rg_fields v1_registry = registry_fields" by (simp add: v1_registry_def)
  moreover have "\<not> list_ex (\<lambda>(_, s). length s \<noteq> 2) demo_columns" by (simp add: demo_columns_def list_ex_iff)
  moreover have "length (cp_timestamps demo_provenance) = 2" by (simp add: demo_provenance_def)
  ultimately show ?thesis
    using demo_provenance_valid demo_columns_named demo_fields_match
    by (simp add: make_context_def then_res_def max_parameters_def demo_context_def)
qed

definition demo_at :: "nat \<Rightarrow> compiled" where
  "demo_at line = ReferenceExpression ''C'' FieldSource NumberKind (demo_span line)"

definition demo_mean :: "nat \<Rightarrow> compiled" where
  "demo_mean line = ReferenceExpression ''M'' DeclarationSource NumberKind (demo_span line)"

definition demo_formula :: compiled_formula where
  "demo_formula =
    \<lparr>cf_checksum = ''sha256:0'', cf_compatibility_version = compatibility_version, cf_engine_version = engine_version,
     cf_statements =
       [\<lparr>cs_name = ''M'', cs_expression = CallExpression ''MA'' ''series.ma'' [demo_at 1, LiteralExpression (IntegerScalar 2) IntegerKind (demo_span 1)] NumberKind (demo_span 1),
         cs_kind = NumberKind, cs_visible = True, cs_span = demo_span 1\<rparr>,
        \<lparr>cs_name = ''BUY'', cs_expression = CallExpression ''CROSS'' ''signal.cross'' [demo_at 2, demo_mean 2] BooleanKind (demo_span 2),
         cs_kind = BooleanKind, cs_visible = True, cs_span = demo_span 2\<rparr>,
        \<lparr>cs_name = ''SELL'', cs_expression = BinaryExpression ''<'' (demo_at 3) (demo_mean 3) BooleanKind (demo_span 3),
         cs_kind = BooleanKind, cs_visible = True, cs_span = demo_span 3\<rparr>],
     cf_numeric_outputs = [''M''], cf_signal_outputs = [''BUY'', ''SELL''], cf_bindings = []\<rparr>"

lemma demo_names: "identifier_pattern ''M''" "identifier_pattern ''BUY''" "identifier_pattern ''SELL''"
  by (simp_all add: identifier_pattern_def upper_char_def max_identifier_chars_def)

lemma demo_literal: "literal 2 loc = Inr (LiteralExpression (IntegerScalar 2) IntegerKind loc)"
  by (simp add: literal_def round64_demo max_integer_def)

lemma demo_named:
  "function_named v1_registry ''MA'' = Some (make_spec ''MA'' ''series'' PastOnly [x_param, window_param False 1] NumberKind ''series.ma'')"
  "function_named v1_registry ''CROSS'' = Some (make_spec ''CROSS'' ''signal'' PastOnly [x_param, param ''Y'' series_kinds False None] BooleanKind ''signal.cross'')"
  using demo_functions by (simp_all add: function_of_def upper_ascii_def)

lemmas demo_specs = make_spec_def x_param_def window_param_def param_def series_kinds_def min_args_def max_args_def

lemma demo_valid: "validate_program v1_registry demo_program [] = Inr []"
  by (simp add: validate_program_def demo_program_def expression_diagnostics_def field_names_list demo_named demo_specs Let_def)

lemma demo_statements:
  "run_res (compile_statement v1_registry []) compile_start (pg_statements demo_program)
    = Inr \<lparr>co_env = [''M'' \<mapsto> NumberKind, ''BUY'' \<mapsto> BooleanKind, ''SELL'' \<mapsto> BooleanKind],
           co_statements = cf_statements demo_formula, co_numeric = [''M''], co_signals = [''BUY'', ''SELL'']\<rparr>"
  by (simp add: demo_program_def compile_start_def compile_statement_def compile_name_def field_names_list demo_literal demo_functions
     demo_specs then_res_def validate_arguments_def validate_argument_def Let_def accepts_value_kind_def below_minimum_def above_maximum_def
     maximum_of_def max_lookback_def compile_output_def compile_binary_def numeric_kinds_def comparison_operators_def max_public_outputs_def
     demo_formula_def demo_at_def demo_mean_def)

lemma demo_compiles: "compile_program v1_registry [] demo_program (Inr ''sha256:0'') = Inr demo_formula"
proof -
  have "List.find (\<lambda>s. \<not> identifier_pattern (sm_name s)) (pg_statements demo_program) = None"
    by (simp add: demo_program_def demo_names)
  thus ?thesis
    using demo_valid demo_statements by (simp add: compile_program_def) (simp add: demo_formula_def v1_registry_def)
qed

lemma demo_close: "field_of v1_registry ''C'' = Some (make_field ''C'' ''CLOSE'' ''price'' 1)"
  by (simp add: field_of_def v1_registry_def registry_fields_def make_field_def upper_ascii_def)

lemma demo_inspected:
  "inspect_compiled_structure demo_formula v1_registry =
     \<lparr>st_numeric_outputs = [''M''], st_signal_outputs = [''BUY'', ''SELL''], st_expression_count = 9, st_work_units = 43, st_diagnostics = []\<rparr>"
  by (simp add: inspect_compiled_structure_def demo_formula_def demo_at_def demo_mean_def inspect_statement_def inspection_start_def
     inspect_call_def inspect_totals_def demo_functions demo_specs demo_close make_field_def reference_kind_def binary_kind_def
     literal_kind_def flagged_def Let_def comparison_operators_def accepts_value_kind_def below_minimum_def above_maximum_def
     maximum_of_def max_lookback_def max_statements_def max_ast_nodes_def max_public_outputs_def max_parameters_def
     dispatch_work_weight_def temporal_rules_def)

lemma demo_analyzed: "ta_diagnostics (analyze_compiled_formula demo_formula v1_registry) = []"
proof -
  have "version_diagnostics demo_formula v1_registry = []"
    by (simp add: version_diagnostics_def demo_formula_def v1_registry_def flagged_def)
  moreover have "as_diagnostics (analyze_statements v1_registry demo_formula) = []"
    by (simp add: analyze_statements_def demo_formula_def demo_at_def demo_mean_def analyze_statement_def analysis_start_def
       call_diagnosis_def call_dependency_def temporal_rules_def demo_functions demo_specs combine_def extend_past_def current_row_def
       configuration_def truncated_def flagged_def max_lookback_def Let_def)
  ultimately show ?thesis
    by (simp add: analyze_compiled_formula_def demo_inspected analysis_result_def first_occurrences_def Let_def)
qed

lemma demo_guard: "evaluation_guard (\<lambda>_. []) demo_formula demo_context ''sha256:0'' = Inr ()"
proof -
  have "cf_bindings demo_formula = []" by (simp add: demo_formula_def)
  hence "validate_execution_budget (\<lambda>_. []) v1_registry demo_formula 2 = []"
    by (simp add: validate_execution_budget_def demo_inspected max_bar_series_rows_def max_output_cells_def max_work_cells_def
       estimate_response_bytes_def max_signal_series_bytes_def)
  moreover have "cf_checksum demo_formula = ''sha256:0''" "cf_compatibility_version demo_formula = compatibility_version"
      "cf_engine_version demo_formula = engine_version" "ec_parameters demo_context = cf_bindings demo_formula" "ec_rows demo_context = 2"
      "length (cf_numeric_outputs demo_formula) = 1"
    by (simp_all add: demo_formula_def demo_context_def)
  ultimately show ?thesis using demo_analyzed by (simp add: evaluation_guard_def max_output_cells_def)
qed

section \<open>Formulas whose windows the compiler knows\<close>

text \<open>Every integer argument of a call has a value at compile time: a literal, a bound parameter, or a signed one.\<close>

fun known_windows :: "bindings \<Rightarrow> compiled \<Rightarrow> bool" where
  "known_windows bs (LiteralExpression _ _ _) \<longleftrightarrow> True"
| "known_windows bs (ReferenceExpression _ _ _ _) \<longleftrightarrow> True"
| "known_windows bs (UnaryExpression _ operand _ _) \<longleftrightarrow> known_windows bs operand"
| "known_windows bs (BinaryExpression _ left right _ _) \<longleftrightarrow> known_windows bs left \<and> known_windows bs right"
| "known_windows bs (CallExpression name _ arguments _ _) \<longleftrightarrow>
     list_all (known_windows bs) arguments
     \<and> (case function_of v1_registry name of None \<Rightarrow> True
        | Some f \<Rightarrow> list_all2 (\<lambda>p a. pm_accepted p = [IntegerKind] \<longrightarrow> constraint_value a bs \<noteq> None) (fn_parameters f) arguments)"

definition free_param :: "parameter_spec \<Rightarrow> bool" where
  "free_param p \<longleftrightarrow> pm_minimum p = None \<and> pm_maximum p = None \<and> pm_name p \<noteq> ''N'' \<and> \<not> pm_constant p"

lemma param_cases:
  assumes "f \<in> set (rg_functions v1_registry)" "p \<in> set (fn_parameters f)"
  shows "pm_accepted p = [IntegerKind] \<or> free_param p"
proof -
  have "\<forall>f \<in> set (rg_functions v1_registry). \<forall>p \<in> set (fn_parameters f). pm_accepted p = [IntegerKind] \<or> free_param p"
    by (simp add: v1_registry_def series_functions_def statistics_functions_def signal_functions_def demo_specs condition_kinds_def free_param_def)
  thus ?thesis using assms by blast
qed

definition sma_spec :: function_spec where
  "sma_spec = (make_spec ''SMA'' ''series'' PastOnly [x_param, window_param False 1, param ''M'' [IntegerKind] False (Some 1)] NumberKind ''series.sma'')
       \<lparr>fn_relations := [\<lparr>rl_left = ''M'', rl_operator = ''<='', rl_right = ''N''\<rparr>]\<rparr>"

lemma relation_cases:
  assumes "f \<in> set (rg_functions v1_registry)"
  shows "fn_relations f = [] \<or> f = sma_spec"
proof -
  have "\<forall>f \<in> set (rg_functions v1_registry). fn_relations f = [] \<or> f = sma_spec"
    by (simp add: v1_registry_def series_functions_def statistics_functions_def signal_functions_def make_spec_def sma_spec_def)
  thus ?thesis using assms by blast
qed

text \<open>An argument that the dispatcher accepts, and the scalars it collects.\<close>

definition passes :: "nat \<Rightarrow> parameter_spec \<Rightarrow> runtime_value \<Rightarrow> bool" where
  "passes rows p v \<longleftrightarrow>
     accepts_value_kind (pm_accepted p) (kind_of v)
     \<and> (case v of Scalar s \<Rightarrow> check_scalar p (scalar_number s) = Inr ()
        | _ \<Rightarrow> series_length v = Some rows \<and> \<not> pm_constant p)"

fun scalars_of :: "parameter_spec list \<Rightarrow> runtime_value list \<Rightarrow> (string \<rightharpoonup> rat) \<Rightarrow> (string \<rightharpoonup> rat)" where
  "scalars_of (p # ps) (v # vs) sc =
     scalars_of ps vs (case v of Scalar s \<Rightarrow> sc(pm_name p \<mapsto> scalar_number s) | _ \<Rightarrow> sc)"
| "scalars_of _ _ sc = sc"

lemma passes_checked:
  "passes rows p v \<Longrightarrow>
   check_argument p v rows sc = Inr (case v of Scalar s \<Rightarrow> sc(pm_name p \<mapsto> scalar_number s) | _ \<Rightarrow> sc)"
  by (auto simp: passes_def check_argument_def then_res_def split: runtime_value.splits)

lemma check_arguments_passes:
  "list_all2 (passes rows) ps vs \<Longrightarrow> check_arguments ps vs rows sc = Inr (scalars_of ps vs sc)"
  by (induction arbitrary: sc rule: list_all2_induct) (simp_all add: passes_checked)

lemma known_passes:
  assumes known: "pm_accepted p = [IntegerKind] \<Longrightarrow> \<exists>s. constraint_value a bs = Some s \<and> v = Scalar s"
    and typed: "accepts_value_kind (pm_accepted p) (compiled_kind a)" "within_bounds bs p a" "has_kind rows (compiled_kind a) v"
    and p: "pm_accepted p = [IntegerKind] \<or> free_param p"
  shows "passes rows p v"
  using p
proof
  assume "pm_accepted p = [IntegerKind]"
  then obtain s where s: "constraint_value a bs = Some s" "v = Scalar s" using known by blast
  have "\<not> below_minimum p (scalar_number s)" "\<not> above_maximum p (scalar_number s)"
    using typed(2) s by (simp_all add: within_bounds_def)
  hence "check_scalar p (scalar_number s) = Inr ()"
    by (auto simp: check_scalar_def below_minimum_def above_maximum_def maximum_of_def min_def split: option.splits if_splits)
  thus ?thesis using typed(1,3) s by (simp add: passes_def has_kind_def)
next
  assume p: "free_param p"
  show ?thesis
    using typed(1,3) p by (cases v) (auto simp: passes_def has_kind_def free_param_def check_scalar_def)
qed

lemma preflight_passes:
  assumes f: "f \<in> set (rg_functions v1_registry)" and rows: "rows \<le> max_bar_series_rows"
    and args: "list_all2 (passes rows) (fn_parameters f) vs"
    and relation: "\<And>r. r \<in> set (fn_relations f) \<Longrightarrow> check_relation (scalars_of (fn_parameters f) vs Map.empty) r = Inr ()"
  shows "preflight (fn_dispatch f) vs rows = Inr ()"
proof -
  have "min_args f \<le> length vs \<and> length vs \<le> max_args f"
    using list_all2_lengthD [OF args] length_filter_le [of pm_required "fn_parameters f"] by (simp add: min_args_def max_args_def)
  moreover have "each g rs = Inr ()" if "\<And>r. r \<in> set rs \<Longrightarrow> g r = Inr ()" for g :: "relation_spec \<Rightarrow> unit res" and rs
    using that by (induction rs) simp_all
  ultimately show ?thesis
    using rows relation by (simp add: preflight_opened [OF spec_for_v1 [OF f]] check_arguments_passes [OF args])
qed

text \<open>The one relation of the registry, \<open>M <= N\<close> of \<open>SMA\<close>, is checked on values that the compiler has compared.\<close>

lemma sma_relation:
  assumes "constraint_value b bs = Some n" "constraint_value c bs = Some m"
    and "\<forall>r \<in> set (fn_relations sma_spec). \<not> relation_violated (known_constants bs (fn_parameters sma_spec) [a, b, c] Map.empty) r"
    and "r \<in> set (fn_relations sma_spec)"
  shows "check_relation (scalars_of (fn_parameters sma_spec) [v, Scalar n, Scalar m] Map.empty) r = Inr ()"
  using assms by (simp add: sma_spec_def demo_specs relation_violated_def check_relation_def)

lemma known_call_passes:
  assumes f: "f \<in> set (rg_functions v1_registry)" and rows: "rows \<le> max_bar_series_rows"
    and typed: "list_all2 (\<lambda>p a. accepts_value_kind (pm_accepted p) (compiled_kind a) \<and> within_bounds bs p a) (fn_parameters f) arguments"
    and known: "list_all2 (\<lambda>p a. pm_accepted p = [IntegerKind] \<longrightarrow> constraint_value a bs \<noteq> None) (fn_parameters f) arguments"
    and relation: "\<forall>r \<in> set (fn_relations f). \<not> relation_violated (known_constants bs (fn_parameters f) arguments Map.empty) r"
    and vs: "list_all2 (\<lambda>a v. has_kind rows (compiled_kind a) v \<and> (\<forall>s. constraint_value a bs = Some s \<longrightarrow> v = Scalar s)) arguments vs"
  shows "preflight (fn_dispatch f) vs rows = Inr ()"
proof (rule preflight_passes [OF f rows])
  have len: "length (fn_parameters f) = length arguments" "length arguments = length vs"
    using list_all2_lengthD [OF typed] list_all2_lengthD [OF vs] by simp_all
  show "list_all2 (passes rows) (fn_parameters f) vs"
  proof (rule list_all2_all_nthI)
    show "length (fn_parameters f) = length vs" using len by simp
    fix i assume i: "i < length (fn_parameters f)"
    show "passes rows (fn_parameters f ! i) (vs ! i)"
    proof (rule known_passes)
      show "accepts_value_kind (pm_accepted (fn_parameters f ! i)) (compiled_kind (arguments ! i))"
        "within_bounds bs (fn_parameters f ! i) (arguments ! i)"
        using list_all2_nthD [OF typed i] by simp_all
      have iv: "i < length arguments" using i len by simp
      show "has_kind rows (compiled_kind (arguments ! i)) (vs ! i)" using list_all2_nthD [OF vs iv] by simp
      show "\<exists>s. constraint_value (arguments ! i) bs = Some s \<and> vs ! i = Scalar s"
        if "pm_accepted (fn_parameters f ! i) = [IntegerKind]"
        using list_all2_nthD [OF known i] that list_all2_nthD [OF vs iv] by blast
      show "pm_accepted (fn_parameters f ! i) = [IntegerKind] \<or> free_param (fn_parameters f ! i)"
        by (rule param_cases [OF f]) (use i in simp)
    qed
  qed
next
  fix r assume r: "r \<in> set (fn_relations f)"
  hence sma: "f = sma_spec" using relation_cases [OF f] by auto
  have ps: "fn_parameters f = [x_param, window_param False 1, param ''M'' [IntegerKind] False (Some 1)]"
    by (simp add: sma sma_spec_def make_spec_def)
  obtain a b c where abc: "arguments = [a, b, c]" "constraint_value b bs \<noteq> None" "constraint_value c bs \<noteq> None"
    using known unfolding ps by (auto simp: list_all2_Cons1 window_param_def param_def)
  then obtain n m where nm: "constraint_value b bs = Some n" "constraint_value c bs = Some m" by blast
  obtain v where v: "vs = [v, Scalar n, Scalar m]"
    using vs nm unfolding abc(1) by (auto simp: list_all2_Cons1)
  show "check_relation (scalars_of (fn_parameters f) vs Map.empty) r = Inr ()"
    using sma_relation [OF nm] relation r unfolding sma abc(1) v by blast
qed

lemma evaluate_known:
  "well_typed bs env c \<Longrightarrow> known_windows bs c \<Longrightarrow> context_wf ctx \<Longrightarrow> ec_parameters ctx = bs \<Longrightarrow> declared_wf (ec_rows ctx) env declared \<Longrightarrow>
   \<exists>v issues. evaluate_expression ctx declared c = Inr (v, issues) \<and> has_kind (ec_rows ctx) (compiled_kind c) v"
  "list_all (well_typed bs env) cs \<Longrightarrow> list_all (known_windows bs) cs \<Longrightarrow> context_wf ctx \<Longrightarrow> ec_parameters ctx = bs \<Longrightarrow>
   declared_wf (ec_rows ctx) env declared \<Longrightarrow>
   \<exists>vs issues. evaluate_arguments ctx declared cs = Inr (vs, issues)
     \<and> list_all2 (\<lambda>a v. has_kind (ec_rows ctx) (compiled_kind a) v \<and> (\<forall>s. constraint_value a bs = Some s \<longrightarrow> v = Scalar s)) cs vs"
proof (induction ctx declared c and ctx declared cs rule: evaluate_expression_evaluate_arguments.induct)
  case (1 ctx declared v k loc)
  thus ?case by (auto simp: has_kind_def)
next
  case (2 ctx declared name source k loc)
  show ?case using evaluate_reference_sound [OF 2(1,3,4,5)] by (auto simp del: well_typed.simps evaluate_expression.simps)
next
  case (3 ctx declared operator operand k loc)
  obtain v nested where v: "evaluate_expression ctx declared operand = Inr (v, nested)" "has_kind (ec_rows ctx) (compiled_kind operand) v"
    using 3 by (auto split: if_splits)
  show ?case
  proof (cases "operator \<in> {''+'', ''-''}")
    case True
    hence "compiled_kind operand \<in> numeric_kinds" "k = compiled_kind operand" using 3(2) by (simp_all split: if_splits)
    thus ?thesis using v(1) sign_kind_sound [OF True v(2), of loc nested] by simp
  next
    case False
    hence op: "operator = ''NOT''" "k = BooleanKind" using 3(2) by (simp_all split: if_splits)
    obtain result where "evaluate_unary (ec_rows ctx) ''NOT'' loc (v, nested) = Inr (located loc nested result)"
      "has_kind (ec_rows ctx) BooleanKind (kr_value result)"
      using v(2) evaluate_not [of "ec_rows ctx" v loc nested] by (auto simp: has_kind_def)
    thus ?thesis using v(1) op by (auto simp: located_def)
  qed
next
  case (4 ctx declared operator left right k loc)
  have typed: "well_typed bs env left" "well_typed bs env right" "binary_typed operator (compiled_kind left) (compiled_kind right) k"
    using 4(3) by (simp_all add: binary_typed_def)
  obtain l li where l: "evaluate_expression ctx declared left = Inr (l, li)" "has_kind (ec_rows ctx) (compiled_kind left) l"
    using 4(1) typed 4(4-7) by auto
  obtain r ri where r: "evaluate_expression ctx declared right = Inr (r, ri)" "has_kind (ec_rows ctx) (compiled_kind right) r"
    using 4(2) [OF l(1)] typed 4(4-7) by auto
  obtain result where "binary_kernel (ec_rows ctx) operator l r = Inr result" "has_kind (ec_rows ctx) k (kr_value result)"
    by (rule binary_kernel_cells [OF l(2) r(2) typed(3)])
  thus ?case using l(1) r(1) by (auto simp: located_def)
next
  case (5 ctx declared name key arguments k loc)
  obtain f where f: "function_of v1_registry name = Some f" "fn_dispatch f = key" "fn_result f = k"
    and all: "list_all2 (\<lambda>p a. accepts_value_kind (pm_accepted p) (compiled_kind a) \<and> within_bounds bs p a) (fn_parameters f) arguments"
    and relation: "\<forall>r \<in> set (fn_relations f). \<not> relation_violated (known_constants bs (fn_parameters f) arguments Map.empty) r"
    and typed: "list_all (well_typed bs env) arguments" using 5(2) by (auto simp: list_all_iff)
  have known: "list_all2 (\<lambda>p a. pm_accepted p = [IntegerKind] \<longrightarrow> constraint_value a bs \<noteq> None) (fn_parameters f) arguments"
    "list_all (known_windows bs) arguments" using 5(3) f(1) by simp_all
  obtain vs issues where vs: "evaluate_arguments ctx declared arguments = Inr (vs, issues)"
    "list_all2 (\<lambda>a v. has_kind (ec_rows ctx) (compiled_kind a) v \<and> (\<forall>s. constraint_value a bs = Some s \<longrightarrow> v = Scalar s)) arguments vs"
    using 5(1) [OF typed known(2) 5(4-6)] by blast
  have rows: "ec_rows ctx \<le> max_bar_series_rows" using 5(4) by (simp add: context_wf_def)
  have pre: "preflight key vs (ec_rows ctx) = Inr ()"
    using known_call_passes [OF function_of_mem [OF f(1)] rows all known(1) relation vs(2)] f(2) by simp
  obtain r where r: "execute_kernel key vs (ec_rows ctx) = Inr r" "map_option fn_result (spec_for key) = Some (kind_of (kr_value r))"
    "series_length (kr_value r) = Some (ec_rows ctx)" by (rule execute_runs [OF pre])
  have "spec_for key = Some f" using spec_for_v1 [OF function_of_mem [OF f(1)]] f(2) by simp
  thus ?case using vs(1) r f(3) by (auto simp: located_def has_kind_def fits_rows_def)
next
  case (6 ctx declared)
  show ?case by simp
next
  case (7 ctx declared e es)
  obtain v issues where v: "evaluate_expression ctx declared e = Inr (v, issues)" "has_kind (ec_rows ctx) (compiled_kind e) v"
    using 7(1) 7(3-7) by auto
  moreover obtain vs rest where "evaluate_arguments ctx declared es = Inr (vs, rest)"
    "list_all2 (\<lambda>a v. has_kind (ec_rows ctx) (compiled_kind a) v \<and> (\<forall>s. constraint_value a bs = Some s \<longrightarrow> v = Scalar s)) es vs"
    using 7(2) [OF v(1)] 7(3-7) by auto
  moreover have "v = Scalar s" if "constraint_value e bs = Some s" for s
    using constraint_value_evaluates [of e ctx s declared] that 7(5,6) v(1) by simp
  ultimately show ?case by simp
qed

lemma evaluate_statement_known:
  assumes st: "evaluating (ec_rows ctx) env st" and typed: "statement_typed (ec_parameters ctx) env s" and ctx: "context_wf ctx"
    and known: "known_windows (ec_parameters ctx) (cs_expression s)"
  shows "\<exists>st'. evaluate_statement ctx st s = Inr st' \<and> evaluating (ec_rows ctx) (env(cs_name s \<mapsto> cs_kind s)) st'"
proof -
  have wf: "declared_wf (ec_rows ctx) env (ev_declared st)" using st by (simp add: evaluating_def)
  have "well_typed (ec_parameters ctx) env (cs_expression s)" and k: "cs_kind s = compiled_kind (cs_expression s)"
    using typed by (simp_all add: statement_typed_def)
  then obtain v found where v: "evaluate_expression ctx (ev_declared st) (cs_expression s) = Inr (v, found)" "has_kind (ec_rows ctx) (cs_kind s) v"
    using evaluate_known(1) [OF _ known ctx refl wf] by auto
  let ?st = "st\<lparr>ev_declared := (ev_declared st)(cs_name s \<mapsto> v),
             ev_issues := ev_issues st @ map (\<lambda>i. (i, if cs_visible s then Some (cs_name s) else None)) found\<rparr>"
  have lens: "\<forall>out \<in> set (ev_numeric ?st). length (no_values out) = ec_rows ctx" "\<forall>b \<in> ran (ev_signals ?st). length b = ec_rows ctx"
    using st by (simp_all add: evaluating_def)
  obtain st' where "evaluate_output (ec_rows ctx) s v ?st = Inr st'"
    by (rule evaluate_output_typed [OF v(2) typed lens])
  hence "evaluate_statement ctx st s = Inr st'" using v(1) by (simp add: evaluate_statement_def)
  thus ?thesis using evaluate_statement_sound [OF st typed ctx] by auto
qed

lemma evaluate_statements_known:
  "evaluating (ec_rows ctx) env st \<Longrightarrow> statements_typed (ec_parameters ctx) env ss \<Longrightarrow> context_wf ctx \<Longrightarrow>
   \<forall>s \<in> set ss. known_windows (ec_parameters ctx) (cs_expression s) \<Longrightarrow>
   \<exists>st'. run_res (evaluate_statement ctx) st ss = Inr st'"
proof (induction ss arbitrary: env st)
  case (Cons s ss)
  obtain u where u: "evaluate_statement ctx st s = Inr u" "evaluating (ec_rows ctx) (env(cs_name s \<mapsto> cs_kind s)) u"
    using evaluate_statement_known [of ctx env st s] Cons.prems by auto
  have "statements_typed (ec_parameters ctx) (env(cs_name s \<mapsto> cs_kind s)) ss" using Cons.prems(2) by (simp only: statements_typed.simps)
  then obtain st' where "run_res (evaluate_statement ctx) u ss = Inr st'"
    using Cons.IH [OF u(2) _ Cons.prems(3)] Cons.prems(4) unfolding list.set ball_simps by blast
  thus ?case using u(1) by simp
qed simp

lemma known_windows_result:
  assumes "compile_program v1_registry bs program source_checksum = Inr cf"
    and "\<forall>s \<in> set (pg_statements program). parsed_operators (sm_expression s)"
    and "make_context v1_registry z provenance columns bs = Inr ctx"
    and "evaluation_guard value_text cf ctx checksum = Inr ()"
    and "\<forall>s \<in> set (cf_statements cf). known_windows bs (cs_expression s)"
  shows "\<exists>r. evaluate_compiled value_text cf ctx checksum = Inr r \<and> result_shape cf (ec_rows ctx) r"
proof -
  note wf = make_context_wf(1,2) [OF assms(3)]
  have "statements_typed (ec_parameters ctx) Map.empty (cf_statements cf)"
    using compile_program_Inr(1) [OF assms(1,2)] wf(2) by simp
  moreover have "\<forall>s \<in> set (cf_statements cf). known_windows (ec_parameters ctx) (cs_expression s)" using assms(5) wf(2) by simp
  ultimately obtain st where st: "evaluate_statements ctx (cf_statements cf) = Inr st"
    using evaluate_statements_known [OF evaluating_start _ wf(1)] unfolding evaluate_statements_def by blast
  hence "evaluating (ec_rows ctx) (env_after Map.empty (cf_statements cf)) st" "map no_name (ev_numeric st) = cf_numeric_outputs cf"
    using evaluated_program [OF assms(1-3)] by simp_all
  thus ?thesis
    using assms(4) st evaluation_result_shape by (simp add: evaluate_compiled_def then_res_def)
qed

text \<open>
  C36. A formula that compiles evaluates without a type error. Whatever the parser produced, on every context the
  constructor accepts for its bindings, a compiled formula that passes the guard of \<open>evaluate_compiled\<close> returns
  exactly the outputs the compiler announced (the same numeric names in the same order, the two signals, one
  value per row) unless a kernel refuses the value of a scalar: below its minimum, above its maximum or the
  look-back limit, or outside a relation. No kernel refuses the kind, the number or the length of its arguments, no
  lookup fails, no operand has the wrong kind; and a refusal needs a call with an integer argument whose value
  the compiler did not know (a declared name).
\<close>

theorem compiled_formula_sound:
  assumes "compile_program v1_registry bs program source_checksum = Inr cf"
    and "\<forall>s \<in> set (pg_statements program). parsed_operators (sm_expression s)"
    and "make_context v1_registry z provenance columns bs = Inr ctx"
    and "evaluation_guard value_text cf ctx checksum = Inr ()"
  shows "(\<exists>m \<in> {''kernel scalar is below its minimum'', ''kernel scalar exceeds its maximum'',
         ''kernel lookback exceeds its maximum'', ''kernel scalar relation is invalid''}.
       evaluate_compiled value_text cf ctx checksum = Inl (KernelInputError m)
       \<and> (\<exists>s \<in> set (cf_statements cf). \<not> known_windows bs (cs_expression s))) \<or>
    (\<exists>r. evaluate_compiled value_text cf ctx checksum = Inr r \<and> result_shape cf (ec_rows ctx) r)"
  using evaluated_program [OF assms(1-3)]
proof (elim disjE exE conjE)
  fix e assume e: "evaluate_statements ctx (cf_statements cf) = Inl e" "bounds_refusal e"
  hence c: "evaluate_compiled value_text cf ctx checksum = Inl e"
    using assms(4) by (simp add: evaluate_compiled_def then_res_def)
  hence "\<exists>s \<in> set (cf_statements cf). \<not> known_windows bs (cs_expression s)"
    using known_windows_result [OF assms] by auto
  moreover obtain m where "m \<in> bounds_messages" "e = KernelInputError m" using e(2) unfolding bounds_refusal_def ..
  ultimately show ?thesis using c unfolding bounds_messages_def by (intro disjI1 bexI [of _ m] conjI) simp_all
next
  fix st assume st: "evaluate_statements ctx (cf_statements cf) = Inr st"
    "evaluating (ec_rows ctx) (env_after Map.empty (cf_statements cf)) st"
    "map no_name (ev_numeric st) = cf_numeric_outputs cf"
  show ?thesis
    using assms(4) st(1) evaluation_result_shape [OF st(2,3)] by (simp add: evaluate_compiled_def then_res_def)
qed

lemma demo_parsed: "\<forall>s \<in> set (pg_statements demo_program). parsed_operators (sm_expression s)"
  by (simp add: demo_program_def comparison_operators_def)

lemma demo_windows: "\<forall>s \<in> set (cf_statements demo_formula). known_windows [] (cs_expression s)"
  by (simp add: demo_formula_def demo_at_def demo_mean_def demo_functions demo_specs)

theorem compiled_formula_sound_witness:
  "\<exists>r. evaluate_compiled (\<lambda>_. []) demo_formula demo_context ''sha256:0'' = Inr r
     \<and> result_shape demo_formula (ec_rows demo_context) r"
  using compiled_formula_sound [OF demo_compiles demo_parsed demo_context_made demo_guard]
proof (elim disjE bexE conjE)
  fix s assume "s \<in> set (cf_statements demo_formula)" "\<not> known_windows [] (cs_expression s)"
  with demo_windows show ?thesis by blast
qed


lemma demo_evaluates: "\<exists>r. evaluate_compiled (\<lambda>_. []) demo_formula demo_context ''sha256:0'' = Inr r"
  using known_windows_result [OF demo_compiles demo_parsed demo_context_made demo_guard demo_windows] by blast


end
