(* ===== verification/Formula_Locality.thy ===== *)
theory Formula_Locality
  imports Formula_Soundness
begin

text \<open>
  Which rows an output depends on (\<open>formula/evaluator.py\<close> against \<open>formula/analysis.py\<close>). Two evaluations of the
  same formula are compared row by row: an expression has the same cell in row \<open>i\<close> of one and row \<open>j\<close> of the
  other when the rows it sees from there hold the same data. So no output looks ahead.
\<close>

section \<open>Values that agree in a row\<close>

lemma same_at_alike: "same_at i v j w \<Longrightarrow> alike v w"
  by (simp add: same_at_def)

lemma same_at_kind:
  assumes "has_kind rows k v" "has_kind rows' k w" "k = NumberKind \<or> k = BooleanKind" "cell_of v i = cell_of w j"
  shows "same_at i v j w"
  using assms by (auto simp: same_at_def has_kind_def kind_cases)

lemma alike_kind:
  assumes "has_kind rows k v" "has_kind rows' k w" "k = NumberKind \<or> k = BooleanKind"
  shows "alike v w"
  using assms by (auto simp: has_kind_def kind_cases)

text \<open>An operator gives the same cell where its operands have the same cells.\<close>

lemma unary_same:
  assumes v: "has_kind rows k v" "has_kind rows' k w" and alike: "alike v w"
    and op: "operator \<in> {''+'', ''-''} \<and> k \<in> numeric_kinds \<or> operator = ''NOT''"
    and a: "evaluate_unary rows operator loc (v, nested) = Inr (a, issues)"
    and b: "evaluate_unary rows' operator loc (w, nested') = Inr (b, issues')"
  shows "alike a b" "i < rows \<Longrightarrow> j < rows' \<Longrightarrow> same_at i v j w \<Longrightarrow> same_at i a j b"
proof -
  have "alike a b \<and> (i < rows \<longrightarrow> j < rows' \<longrightarrow> same_at i v j w \<longrightarrow> same_at i a j b)"
  proof (cases "operator = ''NOT''")
    case True
    have "fits_rows rows v" "fits_rows rows' w" using v by (simp_all add: has_kind_def)
    note not_v = evaluate_not [OF this(1), of loc nested] and not_w = evaluate_not [OF this(2), of loc nested']
    obtain r where r0: "evaluate_unary rows ''NOT'' loc (v, nested) = Inr (located loc nested r)"
      and r: "has_kind rows BooleanKind (kr_value r)" "\<forall>i < rows. cell_of (kr_value r) i = BooleanCell (map_option Not (cond_cell v i))"
      by (rule not_v)
    obtain s where s0: "evaluate_unary rows' ''NOT'' loc (w, nested') = Inr (located loc nested' s)"
      and s: "has_kind rows' BooleanKind (kr_value s)" "\<forall>j < rows'. cell_of (kr_value s) j = BooleanCell (map_option Not (cond_cell w j))"
      by (rule not_w)
    have "a = kr_value r" "b = kr_value s" using a b r0 s0 True by (simp_all add: located_def)
    thus ?thesis using alike_kind [OF r(1) s(1)] same_at_kind [OF r(1) s(1)] r s same_at_cells(2) by auto
  next
    case False
    hence sign: "operator \<in> {''+'', ''-''}" "k \<in> numeric_kinds" using op by auto
    show ?thesis
    proof (cases v)
      case (Scalar x)
      hence w: "w = Scalar x" using alike by simp
      have "a = Scalar (signed_scalar operator x)" "b = Scalar (signed_scalar operator x)"
        using a b Scalar w evaluate_sign_scalar [OF sign(1)] by simp_all
      thus ?thesis by (simp add: same_at_def)
    next
      case (NumberSeries p)
      then obtain q where w: "w = NumberSeries q" using alike by auto
      have len: "length p = rows" "length q = rows'" using v NumberSeries w by (simp_all add: has_kind_def)
      note sign_v = evaluate_sign_series [OF sign(1) len(1), of loc nested] and sign_w = evaluate_sign_series [OF sign(1) len(2), of loc nested']
      obtain r where r0: "evaluate_unary rows operator loc (NumberSeries p, nested) = Inr (located loc nested r)"
        and r: "has_kind rows NumberKind (kr_value r)"
          "\<forall>i < rows. cell_of (kr_value r) i = NumberCell (map_option (\<lambda>x. if operator = ''+'' then x else - x) (p ! i))"
        by (rule sign_v)
      obtain s where s0: "evaluate_unary rows' operator loc (NumberSeries q, nested') = Inr (located loc nested' s)"
        and s: "has_kind rows' NumberKind (kr_value s)"
          "\<forall>j < rows'. cell_of (kr_value s) j = NumberCell (map_option (\<lambda>x. if operator = ''+'' then x else - x) (q ! j))"
        by (rule sign_w)
      have "a = kr_value r" "b = kr_value s" using a b r0 s0 NumberSeries w by (simp_all add: located_def)
      thus ?thesis
        using alike_kind [OF r(1) s(1)] same_at_kind [OF r(1) s(1)] r s NumberSeries w by (auto simp: same_at_def)
    next
      case (BooleanSeries p)
      thus ?thesis using v(1) sign(2) by (auto simp: has_kind_def numeric_kinds_def)
    qed
  qed
  thus "alike a b" "i < rows \<Longrightarrow> j < rows' \<Longrightarrow> same_at i v j w \<Longrightarrow> same_at i a j b" by blast+
qed

lemma binary_output_same:
  "same_at i l j l' \<Longrightarrow> same_at i r j r' \<Longrightarrow> binary_output operator l r i = binary_output operator l' r' j"
  by (simp add: binary_output_def same_at_cells cong: if_cong)

lemma binary_same:
  assumes kinds: "has_kind rows kl l" "has_kind rows kr r" "has_kind rows' kl l'" "has_kind rows' kr r'"
    and typed: "binary_typed operator kl kr k"
    and a: "binary_kernel rows operator l r = Inr a" and b: "binary_kernel rows' operator l' r' = Inr b"
  shows "alike (kr_value a) (kr_value b)"
    "i < rows \<Longrightarrow> j < rows' \<Longrightarrow> same_at i l j l' \<Longrightarrow> same_at i r j r' \<Longrightarrow> same_at i (kr_value a) j (kr_value b)"
proof -
  have k: "k = NumberKind \<or> k = BooleanKind" using typed by (auto simp: binary_typed_def split: if_splits)
  have a': "has_kind rows k (kr_value a)" "\<forall>i < rows. cell_of (kr_value a) i = binary_output operator l r i"
    using binary_kernel_cells [OF kinds(1,2) typed] a by auto
  have b': "has_kind rows' k (kr_value b)" "\<forall>j < rows'. cell_of (kr_value b) j = binary_output operator l' r' j"
    using binary_kernel_cells [OF kinds(3,4) typed] b by auto
  show "alike (kr_value a) (kr_value b)" by (rule alike_kind [OF a'(1) b'(1) k])
  show "same_at i (kr_value a) j (kr_value b)" if "i < rows" "j < rows'" "same_at i l j l'" "same_at i r j r'"
    by (rule same_at_kind [OF a'(1) b'(1) k]) (use a'(2) b'(2) that binary_output_same in auto)
qed

lemma execute_cells:
  assumes "execute_kernel key vs rows = Inr r"
  shows "map_option fn_result (spec_for key) = Some (kind_of (kr_value r))" "series_length (kr_value r) = Some rows"
    "\<forall>i < rows. cell_of (kr_value r) i = kernel_cell key vs i"
proof -
  have "map_option fn_result (spec_for key) = Some (kind_of (kr_value r)) \<and> series_length (kr_value r) = Some rows
    \<and> (\<forall>i < rows. cell_of (kr_value r) i = kernel_cell key vs i)"
    by (rule execute_runs [OF execute_Inr [OF assms]]) (use assms in simp)
  thus "map_option fn_result (spec_for key) = Some (kind_of (kr_value r))" "series_length (kr_value r) = Some rows"
    "\<forall>i < rows. cell_of (kr_value r) i = kernel_cell key vs i" by blast+
qed

text \<open>
  A call that runs on one context runs on the other, and gives the same cell where its arguments have the same
  cells in the rows its function reads.
\<close>

lemma call_same:
  assumes run: "execute_kernel key vs rows = Inr a" and alike: "list_all2 (\<lambda>v w. alike v w \<and> fits_rows rows' w) vs ws"
    and rows': "rows' \<le> max_bar_series_rows"
  obtains b where "execute_kernel key ws rows' = Inr b" "alike (kr_value a) (kr_value b)"
    "\<And>i j. i < rows \<Longrightarrow> j < rows' \<Longrightarrow>
       same_past (call_reach key vs) (\<lambda>i j. \<forall>n < length vs. same_at i (vs ! n) j (ws ! n)) i j \<Longrightarrow> same_at i (kr_value a) j (kr_value b)"
proof -
  note pre = execute_Inr [OF run]
  have pre': "preflight key ws rows' = Inr ()" by (rule preflight_alike [OF pre alike rows'])
  obtain b where run': "execute_kernel key ws rows' = Inr b" by (rule execute_runs [OF pre'])
  note a = execute_cells [OF run] and b = execute_cells [OF run']
  have kinds: "kind_of (kr_value a) = kind_of (kr_value b)" using a(1) b(1) by simp
  have scalar: "kr_value a \<noteq> Scalar s" for s using a(2) by auto
  have vals: "alike (kr_value a) (kr_value b)" using kinds scalar by (auto simp: alike_def)
  have len: "length ws = length vs" using alike by (simp add: list_all2_lengthD)
  have al: "\<forall>n < length vs. alike (vs ! n) (ws ! n)" using alike by (simp add: list_all2_conv_all_nth)
  have "same_at i (kr_value a) j (kr_value b)"
    if i: "i < rows" "j < rows'" and past: "same_past (call_reach key vs) (\<lambda>i j. \<forall>n < length vs. same_at i (vs ! n) j (ws ! n)) i j" for i j
    using kernel_cell_local [OF len preflight_ready [OF pre] past al] a(3) b(3) i vals by (simp add: same_at_def)
  thus ?thesis using that [OF run' vals] by blast
qed

section \<open>The rows an expression reads\<close>

text \<open>The rows a call reads, from the windows the compiler knows; \<open>None\<close> is the whole past.\<close>

definition static_reach :: "bindings \<Rightarrow> string \<Rightarrow> compiled list \<Rightarrow> nat set option" where
  "static_reach bs key arguments =
     (let window = (\<lambda>p. map_option (window_argument \<circ> Scalar) (constraint_value (arguments ! p) bs)) in
      if key \<in> {''math.abs'', ''math.max'', ''math.min'', ''logic.if''} then Some {0}
      else if key = ''series.ref'' then map_option (\<lambda>n. {n}) (window 1)
      else if key \<in> {''series.ma'', ''statistics.std'', ''series.hhv'', ''series.llv'', ''series.sum'', ''series.count''}
      then Option.bind (window 1) window_reach
      else if key = ''signal.cross'' then Some {0, 1}
      else if key = ''signal.longcross'' then map_option (\<lambda>n. {0..n}) (window 2)
      else None)"

lemma same_past_whole: "same_past None P i j \<Longrightarrow> same_past reach P i j"
  by (simp add: same_past_def)

lemma static_reach_sound:
  assumes past: "same_past (static_reach bs key arguments) P i j" and ready: "ready rows key vs"
    and len: "length vs = length arguments"
    and known: "\<And>n s. n < length arguments \<Longrightarrow> constraint_value (arguments ! n) bs = Some s \<Longrightarrow> vs ! n = Scalar s"
  shows "same_past (call_reach key vs) P i j"
proof -
  have one: "window_argument (Scalar s) = window_argument (vs ! 1)" if "1 < length vs" "constraint_value (arguments ! 1) bs = Some s" for s
    using known [of 1 s] that len by simp
  have two: "window_argument (Scalar s) = window_argument (vs ! 2)" if "2 < length vs" "constraint_value (arguments ! 2) bs = Some s" for s
    using known [of 2 s] that len by simp
  show ?thesis
  proof (cases "static_reach bs key arguments")
    case None
    thus ?thesis using past same_past_whole by simp
  next
    case (Some K)
    have "call_reach key vs = Some K"
      using ready
      by (cases rule: ready.cases)
         (use Some one two in \<open>auto simp: static_reach_def call_reach_def Let_def split: bind_splits if_splits\<close>)
    thus ?thesis using past Some by simp
  qed
qed

text \<open>
  Row \<open>i\<close> of one evaluation and row \<open>j\<close> of another see the same data: \<open>R\<close> relates the rows whose fields are
  equal, \<open>D\<close> the rows in which a declared value is.
\<close>

fun sees :: "bindings \<Rightarrow> (nat \<Rightarrow> nat \<Rightarrow> bool) \<Rightarrow> (string \<Rightarrow> nat \<Rightarrow> nat \<Rightarrow> bool) \<Rightarrow> compiled \<Rightarrow> nat \<Rightarrow> nat \<Rightarrow> bool" where
  "sees bs R D (LiteralExpression _ _ _) i j \<longleftrightarrow> True"
| "sees bs R D (ReferenceExpression name source _ _) i j \<longleftrightarrow>
     (case source of FieldSource \<Rightarrow> R i j | ParameterSource \<Rightarrow> True | DeclarationSource \<Rightarrow> D name i j)"
| "sees bs R D (UnaryExpression _ operand _ _) i j \<longleftrightarrow> sees bs R D operand i j"
| "sees bs R D (BinaryExpression _ left right _ _) i j \<longleftrightarrow> sees bs R D left i j \<and> sees bs R D right i j"
| "sees bs R D (CallExpression _ key arguments _ _) i j \<longleftrightarrow>
     same_past (static_reach bs key arguments) (\<lambda>i j. \<forall>a \<in> set arguments. sees bs R D a i j) i j"

definition related ::
  "bindings \<Rightarrow> (string \<rightharpoonup> value_kind) \<Rightarrow> (nat \<Rightarrow> nat \<Rightarrow> bool) \<Rightarrow> (string \<Rightarrow> nat \<Rightarrow> nat \<Rightarrow> bool)
    \<Rightarrow> eval_context \<Rightarrow> eval_context \<Rightarrow> (string \<rightharpoonup> runtime_value) \<Rightarrow> (string \<rightharpoonup> runtime_value) \<Rightarrow> bool" where
  "related bs env R D ctx ctx' declared declared' \<longleftrightarrow>
     context_wf ctx \<and> context_wf ctx' \<and> ec_parameters ctx = bs \<and> ec_parameters ctx' = bs
     \<and> declared_wf (ec_rows ctx) env declared \<and> declared_wf (ec_rows ctx') env declared'
     \<and> (\<forall>name \<in> set (field_names v1_registry). \<forall>s s'. map_of (ec_fields ctx) name = Some s \<longrightarrow> map_of (ec_fields ctx') name = Some s' \<longrightarrow>
          (\<forall>i < ec_rows ctx. \<forall>j < ec_rows ctx'. R i j \<longrightarrow> s ! i = s' ! j))
     \<and> (\<forall>name v w. env name \<noteq> None \<longrightarrow> declared name = Some v \<longrightarrow> declared' name = Some w \<longrightarrow>
          alike v w \<and> (\<forall>i < ec_rows ctx. \<forall>j < ec_rows ctx'. D name i j \<longrightarrow> same_at i v j w))"

definition matches :: "nat \<Rightarrow> nat \<Rightarrow> (nat \<Rightarrow> nat \<Rightarrow> bool) \<Rightarrow> runtime_value \<Rightarrow> runtime_value \<Rightarrow> bool" where
  "matches rows rows' Q v w \<longleftrightarrow> alike v w \<and> (\<forall>i < rows. \<forall>j < rows'. Q i j \<longrightarrow> same_at i v j w)"

lemma matches_scalar [simp]: "matches rows rows' Q (Scalar s) (Scalar s)"
  by (simp add: matches_def same_at_def)

lemma reference_matches:
  assumes rel: "related bs env R D ctx ctx' declared declared'" and typed: "well_typed bs env (ReferenceExpression name source k loc)"
  obtains v w where "evaluate_expression ctx declared (ReferenceExpression name source k loc) = Inr (v, [])"
    "evaluate_expression ctx' declared' (ReferenceExpression name source k loc) = Inr (w, [])"
    "matches (ec_rows ctx) (ec_rows ctx') (sees bs R D (ReferenceExpression name source k loc)) v w"
proof (cases source)
  case FieldSource
  hence name: "name \<in> set (field_names v1_registry)" using typed by simp
  have wf: "context_wf ctx" "context_wf ctx'" using rel by (simp_all add: related_def)
  obtain s s' where s: "map_of (ec_fields ctx) name = Some s" "map_of (ec_fields ctx') name = Some s'"
    using wf name unfolding context_wf_def by blast
  have "\<forall>i < ec_rows ctx. \<forall>j < ec_rows ctx'. R i j \<longrightarrow> s ! i = s' ! j" using rel name s unfolding related_def by blast
  hence "matches (ec_rows ctx) (ec_rows ctx') R (NumberSeries s) (NumberSeries s')" by (simp add: matches_def same_at_def)
  moreover have "sees bs R D (ReferenceExpression name source k loc) = R" using FieldSource by (intro ext) simp
  ultimately show ?thesis
    using that [of "NumberSeries s" "NumberSeries s'"] FieldSource s field_names_upper [OF name] by (simp add: context_field_def)
next
  case ParameterSource
  then obtain v where v: "map_of bs name = Some v" using typed by auto
  have "upper_ascii name = name" "ec_parameters ctx = bs" "ec_parameters ctx' = bs"
    using rel v by (force simp: related_def context_wf_def dest: map_of_SomeD)+
  thus ?thesis using that [of "Scalar v" "Scalar v"] ParameterSource v by (simp add: context_parameter_def)
next
  case DeclarationSource
  hence env: "env name = Some k" using typed by simp
  have "declared_wf (ec_rows ctx) env declared" "declared_wf (ec_rows ctx') env declared'" using rel by (simp_all add: related_def)
  then obtain v w where vw: "declared name = Some v" "declared' name = Some w" using env unfolding declared_wf_def by blast
  have "matches (ec_rows ctx) (ec_rows ctx') (D name) v w"
    using rel env vw unfolding related_def matches_def by (elim conjE) (metis option.distinct(1))
  moreover have "sees bs R D (ReferenceExpression name source k loc) = D name" using DeclarationSource by (intro ext) simp
  ultimately show ?thesis using that [of v w] DeclarationSource vw by simp
qed

lemma evaluate_arguments_nth:
  "evaluate_arguments ctx declared cs = Inr (vs, issues) \<Longrightarrow>
   length vs = length cs \<and> (\<forall>n < length cs. \<exists>found. evaluate_expression ctx declared (cs ! n) = Inr (vs ! n, found))"
proof (induction cs arbitrary: vs issues)
  case (Cons c cs)
  obtain v found ws rest where "evaluate_expression ctx declared c = Inr (v, found)" "evaluate_arguments ctx declared cs = Inr (ws, rest)"
    "vs = v # ws" using Cons.prems by (auto simp: res_simps)
  thus ?case using Cons.IH [of ws rest] by (auto simp: nth_Cons split: nat.split)
qed simp

lemma evaluated_kind:
  assumes "well_typed bs env c" "context_wf ctx" "ec_parameters ctx = bs" "declared_wf (ec_rows ctx) env declared"
    "evaluate_expression ctx declared c = Inr (v, issues)"
  shows "has_kind (ec_rows ctx) (compiled_kind c) v"
  using evaluate_sound(1) [OF assms(1-4)] assms(5) by (simp add: sound_value_def)

lemma evaluate_local:
  "well_typed bs env c \<Longrightarrow> related bs env R D ctx ctx' declared declared' \<Longrightarrow> evaluate_expression ctx declared c = Inr (v, issues) \<Longrightarrow>
   \<exists>w issues'. evaluate_expression ctx' declared' c = Inr (w, issues') \<and> matches (ec_rows ctx) (ec_rows ctx') (sees bs R D c) v w"
  "list_all (well_typed bs env) cs \<Longrightarrow> related bs env R D ctx ctx' declared declared' \<Longrightarrow> evaluate_arguments ctx declared cs = Inr (vs, issues) \<Longrightarrow>
   \<exists>ws issues'. evaluate_arguments ctx' declared' cs = Inr (ws, issues') \<and> length ws = length cs
     \<and> (\<forall>n < length cs. matches (ec_rows ctx) (ec_rows ctx') (sees bs R D (cs ! n)) (vs ! n) (ws ! n))"
proof (induction ctx declared c and ctx declared cs arbitrary: v issues and vs issues rule: evaluate_expression_evaluate_arguments.induct)
  case (1 ctx declared s k loc)
  thus ?case by auto
next
  case (2 ctx declared name source k loc)
  obtain a b where "evaluate_expression ctx declared (ReferenceExpression name source k loc) = Inr (a, [])"
    "evaluate_expression ctx' declared' (ReferenceExpression name source k loc) = Inr (b, [])"
    "matches (ec_rows ctx) (ec_rows ctx') (sees bs R D (ReferenceExpression name source k loc)) a b"
    by (rule reference_matches [OF 2(2,1)])
  thus ?case using 2(3) by (metis Inr_inject prod.inject)
next
  case (3 ctx declared operator operand k loc)
  have typed: "well_typed bs env operand" using 3(2) by simp
  obtain x nested where x: "evaluate_expression ctx declared operand = Inr (x, nested)"
    "evaluate_unary (ec_rows ctx) operator loc (x, nested) = Inr (v, issues)" using 3(4) by (auto simp: res_simps)
  obtain y nested' where y: "evaluate_expression ctx' declared' operand = Inr (y, nested')"
    "matches (ec_rows ctx) (ec_rows ctx') (sees bs R D operand) x y" using 3(1) [OF typed 3(3) x(1)] by blast
  have wf: "context_wf ctx" "ec_parameters ctx = bs" "declared_wf (ec_rows ctx) env declared"
    "context_wf ctx'" "ec_parameters ctx' = bs" "declared_wf (ec_rows ctx') env declared'" using 3(3) by (simp_all add: related_def)
  have kinds: "has_kind (ec_rows ctx) (compiled_kind operand) x" "has_kind (ec_rows ctx') (compiled_kind operand) y"
    by (rule evaluated_kind [OF typed wf(1,2,3) x(1)], rule evaluated_kind [OF typed wf(4,5,6) y(1)])
  have op: "operator \<in> {''+'', ''-''} \<and> compiled_kind operand \<in> numeric_kinds \<or> operator = ''NOT''"
    using 3(2) by (auto split: if_splits)
  obtain w issues' where w: "evaluate_unary (ec_rows ctx') operator loc (y, nested') = Inr (w, issues')"
  proof (cases "operator = ''NOT''")
    case True
    thus ?thesis using that evaluate_not [of "ec_rows ctx'" y loc nested'] kinds(2) by (metis has_kind_def located_def)
  next
    case False
    hence "operator \<in> {''+'', ''-''}" "compiled_kind operand \<in> numeric_kinds" using op by auto
    thus ?thesis using that sign_kind_sound kinds(2) by blast
  qed
  have alike: "alike x y" using y(2) by (simp add: matches_def)
  have sees: "sees bs R D (UnaryExpression operator operand k loc) = sees bs R D operand" by (intro ext) simp
  have "matches (ec_rows ctx) (ec_rows ctx') (sees bs R D operand) v w"
    using unary_same [OF kinds alike op x(2) w] y(2) unfolding matches_def by blast
  thus ?case using y(1) w unfolding sees by simp
next
  case (4 ctx declared operator left right k loc)
  have typed: "well_typed bs env left" "well_typed bs env right" "binary_typed operator (compiled_kind left) (compiled_kind right) k"
    using 4(3) by (simp_all add: binary_typed_def)
  obtain l li r ri a where l: "evaluate_expression ctx declared left = Inr (l, li)"
    and r: "evaluate_expression ctx declared right = Inr (r, ri)"
    and a: "binary_kernel (ec_rows ctx) operator l r = Inr a" "v = kr_value a" using 4(5) by (auto simp: res_simps located_def)
  obtain l' li' where l': "evaluate_expression ctx' declared' left = Inr (l', li')"
    "matches (ec_rows ctx) (ec_rows ctx') (sees bs R D left) l l'" using 4(1) [OF typed(1) 4(4) l] by blast
  obtain r' ri' where r': "evaluate_expression ctx' declared' right = Inr (r', ri')"
    "matches (ec_rows ctx) (ec_rows ctx') (sees bs R D right) r r'" using 4(2) [OF l _ typed(2) 4(4) r] by blast
  have wf: "context_wf ctx" "ec_parameters ctx = bs" "declared_wf (ec_rows ctx) env declared"
    "context_wf ctx'" "ec_parameters ctx' = bs" "declared_wf (ec_rows ctx') env declared'" using 4(4) by (simp_all add: related_def)
  note kl = evaluated_kind [OF typed(1) wf(1,2,3) l] evaluated_kind [OF typed(1) wf(4,5,6) l'(1)]
  note kr = evaluated_kind [OF typed(2) wf(1,2,3) r] evaluated_kind [OF typed(2) wf(4,5,6) r'(1)]
  obtain b where b: "binary_kernel (ec_rows ctx') operator l' r' = Inr b" by (rule binary_kernel_cells [OF kl(2) kr(2) typed(3)])
  have "matches (ec_rows ctx) (ec_rows ctx') (sees bs R D (BinaryExpression operator left right k loc)) v (kr_value b)"
    using binary_same [OF kl(1) kr(1) kl(2) kr(2) typed(3) a(1) b] l'(2) r'(2) unfolding matches_def a(2) sees.simps by blast
  thus ?case using l'(1) r'(1) b by (auto simp: located_def simp del: sees.simps)
next
  case (5 ctx declared name key arguments k loc)
  obtain vs nested a where vs: "evaluate_arguments ctx declared arguments = Inr (vs, nested)"
    and a: "execute_kernel key vs (ec_rows ctx) = Inr a" "v = kr_value a" using 5(4) by (auto simp: res_simps located_def)
  have typed: "list_all (well_typed bs env) arguments" using 5(2) by simp
  obtain ws nested' where ws: "evaluate_arguments ctx' declared' arguments = Inr (ws, nested')" "length ws = length arguments"
    "\<forall>n < length arguments. matches (ec_rows ctx) (ec_rows ctx') (sees bs R D (arguments ! n)) (vs ! n) (ws ! n)"
    using 5(1) [OF typed 5(3) vs] by blast
  have wf: "context_wf ctx" "ec_parameters ctx = bs" "declared_wf (ec_rows ctx) env declared"
    "context_wf ctx'" "ec_parameters ctx' = bs" "declared_wf (ec_rows ctx') env declared'" using 5(3) by (simp_all add: related_def)
  note args = evaluate_arguments_nth [OF vs] and args' = evaluate_arguments_nth [OF ws(1)]
  have alike: "list_all2 (\<lambda>v w. alike v w \<and> fits_rows (ec_rows ctx') w) vs ws"
  proof (rule list_all2_all_nthI)
    show "length vs = length ws" using args ws(2) by simp
    fix n assume "n < length vs"
    hence n: "n < length arguments" using args by simp
    have "well_typed bs env (arguments ! n)" using typed n by (simp add: list_all_length)
    moreover obtain found where "evaluate_expression ctx' declared' (arguments ! n) = Inr (ws ! n, found)" using args' n by blast
    ultimately have "fits_rows (ec_rows ctx') (ws ! n)" using evaluated_kind [OF _ wf(4,5,6)] by (auto simp: has_kind_def)
    thus "alike (vs ! n) (ws ! n) \<and> fits_rows (ec_rows ctx') (ws ! n)" using ws(3) n by (simp add: matches_def)
  qed
  have known: "vs ! n = Scalar s" if "n < length arguments" "constraint_value (arguments ! n) bs = Some s" for n s
  proof -
    note n = that(1)
    obtain found where "evaluate_expression ctx declared (arguments ! n) = Inr (vs ! n, found)" using args n by blast
    thus ?thesis using constraint_value_evaluates [of "arguments ! n" ctx s declared] that(2) wf(1,2) by simp
  qed
  have rows': "ec_rows ctx' \<le> max_bar_series_rows" using wf(4) by (simp add: context_wf_def)
  note ready = preflight_ready [OF execute_Inr [OF a(1)]]
  show ?case
  proof (rule call_same [OF a(1) alike rows'])
    fix b assume b: "execute_kernel key ws (ec_rows ctx') = Inr b" "alike (kr_value a) (kr_value b)"
      and cells: "\<And>i j. i < ec_rows ctx \<Longrightarrow> j < ec_rows ctx' \<Longrightarrow>
       same_past (call_reach key vs) (\<lambda>i j. \<forall>n < length vs. same_at i (vs ! n) j (ws ! n)) i j \<Longrightarrow> same_at i (kr_value a) j (kr_value b)"
    have "same_at i (kr_value a) j (kr_value b)"
      if i: "i < ec_rows ctx" "j < ec_rows ctx'" and s: "sees bs R D (CallExpression name key arguments k loc) i j" for i j
    proof (rule cells [OF i])
      have "same_past (static_reach bs key arguments) (\<lambda>i j. \<forall>a \<in> set arguments. sees bs R D a i j) i j" using s by simp
      hence "same_past (call_reach key vs) (\<lambda>i j. \<forall>a \<in> set arguments. sees bs R D a i j) i j"
        by (rule static_reach_sound [OF _ ready]) (use args known in auto)
      hence inside: "same_past (call_reach key vs) (\<lambda>p q. (\<forall>a \<in> set arguments. sees bs R D a p q) \<and> p \<le> i \<and> q \<le> j) i j"
        by (auto simp: same_past_def)
      show "same_past (call_reach key vs) (\<lambda>i j. \<forall>n < length vs. same_at i (vs ! n) j (ws ! n)) i j"
      proof (rule same_past_mono [OF inside])
        fix p q assume "(\<forall>a \<in> set arguments. sees bs R D a p q) \<and> p \<le> i \<and> q \<le> j"
        thus "\<forall>n < length vs. same_at p (vs ! n) q (ws ! n)" using ws(3) args i unfolding matches_def by auto
      qed
    qed
    thus ?thesis using ws(1) b unfolding a(2) by (auto simp: matches_def located_def simp del: sees.simps)
  qed
next
  case (6 ctx declared)
  thus ?case by simp
next
  case (7 ctx declared e es)
  obtain x found xs rest where x: "evaluate_expression ctx declared e = Inr (x, found)"
    and xs: "evaluate_arguments ctx declared es = Inr (xs, rest)" "vs = x # xs" using 7(5) by (auto simp: res_simps)
  have typed: "well_typed bs env e" "list_all (well_typed bs env) es" using 7(3) by simp_all
  obtain y found' where y: "evaluate_expression ctx' declared' e = Inr (y, found')"
    "matches (ec_rows ctx) (ec_rows ctx') (sees bs R D e) x y" using 7(1) [OF typed(1) 7(4) x] by blast
  obtain ys rest' where ys: "evaluate_arguments ctx' declared' es = Inr (ys, rest')" "length ys = length es"
    "\<forall>n < length es. matches (ec_rows ctx) (ec_rows ctx') (sees bs R D (es ! n)) (xs ! n) (ys ! n)"
    using 7(2) [OF x _ typed(2) 7(4) xs(1)] by blast
  have "\<forall>n < length (e # es). matches (ec_rows ctx) (ec_rows ctx') (sees bs R D ((e # es) ! n)) (vs ! n) ((y # ys) ! n)"
    using y(2) ys(3) xs(2) by (auto simp: nth_Cons split: nat.split)
  thus ?case using y(1) ys(1,2) by (intro exI [of _ "y # ys"]) simp
qed

section \<open>Programs, row by row\<close>

text \<open>Outputs that agree on the rows related by \<open>good\<close>.\<close>

definition twins :: "nat \<Rightarrow> nat \<Rightarrow> (nat \<Rightarrow> nat \<Rightarrow> bool) \<Rightarrow> 'a list \<Rightarrow> 'a list \<Rightarrow> bool" where
  "twins rows rows' good xs ys \<longleftrightarrow> length xs = rows \<and> length ys = rows' \<and> (\<forall>i < rows. \<forall>j < rows'. good i j \<longrightarrow> xs ! i = ys ! j)"

definition twin_outputs :: "nat \<Rightarrow> nat \<Rightarrow> (string \<Rightarrow> nat \<Rightarrow> nat \<Rightarrow> bool) \<Rightarrow> evaluation \<Rightarrow> evaluation \<Rightarrow> bool" where
  "twin_outputs rows rows' good st st' \<longleftrightarrow>
     list_all2 (\<lambda>a b. no_name a = no_name b \<and> twins rows rows' (good (no_name a)) (no_values a) (no_values b)) (ev_numeric st) (ev_numeric st')
     \<and> (\<forall>name. rel_option (twins rows rows' (good name)) (ev_signals st name) (ev_signals st' name))"

definition declare_sees where
  "declare_sees bs R D s = D(cs_name s := sees bs R D (cs_expression s))"

fun all_see ::
  "bindings \<Rightarrow> (nat \<Rightarrow> nat \<Rightarrow> bool) \<Rightarrow> (string \<Rightarrow> nat \<Rightarrow> nat \<Rightarrow> bool) \<Rightarrow> (string \<Rightarrow> nat \<Rightarrow> nat \<Rightarrow> bool) \<Rightarrow> compiled_statement list \<Rightarrow> bool" where
  "all_see bs R good D [] \<longleftrightarrow> True"
| "all_see bs R good D (s # ss) \<longleftrightarrow>
     (\<forall>i j. good (cs_name s) i j \<longrightarrow> sees bs R D (cs_expression s) i j) \<and> all_see bs R good (declare_sees bs R D s) ss"

lemma related_declare:
  assumes rel: "related bs env R D ctx ctx' declared declared'" and m: "matches (ec_rows ctx) (ec_rows ctx') (sees bs R D (cs_expression s)) v w"
    and kinds: "has_kind (ec_rows ctx) (cs_kind s) v" "has_kind (ec_rows ctx') (cs_kind s) w"
  shows "related bs (env(cs_name s \<mapsto> cs_kind s)) R (declare_sees bs R D s) ctx ctx' (declared(cs_name s \<mapsto> v)) (declared'(cs_name s \<mapsto> w))"
proof -
  have "declared_wf (ec_rows ctx) (env(cs_name s \<mapsto> cs_kind s)) (declared(cs_name s \<mapsto> v))"
    "declared_wf (ec_rows ctx') (env(cs_name s \<mapsto> cs_kind s)) (declared'(cs_name s \<mapsto> w))"
    using rel declared_wf_insert kinds unfolding related_def by blast+
  thus ?thesis using rel m unfolding related_def matches_def declare_sees_def by (elim conjE) (intro conjI; simp)
qed

lemma output_twins:
  assumes v: "has_kind (rows) (cs_kind s) v" "has_kind rows' (cs_kind s) w" and m: "matches rows rows' Q v w"
    and Q: "\<forall>i j. good (cs_name s) i j \<longrightarrow> Q i j" and typed: "statement_typed bs env s"
    and twin: "twin_outputs rows rows' good st st'"
    and a: "evaluate_output rows s v st = Inr a" and b: "evaluate_output rows' s w st' = Inr b"
  shows "twin_outputs rows rows' good a b"
proof (cases "is_signal s")
  case True
  have k: "cs_kind s = BooleanKind" using typed True unfolding statement_typed_def by (elim conjE) (simp only: if_True)
  then obtain p q where p: "v = BooleanSeries p" "w = BooleanSeries q" "length p = rows" "length q = rows'"
    using v by (auto simp: has_kind_def kind_cases)
  have "twins rows rows' (good (cs_name s)) p q" using m Q p by (simp add: twins_def matches_def same_at_def)
  moreover have "a = st\<lparr>ev_signals := (ev_signals st)(cs_name s \<mapsto> p)\<rparr>" "b = st'\<lparr>ev_signals := (ev_signals st')(cs_name s \<mapsto> q)\<rparr>"
    using a b True p by (auto simp: evaluate_output_def is_signal_def)
  ultimately show ?thesis using twin by (simp add: twin_outputs_def)
next
  case False
  show ?thesis
  proof (cases "cs_visible s")
    case True
    hence "cs_kind s \<noteq> BooleanKind" using typed False unfolding statement_typed_def by (metis (full_types))
    hence series: "number_series v rows = Inr (map (num_cell v) [0..<rows])" "number_series w rows' = Inr (map (num_cell w) [0..<rows'])"
      using v by (simp_all add: number_series_cells has_kind_def)
    have t: "twins rows rows' (good (cs_name s)) (map (num_cell v) [0..<rows]) (map (num_cell w) [0..<rows'])"
      using m Q same_at_cells(1) by (auto simp: twins_def matches_def)
    have "ev_numeric a = ev_numeric st @ [\<lparr>no_name = cs_name s, no_values = map (num_cell v) [0..<rows], no_warmup = warmup (map (num_cell v) [0..<rows])\<rparr>]"
      "ev_numeric b = ev_numeric st' @ [\<lparr>no_name = cs_name s, no_values = map (num_cell w) [0..<rows'], no_warmup = warmup (map (num_cell w) [0..<rows'])\<rparr>]"
      "ev_signals a = ev_signals st" "ev_signals b = ev_signals st'"
      using a b True False series by (auto simp: evaluate_output_def is_signal_def)
    thus ?thesis using twin t by (simp add: twin_outputs_def list_all2_appendI)
  next
    case hidden: False
    have "a = st" "b = st'" using a b hidden False by (auto simp: evaluate_output_def is_signal_def)
    thus ?thesis using twin by simp
  qed
qed

lemma evaluate_output_declared:
  "evaluate_output rows s v st = Inr a \<Longrightarrow> ev_declared a = ev_declared st"
  by (auto simp: evaluate_output_def res_simps split: if_splits runtime_value.splits)

lemma statement_local:
  assumes typed: "statement_typed bs env s" and rel: "related bs env R D ctx ctx' (ev_declared st) (ev_declared st')"
    and twin: "twin_outputs (ec_rows ctx) (ec_rows ctx') good st st'"
    and Q: "\<forall>i j. good (cs_name s) i j \<longrightarrow> sees bs R D (cs_expression s) i j"
    and evaluating: "evaluating (ec_rows ctx) env st" "evaluating (ec_rows ctx') env st'"
    and run: "evaluate_statement ctx st s = Inr a"
  shows "\<exists>b. evaluate_statement ctx' st' s = Inr b \<and> twin_outputs (ec_rows ctx) (ec_rows ctx') good a b
    \<and> related bs (env(cs_name s \<mapsto> cs_kind s)) R (declare_sees bs R D s) ctx ctx' (ev_declared a) (ev_declared b)
    \<and> evaluating (ec_rows ctx) (env(cs_name s \<mapsto> cs_kind s)) a \<and> evaluating (ec_rows ctx') (env(cs_name s \<mapsto> cs_kind s)) b"
proof -
  have c: "well_typed bs env (cs_expression s)" "cs_kind s = compiled_kind (cs_expression s)"
    using typed by (simp_all add: statement_typed_def)
  have wf: "context_wf ctx" "ec_parameters ctx = bs" "declared_wf (ec_rows ctx) env (ev_declared st)"
    "context_wf ctx'" "ec_parameters ctx' = bs" "declared_wf (ec_rows ctx') env (ev_declared st')" using rel by (simp_all add: related_def)
  let ?st = "\<lambda>st v found. st\<lparr>ev_declared := (ev_declared st)(cs_name s \<mapsto> v),
             ev_issues := ev_issues st @ map (\<lambda>i. (i, if cs_visible s then Some (cs_name s) else None)) found\<rparr>"
  obtain v found where v: "evaluate_expression ctx (ev_declared st) (cs_expression s) = Inr (v, found)"
    "evaluate_output (ec_rows ctx) s v (?st st v found) = Inr a" using run by (auto simp: evaluate_statement_def res_simps)
  obtain w found' where w: "evaluate_expression ctx' (ev_declared st') (cs_expression s) = Inr (w, found')"
    and m: "matches (ec_rows ctx) (ec_rows ctx') (sees bs R D (cs_expression s)) v w"
    using evaluate_local(1) [OF c(1) rel v(1)] by blast
  have kinds: "has_kind (ec_rows ctx) (cs_kind s) v" "has_kind (ec_rows ctx') (cs_kind s) w"
    using evaluated_kind [OF c(1) wf(1-3) v(1)] evaluated_kind [OF c(1) wf(4-6) w] c(2) by simp_all
  have lens: "\<forall>out \<in> set (ev_numeric (?st st' w found')). length (no_values out) = ec_rows ctx'"
    "\<forall>b \<in> ran (ev_signals (?st st' w found')). length b = ec_rows ctx'" using evaluating(2) by (simp_all add: evaluating_def)
  obtain b where b: "evaluate_output (ec_rows ctx') s w (?st st' w found') = Inr b"
    by (rule evaluate_output_typed [OF kinds(2) typed lens])
  have run': "evaluate_statement ctx' st' s = Inr b" using w b by (simp add: evaluate_statement_def)
  have "twin_outputs (ec_rows ctx) (ec_rows ctx') good (?st st v found) (?st st' w found')"
    using twin by (simp add: twin_outputs_def)
  hence "twin_outputs (ec_rows ctx) (ec_rows ctx') good a b" by (rule output_twins [where good = good, OF kinds m Q typed _ v(2) b])
  moreover have "related bs (env(cs_name s \<mapsto> cs_kind s)) R (declare_sees bs R D s) ctx ctx' (ev_declared a) (ev_declared b)"
    using related_declare [OF rel m kinds] evaluate_output_declared [OF v(2)] evaluate_output_declared [OF b] by simp_all
  moreover have "evaluating (ec_rows ctx) (env(cs_name s \<mapsto> cs_kind s)) a"
    using evaluate_statement_sound [OF evaluating(1) _ wf(1), of s] typed wf(2) run by auto
  moreover have "evaluating (ec_rows ctx') (env(cs_name s \<mapsto> cs_kind s)) b"
    using evaluate_statement_sound [OF evaluating(2) _ wf(4), of s] typed wf(5) run' by auto
  ultimately show ?thesis using run' by (intro exI [of _ b] conjI)
qed

lemma statements_local:
  "statements_typed bs env ss \<Longrightarrow> related bs env R D ctx ctx' (ev_declared st) (ev_declared st') \<Longrightarrow>
   twin_outputs (ec_rows ctx) (ec_rows ctx') good st st' \<Longrightarrow> all_see bs R good D ss \<Longrightarrow>
   evaluating (ec_rows ctx) env st \<Longrightarrow> evaluating (ec_rows ctx') env st' \<Longrightarrow> run_res (evaluate_statement ctx) st ss = Inr a \<Longrightarrow>
   \<exists>b. run_res (evaluate_statement ctx') st' ss = Inr b \<and> twin_outputs (ec_rows ctx) (ec_rows ctx') good a b"
proof (induction ss arbitrary: env D st st')
  case (Cons s ss)
  have typed: "statement_typed bs env s" "statements_typed bs (env(cs_name s \<mapsto> cs_kind s)) ss"
    using Cons.prems(1) by (simp_all only: statements_typed.simps)
  have see: "\<forall>i j. good (cs_name s) i j \<longrightarrow> sees bs R D (cs_expression s) i j" "all_see bs R good (declare_sees bs R D s) ss"
    using Cons.prems(4) unfolding all_see.simps by blast+
  obtain u where u: "evaluate_statement ctx st s = Inr u" "run_res (evaluate_statement ctx) u ss = Inr a"
    using Cons.prems(7) by (auto simp: res_simps)
  obtain u' where u': "evaluate_statement ctx' st' s = Inr u'" "twin_outputs (ec_rows ctx) (ec_rows ctx') good u u'"
    "related bs (env(cs_name s \<mapsto> cs_kind s)) R (declare_sees bs R D s) ctx ctx' (ev_declared u) (ev_declared u')"
    "evaluating (ec_rows ctx) (env(cs_name s \<mapsto> cs_kind s)) u" "evaluating (ec_rows ctx') (env(cs_name s \<mapsto> cs_kind s)) u'"
    using statement_local [OF typed(1) Cons.prems(2,3) see(1) Cons.prems(5,6) u(1)] by blast
  show ?case using Cons.IH [OF typed(2) u'(3,2) see(2) u'(4,5) u(2)] u'(1) by simp
qed auto

definition result_twins :: "nat \<Rightarrow> nat \<Rightarrow> (string \<Rightarrow> nat \<Rightarrow> nat \<Rightarrow> bool) \<Rightarrow> signal_result \<Rightarrow> signal_result \<Rightarrow> bool" where
  "result_twins rows rows' good r r' \<longleftrightarrow>
     list_all2 (\<lambda>a b. no_name a = no_name b \<and> twins rows rows' (good (no_name a)) (no_values a) (no_values b)) (sr_numeric r) (sr_numeric r')
     \<and> list_all2 (\<lambda>a b. bs_name a = bs_name b \<and> twins rows rows' (good (bs_name a)) (bs_values a) (bs_values b)) (sr_signals r) (sr_signals r')"

lemma evaluation_result_twins:
  assumes "twin_outputs rows rows' good st st'"
  shows "result_twins rows rows' good (evaluation_result rows st) (evaluation_result rows' st')"
proof -
  have "twins rows rows' (good name) (bs_values (signal_output rows (ev_signals st) name)) (bs_values (signal_output rows' (ev_signals st') name))" for name
  proof -
    have "rel_option (twins rows rows' (good name)) (ev_signals st name) (ev_signals st' name)" using assms by (simp add: twin_outputs_def)
    thus ?thesis by (cases rule: option.rel_cases) (simp_all add: signal_output_def Let_def twins_def)
  qed
  thus ?thesis using assms by (simp add: result_twins_def evaluation_result_def twin_outputs_def) (simp add: signal_output_def Let_def)
qed

definition fields_same :: "(nat \<Rightarrow> nat \<Rightarrow> bool) \<Rightarrow> eval_context \<Rightarrow> eval_context \<Rightarrow> bool" where
  "fields_same R ctx ctx' \<longleftrightarrow>
     (\<forall>name \<in> set (field_names v1_registry). \<forall>s s'. map_of (ec_fields ctx) name = Some s \<longrightarrow> map_of (ec_fields ctx') name = Some s' \<longrightarrow>
        (\<forall>i < ec_rows ctx. \<forall>j < ec_rows ctx'. R i j \<longrightarrow> s ! i = s' ! j))"

lemma program_local:
  assumes compile: "compile_program v1_registry bs program source_checksum = Inr cf"
    and parsed: "\<forall>s \<in> set (pg_statements program). parsed_operators (sm_expression s)"
    and ctx: "make_context v1_registry z provenance columns bs = Inr ctx"
    and ctx': "make_context v1_registry z' provenance' columns' bs = Inr ctx'"
    and same: "fields_same R ctx ctx'" and see: "all_see bs R good (\<lambda>_ _ _. True) (cf_statements cf)"
    and run: "evaluate_compiled value_text cf ctx checksum = Inr r"
    and guard: "evaluation_guard value_text cf ctx' checksum = Inr ()"
  shows "\<exists>r'. evaluate_compiled value_text cf ctx' checksum = Inr r' \<and> result_twins (ec_rows ctx) (ec_rows ctx') good r r'"
proof -
  note wf = make_context_wf(1,2) [OF ctx] and wf' = make_context_wf(1,2) [OF ctx']
  obtain st where st: "run_res (evaluate_statement ctx) evaluation_start (cf_statements cf) = Inr st"
    "r = evaluation_result (ec_rows ctx) st"
    using run by (auto simp: evaluate_compiled_def evaluate_statements_def then_res_def res_simps)
  have rel: "related bs Map.empty R (\<lambda>_ _ _. True) ctx ctx' (ev_declared evaluation_start) (ev_declared evaluation_start)"
    using wf wf' same unfolding related_def fields_same_def by (simp add: declared_wf_def)
  have twin: "twin_outputs (ec_rows ctx) (ec_rows ctx') good evaluation_start evaluation_start"
    by (simp add: twin_outputs_def evaluation_start_def)
  obtain st' where "run_res (evaluate_statement ctx') evaluation_start (cf_statements cf) = Inr st'"
    "twin_outputs (ec_rows ctx) (ec_rows ctx') good st st'"
    using statements_local [OF compile_program_Inr(1) [OF compile parsed] rel twin see evaluating_start evaluating_start st(1)] by blast
  thus ?thesis
    using guard evaluation_result_twins st(2) by (auto simp: evaluate_compiled_def evaluate_statements_def then_res_def)
qed

section \<open>No output looks ahead\<close>

definition same_history :: "nat \<Rightarrow> eval_context \<Rightarrow> eval_context \<Rightarrow> bool" where
  "same_history k ctx ctx' \<longleftrightarrow>
     k \<le> ec_rows ctx \<and> k \<le> ec_rows ctx'
     \<and> list_all (\<lambda>name. map_option (take k) (map_of (ec_fields ctx) name) = map_option (take k) (map_of (ec_fields ctx') name))
         (field_names v1_registry)"

definition same_outputs :: "nat \<Rightarrow> signal_result \<Rightarrow> signal_result \<Rightarrow> bool" where
  "same_outputs k r r' \<longleftrightarrow>
     list_all2 (\<lambda>a b. no_name a = no_name b \<and> take k (no_values a) = take k (no_values b)) (sr_numeric r) (sr_numeric r')
     \<and> list_all2 (\<lambda>a b. bs_name a = bs_name b \<and> take k (bs_values a) = take k (bs_values b)) (sr_signals r) (sr_signals r')"

lemma sees_past:
  assumes "\<And>name p. p < k \<Longrightarrow> D name p p"
  shows "i < k \<Longrightarrow> sees bs (\<lambda>i j. i = j \<and> i < k) D c i i"
proof (induction c arbitrary: i)
  case (ReferenceExpression name source kind loc)
  thus ?case using assms by (cases source) simp_all
next
  case (CallExpression name key arguments kind loc)
  thus ?case by (auto simp: same_past_def)
qed simp_all

lemma all_see_past:
  "(\<And>name p. p < k \<Longrightarrow> D name p p) \<Longrightarrow> all_see bs (\<lambda>i j. i = j \<and> i < k) (\<lambda>_ i j. i = j \<and> i < k) D ss"
proof (induction ss arbitrary: D)
  case (Cons s ss)
  have now: "sees bs (\<lambda>i j. i = j \<and> i < k) D (cs_expression s) p p" if "p < k" for p
    by (rule sees_past [OF Cons.prems that])
  have "declare_sees bs (\<lambda>i j. i = j \<and> i < k) D s name p p" if "p < k" for name p
    using now [OF that] Cons.prems [OF that] by (simp add: declare_sees_def)
  thus ?case using now Cons.IH [of "declare_sees bs (\<lambda>i j. i = j \<and> i < k) D s"] by auto
qed simp

lemma history_fields:
  assumes "same_history k ctx ctx'"
  shows "fields_same (\<lambda>i j. i = j \<and> i < k) ctx ctx'"
  unfolding fields_same_def
proof (intro ballI allI impI)
  fix name s s' i j
  assume name: "name \<in> set (field_names v1_registry)" and s: "map_of (ec_fields ctx) name = Some s" "map_of (ec_fields ctx') name = Some s'"
    and i: "i = j \<and> i < k"
  have "map_option (take k) (map_of (ec_fields ctx) name) = map_option (take k) (map_of (ec_fields ctx') name)"
    using assms name unfolding same_history_def list_all_iff by blast
  hence "take k s = take k s'" using s by simp
  thus "s ! i = s' ! j" using i by (metis nth_take)
qed

lemma twins_take: "twins rows rows' (\<lambda>i j. i = j \<and> i < k) xs ys \<Longrightarrow> k \<le> rows \<Longrightarrow> k \<le> rows' \<Longrightarrow> take k xs = take k ys"
  by (rule nth_equalityI) (auto simp: twins_def)

text \<open>
  C38. No output looks ahead. Two contexts whose fields agree on the first \<open>k\<close> rows, however many rows follow and
  whatever they hold, give a formula the same outputs and signals in those rows: bars that arrive later never
  change, nor remove, a value that was already shown.
\<close>

theorem no_look_ahead:
  assumes "compile_program v1_registry bs program source_checksum = Inr cf"
    and "\<forall>s \<in> set (pg_statements program). parsed_operators (sm_expression s)"
    and "make_context v1_registry z provenance columns bs = Inr ctx"
    and "make_context v1_registry z' provenance' columns' bs = Inr ctx'"
    and "same_history k ctx ctx'"
    and "evaluate_compiled value_text cf ctx checksum = Inr r"
    and "evaluation_guard value_text cf ctx' checksum = Inr ()"
  shows "\<exists>r'. evaluate_compiled value_text cf ctx' checksum = Inr r' \<and> same_outputs k r r'"
proof -
  let ?R = "\<lambda>i j. i = j \<and> i < k"
  have "all_see bs ?R (\<lambda>_. ?R) (\<lambda>_ _ _. True) (cf_statements cf)" by (rule all_see_past) simp
  then obtain r' where r': "evaluate_compiled value_text cf ctx' checksum = Inr r'" "result_twins (ec_rows ctx) (ec_rows ctx') (\<lambda>_. ?R) r r'"
    using program_local [OF assms(1-4) history_fields [OF assms(5)] _ assms(6,7)] by blast
  have "k \<le> ec_rows ctx" "k \<le> ec_rows ctx'" using assms(5) by (simp_all add: same_history_def)
  note taken = twins_take [OF _ this]
  have "same_outputs k r r'"
    using r'(2) unfolding same_outputs_def result_twins_def by (auto elim!: list_all2_mono intro: taken)
  thus ?thesis using r'(1) by blast
qed

text \<open>The first of the two days.\<close>

definition demo_columns_before :: "(string \<times> rat option list) list" where
  "demo_columns_before = map (\<lambda>f. (fd_name f, if fd_canonical f = ''CLOSE'' then [Some 10] else [None])) registry_fields"

definition demo_provenance_before :: context_provenance where
  "demo_provenance_before = demo_provenance\<lparr>cp_timestamps := [Aware 0]\<rparr>"

definition demo_before :: eval_context where
  "demo_before = \<lparr>ec_rows = 1, ec_fields = demo_columns_before, ec_parameters = []\<rparr>"

lemma demo_before_made: "make_context v1_registry (\<lambda>_. 0) demo_provenance_before demo_columns_before [] = Inr demo_before"
proof -
  have "rg_fields v1_registry = registry_fields" by (simp add: v1_registry_def)
  moreover have "\<not> list_ex (\<lambda>(_, s). length s \<noteq> 1) demo_columns_before" by (simp add: demo_columns_before_def list_ex_iff)
  moreover have "length (cp_timestamps demo_provenance_before) = 1" by (simp add: demo_provenance_before_def)
  moreover have "check_provenance (\<lambda>_. 0) demo_provenance_before = Inr ()"
    by (simp add: check_provenance_def demo_provenance_before_def demo_provenance_def demo_bucket_starts symbol_pattern_def
       digest_pattern_def demo_digest_def decimal_digit_def list_all_iff max_bar_series_rows_def)
  moreover have "set (map fst demo_columns_before) = set (field_names v1_registry)"
    by (simp add: demo_columns_before_def field_names_v1 comp_def)
  moreover have "\<not> list_ex (\<lambda>f. \<not> field_matches_spec demo_columns_before f) registry_fields"
    by (simp add: registry_fields_def demo_columns_before_def make_field_def field_matches_spec_def scaled_value_def demo_scale demo_scaled)
  ultimately show ?thesis by (simp add: make_context_def then_res_def max_parameters_def demo_before_def)
qed

lemma demo_guard_before: "evaluation_guard (\<lambda>_. []) demo_formula demo_before ''sha256:0'' = Inr ()"
proof -
  have "cf_bindings demo_formula = []" by (simp add: demo_formula_def)
  hence "validate_execution_budget (\<lambda>_. []) v1_registry demo_formula 1 = []"
    by (simp add: validate_execution_budget_def demo_inspected max_bar_series_rows_def max_output_cells_def max_work_cells_def
       estimate_response_bytes_def max_signal_series_bytes_def)
  moreover have "cf_checksum demo_formula = ''sha256:0''" "cf_compatibility_version demo_formula = compatibility_version"
      "cf_engine_version demo_formula = engine_version" "ec_parameters demo_before = cf_bindings demo_formula" "ec_rows demo_before = 1"
      "length (cf_numeric_outputs demo_formula) = 1"
    by (simp_all add: demo_formula_def demo_before_def)
  ultimately show ?thesis using demo_analyzed by (simp add: evaluation_guard_def max_output_cells_def)
qed

lemma demo_history: "same_history 1 demo_context demo_before"
  by (simp add: same_history_def demo_context_def demo_before_def field_names_list demo_columns_def demo_columns_before_def
     registry_fields_def make_field_def)

theorem no_look_ahead_witness:
  "\<exists>r r'. evaluate_compiled (\<lambda>_. []) demo_formula demo_context ''sha256:0'' = Inr r
     \<and> evaluate_compiled (\<lambda>_. []) demo_formula demo_before ''sha256:0'' = Inr r' \<and> same_outputs 1 r r'"
proof -
  obtain r where r: "evaluate_compiled (\<lambda>_. []) demo_formula demo_context ''sha256:0'' = Inr r" using demo_evaluates by blast
  show ?thesis
    using no_look_ahead [OF demo_compiles demo_parsed demo_context_made demo_before_made demo_history r demo_guard_before] r by blast
qed

end
