(* ===== verification/Formula_Lookback.thy ===== *)
theory Formula_Lookback
  imports Formula_Locality
begin

text \<open>
  How far back a formula looks (\<open>formula/analysis.py\<close>, \<open>formula/service.py\<close>): the dependencies the analysis computes
  are related to the rows an evaluation sees, so the lookback that a backtest takes from them is enough for
  tracked formulas; a formula whose \<open>REF\<close> takes a declared offset is not tracked, and escapes it.
\<close>

section \<open>The lookback of the analysis\<close>

text \<open>The analysis reads the same scalars as the compiler.\<close>

lemma scalar_value_constraint: "scalar_value_of e (bound_scalars bs) = map_option scalar_number (constraint_value e bs)"
proof (induction e)
  case (UnaryExpression operator operand kind loc)
  have "scalar_number (signed_scalar operator s) = (if operator = ''+'' then scalar_number s else - scalar_number s)" for s
    by (cases s) (simp_all add: signed_scalar_def)
  thus ?case using UnaryExpression by (cases "constraint_value operand bs") simp_all
qed (simp_all add: bound_scalars_def)

lemma constraint_kind: "well_typed bs env e \<Longrightarrow> constraint_value e bs = Some s \<Longrightarrow> scalar_kind s = compiled_kind e"
proof (induction e arbitrary: s)
  case (UnaryExpression operator operand kind loc)
  thus ?case by (auto split: if_splits)
qed (auto split: if_splits)

lemma constraint_integer:
  assumes "well_typed bs env e" "compiled_kind e = IntegerKind" "constraint_value e bs = Some s"
  obtains n where "s = IntegerScalar n"
  using constraint_kind [OF assms(1,3)] assms(2) by (cases s) auto

lemma constraint_sees: "constraint_value e bs = Some s \<Longrightarrow> sees bs R D e i j"
  by (induction e arbitrary: s) (auto split: if_splits)

lemma truncated_of_int [simp]: "truncated (of_int n) = n"
  by (simp add: truncated_def)

text \<open>Rows \<open>lo\<close> to \<open>hi\<close> back from \<open>i\<close> and \<open>j\<close>.\<close>

definition span_rows :: "(nat \<Rightarrow> nat \<Rightarrow> bool) \<Rightarrow> int \<Rightarrow> int \<Rightarrow> nat \<Rightarrow> nat \<Rightarrow> bool" where
  "span_rows R lo hi i j \<longleftrightarrow> (\<forall>p. lo \<le> int p \<and> int p \<le> hi \<longrightarrow> p \<le> i \<and> p \<le> j \<and> R (i - p) (j - p))"

definition whole :: "(nat \<Rightarrow> nat \<Rightarrow> bool) \<Rightarrow> nat \<Rightarrow> nat \<Rightarrow> bool" where
  "whole R i j \<longleftrightarrow> i = j \<and> (\<forall>p \<le> i. R p p)"

definition covers :: "(nat \<Rightarrow> nat \<Rightarrow> bool) \<Rightarrow> temporal_dependency \<Rightarrow> nat \<Rightarrow> nat \<Rightarrow> bool" where
  "covers R d i j \<longleftrightarrow> (td_data d \<longrightarrow> whole R i j \<or> (\<exists>m. td_min d = Some m \<and> span_rows R (- td_max d) (- m) i j))"

definition past_only :: "temporal_dependency \<Rightarrow> bool" where
  "past_only d \<longleftrightarrow> (td_data d \<longrightarrow> td_max d \<le> 0 \<and> (\<forall>m. td_min d = Some m \<longrightarrow> m \<le> td_max d))"

lemma whole_past: "whole R i j \<Longrightarrow> (\<And>p. whole R p p \<Longrightarrow> P p p) \<Longrightarrow> same_past reach P i j"
  by (auto simp: whole_def same_past_def)

lemma whole_covers: "whole R i j \<Longrightarrow> covers R d i j"
  by (simp add: covers_def)

lemma span_back:
  assumes "span_rows R lo hi i j" "0 \<le> a" "a \<le> b" "lo \<le> a + int k" "b + int k \<le> hi"
  shows "k \<le> i \<and> k \<le> j \<and> span_rows R a b (i - k) (j - k)"
proof -
  have far: "p + k \<le> i \<and> p + k \<le> j \<and> R (i - (p + k)) (j - (p + k))" if "a \<le> int p" "int p \<le> b" for p
  proof -
    have "lo \<le> int (p + k) \<and> int (p + k) \<le> hi" using assms(4,5) that by simp
    thus ?thesis using assms(1) unfolding span_rows_def by blast
  qed
  have "k \<le> i \<and> k \<le> j" using far [of "nat b"] assms(2,3) by simp
  moreover have "p \<le> i - k \<and> p \<le> j - k \<and> R (i - k - p) (j - k - p)" if "a \<le> int p" "int p \<le> b" for p
    using far [OF that] by (simp add: add.commute le_diff_conv2)
  ultimately show ?thesis by (simp add: span_rows_def)
qed

lemma span_past:
  assumes "span_rows R lo hi i j" "past_only d" "td_data d" "td_min d = Some m"
    and "\<And>k. k \<in> K \<Longrightarrow> lo \<le> int k - td_max d \<and> int k - m \<le> hi"
    and P: "\<And>p q. covers R d p q \<Longrightarrow> P p q"
  shows "same_past (Some K) P i j"
proof -
  have "k \<le> i \<and> k \<le> j \<and> P (i - k) (j - k)" if "k \<in> K" for k
  proof -
    have d: "0 \<le> - td_max d" "- td_max d \<le> - m" using assms(2-4) by (simp_all add: past_only_def)
    have "k \<le> i \<and> k \<le> j \<and> span_rows R (- td_max d) (- m) (i - k) (j - k)"
      by (rule span_back [OF assms(1) d]) (use assms(5) [OF that] in simp_all)
    thus ?thesis using P assms(4) by (simp add: covers_def)
  qed
  thus ?thesis by (simp add: same_past_def)
qed

lemma combine_past_only: "(\<And>d. d \<in> set ds \<Longrightarrow> past_only d) \<Longrightarrow> past_only (combine ds)"
proof -
  assume ds: "\<And>d. d \<in> set ds \<Longrightarrow> past_only d"
  let ?data = "filter td_data ds"
  show ?thesis
  proof (cases "?data = []")
    case True
    thus ?thesis unfolding combine_def Let_def by (simp add: past_only_def configuration_def)
  next
    case False
    then obtain d where d: "d \<in> set ds" "td_data d" by (auto simp: filter_empty_conv)
    have max: "\<forall>d \<in> set ?data. td_max d \<le> 0" using ds by (auto simp: past_only_def)
    have "Max (set (map td_max ?data)) \<le> 0" using max d by (subst Max_le_iff) auto
    moreover have "Min (set (map (the \<circ> td_min) ?data)) \<le> Max (set (map td_max ?data))"
      if known: "\<not> list_ex (\<lambda>d. td_min d = None) ?data"
    proof -
      obtain m where m: "td_min d = Some m" using known d by (auto simp: list_ex_iff)
      have "Min (set (map (the \<circ> td_min) ?data)) \<le> (the \<circ> td_min) d" by (rule Min_le) (use d in auto)
      also have "\<dots> \<le> td_max d" using ds [OF d(1)] d(2) m by (simp add: past_only_def)
      also have "\<dots> \<le> Max (set (map td_max ?data))" by (rule Max_ge) (use d in auto)
      finally show ?thesis .
    qed
    ultimately show ?thesis using False unfolding combine_def Let_def past_only_def by simp
  qed
qed

lemma covers_combine:
  assumes "covers R (combine ds) i j" "d \<in> set ds" "past_only d"
  shows "covers R d i j"
proof (cases "td_data d \<and> \<not> whole R i j")
  case False
  thus ?thesis by (auto simp: covers_def)
next
  case True
  let ?data = "filter td_data ds"
  have mem: "d \<in> set ?data" using assms(2) True by simp
  hence nonempty: "?data \<noteq> []" by (metis empty_iff empty_set)
  hence c: "combine ds = \<lparr>td_min = (if list_ex (\<lambda>d. td_min d = None) ?data then None else Some (Min (set (map (the \<circ> td_min) ?data)))),
            td_max = Max (set (map td_max ?data)), td_data = True\<rparr>" unfolding combine_def Let_def by simp
  have some: "\<not> list_ex (\<lambda>d. td_min d = None) ?data"
    and span: "span_rows R (- Max (set (map td_max ?data))) (- Min (set (map (the \<circ> td_min) ?data))) i j"
    using assms(1) True unfolding covers_def c by (auto split: if_splits)
  obtain m where m: "td_min d = Some m" using some mem by (auto simp: list_ex_iff)
  have "Min (set (map (the \<circ> td_min) ?data)) \<le> m" using m mem by (intro Min_le) force+
  moreover have "td_max d \<le> Max (set (map td_max ?data))" using mem by (intro Max_ge) auto
  ultimately have "span_rows R (- td_max d) (- m) i j" using span unfolding span_rows_def by force
  thus ?thesis using m by (simp add: covers_def)
qed

lemma combine_data: "td_data (combine ds) \<longleftrightarrow> (\<exists>d \<in> set ds. td_data d)"
  unfolding combine_def Let_def by (auto simp: configuration_def filter_empty_conv)

text \<open>The functions by their temporal rule, with the arguments the rule reads.\<close>

inductive call_form :: "bindings \<Rightarrow> string \<Rightarrow> compiled list \<Rightarrow> bool" for bs :: bindings where
  current: "map_of temporal_rules key = Some CurrentRule \<Longrightarrow> static_reach bs key arguments = Some {0} \<Longrightarrow> call_form bs key arguments"
| ref: "key = ''series.ref'' \<Longrightarrow> compiled_kind b = IntegerKind \<Longrightarrow>
    \<forall>n. constraint_value b bs = Some (IntegerScalar n) \<longrightarrow> 0 \<le> n \<Longrightarrow> call_form bs key [a, b]"
| bounded: "map_of temporal_rules key = Some BoundedWindow \<Longrightarrow> key \<in> {''series.ma'', ''statistics.std''} \<Longrightarrow> compiled_kind b = IntegerKind \<Longrightarrow>
    \<forall>n. constraint_value b bs = Some (IntegerScalar n) \<longrightarrow> 1 \<le> n \<Longrightarrow> call_form bs key [a, b]"
| zero: "map_of temporal_rules key = Some ZeroUnboundedWindow \<Longrightarrow> key \<in> {''series.hhv'', ''series.llv'', ''series.sum'', ''series.count''} \<Longrightarrow>
    compiled_kind b = IntegerKind \<Longrightarrow> \<forall>n. constraint_value b bs = Some (IntegerScalar n) \<longrightarrow> 0 \<le> n \<Longrightarrow> call_form bs key [a, b]"
| recursive: "map_of temporal_rules key = Some UnboundedRecursive \<Longrightarrow> call_form bs key (a # rest)"
| cross: "key = ''signal.cross'' \<Longrightarrow> call_form bs key [a, b]"
| longcross: "key = ''signal.longcross'' \<Longrightarrow> compiled_kind c = IntegerKind \<Longrightarrow>
    \<forall>n. constraint_value c bs = Some (IntegerScalar n) \<longrightarrow> 1 \<le> n \<Longrightarrow> call_form bs key [a, b, c]"

lemma within_minimum:
  "within_bounds bs p e \<Longrightarrow> pm_minimum p = Some lo \<Longrightarrow> constraint_value e bs = Some (IntegerScalar n) \<Longrightarrow> lo \<le> n"
  by (simp add: within_bounds_def below_minimum_def)

lemma accepts_integer: "accepts_value_kind [IntegerKind] k \<longleftrightarrow> k = IntegerKind"
  by (auto simp: accepts_value_kind_def)

definition argument_fits :: "bindings \<Rightarrow> parameter_spec \<Rightarrow> compiled \<Rightarrow> bool" where
  "argument_fits bs p a \<longleftrightarrow> accepts_value_kind (pm_accepted p) (compiled_kind a) \<and> within_bounds bs p a"

lemma argument_fits_integer:
  assumes "argument_fits bs (param name [IntegerKind] fixed (Some lo)) e"
  shows "compiled_kind e = IntegerKind" "\<forall>n. constraint_value e bs = Some (IntegerScalar n) \<longrightarrow> lo \<le> n"
  using assms within_minimum [of bs _ e lo] by (auto simp: argument_fits_def param_def accepts_integer)

lemma call_forms:
  assumes f: "f \<in> set (rg_functions v1_registry)" and fits: "list_all2 (argument_fits bs) (fn_parameters f) arguments"
  shows "call_form bs (fn_dispatch f) arguments"
proof -
  note int = argument_fits_integer
  have two: "\<exists>a b. arguments = [a, b] \<and> compiled_kind b = IntegerKind \<and> (\<forall>n. constraint_value b bs = Some (IntegerScalar n) \<longrightarrow> lo \<le> n)"
    if "fn_parameters f = [x, param name [IntegerKind] fixed (Some lo)]" for x name fixed lo
    using fits int unfolding that by (auto simp: list_all2_Cons1)
  have three: "\<exists>a b c. arguments = [a, b, c] \<and> compiled_kind c = IntegerKind \<and> (\<forall>n. constraint_value c bs = Some (IntegerScalar n) \<longrightarrow> lo \<le> n)"
    if "fn_parameters f = [x, y, param name [IntegerKind] fixed (Some lo)]" for x y name fixed lo
    using fits int unfolding that by (auto simp: list_all2_Cons1)
  have some: "\<exists>a rest. arguments = a # rest" if "fn_parameters f = x # ps" for x ps
    using fits unfolding that by (auto simp: list_all2_Cons1)
  have pair: "\<exists>a b. arguments = [a, b]" if "fn_parameters f = [x, y]" for x y
    using fits unfolding that by (auto simp: list_all2_Cons1)
  have "f \<in> set series_functions \<or> f \<in> set statistics_functions \<or> f \<in> set signal_functions"
    using f by (auto simp: v1_registry_def)
  thus ?thesis
  proof (elim disjE)
    assume "f \<in> set series_functions"
    then consider "fn_dispatch f = ''series.ref''" "fn_parameters f = [x_param, param ''N'' [IntegerKind] False (Some 0)]"
      | "fn_dispatch f = ''series.ma''" "fn_parameters f = [x_param, param ''N'' [IntegerKind] False (Some 1)]"
      | x ps where "fn_dispatch f \<in> {''series.ema'', ''series.sma''}" "fn_parameters f = x # ps"
      | x where "fn_dispatch f \<in> {''series.hhv'', ''series.llv'', ''series.sum'', ''series.count''}"
          "fn_parameters f = [x, param ''N'' [IntegerKind] False (Some 0)]"
      unfolding series_functions_def make_spec_def window_param_def by auto
    thus ?thesis
    proof cases
      case 1 thus ?thesis using two [OF 1(2)] call_form.ref by auto
    next
      case 2 thus ?thesis using two [OF 2(2)] call_form.bounded by (auto simp: temporal_rules_def)
    next
      case 3 thus ?thesis using some [OF 3(2)] call_form.recursive by (auto simp: temporal_rules_def)
    next
      case 4 thus ?thesis using two [OF 4(2)] call_form.zero by (auto simp: temporal_rules_def)
    qed
  next
    assume "f \<in> set statistics_functions"
    then consider "fn_dispatch f = ''statistics.std''" "fn_parameters f = [x_param, param ''N'' [IntegerKind] False (Some 2)]"
      | "fn_dispatch f \<in> {''math.abs'', ''math.max'', ''math.min'', ''logic.if''}"
      unfolding statistics_functions_def make_spec_def by auto
    thus ?thesis
    proof cases
      case 1
      obtain a b where "arguments = [a, b]" "compiled_kind b = IntegerKind" "\<forall>n. constraint_value b bs = Some (IntegerScalar n) \<longrightarrow> 2 \<le> n"
        using two [OF 1(2)] by blast
      moreover from this have "\<forall>n. constraint_value b bs = Some (IntegerScalar n) \<longrightarrow> 1 \<le> n" by force
      ultimately show ?thesis using 1(1) call_form.bounded by (simp add: temporal_rules_def)
    next
      case 2 thus ?thesis by (intro call_form.current) (auto simp: temporal_rules_def static_reach_def)
    qed
  next
    assume "f \<in> set signal_functions"
    then consider x y where "fn_dispatch f = ''signal.cross''" "fn_parameters f = [x, y]"
      | x y where "fn_dispatch f = ''signal.longcross''" "fn_parameters f = [x, y, param ''N'' [IntegerKind] True (Some 1)]"
      | x ps where "fn_dispatch f \<in> {''signal.barslast'', ''signal.filter''}" "fn_parameters f = x # ps"
      unfolding signal_functions_def make_spec_def by auto
    thus ?thesis
    proof cases
      case 1 thus ?thesis using pair [OF 1(2)] call_form.cross by auto
    next
      case 2 thus ?thesis using three [OF 2(2)] call_form.longcross by auto
    next
      case 3 thus ?thesis using some [OF 3(2)] call_form.recursive by (auto simp: temporal_rules_def)
    qed
  qed
qed

text \<open>No function of tdx-v1 is declared to look ahead, so the dependency of a call is that of its rule.\<close>

lemma call_diagnosis_v1:
  assumes "f \<in> set (rg_functions v1_registry)"
  shows "fst (call_diagnosis f name (fn_dispatch f) loc d diagnostics) = d"
proof -
  have "\<forall>f \<in> set (rg_functions v1_registry). map_of temporal_rules (fn_dispatch f) \<noteq> None \<and> fn_future f \<in> {CurrentOnly, PastOnly}"
    by (simp add: v1_registry_def series_functions_def statistics_functions_def signal_functions_def make_spec_def temporal_rules_def)
  hence "map_of temporal_rules (fn_dispatch f) \<noteq> None" "fn_future f \<in> {CurrentOnly, PastOnly}" using assms by blast+
  thus ?thesis by (auto simp: call_diagnosis_def)
qed

text \<open>What the two ways of moving a dependency into the past cover.\<close>

lemma extend_covers:
  assumes d: "past_only d" "td_data (extend_past d bars)"
    and reach: "\<And>b. bars = Some b \<Longrightarrow> 0 \<le> b \<and> (\<exists>K. reach = Some K \<and> (\<forall>k \<in> K. int k \<le> b))"
    and P: "\<And>b p q. bars = Some b \<Longrightarrow> covers R d p q \<Longrightarrow> P p q" and past: "\<And>p. whole R p p \<Longrightarrow> P p p"
  shows "past_only (extend_past d bars) \<and> (\<forall>i j. covers R (extend_past d bars) i j \<longrightarrow> same_past reach P i j)"
proof -
  have data: "td_data d" using d(2) by (auto simp: extend_past_def split: if_splits)
  have e: "extend_past d bars = \<lparr>td_min = (case (bars, td_min d) of (Some b, Some m) \<Rightarrow> Some (m - b) | _ \<Rightarrow> None),
      td_max = td_max d, td_data = True\<rparr>" using data by (simp add: extend_past_def)
  have "past_only (extend_past d bars)"
    using d(1) data reach unfolding e past_only_def by (force split: option.splits)
  moreover have "same_past reach P i j" if c: "covers R (extend_past d bars) i j" for i j
  proof (cases "whole R i j")
    case True
    thus ?thesis by (rule whole_past) (rule past)
  next
    case False
    then obtain b m where bm: "bars = Some b" "td_min d = Some m" "span_rows R (- td_max d) (b - m) i j"
      using c unfolding covers_def e by (auto split: option.splits)
    obtain K where K: "reach = Some K" "\<forall>k \<in> K. int k \<le> b" using reach [OF bm(1)] by blast
    show ?thesis unfolding K(1)
      by (rule span_past [OF bm(3) d(1) data bm(2)]) (use K(2) P [OF bm(1)] in auto)
  qed
  ultimately show ?thesis by blast
qed

lemma shift_covers:
  assumes d: "past_only d" "td_data (shift_by d (- n))" and n: "0 \<le> n"
    and P: "\<And>p q. covers R d p q \<Longrightarrow> P p q"
  shows "past_only (shift_by d (- n)) \<and> (\<forall>i j. covers R (shift_by d (- n)) i j \<longrightarrow> same_past (Some {nat n}) P i j)"
proof -
  have data: "td_data d" using d(2) by (auto simp: shift_by_def split: if_splits)
  have e: "shift_by d (- n) = \<lparr>td_min = map_option (\<lambda>m. m + (- n)) (td_min d), td_max = td_max d + (- n), td_data = True\<rparr>"
    using data by (simp add: shift_by_def)
  have "past_only (shift_by d (- n))" using d(1) data n unfolding e past_only_def by auto
  moreover have "same_past (Some {nat n}) P i j" if c: "covers R (shift_by d (- n)) i j" for i j
  proof (cases "whole R i j")
    case True
    thus ?thesis by (rule whole_past) (rule P [OF whole_covers])
  next
    case False
    then obtain m where m: "td_min d = Some m" "span_rows R (n - td_max d) (n - m) i j"
      using c unfolding covers_def e by auto
    show ?thesis by (rule span_past [OF m(2) d(1) data m(1)]) (use n P in auto)
  qed
  ultimately show ?thesis by blast
qed

text \<open>
  A call is tracked when its rule knows where it reads: a \<open>REF\<close> has an offset the compiler can see, and every
  function with a past is applied to data (not to a constant series).
\<close>

definition tracked_call :: "bindings \<Rightarrow> string \<Rightarrow> compiled list \<Rightarrow> temporal_dependency list \<Rightarrow> bool" where
  "tracked_call bs key arguments dependencies \<longleftrightarrow>
     (map_of temporal_rules key = Some CurrentRule \<or> td_data (call_dependency key arguments dependencies (bound_scalars bs)))
     \<and> (key = ''series.ref'' \<longrightarrow> constraint_value (arguments ! 1) bs \<noteq> None)"

lemma static_reach_window:
  assumes "key \<in> {''series.ma'', ''statistics.std'', ''series.hhv'', ''series.llv'', ''series.sum'', ''series.count''}"
    and "constraint_value b bs = Some (IntegerScalar n)" "1 \<le> n"
  shows "static_reach bs key [a, b] = Some {..<nat n}"
proof -
  have "key \<notin> {''math.abs'', ''math.max'', ''math.min'', ''logic.if''}" "key \<noteq> ''series.ref''" using assms(1) by auto
  hence "static_reach bs key [a, b] = window_reach (nat n)"
    using assms(1,2) unfolding static_reach_def Let_def by (simp only: if_True if_False) simp
  thus ?thesis using assms(3) by (simp add: window_reach_def)
qed

lemma call_covers:
  assumes form: "call_form bs key arguments" and typed: "list_all (well_typed bs env) arguments"
    and each: "\<And>a. a \<in> set arguments \<Longrightarrow> past_only (g a)" "\<And>a p q. a \<in> set arguments \<Longrightarrow> covers R (g a) p q \<Longrightarrow> sees bs R D a p q"
    and tracked: "tracked_call bs key arguments (map g arguments)"
  shows "past_only (call_dependency key arguments (map g arguments) (bound_scalars bs))
    \<and> (\<forall>i j. covers R (call_dependency key arguments (map g arguments) (bound_scalars bs)) i j \<longrightarrow>
         same_past (static_reach bs key arguments) (\<lambda>i j. \<forall>a \<in> set arguments. sees bs R D a i j) i j)"
proof -
  have past: "\<forall>a \<in> set arguments. sees bs R D a p p" if "whole R p p" for p
    using each(2) whole_covers [OF that] by blast
  have data: "td_data (call_dependency key arguments (map g arguments) (bound_scalars bs))"
    if "map_of temporal_rules key \<noteq> Some CurrentRule" using tracked that by (simp add: tracked_call_def)
  have integer: "\<exists>n. constraint_value b bs = Some (IntegerScalar n) \<and> v = of_int n"
    if v: "scalar_value_of b (bound_scalars bs) = Some v" "b \<in> set arguments" "compiled_kind b = IntegerKind" for b v
  proof -
    obtain s where s: "constraint_value b bs = Some s" "v = scalar_number s" using v(1) by (auto simp: scalar_value_constraint)
    have "well_typed bs env b" using typed v(2) by (simp add: list_all_iff)
    then obtain n where "s = IntegerScalar n" by (rule constraint_integer [OF _ v(3) s(1)])
    thus ?thesis using s by simp
  qed
  show ?thesis
    using form
  proof (cases rule: call_form.cases)
    case current
    have dep: "call_dependency key arguments (map g arguments) (bound_scalars bs) = combine (map g arguments)"
      by (simp add: call_dependency_def current(1))
    have "past_only (combine (map g arguments))" using each(1) by (intro combine_past_only) auto
    moreover have "same_past (Some {0}) (\<lambda>i j. \<forall>a \<in> set arguments. sees bs R D a i j) i j"
      if "covers R (combine (map g arguments)) i j" for i j
    proof -
      have "sees bs R D a i j" if a: "a \<in> set arguments" for a
        using covers_combine [OF \<open>covers R (combine (map g arguments)) i j\<close>, of "g a"] each [OF a] a by simp
      thus ?thesis by (simp add: same_past_def)
    qed
    ultimately show ?thesis unfolding dep current(2) by blast
  next
    case (ref b a)
    have rule: "map_of temporal_rules ''series.ref'' = Some RefRule" by (simp add: temporal_rules_def)
    obtain s where s: "constraint_value b bs = Some s" using tracked ref by (auto simp: tracked_call_def)
    have "well_typed bs env b" using typed ref(1) by simp
    then obtain n where n: "s = IntegerScalar n" by (rule constraint_integer [OF _ ref(3) s])
    have dep: "call_dependency key arguments (map g arguments) (bound_scalars bs) = shift_by (g a) (- n)"
      using s n by (simp add: call_dependency_def ref rule scalar_value_constraint)
    have reach: "static_reach bs key arguments = Some {nat n}" using s n by (simp add: static_reach_def ref)
    show ?thesis
      unfolding reach dep
    proof (rule shift_covers)
      show "past_only (g a)" using each(1) ref(1) by simp
      show "td_data (shift_by (g a) (- n))" using data ref(2) rule dep by simp
      show "0 \<le> n" using ref(4) s n by simp
      show "\<forall>c \<in> set arguments. sees bs R D c p q" if "covers R (g a) p q" for p q
        using each(2) [OF _ that] ref(1) constraint_sees [OF s] by simp
    qed
  next
    case (bounded b a)
    let ?bars = "map_option (\<lambda>n. truncated n - 1) (scalar_value_of b (bound_scalars bs))"
    have dep: "call_dependency key arguments (map g arguments) (bound_scalars bs) = extend_past (g a) ?bars"
      by (simp add: call_dependency_def bounded(1,2))
    show ?thesis
      unfolding dep
    proof (rule extend_covers)
      show "past_only (g a)" using each(1) bounded(1) by simp
      show "td_data (extend_past (g a) ?bars)" using data dep bounded(2) by simp
      show "\<forall>c \<in> set arguments. sees bs R D c p p" if "whole R p p" for p by (rule past [OF that])
    next
      fix x assume "?bars = Some x"
      then obtain n where n: "constraint_value b bs = Some (IntegerScalar n)" "x = n - 1"
        using integer [of b] bounded(1,4) by (auto simp del: well_typed.simps)
      have one: "1 \<le> n" using bounded(5) n(1) by blast
      show "0 \<le> x \<and> (\<exists>K. static_reach bs key arguments = Some K \<and> (\<forall>k \<in> K. int k \<le> x))"
        using n(2) one static_reach_window [OF _ n(1) one, of key a] bounded(1,3) by (intro conjI exI [of _ "{..<nat n}"]) auto
      show "\<forall>c \<in> set arguments. sees bs R D c p q" if "covers R (g a) p q" for p q
        using each(2) [OF _ that] bounded(1) constraint_sees [OF n(1)] by simp
    qed
  next
    case (zero b a)
    let ?bars = "(case scalar_value_of b (bound_scalars bs) of Some n \<Rightarrow> if truncated n = 0 then None else Some (truncated n - 1) | None \<Rightarrow> None)"
    have dep: "call_dependency key arguments (map g arguments) (bound_scalars bs) = extend_past (g a) ?bars"
      by (simp add: call_dependency_def zero(1,2))
    show ?thesis
      unfolding dep
    proof (rule extend_covers)
      show "past_only (g a)" using each(1) zero(1) by simp
      show "td_data (extend_past (g a) ?bars)" using data dep zero(2) by simp
      show "\<forall>c \<in> set arguments. sees bs R D c p p" if "whole R p p" for p by (rule past [OF that])
    next
      fix x assume "?bars = Some x"
      then obtain n where n: "constraint_value b bs = Some (IntegerScalar n)" "x = n - 1" "n \<noteq> 0"
        using integer [of b] zero(1,4) by (auto split: option.splits if_splits)
      have one: "1 \<le> n" using zero(5) n(1,3) by force
      show "0 \<le> x \<and> (\<exists>K. static_reach bs key arguments = Some K \<and> (\<forall>k \<in> K. int k \<le> x))"
        using n(2) one static_reach_window [OF _ n(1) one, of key a] zero(1,3) by (intro conjI exI [of _ "{..<nat n}"]) auto
      show "\<forall>c \<in> set arguments. sees bs R D c p q" if "covers R (g a) p q" for p q
        using each(2) [OF _ that] zero(1) constraint_sees [OF n(1)] by simp
    qed
  next
    case (recursive a rest)
    have dep: "call_dependency key arguments (map g arguments) (bound_scalars bs) = extend_past (g a) None"
      by (simp add: call_dependency_def recursive)
    show ?thesis
      unfolding dep
    proof (rule extend_covers)
      show "past_only (g a)" using each(1) recursive(1) by simp
      show "td_data (extend_past (g a) None)" using data dep recursive(2) by simp
      show "\<forall>c \<in> set arguments. sees bs R D c p p" if "whole R p p" for p by (rule past [OF that])
    qed simp_all
  next
    case (cross a b)
    have rule: "map_of temporal_rules ''signal.cross'' = Some CrossRule" by (simp add: temporal_rules_def)
    have dep: "call_dependency key arguments (map g arguments) (bound_scalars bs) = extend_past (combine (map g arguments)) (Some 1)"
      by (simp add: call_dependency_def cross rule)
    show ?thesis
      unfolding dep
    proof (rule extend_covers)
      show "past_only (combine (map g arguments))" using each(1) by (intro combine_past_only) auto
      show "td_data (extend_past (combine (map g arguments)) (Some 1))" using data dep rule cross(2) by simp
      show "\<forall>c \<in> set arguments. sees bs R D c p p" if "whole R p p" for p by (rule past [OF that])
    next
      fix x :: int assume x: "Some 1 = Some x"
      show "0 \<le> x \<and> (\<exists>K. static_reach bs key arguments = Some K \<and> (\<forall>k \<in> K. int k \<le> x))"
        using x by (simp add: static_reach_def cross)
      show "\<forall>c \<in> set arguments. sees bs R D c p q" if "covers R (combine (map g arguments)) p q" for p q
        using covers_combine [OF that] each by (metis image_eqI list.set_map)
    qed
  next
    case (longcross c a b)
    have rule: "map_of temporal_rules ''signal.longcross'' = Some LongcrossRule" by (simp add: temporal_rules_def)
    let ?bars = "map_option truncated (scalar_value_of c (bound_scalars bs))"
    have dep: "call_dependency key arguments (map g arguments) (bound_scalars bs) = extend_past (combine [g a, g b]) ?bars"
      by (simp add: call_dependency_def longcross rule numeral_2_eq_2)
    show ?thesis
      unfolding dep
    proof (rule extend_covers)
      show "past_only (combine [g a, g b])" using each(1) longcross(1) by (intro combine_past_only) auto
      show "td_data (extend_past (combine [g a, g b]) ?bars)" using data dep rule longcross(2) by simp
      show "\<forall>c \<in> set arguments. sees bs R D c p p" if "whole R p p" for p by (rule past [OF that])
    next
      fix x assume "?bars = Some x"
      then obtain n where n: "constraint_value c bs = Some (IntegerScalar n)" "x = n"
        using integer [of c] longcross(1,3) by auto
      have one: "1 \<le> n" using longcross(4) n(1) by blast
      show "0 \<le> x \<and> (\<exists>K. static_reach bs key arguments = Some K \<and> (\<forall>k \<in> K. int k \<le> x))"
        using n one by (auto simp: static_reach_def longcross(1,2))
      show "\<forall>e \<in> set arguments. sees bs R D e p q" if "covers R (combine [g a, g b]) p q" for p q
        using covers_combine [OF that, of "g a"] covers_combine [OF that, of "g b"] each longcross(1) constraint_sees [OF n(1)] by simp
    qed
  qed
qed

type_synonym dependencies = "string \<rightharpoonup> temporal_dependency"

definition dependency_of :: "bindings \<Rightarrow> dependencies \<Rightarrow> compiled \<Rightarrow> temporal_dependency" where
  "dependency_of bs deps c = fst (expression_dependency v1_registry (bound_scalars bs) deps c)"

lemma expression_dependencies_map:
  "fst (expression_dependencies registry bound deps es) = map (fst \<circ> expression_dependency registry bound deps) es"
  by (induction es) (simp_all add: case_prod_beta Let_def)

fun tracked :: "bindings \<Rightarrow> dependencies \<Rightarrow> compiled \<Rightarrow> bool" where
  "tracked bs deps (LiteralExpression _ _ _) \<longleftrightarrow> True"
| "tracked bs deps (ReferenceExpression _ _ _ _) \<longleftrightarrow> True"
| "tracked bs deps (UnaryExpression _ operand _ _) \<longleftrightarrow> tracked bs deps operand"
| "tracked bs deps (BinaryExpression _ left right _ _) \<longleftrightarrow> tracked bs deps left \<and> tracked bs deps right"
| "tracked bs deps (CallExpression _ key arguments _ _) \<longleftrightarrow>
     list_all (tracked bs deps) arguments \<and> tracked_call bs key arguments (map (dependency_of bs deps) arguments)"

lemma dependency_call:
  assumes f: "function_of v1_registry name = Some f" "fn_dispatch f = key"
  shows "dependency_of bs deps (CallExpression name key arguments k loc) =
    call_dependency key arguments (map (dependency_of bs deps) arguments) (bound_scalars bs)"
proof -
  have m: "map (dependency_of bs deps) arguments = map (fst \<circ> expression_dependency v1_registry (bound_scalars bs) deps) arguments"
    by (simp add: dependency_of_def)
  have "expression_dependencies v1_registry (bound_scalars bs) deps arguments
      = (map (dependency_of bs deps) arguments, snd (expression_dependencies v1_registry (bound_scalars bs) deps arguments))"
    unfolding m expression_dependencies_map [symmetric] by (rule prod.collapse [symmetric])
  hence "dependency_of bs deps (CallExpression name key arguments k loc) =
      fst (call_diagnosis f name key loc (call_dependency key arguments (map (dependency_of bs deps) arguments) (bound_scalars bs))
        (snd (expression_dependencies v1_registry (bound_scalars bs) deps arguments)))"
    unfolding dependency_of_def expression_dependency.simps f(1) option.case by (metis (no_types, lifting) case_prod_conv)
  thus ?thesis using call_diagnosis_v1 [OF function_of_mem [OF f(1)]] f(2) by simp
qed

text \<open>What is known of the declared values at a statement.\<close>

definition declared_covers ::
  "(nat \<Rightarrow> nat \<Rightarrow> bool) \<Rightarrow> (string \<Rightarrow> nat \<Rightarrow> nat \<Rightarrow> bool) \<Rightarrow> (string \<rightharpoonup> value_kind) \<Rightarrow> dependencies \<Rightarrow> bool" where
  "declared_covers R D env deps \<longleftrightarrow>
     (\<forall>name. env name \<noteq> None \<longrightarrow> (\<exists>d. deps name = Some d \<and> past_only d \<and> (\<forall>i j. covers R d i j \<longrightarrow> D name i j)))"

lemma dependency_covers:
  "well_typed bs env c \<Longrightarrow> tracked bs deps c \<Longrightarrow> declared_covers R D env deps \<Longrightarrow>
   past_only (dependency_of bs deps c) \<and> (\<forall>i j. covers R (dependency_of bs deps c) i j \<longrightarrow> sees bs R D c i j)"
proof (induction c)
  case (LiteralExpression s k loc)
  show ?case by (simp add: dependency_of_def past_only_def configuration_def)
next
  case (ReferenceExpression name source k loc)
  show ?case
  proof (cases source)
    case FieldSource
    have "R i j" if "covers R current_row i j" for i j
      using that by (auto simp: covers_def current_row_def span_rows_def whole_def)
    thus ?thesis using FieldSource by (simp add: dependency_of_def past_only_def current_row_def)
  next
    case ParameterSource
    thus ?thesis by (simp add: dependency_of_def past_only_def configuration_def)
  next
    case DeclarationSource
    hence "env name = Some k" using ReferenceExpression(1) by simp
    then obtain d where "deps name = Some d" "past_only d" "\<forall>i j. covers R d i j \<longrightarrow> D name i j"
      using ReferenceExpression(3) unfolding declared_covers_def by blast
    thus ?thesis using DeclarationSource by (simp add: dependency_of_def)
  qed
next
  case (UnaryExpression operator operand k loc)
  have "dependency_of bs deps (UnaryExpression operator operand k loc) = dependency_of bs deps operand" by (simp add: dependency_of_def)
  thus ?case using UnaryExpression by simp
next
  case (BinaryExpression operator left right k loc)
  have dep: "dependency_of bs deps (BinaryExpression operator left right k loc) = combine [dependency_of bs deps left, dependency_of bs deps right]"
    by (simp add: dependency_of_def split: prod.split)
  have l: "past_only (dependency_of bs deps left)" "\<forall>i j. covers R (dependency_of bs deps left) i j \<longrightarrow> sees bs R D left i j"
    and r: "past_only (dependency_of bs deps right)" "\<forall>i j. covers R (dependency_of bs deps right) i j \<longrightarrow> sees bs R D right i j"
    using BinaryExpression by simp_all
  have "past_only (combine [dependency_of bs deps left, dependency_of bs deps right])"
    by (rule combine_past_only) (use l(1) r(1) in auto)
  moreover have "sees bs R D left i j \<and> sees bs R D right i j"
    if "covers R (combine [dependency_of bs deps left, dependency_of bs deps right]) i j" for i j
    using covers_combine [OF that _ l(1)] covers_combine [OF that _ r(1)] l(2) r(2) by simp
  ultimately show ?case unfolding dep sees.simps by blast
next
  case (CallExpression name key arguments k loc)
  obtain f where f: "function_of v1_registry name = Some f" "fn_dispatch f = key"
    and all: "list_all2 (\<lambda>p a. accepts_value_kind (pm_accepted p) (compiled_kind a) \<and> within_bounds bs p a) (fn_parameters f) arguments"
    and typed: "list_all (well_typed bs env) arguments" using CallExpression(2) by auto
  have tr: "list_all (tracked bs deps) arguments" "tracked_call bs key arguments (map (dependency_of bs deps) arguments)"
    using CallExpression(3) by simp_all
  have form: "call_form bs key arguments"
    using call_forms [OF function_of_mem [OF f(1)], of bs arguments] all f(2) unfolding argument_fits_def by simp
  have each: "past_only (dependency_of bs deps a)" "covers R (dependency_of bs deps a) p q \<Longrightarrow> sees bs R D a p q"
    if a: "a \<in> set arguments" for a p q
  proof -
    have "well_typed bs env a" "tracked bs deps a" using a typed tr(1) by (simp_all add: list_all_iff)
    note IH = CallExpression(1) [OF a this CallExpression(4)]
    show "past_only (dependency_of bs deps a)" using IH by blast
    show "sees bs R D a p q" if "covers R (dependency_of bs deps a) p q" using IH that by blast
  qed
  show ?case
    unfolding dependency_call [OF f] sees.simps by (rule call_covers [OF form typed each tr(2)])
qed

fun tracked_statements :: "bindings \<Rightarrow> dependencies \<Rightarrow> compiled_statement list \<Rightarrow> bool" where
  "tracked_statements bs deps [] \<longleftrightarrow> True"
| "tracked_statements bs deps (s # ss) \<longleftrightarrow>
     tracked bs deps (cs_expression s) \<and> tracked_statements bs (deps(cs_name s \<mapsto> dependency_of bs deps (cs_expression s))) ss"

fun statement_dependencies :: "bindings \<Rightarrow> dependencies \<Rightarrow> compiled_statement list \<Rightarrow> (string \<times> temporal_dependency) list" where
  "statement_dependencies bs deps [] = []"
| "statement_dependencies bs deps (s # ss) =
     (cs_name s, dependency_of bs deps (cs_expression s))
       # statement_dependencies bs (deps(cs_name s \<mapsto> dependency_of bs deps (cs_expression s))) ss"

lemma analyzed_dependencies:
  "map (\<lambda>s. (sd_name s, sd_dependency s)) (as_statements (foldl (analyze_statement v1_registry (bound_scalars bs)) st ss)) =
     map (\<lambda>s. (sd_name s, sd_dependency s)) (as_statements st) @ statement_dependencies bs (as_declared st) ss"
proof (induction ss arbitrary: st)
  case (Cons s ss)
  have "as_declared (analyze_statement v1_registry (bound_scalars bs) st s)
      = (as_declared st)(cs_name s \<mapsto> dependency_of bs (as_declared st) (cs_expression s))"
    "map (\<lambda>s. (sd_name s, sd_dependency s)) (as_statements (analyze_statement v1_registry (bound_scalars bs) st s))
      = map (\<lambda>s. (sd_name s, sd_dependency s)) (as_statements st) @ [(cs_name s, dependency_of bs (as_declared st) (cs_expression s))]"
    by (simp_all add: analyze_statement_def dependency_of_def case_prod_beta)
  thus ?case by (simp add: Cons.IH del: fun_upd_apply)
qed simp

lemma analysis_statements:
  assumes clean: "ta_diagnostics (analyze_compiled_formula cf v1_registry) = []"
  shows "map (\<lambda>s. (sd_name s, sd_dependency s)) (ta_statements (analyze_compiled_formula cf v1_registry))
    = statement_dependencies (cf_bindings cf) Map.empty (cf_statements cf)"
proof -
  have "version_diagnostics cf v1_registry = []" "st_diagnostics (inspect_compiled_structure cf v1_registry) = []"
    using clean by (auto simp: analyze_compiled_formula_def analysis_result_def split: if_splits)
  hence "ta_statements (analyze_compiled_formula cf v1_registry) = as_statements (analyze_statements v1_registry cf)"
    by (simp add: analyze_compiled_formula_def analysis_result_def Let_def)
  thus ?thesis
    using analyzed_dependencies [of "cf_bindings cf" analysis_start "cf_statements cf"]
    by (simp add: analyze_statements_def analysis_start_def)
qed

lemma declared_covers_insert:
  assumes "declared_covers R D env deps" "past_only d" "\<forall>i j. covers R d i j \<longrightarrow> sees bs R D (cs_expression s) i j"
  shows "declared_covers R (declare_sees bs R D s) (env(cs_name s \<mapsto> k)) (deps(cs_name s \<mapsto> d))"
  using assms unfolding declared_covers_def declare_sees_def by auto

lemma all_see_tracked:
  "statements_typed bs env ss \<Longrightarrow> tracked_statements bs deps ss \<Longrightarrow> declared_covers R D env deps \<Longrightarrow>
   \<forall>(name, d) \<in> set (statement_dependencies bs deps ss). \<forall>i j. good name i j \<longrightarrow> covers R d i j \<Longrightarrow> all_see bs R good D ss"
proof (induction ss arbitrary: env deps D)
  case (Cons s ss)
  let ?d = "dependency_of bs deps (cs_expression s)"
  have typed: "well_typed bs env (cs_expression s)" "statements_typed bs (env(cs_name s \<mapsto> cs_kind s)) ss"
    using Cons.prems(1) unfolding statements_typed.simps statement_typed_def by blast+
  have tr: "tracked bs deps (cs_expression s)" "tracked_statements bs (deps(cs_name s \<mapsto> ?d)) ss"
    using Cons.prems(2) unfolding tracked_statements.simps by blast+
  have good: "\<forall>i j. good (cs_name s) i j \<longrightarrow> covers R ?d i j"
    "\<forall>(name, d) \<in> set (statement_dependencies bs (deps(cs_name s \<mapsto> ?d)) ss). \<forall>i j. good name i j \<longrightarrow> covers R d i j"
    using Cons.prems(4) unfolding statement_dependencies.simps list.set by blast+
  note d = dependency_covers [OF typed(1) tr(1) Cons.prems(3)]
  have "all_see bs R good (declare_sees bs R D s) ss"
    by (rule Cons.IH [OF typed(2) tr(2) declared_covers_insert good(2)]) (use Cons.prems(3) d in blast)+
  thus ?case using d good(1) unfolding all_see.simps by blast
qed simp

definition lookback_within :: "nat \<Rightarrow> temporal_dependency \<Rightarrow> bool" where
  "lookback_within b d \<longleftrightarrow> (td_data d \<longrightarrow> (case td_min d of Some m \<Rightarrow> - m \<le> int b | None \<Rightarrow> False))"

text \<open>Row \<open>i\<close> of one context and row \<open>j\<close> of the other have the same fields, and so have the \<open>b\<close> rows before them.\<close>

definition same_window :: "nat \<Rightarrow> nat \<Rightarrow> nat \<Rightarrow> eval_context \<Rightarrow> eval_context \<Rightarrow> bool" where
  "same_window b i j ctx ctx' \<longleftrightarrow>
     b \<le> i \<and> i < ec_rows ctx \<and> b \<le> j \<and> j < ec_rows ctx'
     \<and> list_all (\<lambda>name. map_option (take (Suc b) \<circ> drop (i - b)) (map_of (ec_fields ctx) name)
                     = map_option (take (Suc b) \<circ> drop (j - b)) (map_of (ec_fields ctx') name)) (field_names v1_registry)"

lemma window_fields:
  assumes "same_window b i j ctx ctx'" and wf: "context_wf ctx" "context_wf ctx'"
  shows "fields_same (\<lambda>p q. \<exists>m \<le> b. p = i - m \<and> q = j - m) ctx ctx'"
  unfolding fields_same_def
proof (intro ballI allI impI)
  fix name s s' p q
  assume name: "name \<in> set (field_names v1_registry)" and s: "map_of (ec_fields ctx) name = Some s" "map_of (ec_fields ctx') name = Some s'"
    and p: "p < ec_rows ctx" "q < ec_rows ctx'" and m: "\<exists>m \<le> b. p = i - m \<and> q = j - m"
  obtain m where m: "m \<le> b" "p = i - m" "q = j - m" using m by blast
  have b: "b \<le> i" "b \<le> j" "i < ec_rows ctx" "j < ec_rows ctx'" using assms(1) by (simp_all add: same_window_def)
  have "map_option (take (Suc b) \<circ> drop (i - b)) (map_of (ec_fields ctx) name) = map_option (take (Suc b) \<circ> drop (j - b)) (map_of (ec_fields ctx') name)"
    using assms(1) name unfolding same_window_def list_all_iff by blast
  hence eq: "take (Suc b) (drop (i - b) s) = take (Suc b) (drop (j - b) s')" using s by simp
  have lenient: "take (Suc b) (drop (c - b) xs) ! (b - m) = xs ! (c - m)" if "b \<le> c" "c - b \<le> length xs" for c and xs :: "rat option list"
    using m(1) that by simp
  have "length s = ec_rows ctx" "length s' = ec_rows ctx'" using wf name s unfolding context_wf_def by fastforce+
  thus "s ! p = s' ! q" using lenient [of i s] lenient [of j s'] eq b m(2,3) by simp
qed

lemma window_covers:
  assumes "lookback_within b d" "past_only d" "b \<le> i" "b \<le> j"
  shows "covers (\<lambda>p q. \<exists>m \<le> b. p = i - m \<and> q = j - m) d i j"
proof (cases "td_data d")
  case True
  then obtain m where m: "td_min d = Some m" "- m \<le> int b" using assms(1) by (auto simp: lookback_within_def split: option.splits)
  have "span_rows (\<lambda>p q. \<exists>m \<le> b. p = i - m \<and> q = j - m) (- td_max d) (- m) i j"
    using m(2) assms(3,4) unfolding span_rows_def by (intro allI impI conjI exI) auto
  thus ?thesis using m(1) by (simp add: covers_def)
qed (simp add: covers_def)

lemma statement_dependencies_past:
  "statements_typed bs env ss \<Longrightarrow> tracked_statements bs deps ss \<Longrightarrow> declared_covers (\<lambda>_ _. False) (\<lambda>_ _ _. True) env deps \<Longrightarrow>
   \<forall>(name, d) \<in> set (statement_dependencies bs deps ss). past_only d"
proof (induction ss arbitrary: env deps)
  case (Cons s ss)
  let ?d = "dependency_of bs deps (cs_expression s)"
  have typed: "well_typed bs env (cs_expression s)" "statements_typed bs (env(cs_name s \<mapsto> cs_kind s)) ss"
    using Cons.prems(1) unfolding statements_typed.simps statement_typed_def by blast+
  have tr: "tracked bs deps (cs_expression s)" "tracked_statements bs (deps(cs_name s \<mapsto> ?d)) ss"
    using Cons.prems(2) unfolding tracked_statements.simps by blast+
  have d: "past_only ?d" using dependency_covers [OF typed(1) tr(1) Cons.prems(3)] by blast
  have "declared_covers (\<lambda>_ _. False) (\<lambda>_ _ _. True) (env(cs_name s \<mapsto> cs_kind s)) (deps(cs_name s \<mapsto> ?d))"
    using Cons.prems(3) d unfolding declared_covers_def by auto
  thus ?case using Cons.IH [OF typed(2) tr(2)] d unfolding statement_dependencies.simps list.set by blast
qed simp

lemma evaluate_compiled_signals:
  "evaluate_compiled value_text cf ctx checksum = Inr r \<Longrightarrow> map bs_name (sr_signals r) = [''BUY'', ''SELL'']"
  by (auto simp: evaluate_compiled_def then_res_def res_simps evaluation_result_def signal_output_def Let_def)

lemma backtest_lookback_within:
  assumes "backtest_lookback cf = Inr (Some b)" "d \<in> set (signal_dependencies (analyze_compiled_formula cf v1_registry))"
  shows "lookback_within b d"
proof -
  let ?ds = "signal_dependencies (analyze_compiled_formula cf v1_registry)"
  have known: "\<not> list_ex (\<lambda>d. td_min d = None) ?ds" and b: "b = nat (max 0 (- Min (set (map (the \<circ> td_min) ?ds))))"
    using assms(1) by (auto simp: backtest_lookback_def Let_def split: if_splits)
  obtain m where m: "td_min d = Some m" using known assms(2) by (auto simp: list_ex_iff)
  have "Min (set (map (the \<circ> td_min) ?ds)) \<le> m" using m assms(2) by (intro Min_le) force+
  hence "- m \<le> int b" unfolding b by linarith
  thus ?thesis using m by (simp add: lookback_within_def)
qed

definition same_signals :: "nat \<Rightarrow> nat \<Rightarrow> signal_result \<Rightarrow> signal_result \<Rightarrow> bool" where
  "same_signals i j r r' \<longleftrightarrow>
     list_all2 (\<lambda>a b. bs_name a = bs_name b \<and> bs_values a ! i = bs_values b ! j) (sr_signals r) (sr_signals r')"

text \<open>
  C39. The lookback of a backtest is enough. When the preflight reports \<open>b\<close> bars, the trading signals in a row are
  determined by the fields of that row and of the \<open>b\<close> rows before it: two contexts, of any length and with any
  other history, in which those rows are equal give the formula the same \<open>BUY\<close> and \<open>SELL\<close> there, so the warm-up
  that the runner demands fixes every scored signal. The formula must be tracked: every \<open>REF\<close> has an
  offset known at compile time and every function with a past is applied to data.
\<close>

theorem lookback_suffices:
  assumes "compile_program v1_registry bs program source_checksum = Inr cf"
    and "\<forall>s \<in> set (pg_statements program). parsed_operators (sm_expression s)"
    and "make_context v1_registry z provenance columns bs = Inr ctx"
    and "make_context v1_registry z' provenance' columns' bs = Inr ctx'"
    and "tracked_statements bs Map.empty (cf_statements cf)"
    and "backtest_lookback cf = Inr (Some b)"
    and "same_window b i j ctx ctx'"
    and "evaluate_compiled value_text cf ctx checksum = Inr r"
    and "evaluation_guard value_text cf ctx' checksum = Inr ()"
  shows "\<exists>r'. evaluate_compiled value_text cf ctx' checksum = Inr r' \<and> same_signals i j r r'"
proof -
  let ?R = "\<lambda>p q. \<exists>m \<le> b. p = i - m \<and> q = j - m"
  let ?good = "\<lambda>name p q. name \<in> {''BUY'', ''SELL''} \<and> p = i \<and> q = j"
  let ?analysis = "analyze_compiled_formula cf v1_registry"
  note typed = compile_program_Inr(1) [OF assms(1,2)]
  have ij: "b \<le> i" "b \<le> j" "i < ec_rows ctx" "j < ec_rows ctx'" using assms(7) by (simp_all add: same_window_def)
  have clean: "ta_diagnostics ?analysis = []" using assms(6) by (auto simp: backtest_lookback_def Let_def split: if_splits)
  have deps: "statement_dependencies bs Map.empty (cf_statements cf) = map (\<lambda>s. (sd_name s, sd_dependency s)) (ta_statements ?analysis)"
    using analysis_statements [OF clean] compile_program_Inr(2) [OF assms(1,2)] by simp
  have past: "\<forall>(name, d) \<in> set (statement_dependencies bs Map.empty (cf_statements cf)). past_only d"
    by (rule statement_dependencies_past [OF typed assms(5)]) (simp add: declared_covers_def)
  have good: "\<forall>(name, d) \<in> set (statement_dependencies bs Map.empty (cf_statements cf)). \<forall>p q. ?good name p q \<longrightarrow> covers ?R d p q"
  proof (intro ballI allI impI, clarify)
    fix name d assume d: "(name, d) \<in> set (statement_dependencies bs Map.empty (cf_statements cf))" and name: "name \<in> {''BUY'', ''SELL''}"
    have "d \<in> set (signal_dependencies ?analysis)" using d name unfolding deps signal_dependencies_def by force
    thus "covers ?R d i j"
      using window_covers [OF backtest_lookback_within [OF assms(6)] _ ij(1,2)] past d by blast
  qed
  have "all_see bs ?R ?good (\<lambda>_ _ _. True) (cf_statements cf)"
    by (rule all_see_tracked [OF typed assms(5) _ good]) (simp add: declared_covers_def)
  then obtain r' where r': "evaluate_compiled value_text cf ctx' checksum = Inr r'" "result_twins (ec_rows ctx) (ec_rows ctx') ?good r r'"
    using program_local [OF assms(1-4) window_fields [OF assms(7) make_context_wf(1) [OF assms(3)] make_context_wf(1) [OF assms(4)]] _ assms(8,9)]
    by blast
  have names: "set (map bs_name (sr_signals r)) = {''BUY'', ''SELL''}" unfolding evaluate_compiled_signals [OF assms(8)] by simp
  have "same_signals i j r r'"
    unfolding same_signals_def
  proof (rule list.rel_mono_strong)
    show "list_all2 (\<lambda>a b. bs_name a = bs_name b \<and> twins (ec_rows ctx) (ec_rows ctx') (?good (bs_name a)) (bs_values a) (bs_values b)) (sr_signals r) (sr_signals r')"
      using r'(2) by (simp only: result_twins_def)
  next
    fix a c assume a: "a \<in> set (sr_signals r)" and t: "bs_name a = bs_name c \<and> twins (ec_rows ctx) (ec_rows ctx') (?good (bs_name a)) (bs_values a) (bs_values c)"
    have "bs_name a \<in> {''BUY'', ''SELL''}" using a names by force
    thus "bs_name a = bs_name c \<and> bs_values a ! i = bs_values c ! j" using t ij(3,4) unfolding twins_def by blast
  qed
  thus ?thesis using r'(1) by blast
qed

text \<open>Two histories that share their last three days: closes 10, 12, 10 and 12, 10, 12, 10.\<close>

definition demo_days :: "nat \<Rightarrow> context_provenance" where
  "demo_days n = demo_provenance\<lparr>cp_cutoff := Aware (10 * day_us), cp_end := Aware (10 * day_us),
     cp_timestamps := map (\<lambda>d. Aware (int d * day_us)) [0..<n]\<rparr>"

definition demo_closes :: "rat list \<Rightarrow> (string \<times> rat option list) list" where
  "demo_closes closes =
     map (\<lambda>f. (fd_name f, if fd_canonical f = ''CLOSE'' then map Some closes else replicate (length closes) None)) registry_fields"

definition demo_history_of :: "rat list \<Rightarrow> eval_context" where
  "demo_history_of closes = \<lparr>ec_rows = length closes, ec_fields = demo_closes closes, ec_parameters = []\<rparr>"

lemma demo_days_canonical: "is_canonical_bucket_start (\<lambda>_. 0) DAY (Aware (d * day_us))"
  by (simp add: is_canonical_bucket_start_def Let_def local_us_def day_us_def)

lemma demo_closes_match:
  assumes "list_all (\<lambda>c. c = 10 \<or> c = 12) closes"
  shows "\<not> list_ex (\<lambda>f. \<not> field_matches_spec (demo_closes closes) f) registry_fields"
proof -
  have none: "list_all2 (\<lambda>s c. case s of None \<Rightarrow> c = None | Some v \<Rightarrow> scaled_value f v \<noteq> None \<and> c = scaled_value f v)
      (replicate n None) (replicate n None)" for f n by (simp add: list_all2_conv_all_nth)
  have close: "list_all2 (\<lambda>s c. case s of None \<Rightarrow> c = None | Some v \<Rightarrow> scaled_value f v \<noteq> None \<and> c = scaled_value f v)
      (map Some closes) (map Some closes)" if "fd_numerator f = 1" "fd_denominator f = 1" for f
    using assms that by (induction closes) (auto simp: scaled_value_def demo_scale demo_scaled)
  show ?thesis
    by (simp add: registry_fields_def demo_closes_def make_field_def field_matches_spec_def none close)
qed

lemma demo_days_valid: "check_provenance (\<lambda>_. 0) (demo_days 3) = Inr ()" "check_provenance (\<lambda>_. 0) (demo_days 4) = Inr ()"
proof -
  have days: "[0..<3] = [0, 1, 2 :: nat]" "[0..<4] = [0, 1, 2, 3 :: nat]" by (simp_all add: upt_rec)
  have days': "cp_timestamps (demo_days 3) = [Aware (0 * day_us), Aware (1 * day_us), Aware (2 * day_us)]"
    "cp_timestamps (demo_days 4) = [Aware (0 * day_us), Aware (1 * day_us), Aware (2 * day_us), Aware (3 * day_us)]"
    by (simp_all add: demo_days_def days)
  have parts: "cp_symbol (demo_days n) = ''600000.SH''" "cp_period (demo_days n) = DAY" "cp_digests (demo_days n) = [(''dataset_version'', demo_digest)]"
    "cp_cutoff (demo_days n) = Aware (10 * day_us)" "cp_start (demo_days n) = Aware 0" "cp_end (demo_days n) = Aware (10 * day_us)" for n
    by (simp_all add: demo_days_def demo_provenance_def)
  have digest: "digest_pattern demo_digest" by (simp add: digest_pattern_def demo_digest_def decimal_digit_def list_all_iff)
  have symbol: "symbol_pattern ''600000.SH''" by (simp add: symbol_pattern_def decimal_digit_def)
  note canonical = demo_days_canonical [of 0] demo_days_canonical [of 1] demo_days_canonical [of 2] demo_days_canonical [of 3]
  show "check_provenance (\<lambda>_. 0) (demo_days 3) = Inr ()" "check_provenance (\<lambda>_. 0) (demo_days 4) = Inr ()"
    using canonical unfolding check_provenance_def parts days' by (simp_all add: digest symbol max_bar_series_rows_def day_us_def)
qed

lemma demo_history_made:
  assumes "length closes \<in> {3, 4}" "list_all (\<lambda>c. c = 10 \<or> c = 12) closes"
  shows "make_context v1_registry (\<lambda>_. 0) (demo_days (length closes)) (demo_closes closes) [] = Inr (demo_history_of closes)"
proof -
  have "rg_fields v1_registry = registry_fields" by (simp add: v1_registry_def)
  moreover have "\<not> list_ex (\<lambda>(_, s). length s \<noteq> length closes) (demo_closes closes)" by (simp add: demo_closes_def list_ex_iff)
  moreover have "length (cp_timestamps (demo_days (length closes))) = length closes" by (simp add: demo_days_def)
  moreover have "check_provenance (\<lambda>_. 0) (demo_days (length closes)) = Inr ()" using assms(1) demo_days_valid by auto
  moreover have "set (map fst (demo_closes closes)) = set (field_names v1_registry)"
    by (simp add: demo_closes_def field_names_v1 comp_def)
  ultimately show ?thesis using demo_closes_match [OF assms(2)] assms(1) by (simp add: make_context_def then_res_def max_parameters_def demo_history_of_def)
qed

lemma demo_history_guard:
  assumes "length closes \<in> {3, 4}"
  shows "evaluation_guard (\<lambda>_. []) demo_formula (demo_history_of closes) ''sha256:0'' = Inr ()"
proof -
  have "cf_bindings demo_formula = []" by (simp add: demo_formula_def)
  hence "validate_execution_budget (\<lambda>_. []) v1_registry demo_formula (length closes) = []"
    using assms by (auto simp: validate_execution_budget_def demo_inspected max_bar_series_rows_def max_output_cells_def max_work_cells_def
       estimate_response_bytes_def max_signal_series_bytes_def)
  moreover have "cf_checksum demo_formula = ''sha256:0''" "cf_compatibility_version demo_formula = compatibility_version"
      "cf_engine_version demo_formula = engine_version" "ec_parameters (demo_history_of closes) = cf_bindings demo_formula"
      "ec_rows (demo_history_of closes) = length closes" "length (cf_numeric_outputs demo_formula) = 1"
    by (simp_all add: demo_formula_def demo_history_of_def)
  ultimately show ?thesis using demo_analyzed assms by (auto simp: evaluation_guard_def max_output_cells_def)
qed

lemmas demo_dependency_defs = dependency_of_def call_diagnosis_def call_dependency_def temporal_rules_def demo_functions demo_specs
  combine_def extend_past_def current_row_def configuration_def truncated_def demo_at_def demo_mean_def Let_def

lemma demo_tracked: "tracked_statements [] Map.empty (cf_statements demo_formula)"
  by (simp add: demo_formula_def demo_dependency_defs tracked_call_def)

text \<open>What the analysis reports for the signals of a formula without diagnostics.\<close>

lemma signal_dependencies_of:
  assumes "ta_diagnostics (analyze_compiled_formula cf v1_registry) = []"
  shows "signal_dependencies (analyze_compiled_formula cf v1_registry)
    = map snd (filter (\<lambda>(name, d). name \<in> {''BUY'', ''SELL''}) (statement_dependencies (cf_bindings cf) Map.empty (cf_statements cf)))"
  unfolding analysis_statements [OF assms, symmetric] by (simp add: signal_dependencies_def filter_map comp_def)

lemma demo_lookback: "backtest_lookback demo_formula = Inr (Some 2)"
proof -
  have "signal_dependencies (analyze_compiled_formula demo_formula v1_registry) =
      [\<lparr>td_min = Some (-2), td_max = 0, td_data = True\<rparr>, \<lparr>td_min = Some (-1), td_max = 0, td_data = True\<rparr>]"
    unfolding signal_dependencies_of [OF demo_analyzed] by (simp add: demo_formula_def demo_dependency_defs)
  moreover have "cf_signal_outputs demo_formula = [''BUY'', ''SELL'']" by (simp add: demo_formula_def)
  ultimately show ?thesis using demo_analyzed by (simp add: backtest_lookback_def)
qed

lemma demo_same_window: "same_window 2 2 3 (demo_history_of [10, 12, 10]) (demo_history_of [12, 10, 12, 10])"
  by (simp add: same_window_def demo_history_of_def field_names_list demo_closes_def registry_fields_def make_field_def)

lemma demo_made:
  "make_context v1_registry (\<lambda>_. 0) (demo_days 3) (demo_closes [10, 12, 10]) [] = Inr (demo_history_of [10, 12, 10])"
  "make_context v1_registry (\<lambda>_. 0) (demo_days 3) (demo_closes [12, 12, 10]) [] = Inr (demo_history_of [12, 12, 10])"
  "make_context v1_registry (\<lambda>_. 0) (demo_days 4) (demo_closes [12, 10, 12, 10]) [] = Inr (demo_history_of [12, 10, 12, 10])"
  using demo_history_made [of "[10, 12, 10]"] demo_history_made [of "[12, 12, 10]"] demo_history_made [of "[12, 10, 12, 10]"]
  by (simp_all add: eval_nat_numeral)

theorem lookback_suffices_witness:
  "\<exists>r r'. evaluate_compiled (\<lambda>_. []) demo_formula (demo_history_of [10, 12, 10]) ''sha256:0'' = Inr r
     \<and> evaluate_compiled (\<lambda>_. []) demo_formula (demo_history_of [12, 10, 12, 10]) ''sha256:0'' = Inr r' \<and> same_signals 2 3 r r'"
proof -
  have guard: "evaluation_guard (\<lambda>_. []) demo_formula (demo_history_of [10, 12, 10]) ''sha256:0'' = Inr ()"
    "evaluation_guard (\<lambda>_. []) demo_formula (demo_history_of [12, 10, 12, 10]) ''sha256:0'' = Inr ()"
    by (rule demo_history_guard; simp)+
  obtain r where r: "evaluate_compiled (\<lambda>_. []) demo_formula (demo_history_of [10, 12, 10]) ''sha256:0'' = Inr r"
    using known_windows_result [OF demo_compiles demo_parsed demo_made(1) guard(1) demo_windows] by blast
  show ?thesis
    using lookback_suffices [OF demo_compiles demo_parsed demo_made(1,3) demo_tracked demo_lookback demo_same_window r guard(2)] r by blast
qed

section \<open>An offset the analysis cannot see\<close>

text \<open>\<open>N1:=1; BUY:C>REF(C,N1); SELL:C<REF(C,N1);\<close>\<close>

definition offset_program :: program where
  "offset_program =
    \<lparr>pg_statements =
       [\<lparr>sm_name = ''N1'', sm_expression = Number 1 (demo_span 1), sm_visible = False, sm_span = demo_span 1\<rparr>,
        \<lparr>sm_name = ''BUY'', sm_expression = Binary (Name ''C'' (demo_span 2)) ''>''
           (Call ''REF'' [Name ''C'' (demo_span 2), Name ''N1'' (demo_span 2)] (demo_span 2)) (demo_span 2),
         sm_visible = True, sm_span = demo_span 2\<rparr>,
        \<lparr>sm_name = ''SELL'', sm_expression = Binary (Name ''C'' (demo_span 3)) ''<''
           (Call ''REF'' [Name ''C'' (demo_span 3), Name ''N1'' (demo_span 3)] (demo_span 3)) (demo_span 3),
         sm_visible = True, sm_span = demo_span 3\<rparr>],
     pg_span = demo_span 1\<rparr>"

definition offset_call :: "nat \<Rightarrow> compiled" where
  "offset_call line = CallExpression ''REF'' ''series.ref''
     [demo_at line, ReferenceExpression ''N1'' DeclarationSource IntegerKind (demo_span line)] NumberKind (demo_span line)"

definition offset_formula :: compiled_formula where
  "offset_formula =
    \<lparr>cf_checksum = ''sha256:0'', cf_compatibility_version = compatibility_version, cf_engine_version = engine_version,
     cf_statements =
       [\<lparr>cs_name = ''N1'', cs_expression = LiteralExpression (IntegerScalar 1) IntegerKind (demo_span 1),
         cs_kind = IntegerKind, cs_visible = False, cs_span = demo_span 1\<rparr>,
        \<lparr>cs_name = ''BUY'', cs_expression = BinaryExpression ''>'' (demo_at 2) (offset_call 2) BooleanKind (demo_span 2),
         cs_kind = BooleanKind, cs_visible = True, cs_span = demo_span 2\<rparr>,
        \<lparr>cs_name = ''SELL'', cs_expression = BinaryExpression ''<'' (demo_at 3) (offset_call 3) BooleanKind (demo_span 3),
         cs_kind = BooleanKind, cs_visible = True, cs_span = demo_span 3\<rparr>],
     cf_numeric_outputs = [], cf_signal_outputs = [''BUY'', ''SELL''], cf_bindings = []\<rparr>"

lemma offset_function:
  "function_of v1_registry ''REF'' = Some (make_spec ''REF'' ''series'' PastOnly [x_param, param ''N'' [IntegerKind] False (Some 0)] NumberKind ''series.ref'')"
  "function_named v1_registry ''REF'' = Some (make_spec ''REF'' ''series'' PastOnly [x_param, param ''N'' [IntegerKind] False (Some 0)] NumberKind ''series.ref'')"
  "spec_for ''series.ref'' = Some (make_spec ''REF'' ''series'' PastOnly [x_param, param ''N'' [IntegerKind] False (Some 0)] NumberKind ''series.ref'')"
  by (simp_all add: function_of_def function_named_def spec_for_def v1_registry_def series_functions_def make_spec_def upper_ascii_def)

lemma offset_literal: "literal 1 loc = Inr (LiteralExpression (IntegerScalar 1) IntegerKind loc)"
  by (simp add: literal_def round64_demo max_integer_def)

lemma offset_valid: "validate_program v1_registry offset_program [] = Inr []"
  by (simp add: validate_program_def offset_program_def expression_diagnostics_def field_names_list offset_function demo_specs Let_def)

lemma offset_statements:
  "run_res (compile_statement v1_registry []) compile_start (pg_statements offset_program)
    = Inr \<lparr>co_env = [''N1'' \<mapsto> IntegerKind, ''BUY'' \<mapsto> BooleanKind, ''SELL'' \<mapsto> BooleanKind],
           co_statements = cf_statements offset_formula, co_numeric = [], co_signals = [''BUY'', ''SELL'']\<rparr>"
  by (simp add: offset_program_def compile_start_def compile_statement_def compile_name_def field_names_list offset_literal offset_function
     demo_specs then_res_def validate_arguments_def validate_argument_def Let_def accepts_value_kind_def below_minimum_def above_maximum_def
     maximum_of_def max_lookback_def compile_output_def compile_binary_def numeric_kinds_def comparison_operators_def max_public_outputs_def
     offset_formula_def demo_at_def offset_call_def)

lemma offset_compiles: "compile_program v1_registry [] offset_program (Inr ''sha256:0'') = Inr offset_formula"
proof -
  have "identifier_pattern ''N1''" by (simp add: identifier_pattern_def upper_char_def max_identifier_chars_def)
  hence "List.find (\<lambda>s. \<not> identifier_pattern (sm_name s)) (pg_statements offset_program) = None"
    by (simp add: offset_program_def demo_names)
  thus ?thesis
    using offset_valid offset_statements by (simp add: compile_program_def) (simp add: offset_formula_def v1_registry_def)
qed

lemma offset_inspected:
  "inspect_compiled_structure offset_formula v1_registry =
     \<lparr>st_numeric_outputs = [], st_signal_outputs = [''BUY'', ''SELL''], st_expression_count = 11, st_work_units = 13, st_diagnostics = []\<rparr>"
  by (simp add: inspect_compiled_structure_def offset_formula_def demo_at_def offset_call_def inspect_statement_def inspection_start_def
     inspect_call_def inspect_totals_def offset_function demo_specs demo_close make_field_def reference_kind_def binary_kind_def
     literal_kind_def flagged_def Let_def comparison_operators_def accepts_value_kind_def below_minimum_def above_maximum_def
     maximum_of_def max_lookback_def max_statements_def max_ast_nodes_def max_public_outputs_def max_parameters_def
     dispatch_work_weight_def temporal_rules_def)

lemmas offset_dependency_defs = dependency_of_def call_diagnosis_def call_dependency_def temporal_rules_def offset_function demo_specs
  combine_def extend_past_def current_row_def configuration_def truncated_def demo_at_def offset_call_def Let_def

lemma offset_analyzed: "ta_diagnostics (analyze_compiled_formula offset_formula v1_registry) = []"
proof -
  have "version_diagnostics offset_formula v1_registry = []"
    by (simp add: version_diagnostics_def offset_formula_def v1_registry_def flagged_def)
  moreover have "as_diagnostics (analyze_statements v1_registry offset_formula) = []"
    by (simp add: analyze_statements_def offset_formula_def analyze_statement_def analysis_start_def flagged_def max_lookback_def offset_dependency_defs)
  ultimately show ?thesis
    by (simp add: analyze_compiled_formula_def offset_inspected analysis_result_def first_occurrences_def Let_def)
qed

lemma offset_lookback: "backtest_lookback offset_formula = Inr (Some 0)"
proof -
  have "signal_dependencies (analyze_compiled_formula offset_formula v1_registry) = [current_row, current_row]"
    unfolding signal_dependencies_of [OF offset_analyzed] by (simp add: offset_formula_def offset_dependency_defs)
  moreover have "cf_signal_outputs offset_formula = [''BUY'', ''SELL'']" by (simp add: offset_formula_def)
  ultimately show ?thesis using offset_analyzed by (simp add: backtest_lookback_def current_row_def)
qed

lemma offset_guard:
  "evaluation_guard (\<lambda>_. []) offset_formula (demo_history_of [10, 12, 10]) ''sha256:0'' = Inr ()"
  "evaluation_guard (\<lambda>_. []) offset_formula (demo_history_of [12, 12, 10]) ''sha256:0'' = Inr ()"
proof -
  have "cf_bindings offset_formula = []" by (simp add: offset_formula_def)
  hence "validate_execution_budget (\<lambda>_. []) v1_registry offset_formula (Suc (Suc (Suc 0))) = []"
    by (simp add: validate_execution_budget_def offset_inspected max_bar_series_rows_def max_output_cells_def max_work_cells_def
       estimate_response_bytes_def max_signal_series_bytes_def)
  moreover have "cf_checksum offset_formula = ''sha256:0''" "cf_compatibility_version offset_formula = compatibility_version"
      "cf_engine_version offset_formula = engine_version" "cf_bindings offset_formula = []" "cf_numeric_outputs offset_formula = []"
    by (simp_all add: offset_formula_def)
  ultimately show "evaluation_guard (\<lambda>_. []) offset_formula (demo_history_of [10, 12, 10]) ''sha256:0'' = Inr ()"
    "evaluation_guard (\<lambda>_. []) offset_formula (demo_history_of [12, 12, 10]) ''sha256:0'' = Inr ()"
    using offset_analyzed by (simp_all add: evaluation_guard_def max_output_cells_def demo_history_of_def)
qed

lemma offset_ref:
  "execute_kernel ''series.ref'' [NumberSeries [Some a, Some b, Some c], Scalar (IntegerScalar 1)] 3 =
     Inr \<lparr>kr_value = NumberSeries [None, Some a, Some b], kr_issues = []\<rparr>"
  by (simp add: execute_kernel_def preflight_def offset_function demo_specs check_argument_def accepts_value_kind_def check_scalar_def
     then_res_def max_bar_series_rows_def max_lookback_def kernel_table ref_def argument_def window_of_def postflight_def)

lemma offset_close: "context_field (demo_history_of closes) ''C'' = Inr (NumberSeries (map Some closes))"
  by (simp add: context_field_def demo_history_of_def demo_closes_def registry_fields_def make_field_def upper_ascii_def)

lemma offset_evaluates:
  "evaluate_statements (demo_history_of [a, b, c]) (cf_statements offset_formula) =
     Inr \<lparr>ev_declared = [''N1'' \<mapsto> Scalar (IntegerScalar 1), ''BUY'' \<mapsto> BooleanSeries [None, Some (b > a), Some (c > b)],
            ''SELL'' \<mapsto> BooleanSeries [None, Some (b < a), Some (c < b)]],
          ev_numeric = [], ev_signals = [''BUY'' \<mapsto> [None, Some (b > a), Some (c > b)], ''SELL'' \<mapsto> [None, Some (b < a), Some (c < b)]],
          ev_issues = []\<rparr>"
proof -
  have rows: "ec_rows (demo_history_of [a, b, c]) = 3" by (simp add: demo_history_of_def)
  show ?thesis
    by (simp add: evaluate_statements_def evaluation_start_def offset_formula_def evaluate_statement_def demo_at_def offset_call_def rows
       offset_close offset_ref evaluate_output_def binary_kernel_def comparison_operators_def compare_def comparison_def both_def located_def)
qed

text \<open>
  C40. An offset the analysis cannot see escapes the lookback. The formula above, whose \<open>REF\<close> takes its offset from a
  hidden declaration, compiles and the preflight reports a lookback of 0 bars, but its \<open>BUY\<close> in a row depends on
  the row before: two histories with the same row, and another close the day before, give different signals.
\<close>

theorem declared_offset_escapes_lookback:
  "compile_program v1_registry [] offset_program (Inr ''sha256:0'') = Inr offset_formula
   \<and> backtest_lookback offset_formula = Inr (Some 0)
   \<and> same_window 0 1 1 (demo_history_of [10, 12, 10]) (demo_history_of [12, 12, 10])
   \<and> (\<exists>r r'. evaluate_compiled (\<lambda>_. []) offset_formula (demo_history_of [10, 12, 10]) ''sha256:0'' = Inr r
        \<and> evaluate_compiled (\<lambda>_. []) offset_formula (demo_history_of [12, 12, 10]) ''sha256:0'' = Inr r'
        \<and> \<not> same_signals 1 1 r r')"
proof (intro conjI)
  show "compile_program v1_registry [] offset_program (Inr ''sha256:0'') = Inr offset_formula" by (rule offset_compiles)
  show "backtest_lookback offset_formula = Inr (Some 0)" by (rule offset_lookback)
  show "same_window 0 1 1 (demo_history_of [10, 12, 10]) (demo_history_of [12, 12, 10])"
    by (simp add: same_window_def demo_history_of_def field_names_list demo_closes_def registry_fields_def make_field_def)
  have rows: "ec_rows (demo_history_of [10, 12, 10]) = 3" "ec_rows (demo_history_of [12, 12, 10]) = 3" by (simp_all add: demo_history_of_def)
  show "\<exists>r r'. evaluate_compiled (\<lambda>_. []) offset_formula (demo_history_of [10, 12, 10]) ''sha256:0'' = Inr r
        \<and> evaluate_compiled (\<lambda>_. []) offset_formula (demo_history_of [12, 12, 10]) ''sha256:0'' = Inr r'
        \<and> \<not> same_signals 1 1 r r'"
    by (simp add: evaluate_compiled_def offset_guard offset_evaluates then_res_def evaluation_result_def same_signals_def signal_output_def rows)
qed

end
