(* ===== verification/Spec2Isabelle.thy ===== *)
theory Spec2Isabelle
  imports Execution_Status Execution Grouping Task_Queue Formula_Lookback
begin

text \<open>
  A verification library for stock-desk (\<open>src/stock_desk\<close>): a desktop application that backtests
  trading formulas on Chinese stocks. The library models the part of the program that decides what is
  true of a backtest and of the work queue that runs it, and proves what that part promises.

  \<^bold>\<open>The program and the theories.\<close> A backtest of one symbol goes through four modules of
  \<open>backtest/\<close>. \<open>execution.py\<close> walks along the signals of a formula and the openings of the
  market; it drives the order state machine of \<open>state_machine.py\<close>, which logs the order events
  of \<open>events.py\<close>; an order that is due fills only when \<open>constraints.py\<close> permits it, on the
  evidence that \<open>market/execution_status.py\<close> joins from the trading calendar, the status
  history and the raw opens. \<open>trades.py\<close> prices each pair of fills with \<open>costs.py\<close> and
  admits a trade only if its numbers and its event log agree; \<open>metrics.py\<close> and \<open>grouping.py\<close> summarise
  the trades. Backtests and analyses run as tasks of the
  durable queue of \<open>tasks/repository.py\<close>, which workers claim under leases. The signals come from the formula
  language of \<open>formula/\<close>: \<open>compiler.py\<close> types a parsed formula against the registry of \<open>functions/\<close>,
  \<open>analysis.py\<close> and \<open>validator.py\<close> bound what it reads and costs, \<open>evaluator.py\<close> runs it over a
  \<open>context.py\<close>, calling the kernels of \<open>runtime/\<close> through \<open>runtime/dispatch.py\<close>.

    \<^item> \<open>Prelude\<close>: exceptions as values, sequencing, runs of fallible machines (locales
      \<open>fallible_machine\<close> and \<open>total_machine\<close>, interpreted for the order machine, the
      engine, the trade replay and the task queue), lists and strings.
    \<^item> \<open>Py_Decimal\<close>: Python's decimal arithmetic, digit by digit (precision, both rounding modes,
      exponent limits, signed zeros), and when its results are exact. \<open>Py_Time\<close>: aware timestamps and
      local dates; the zone is a parameter, and the laws of dates hold for every zone whose local
      clock never runs back (locale \<open>local_clock\<close>, interpreted for China Standard Time).
    \<^item> \<open>Order_Events\<close>, \<open>Order_Machine\<close>: the events with the checks of their constructors; the
      machine with its state, position, pending order, clock and log. The abstract specification is
      \<open>protocol\<close>, a partial function on the pending order and the position; every log the machine
      writes is a legal run of it (C1, C2). A signal bar and the end of the range are pinned
      in every field of the machine they leave (C3, C4).
    \<^item> \<open>Execution_Status\<close>: the snapshot of evidence per day and opening, its validators, its dataset
      version and its materialisation (C5, C6).
    \<^item> \<open>Execution\<close>: \<open>assess_execution\<close>, fill candidates, the request, the timeline and the
      engine: the walk never raises (C7), its trades are the fills of its log (C8), every fill is
      permitted and sells are at least one local day after their buy (C9), fills come after signals
      (C10). \<open>waits_ok\<close>, kept along the timeline, says what a waiting order meets: an opposite signal
      stamped before an opening cancels it, a buy takes the first opening that is not blocked, and the
      fallback of \<open>_eligible_at\<close> fills a daily order on its signal's own day (C11).
    \<^item> \<open>Costs\<close>: cost model, order cost and its checks. \<open>cost_contract\<close> is the specification in
      rational arithmetic and \<open>price_order\<close> refines it over the supported range (C12 to C14).
    \<^item> \<open>Trades\<close>: the trade sample, \<open>close_trade\<close> and \<open>mark_open_trade\<close>, the checks, the replay
      of a log, win rate and payoff. Closing a trade is total and exact on every log that the order
      protocol allows (C15); whatever is constructed has a sound life (C16); win rates are in range (C17).
    \<^item> \<open>Metrics\<close>, \<open>Grouping\<close>: the summary of the samples with its histogram, and its groups. The bins are
      what they disclose (C29), the audits that the constructors repeat from the raw values never reject a
      computed summary (C30), and the groups partition the samples (C31).
    \<^item> \<open>Task_Json\<close>: the JSON that tasks store: what is accepted and its round trip (C18, C19).
    \<^item> \<open>Task_Store\<close>: the tables and every operation on them. \<open>Task_Queue\<close>: the legal moves of a
      task (\<open>task_move\<close>) as the abstract specification that every operation refines, the invariant
      of the store (C20), the life of a task (C21), fencing and exclusiveness of leases (C22, C23), what a
      claim takes (C24), cancellation and recovery (C25 to C28).
    \<^item> \<open>Float64\<close>: binary64 values as rationals with the rounding of each operation.
      \<open>Formula_Kernels\<close>: the values and kernels of \<open>formula/runtime\<close>. Each optimised loop equals a reference
      definition of its window: exact running sums, with the roundings the code makes (C32), the monotonic queue of \<open>HHV\<close> and \<open>LLV\<close> (C33, proved
      once in the locale \<open>extreme_order\<close> and interpreted for both orders), prefix sums (C34), stateful
      signals (C35).
    \<^item> \<open>Formula_Registry\<close>: specifications, the syntax tree, validation of programs, the registry tdx-v1 and
      the dispatcher. \<open>Formula_Compiler\<close>, \<open>Formula_Analysis\<close>, \<open>Formula_Evaluator\<close>: the modules of these names, and
      the lookback that \<open>service.py\<close> derives for a backtest.
    \<^item> \<open>Formula_Cells\<close>: every call that passes the preflight returns, cell by cell as \<open>kernel_cell\<close> says.
      \<open>Formula_Typing\<close>: compiled expressions are well typed, and evaluation keeps their kinds.
      \<open>Formula_Soundness\<close>: what was compiled evaluates to what was announced unless a kernel refuses the value
      of a scalar (C36), and always when the windows are known (C37).
    \<^item> \<open>Formula_Locality\<close>: two evaluations agree in the rows that see the same data, so no output looks ahead
      (C38). \<open>Formula_Lookback\<close>: the dependencies of the analysis cover what is seen, so the lookback of a backtest
      is enough for tracked formulas (C39); a declared \<open>REF\<close> offset escapes it (C40).

  \<^bold>\<open>Conventions.\<close> A function that may raise returns a sum; \<open>Inl\<close> is the exception with its
  message. A mutating method returns the new state. Checks of Python types that the HOL type enforces
  have no branch. A \<open>datetime\<close> is its instant in microseconds, without the limits of the
  Python type (so an addition near the year 9999 does not overflow), a Decimal its sign, coefficient and
  exponent, a float the rational it denotes (in the formula kernels a binary64 value, \<open>None\<close> where the code
  has a null; a literal is the rational of its decimal text). Loops are recursion on lists; nothing needs fuel.

  \<^bold>\<open>Bounds.\<close> \<open>price_order\<close> is shown exact for rates up to 10000 basis points, reference prices
  below 10 to the 12 and lots up to 10 to the 8, \<open>close_trade\<close> also for a minimum commission below
  10 to the 12: then every amount is a multiple of a fen below 10 to the 26, which the 28 digits of the
  default context hold exactly. Beyond that the code may round, and the theorems do not speak.

  \<^bold>\<open>Parameters.\<close> Functions outside the repository or outside this library are arguments: SHA-256
  and the zone of \<open>execution_status.py\<close>, the redaction of active secrets in the task store
  (\<open>harmless\<close> says that it leaves the details of the queue's own events JSON objects), the readings of
  the process clock and the random claim tokens; of the formula language the parser (its result is an argument;
  \<open>parsed_operators\<close> says that it has only operators of the grammar), the checksum and the text of a number in
  the estimate of a response.

  \<^bold>\<open>Not modelled.\<close> Of the queue: the locks of the claim gate (a call is one atomic step), engine
  and connection handling, the aggregate duration query. Of the formula language: the grammar (a
  third-party parser), the published signal series, stored formulas and the preview workers, the recursion limit of
  the interpreter. Of the repository: the pool runner (apart from its warm-up rule), persistence and export of
  backtests, market data (\<open>market/\<close>, apart from the execution status), the analysis pipeline
  (\<open>analysis/\<close>), storage and backup, the HTTP interface, the desktop shell, the user interface and the build and
  release scripts. They are input and output around third-party libraries, or parts that later theories can
  add on top of these.
\<close>

end
